(* ===== verification/Prelude.thy ===== *)
theory Prelude
  imports Main "HOL-Library.Word"
begin

unbundle bit_operations_syntax

text \<open>
  Shared material of the development: the theorem collections the component theories
  fill, the error values every fallible operation of the Rust code returns, and generic
  facts on relations, lists and bit operations that several components need.

  \<^item> \<open>mpc_rules\<close> collects the weakest-precondition style rules of the three-party
    protocol logic (theory \<open>Protocol_Logic\<close>), one per protocol building block.
\<close>

named_theorems mpc_rules

subsection \<open>Errors\<close>

text \<open>
  The operations return \<open>std::io::Result\<close> (or \<open>eyre::Result\<close>): \<open>InvalidData\<close> is
  \<open>io::ErrorKind::InvalidData\<close>, \<open>InvalidInput\<close> and \<open>UnexpectedEof\<close> its siblings, \<open>OtherError\<close> an
  \<open>eyre::bail!\<close> and \<open>Panic\<close> a failed \<open>assert!\<close>, \<open>expect\<close> or \<open>unwrap\<close>.
\<close>

datatype io_error = InvalidData | InvalidInput | UnexpectedEof | OtherError | Panic

subsection \<open>Fallible computations\<close>

text \<open>Sequencing of fallible operations (the operator \<open>?\<close>, and unwinding on a panic).\<close>

definition rbind :: "io_error + 'a \<Rightarrow> ('a \<Rightarrow> io_error + 'b) \<Rightarrow> io_error + 'b" where
  "rbind x k = (case x of Inl e \<Rightarrow> Inl e | Inr y \<Rightarrow> k y)"

lemma rbind_simps [simp]: "rbind (Inl e) k = Inl e" "rbind (Inr y) k = k y"
  by (simp_all add: rbind_def)

text \<open>A loop over a vector whose body may panic.\<close>

primrec rmap :: "('a \<Rightarrow> io_error + 'b) \<Rightarrow> 'a list \<Rightarrow> io_error + 'b list" where
  "rmap f [] = Inr []"
| "rmap f (x # xs) = rbind (f x) (\<lambda>y. rbind (rmap f xs) (\<lambda>ys. Inr (y # ys)))"

lemma rmap_Inr: "(\<And>x. x \<in> set xs \<Longrightarrow> f x = Inr (g x)) \<Longrightarrow> rmap f xs = Inr (map g xs)"
  by (induction xs) auto

lemma rmap_Panic: "x \<in> set xs \<Longrightarrow> f x = Inl Panic \<Longrightarrow> (\<And>x e. f x = Inl e \<Longrightarrow> e = Panic) \<Longrightarrow> rmap f xs = Inl Panic"
  by (induction xs) (auto simp: rbind_def split: sum.splits)

text \<open>A loop whose body may fail.\<close>

primrec rfold :: "('a \<Rightarrow> 's \<Rightarrow> io_error + 's) \<Rightarrow> 'a list \<Rightarrow> 's \<Rightarrow> io_error + 's" where
  "rfold f [] s = Inr s"
| "rfold f (x # xs) s = rbind (f x s) (rfold f xs)"

lemma rfold_snoc: "rfold f (xs @ [x]) s = rbind (rfold f xs s) (f x)"
  by (induction xs arbitrary: s) (simp_all add: rbind_def split: sum.splits)

subsection \<open>Relation powers and the diamond property\<close>

text \<open>
  A relation in which two different steps from one state can always be joined by one
  further step each: every complete run from a state has the same length and the same
  end, and no run can leave it.
\<close>

locale diamond =
  fixes r :: "'c \<Rightarrow> 'c \<Rightarrow> bool"
  assumes dia: "r c d \<Longrightarrow> r c e \<Longrightarrow> d = e \<or> (\<exists>f. r d f \<and> r e f)"
begin

lemma complete_run:
  assumes run: "(r ^^ n) c f" and stop: "\<And>x. \<not> r f x"
  shows "(r ^^ k) c d \<Longrightarrow> k \<le> n \<and> (r ^^ (n - k)) d f"
  using run
proof (induction n arbitrary: c d k)
  case 0
  then have "c = f" by simp
  with 0(1) stop show ?case
    by (cases k) (auto simp del: relpowp.simps(2) elim: relpowp_Suc_E2)
next
  case (Suc n)
  from Suc.prems(2) obtain c1 where c1: "r c c1" "(r ^^ n) c1 f"
    by (meson relpowp_Suc_D2)
  show ?case
  proof (cases k)
    case 0
    with Suc.prems show ?thesis by simp
  next
    case (Suc k')
    with Suc.prems(1) obtain d1 where d1: "r c d1" "(r ^^ k') d1 d"
      by (meson relpowp_Suc_D2)
    have d1f: "(r ^^ n) d1 f"
    proof (cases "d1 = c1")
      case True
      with c1 show ?thesis by simp
    next
      case False
      with dia[OF c1(1) d1(1)] obtain e where e: "r c1 e" "r d1 e" by auto
      from e(1) have "(r ^^ 1) c1 e" by auto
      from Suc.IH[OF this c1(2)] have n: "1 \<le> n" and ef: "(r ^^ (n - 1)) e f"
        by auto
      from e(2) ef have "(r ^^ Suc (n - 1)) d1 f"
        by (rule relpowp_Suc_I2)
      with n show ?thesis by simp
    qed
    from Suc.IH[OF d1(2) d1f] Suc show ?thesis by simp
  qed
qed

end

subsection \<open>Bit operations\<close>

text \<open>Conjunction distributes over exclusive or, on every type of bit strings.\<close>

lemma and_xor_distrib:
  "x AND (y XOR z) = (x AND y) XOR (x AND (z :: 'a::semiring_bit_operations))"
  by (rule bit_eqI) (auto simp: bit_simps)

lemma xor_zero [simp]:
  "(x :: 'a::semiring_bit_operations) XOR 0 = x" "0 XOR x = x"
  by (simp_all add: bit_eq_iff bit_simps)

lemma xor_same [simp]: "(x :: 'a::semiring_bit_operations) XOR x = 0"
  by (simp add: bit_eq_iff bit_simps)

lemma xor_cancel [simp]:
  "(x :: 'a::semiring_bit_operations) XOR (x XOR y) = y"
  by (auto simp: bit_eq_iff bit_simps)

subsection \<open>Updating a vector along another\<close>

text \<open>\<open>for (x, y) in izip!(xs.iter_mut(), ys) { *x = f(x, y) }\<close>: elements beyond the shorter
  vector stay.\<close>

definition zip_update :: "('a \<Rightarrow> 'b \<Rightarrow> 'a) \<Rightarrow> 'a list \<Rightarrow> 'b list \<Rightarrow> 'a list" where
  "zip_update f xs ys = map2 f xs ys @ drop (length ys) xs"

lemma zip_update_eq_len [simp]: "length xs = length ys \<Longrightarrow> zip_update f xs ys = map2 f xs ys"
  by (simp add: zip_update_def)

lemma map2_fst: "length ys = length xs \<Longrightarrow> map2 (\<lambda>x y. x) xs ys = xs"
  by (induction ys xs rule: list_induct2) auto

lemma map2_snd: "length xs = length ys \<Longrightarrow> map2 (\<lambda>x y. y) xs ys = ys"
  by (induction xs ys rule: list_induct2) auto

subsection \<open>Number of binary digits\<close>

fun bit_count :: "nat \<Rightarrow> nat" where
  "bit_count n = (if n = 0 then 0 else Suc (bit_count (n div 2)))"

declare bit_count.simps [simp del]

lemma less_2_bit_count: "n < 2 ^ bit_count n"
  by (induction n rule: bit_count.induct) (subst bit_count.simps, auto)

lemma bit_count_le: "0 < n \<Longrightarrow> 2 ^ (bit_count n - 1) \<le> n"
proof (induction n rule: bit_count.induct)
  case (1 n)
  show ?case
  proof (cases "n div 2 = 0")
    case True
    with 1(2) show ?thesis by (subst bit_count.simps) (simp add: bit_count.simps[of 0])
  next
    case False
    with 1 have "2 ^ (bit_count (n div 2) - 1) \<le> n div 2" by simp
    moreover from False have "0 < bit_count (n div 2)" by (subst bit_count.simps) simp
    ultimately have "2 ^ bit_count (n div 2) \<le> n"
      by (cases "bit_count (n div 2)") auto
    with 1(2) show ?thesis by (subst bit_count.simps) simp
  qed
qed

end
