(* ===== verification/Traits.thy ===== *)
theory Traits
  imports Prelude
begin

text \<open>
  The interfaces the MPC core is generic over, as dictionaries: the serialiser of
  \<open>ark-serialize\<close> (\<open>codec\<close>), the random generator \<open>RngType\<close> of \<open>rand_chacha\<close>
  (\<open>rng_ops\<close>) and the field trait \<open>PrimeField\<close> (\<open>field_ops\<close>).  Their code is outside
  the repository; the operations are parameters of the model and the documented laws the
  protocols rely on are the predicates \<open>lawful_codec\<close>, \<open>lawful_rng\<close> and
  \<open>lawful_field\<close>.  The arithmetic of the field itself is that of a commutative ring
  with one.
\<close>

subsection \<open>Serialisation\<close>

text \<open>
  \<open>ser\<close> is \<open>serialize_uncompressed\<close> of a slice, \<open>deser\<close> is
  \<open>Vec::deserialize_uncompressed_unchecked\<close>; both may fail.
\<close>

record ('a, 'w) codec =
  ser :: "'a list \<Rightarrow> 'w option"
  deser :: "'w \<Rightarrow> 'a list option"

definition lawful_codec :: "('a, 'w) codec \<Rightarrow> bool" where
  "lawful_codec c \<longleftrightarrow> (\<forall>xs. \<exists>w. ser c xs = Some w \<and> deser c w = Some xs)"

definition id_codec :: "('a, 'a list) codec" where
  "id_codec = \<lparr>ser = Some, deser = Some\<rparr>"

lemma lawful_id_codec [simp]: "lawful_codec id_codec"
  by (simp add: lawful_codec_def id_codec_def)

subsection \<open>Random generators\<close>

record ('s, 'r) rng_ops =
  from_seed :: "'s \<Rightarrow> 'r"
  gen_seed :: "'r \<Rightarrow> 's \<times> 'r"
  gen_u32 :: "'r \<Rightarrow> 32 word \<times> 'r"
  fill_bytes :: "nat \<Rightarrow> 'r \<Rightarrow> 8 word list \<times> 'r"

definition lawful_rng :: "('s, 'r) rng_ops \<Rightarrow> bool" where
  "lawful_rng R \<longleftrightarrow> (\<forall>n r. length (fst (fill_bytes R n r)) = n)"

text \<open>A sequence of \<open>n\<close> draws from one generator.\<close>

primrec draw_n :: "nat \<Rightarrow> ('r \<Rightarrow> 'a \<times> 'r) \<Rightarrow> 'r \<Rightarrow> 'a list \<times> 'r" where
  "draw_n 0 g r = ([], r)"
| "draw_n (Suc n) g r = (let (x, r) = g r; (xs, r) = draw_n n g r in (x # xs, r))"

lemma length_draw_n [simp]: "length (fst (draw_n n g r)) = n"
  by (induction n arbitrary: r) (simp_all add: split_beta Let_def)

subsection \<open>The field\<close>

record ('f, 'r) field_ops =
  f_rand :: "'r \<Rightarrow> 'f \<times> 'r"
  from_be_bytes_mod_order :: "8 word list \<Rightarrow> 'f"
  modulus :: nat
  modulus_bit_size :: nat
  into_biguint :: "'f \<Rightarrow> nat"
  from_biguint :: "nat \<Rightarrow> 'f"
  f_inverse :: "'f \<Rightarrow> 'f option"
  f_sqrt :: "'f \<Rightarrow> 'f option"
  two_inv :: 'f

text \<open>
  What is relied on: \<open>into_biguint\<close> is the canonical representative below the modulus,
  \<open>from_biguint\<close> is the reduction of a number modulo the (odd) modulus, the bit size bounds
  the modulus, and \<open>inverse\<close> and \<open>sqrt\<close> are what they say.
\<close>

definition lawful_field :: "('f::comm_ring_1, 'r) field_ops \<Rightarrow> bool" where
  "lawful_field F \<longleftrightarrow>
     2 < modulus F \<and> odd (modulus F) \<and> modulus F \<le> 2 ^ modulus_bit_size F \<and>
     (\<forall>x. into_biguint F x < modulus F) \<and>
     (\<forall>x. of_nat (into_biguint F x) = x) \<and>
     (\<forall>n. from_biguint F n = of_nat n) \<and>
     (\<forall>n. into_biguint F (of_nat n) = n mod modulus F) \<and>
     two_inv F * 2 = 1 \<and>
     (\<forall>x. f_inverse F x = None \<longleftrightarrow> x = 0) \<and>
     (\<forall>x y. f_inverse F x = Some y \<longrightarrow> x * y = 1) \<and>
     (\<forall>x y. f_sqrt F x = Some y \<longrightarrow> y * y = x)"

lemma lawful_fieldD:
  assumes "lawful_field F"
  shows "2 < modulus F" "odd (modulus F)" "modulus F \<le> 2 ^ modulus_bit_size F"
    "into_biguint F x < modulus F" "of_nat (into_biguint F x) = x"
    "from_biguint F n = of_nat n" "into_biguint F (of_nat n) = n mod modulus F"
    "two_inv F * 2 = 1" "f_inverse F x = None \<longleftrightarrow> x = 0"
    "f_inverse F x = Some y \<Longrightarrow> x * y = 1" "f_sqrt F x = Some y \<Longrightarrow> y * y = x"
  using assms unfolding lawful_field_def by auto

lemma into_biguint_bits: "lawful_field F \<Longrightarrow> into_biguint F x < 2 ^ modulus_bit_size F"
  using lawful_fieldD(3,4) order_less_le_trans by blast

subsection \<open>The parameters of a protocol over the field\<close>

text \<open>
  One record for what the type parameters \<open>F: PrimeField\<close> and \<open>N: Rep3Network\<close> supply: the
  field, the generator, and the serialisers of the message types: field elements, \<open>BigUint\<close>,
  \<open>Vec<BigUint>\<close>, \<open>[BigUint; 2]\<close> and \<open>[Vec<BigUint>; 2]\<close>.
\<close>

record ('f, 'r, 's, 'w) env =
  fld :: "('f, 'r) field_ops"
  rngop :: "('s, 'r) rng_ops"
  fcodec :: "('f, 'w) codec"
  bcodec :: "(nat, 'w) codec"
  bvcodec :: "(nat list, 'w) codec"
  b2codec :: "(nat \<times> nat, 'w) codec"
  bv2codec :: "(nat list \<times> nat list, 'w) codec"

definition lawful_net :: "('f, 'r, 's, 'w) env \<Rightarrow> bool" where
  "lawful_net E \<longleftrightarrow> lawful_codec (fcodec E) \<and> lawful_codec (bcodec E) \<and> lawful_codec (bvcodec E) \<and>
     lawful_codec (b2codec E) \<and> lawful_codec (bv2codec E)"

lemma lawful_netD [simp]:
  "lawful_net E \<Longrightarrow> lawful_codec (fcodec E)" "lawful_net E \<Longrightarrow> lawful_codec (bcodec E)"
  "lawful_net E \<Longrightarrow> lawful_codec (bvcodec E)" "lawful_net E \<Longrightarrow> lawful_codec (b2codec E)"
  "lawful_net E \<Longrightarrow> lawful_codec (bv2codec E)"
  by (simp_all add: lawful_net_def)

end
