(* ===== verification/Party.thy ===== *)
theory Party
  imports Prelude
begin

text \<open>
  The three parties of the replicated secret sharing scheme, \<open>mpc-net/src/id.rs\<close>:
  the enum \<open>PartyID\<close>, the successor and predecessor on the ring of parties, and the
  conversions from and to \<open>usize\<close>.
\<close>

datatype PartyID = ID0 | ID1 | ID2

fun next_id :: "PartyID \<Rightarrow> PartyID" where
  "next_id ID0 = ID1"
| "next_id ID1 = ID2"
| "next_id ID2 = ID0"

fun prev_id :: "PartyID \<Rightarrow> PartyID" where
  "prev_id ID0 = ID2"
| "prev_id ID1 = ID0"
| "prev_id ID2 = ID1"

text \<open>\<open>TryFrom<usize>\<close> and \<open>From<PartyID> for usize\<close>; an id above 2 is an error.\<close>

definition party_try_from :: "nat \<Rightarrow> nat + PartyID" where
  "party_try_from i =
     (if i = 0 then Inr ID0 else if i = 1 then Inr ID1 else if i = 2 then Inr ID2 else Inl i)"

fun party_index :: "PartyID \<Rightarrow> nat" where
  "party_index ID0 = 0"
| "party_index ID1 = 1"
| "party_index ID2 = 2"

lemma prev_next [simp]: "prev_id (next_id i) = i"
  and next_prev [simp]: "next_id (prev_id i) = i"
  and prev_prev [simp]: "prev_id (prev_id i) = next_id i"
  and next_next [simp]: "next_id (next_id i) = prev_id i"
  by (cases i; simp)+

lemma prev_id_neq [simp]: "prev_id i \<noteq> i" "next_id i \<noteq> i" "prev_id i \<noteq> next_id i"
  by (cases i; simp)+

lemma prev_id_inj [simp]: "prev_id i = prev_id j \<longleftrightarrow> i = j"
  and next_id_inj [simp]: "next_id i = next_id j \<longleftrightarrow> i = j"
  by (cases i; cases j; simp)+

lemma all_party: "(\<forall>i. P i) \<longleftrightarrow> P ID0 \<and> P ID1 \<and> P ID2"
  using PartyID.exhaust by metis

lemma party_fun_eqI: "f ID0 = g ID0 \<Longrightarrow> f ID1 = g ID1 \<Longrightarrow> f ID2 = g ID2 \<Longrightarrow> f = g"
  by (rule ext) (metis PartyID.exhaust)

lemma party_index_bound: "party_index i < 3"
  by (cases i) auto

lemma party_index_next: "party_index (next_id i) = (party_index i + 1) mod 3"
  and party_index_prev: "party_index (prev_id i) = (party_index i + 2) mod 3"
  by (cases i; simp)+

lemma party_roundtrip: "party_try_from (party_index i) = Inr i"
  by (cases i) (auto simp: party_try_from_def)

end
