(* ===== verification/Rngs.thy ===== *)
theory Rngs
  imports Traits Party
begin

text \<open>
  The correlated random generators of \<open>rep3/rngs.rs\<close>.  A party holds a pair of
  generators in \<open>Rep3Rand\<close>, its own and the previous party's, and two \<open>Rep3RandBitComp\<close>
  with two or three generators each.  Every operation takes the draw of the type it samples
  (\<open>F::rand\<close>, \<open>rng.gen()\<close>) as an argument and returns the value with the advanced state.
\<close>

record 'r Rep3Rand =
  rand_rng1 :: 'r
  rand_rng2 :: 'r

record 'r Rep3RandBitComp =
  bc_rng1 :: 'r
  bc_rng2 :: 'r
  bc_rng3 :: "'r option"

record 'r Rep3CorrelatedRng =
  rand :: "'r Rep3Rand"
  bitcomp1 :: "'r Rep3RandBitComp"
  bitcomp2 :: "'r Rep3RandBitComp"

subsection \<open>Rep3Rand\<close>

definition rep3_rand_new :: "('s, 'r) rng_ops \<Rightarrow> 's \<Rightarrow> 's \<Rightarrow> 'r Rep3Rand" where
  "rep3_rand_new R seed1 seed2 = \<lparr>rand_rng1 = from_seed R seed1, rand_rng2 = from_seed R seed2\<rparr>"

definition random_elements :: "('r \<Rightarrow> 'a \<times> 'r) \<Rightarrow> 'r Rep3Rand \<Rightarrow> ('a \<times> 'a) \<times> 'r Rep3Rand" where
  "random_elements g s =
     (let (a, r1) = g (rand_rng1 s); (b, r2) = g (rand_rng2 s)
      in ((a, b), \<lparr>rand_rng1 = r1, rand_rng2 = r2\<rparr>))"

definition masking_element ::
  "('r \<Rightarrow> 'a::minus \<times> 'r) \<Rightarrow> 'r Rep3Rand \<Rightarrow> 'a \<times> 'r Rep3Rand" where
  "masking_element g s = (let ((a, b), s) = random_elements g s in (a - b, s))"

definition random_fes :: "('f, 'r) field_ops \<Rightarrow> 'r Rep3Rand \<Rightarrow> ('f \<times> 'f) \<times> 'r Rep3Rand" where
  "random_fes F s =
     (let (a, r1) = f_rand F (rand_rng1 s); (b, r2) = f_rand F (rand_rng2 s)
      in ((a, b), \<lparr>rand_rng1 = r1, rand_rng2 = r2\<rparr>))"

definition masking_field_element ::
  "('f::minus, 'r) field_ops \<Rightarrow> 'r Rep3Rand \<Rightarrow> 'f \<times> 'r Rep3Rand" where
  "masking_field_element F s = (let ((a, b), s) = random_fes F s in (a - b, s))"

text \<open>Consecutive chunks of a list, as \<open>par_chunks\<close> yields them (the last may be short).\<close>

function chunks :: "nat \<Rightarrow> 'a list \<Rightarrow> 'a list list" where
  "chunks n xs = (if n = 0 \<or> xs = [] then [] else take n xs # chunks n (drop n xs))"
  by auto
termination by (relation "measure (length \<circ> snd)") auto

declare chunks.simps [simp del]

definition masking_field_elements_vec ::
  "('s, 'r) rng_ops \<Rightarrow> ('f::minus, 'r) field_ops \<Rightarrow> nat \<Rightarrow> 'r Rep3Rand \<Rightarrow> 'f list \<times> 'r Rep3Rand" where
  "masking_field_elements_vec R F len s =
     (let field_size = (modulus_bit_size F + 7) div 8;
          (a, r1) = fill_bytes R (field_size * len) (rand_rng1 s);
          (b, r2) = fill_bytes R (field_size * len) (rand_rng2 s)
      in (map2 (\<lambda>a b. from_be_bytes_mod_order F a - from_be_bytes_mod_order F b)
            (chunks field_size a) (chunks field_size b),
          \<lparr>rand_rng1 = r1, rand_rng2 = r2\<rparr>))"

definition masking_elements_vec ::
  "('r \<Rightarrow> 'a::minus \<times> 'r) \<Rightarrow> nat \<Rightarrow> 'r Rep3Rand \<Rightarrow> 'a list \<times> 'r Rep3Rand" where
  "masking_elements_vec g len s =
     (let (a, r1) = draw_n len g (rand_rng1 s); (b, r2) = draw_n len g (rand_rng2 s)
      in (map2 (-) a b, \<lparr>rand_rng1 = r1, rand_rng2 = r2\<rparr>))"

text \<open>\<open>BigUint::new\<close> of little-endian 32-bit limbs, masked to \<open>bitlen\<close> bits.\<close>

definition biguint_new :: "32 word list \<Rightarrow> nat" where
  "biguint_new limbs = foldr (\<lambda>d n. unat d + 2 ^ 32 * n) limbs 0"

definition gen_biguint :: "('s, 'r) rng_ops \<Rightarrow> nat \<Rightarrow> 'r \<Rightarrow> nat \<times> 'r" where
  "gen_biguint R bitlen r =
     (let (limbs, r) = draw_n ((bitlen + 31) div 32) (gen_u32 R) r
      in (and (biguint_new limbs) (mask bitlen), r))"

definition random_biguint ::
  "('s, 'r) rng_ops \<Rightarrow> nat \<Rightarrow> 'r Rep3Rand \<Rightarrow> (nat \<times> nat) \<times> 'r Rep3Rand" where
  "random_biguint R bitlen s =
     (let (a, r1) = gen_biguint R bitlen (rand_rng1 s); (b, r2) = gen_biguint R bitlen (rand_rng2 s)
      in ((a, b), \<lparr>rand_rng1 = r1, rand_rng2 = r2\<rparr>))"

definition random_element_rng1 :: "('r \<Rightarrow> 'a \<times> 'r) \<Rightarrow> 'r Rep3Rand \<Rightarrow> 'a \<times> 'r Rep3Rand" where
  "random_element_rng1 g s = (let (a, r1) = g (rand_rng1 s) in (a, s\<lparr>rand_rng1 := r1\<rparr>))"

definition random_element_rng2 :: "('r \<Rightarrow> 'a \<times> 'r) \<Rightarrow> 'r Rep3Rand \<Rightarrow> 'a \<times> 'r Rep3Rand" where
  "random_element_rng2 g s = (let (b, r2) = g (rand_rng2 s) in (b, s\<lparr>rand_rng2 := r2\<rparr>))"

definition random_field_element_rng1 ::
  "('f, 'r) field_ops \<Rightarrow> 'r Rep3Rand \<Rightarrow> 'f \<times> 'r Rep3Rand" where
  "random_field_element_rng1 F = random_element_rng1 (f_rand F)"

definition random_field_element_rng2 ::
  "('f, 'r) field_ops \<Rightarrow> 'r Rep3Rand \<Rightarrow> 'f \<times> 'r Rep3Rand" where
  "random_field_element_rng2 F = random_element_rng2 (f_rand F)"

definition random_biguint_rng1 ::
  "('s, 'r) rng_ops \<Rightarrow> nat \<Rightarrow> 'r Rep3Rand \<Rightarrow> nat \<times> 'r Rep3Rand" where
  "random_biguint_rng1 R bitlen = random_element_rng1 (gen_biguint R bitlen)"

definition random_biguint_rng2 ::
  "('s, 'r) rng_ops \<Rightarrow> nat \<Rightarrow> 'r Rep3Rand \<Rightarrow> nat \<times> 'r Rep3Rand" where
  "random_biguint_rng2 R bitlen = random_element_rng2 (gen_biguint R bitlen)"

definition random_seeds :: "('s, 'r) rng_ops \<Rightarrow> 'r Rep3Rand \<Rightarrow> ('s \<times> 's) \<times> 'r Rep3Rand" where
  "random_seeds R s =
     (let (seed1, r1) = gen_seed R (rand_rng1 s); (seed2, r2) = gen_seed R (rand_rng2 s)
      in ((seed1, seed2), \<lparr>rand_rng1 = r1, rand_rng2 = r2\<rparr>))"

definition rep3_rand_fork :: "('s, 'r) rng_ops \<Rightarrow> 'r Rep3Rand \<Rightarrow> 'r Rep3Rand \<times> 'r Rep3Rand" where
  "rep3_rand_fork R s =
     (let ((seed1, seed2), s) = random_seeds R s in (rep3_rand_new R seed1 seed2, s))"

subsection \<open>Rep3RandBitComp\<close>

definition new_2keys :: "('s, 'r) rng_ops \<Rightarrow> 's \<Rightarrow> 's \<Rightarrow> 'r Rep3RandBitComp" where
  "new_2keys R k1 k2 =
     \<lparr>bc_rng1 = from_seed R k1, bc_rng2 = from_seed R k2, bc_rng3 = None\<rparr>"

definition new_3keys :: "('s, 'r) rng_ops \<Rightarrow> 's \<Rightarrow> 's \<Rightarrow> 's \<Rightarrow> 'r Rep3RandBitComp" where
  "new_3keys R k1 k2 k3 =
     \<lparr>bc_rng1 = from_seed R k1, bc_rng2 = from_seed R k2, bc_rng3 = Some (from_seed R k3)\<rparr>"

text \<open>Without a third key the draw hits \<open>unreachable!()\<close>.\<close>

definition random_elements_3keys ::
  "('r \<Rightarrow> 'a \<times> 'r) \<Rightarrow> 'r Rep3RandBitComp \<Rightarrow> (io_error + 'a \<times> 'a \<times> 'a) \<times> 'r Rep3RandBitComp" where
  "random_elements_3keys g s =
     (let (a, r1) = g (bc_rng1 s); (b, r2) = g (bc_rng2 s)
      in case bc_rng3 s of
           None \<Rightarrow> (Inl Panic, s\<lparr>bc_rng1 := r1, bc_rng2 := r2\<rparr>)
         | Some rng3 \<Rightarrow> (let (c, r3) = g rng3
             in (Inr (a, b, c), \<lparr>bc_rng1 = r1, bc_rng2 = r2, bc_rng3 = Some r3\<rparr>)))"

definition random_fes_3keys ::
  "('f, 'r) field_ops \<Rightarrow> 'r Rep3RandBitComp \<Rightarrow> (io_error + 'f \<times> 'f \<times> 'f) \<times> 'r Rep3RandBitComp" where
  "random_fes_3keys F = random_elements_3keys (f_rand F)"

definition fork_rng :: "('s, 'r) rng_ops \<Rightarrow> 'r \<Rightarrow> 'r \<times> 'r" where
  "fork_rng R r = (let (seed, r) = gen_seed R r in (from_seed R seed, r))"

definition bitcomp_fork ::
  "('s, 'r) rng_ops \<Rightarrow> 'r Rep3RandBitComp \<Rightarrow> 'r Rep3RandBitComp \<times> 'r Rep3RandBitComp" where
  "bitcomp_fork R s =
     (let (c1, r1) = fork_rng R (bc_rng1 s); (c2, r2) = fork_rng R (bc_rng2 s)
      in (\<lparr>bc_rng1 = c1, bc_rng2 = c2, bc_rng3 = map_option (\<lambda>r. fst (fork_rng R r)) (bc_rng3 s)\<rparr>,
          \<lparr>bc_rng1 = r1, bc_rng2 = r2, bc_rng3 = map_option (\<lambda>r. snd (fork_rng R r)) (bc_rng3 s)\<rparr>))"

subsection \<open>Rep3CorrelatedRng\<close>

definition correlated_fork ::
  "('s, 'r) rng_ops \<Rightarrow> 'r Rep3CorrelatedRng \<Rightarrow> 'r Rep3CorrelatedRng \<times> 'r Rep3CorrelatedRng" where
  "correlated_fork R s =
     (let (c0, s0) = rep3_rand_fork R (rand s);
          (c1, s1) = bitcomp_fork R (bitcomp1 s);
          (c2, s2) = bitcomp_fork R (bitcomp2 s)
      in (\<lparr>rand = c0, bitcomp1 = c1, bitcomp2 = c2\<rparr>, \<lparr>rand = s0, bitcomp1 = s1, bitcomp2 = s2\<rparr>))"

definition generate_shared ::
  "('r \<Rightarrow> 'a \<times> 'r) \<Rightarrow> PartyID \<Rightarrow> 'r Rep3CorrelatedRng \<Rightarrow> 'a \<times> 'r Rep3CorrelatedRng" where
  "generate_shared g i s =
     (let use_rng1 = (let (x, r) = g (bc_rng1 (bitcomp1 s))
                      in (x, s\<lparr>bitcomp1 := (bitcomp1 s)\<lparr>bc_rng1 := r\<rparr>\<rparr>));
          use_rng2 = (let (x, r) = g (bc_rng2 (bitcomp1 s))
                      in (x, s\<lparr>bitcomp1 := (bitcomp1 s)\<lparr>bc_rng2 := r\<rparr>\<rparr>))
      in case i of ID0 \<Rightarrow> use_rng2 | ID1 \<Rightarrow> use_rng2 | ID2 \<Rightarrow> use_rng1)"

definition generate_garbler_randomness ::
  "('r \<Rightarrow> 'a \<times> 'r) \<Rightarrow> PartyID \<Rightarrow> 'r Rep3CorrelatedRng \<Rightarrow> (io_error + 'a) \<times> 'r Rep3CorrelatedRng" where
  "generate_garbler_randomness g i s =
     (case i of
        ID0 \<Rightarrow> (Inl Panic, s)
      | ID1 \<Rightarrow> (let (x, t) = random_element_rng1 g (rand s) in (Inr x, s\<lparr>rand := t\<rparr>))
      | ID2 \<Rightarrow> (let (x, t) = random_element_rng2 g (rand s) in (Inr x, s\<lparr>rand := t\<rparr>)))"

end
