(* ===== verification/Session.thy ===== *)
theory Session
  imports Party
begin

text \<open>
  Message passing between the parties.  The protocols of \<open>mpc-core\<close> are written once
  and run by all three parties against the trait \<open>Rep3Network\<close>; a party's run is a
  sequence of sends and receives.  This theory gives

  \<^item> \<open>proto\<close>, the behaviour of one party: finished, about to send a value to a party,
    or about to receive one;
  \<^item> \<open>net_step\<close>, the interleaving semantics of three such behaviours over reliable
    FIFO channels, one per ordered pair of parties: any party that can act may act next;
  \<^item> the proof that the interleaving does not matter: the relation has the one-step
    diamond property, so all schedules agree (\<open>joint_deterministic\<close>);
  \<^item> \<open>joint\<close>, a complete session of the three parties, and its rule for sequencing.
\<close>

subsection \<open>The behaviour of one party\<close>

datatype ('w, 'a) proto =
    Done 'a
  | Send PartyID 'w "('w, 'a) proto"
  | Recv PartyID "'w \<Rightarrow> ('w, 'a) proto"

primrec pbind :: "('w, 'a) proto \<Rightarrow> ('a \<Rightarrow> ('w, 'b) proto) \<Rightarrow> ('w, 'b) proto" where
  "pbind (Done x) k = k x"
| "pbind (Send j m p) k = Send j m (pbind p k)"
| "pbind (Recv j f) k = Recv j (\<lambda>m. pbind (f m) k)"

lemma pbind_Done_right [simp]: "pbind p Done = p"
  by (induction p) auto

lemma pbind_assoc: "pbind (pbind p f) g = pbind p (\<lambda>x. pbind (f x) g)"
  by (induction p) auto

subsection \<open>Three parties and their channels\<close>

type_synonym ('w, 'a) config =
  "(PartyID \<Rightarrow> ('w, 'a) proto) \<times> (PartyID \<times> PartyID \<Rightarrow> 'w list)"

inductive net_step :: "('w, 'a) config \<Rightarrow> ('w, 'a) config \<Rightarrow> bool" where
  net_send: "P i = Send j m p \<Longrightarrow>
     net_step (P, ch) (P(i := p), ch((i, j) := ch (i, j) @ [m]))"
| net_recv: "P i = Recv j f \<Longrightarrow> ch (j, i) = m # ms \<Longrightarrow>
     net_step (P, ch) (P(i := f m), ch((j, i) := ms))"

inductive_cases net_stepE: "net_step (P, ch) d"

abbreviation net_steps :: "('w, 'a) config \<Rightarrow> ('w, 'a) config \<Rightarrow> bool" where
  "net_steps \<equiv> net_step\<^sup>*\<^sup>*"

abbreviation no_msgs :: "PartyID \<times> PartyID \<Rightarrow> 'w list" where
  "no_msgs \<equiv> \<lambda>_. []"

text \<open>The step a given party takes, as a function: the parties are deterministic.\<close>

definition party_step :: "PartyID \<Rightarrow> ('w, 'a) config \<Rightarrow> ('w, 'a) config option" where
  "party_step i c = (case fst c i of
      Done x \<Rightarrow> None
    | Send j m p \<Rightarrow> Some ((fst c)(i := p), (snd c)((i, j) := snd c (i, j) @ [m]))
    | Recv j f \<Rightarrow> (case snd c (j, i) of
          [] \<Rightarrow> None
        | m # ms \<Rightarrow> Some ((fst c)(i := f m), (snd c)((j, i) := ms))))"

lemma net_step_party: "net_step c d \<longleftrightarrow> (\<exists>i. party_step i c = Some d)"
proof
  show "net_step c d \<Longrightarrow> \<exists>i. party_step i c = Some d"
  proof (induction rule: net_step.induct)
    case (net_send P i j m p ch)
    then show ?case by (intro exI[of _ i]) (simp add: party_step_def)
  next
    case (net_recv P i j f ch m ms)
    then show ?case by (intro exI[of _ i]) (simp add: party_step_def)
  qed
next
  assume "\<exists>i. party_step i c = Some d"
  then obtain i where "party_step i c = Some d" by blast
  then show "net_step c d"
    by (cases c; cases "fst c i")
      (auto simp: party_step_def split: list.splits intro: net_step.intros)
qed

lemma party_step_stays:
  "i \<noteq> j \<Longrightarrow> party_step i c = Some d \<Longrightarrow> party_step j c \<noteq> None \<Longrightarrow> party_step j d \<noteq> None"
  by (cases c; cases "fst c i"; cases "fst c j")
    (auto simp: party_step_def split: list.splits if_splits)

lemma party_steps_commute:
  assumes "i \<noteq> j" "party_step i c = Some d" "party_step j c = Some e"
    "party_step j d = Some f" "party_step i e = Some g"
  shows "f = g"
  using assms
  by (cases c; cases "fst c i"; cases "fst c j")
    (auto simp: party_step_def split: list.splits if_splits intro!: fun_upd_twist)

lemma net_step_diamond:
  assumes "net_step c d" "net_step c e"
  shows "d = e \<or> (\<exists>f. net_step d f \<and> net_step e f)"
  using assms unfolding net_step_party
proof (elim exE)
  fix i j
  assume i: "party_step i c = Some d" and j: "party_step j c = Some e"
  show "d = e \<or> (\<exists>f. (\<exists>i. party_step i d = Some f) \<and> (\<exists>i. party_step i e = Some f))"
  proof (cases "i = j")
    case True
    with i j show ?thesis by simp
  next
    case False
    have "party_step j d \<noteq> None" using party_step_stays[OF False i] j by simp
    then obtain f where f: "party_step j d = Some f" by blast
    have "party_step i e \<noteq> None" using party_step_stays[OF False[symmetric] j] i by simp
    then obtain g where g: "party_step i e = Some g" by blast
    from party_steps_commute[OF False i j f g] f g show ?thesis by blast
  qed
qed

lemma final_no_step: "\<not> net_step (\<lambda>i. Done (V i), ch) d"
  by (auto elim: net_stepE)

interpretation net: diamond net_step
  by unfold_locales (rule net_step_diamond)

subsection \<open>Complete sessions\<close>

text \<open>
  \<open>joint P V\<close>: run from empty channels, the parties can all finish, party \<open>i\<close> with
  the result \<open>V i\<close>, and leave no message behind.
\<close>

definition joint :: "(PartyID \<Rightarrow> ('w, 'a) proto) \<Rightarrow> (PartyID \<Rightarrow> 'a) \<Rightarrow> bool" where
  "joint P V \<longleftrightarrow> net_steps (P, no_msgs) (\<lambda>i. Done (V i), no_msgs)"

lemma joint_deterministic:
  assumes "joint P V"
  shows "\<exists>n. \<forall>k d. (net_step ^^ k) (P, no_msgs) d \<longrightarrow>
     k \<le> n \<and> (net_step ^^ (n - k)) d (\<lambda>i. Done (V i), no_msgs)"
proof -
  from assms obtain n where "(net_step ^^ n) (P, no_msgs) (\<lambda>i. Done (V i), no_msgs)"
    by (auto simp: joint_def rtranclp_power)
  from net.complete_run[OF this final_no_step]
  show ?thesis by blast
qed

lemma joint_unique:
  fixes P :: "PartyID \<Rightarrow> ('w, 'a) proto"
  assumes V: "joint P V" and W: "joint P W"
  shows "V = W"
proof -
  let ?fin = "\<lambda>V. (\<lambda>i. Done (V i), no_msgs) :: ('w, 'a) config"
  from W obtain k where k: "(net_step ^^ k) (P, no_msgs) (?fin W)"
    by (auto simp: joint_def rtranclp_power)
  from joint_deterministic[OF V] obtain n where
    "\<And>k d. (net_step ^^ k) (P, no_msgs) d \<Longrightarrow> (net_step ^^ (n - k)) d (?fin V)"
    by auto
  from this[OF k] have "(\<lambda>i. Done (W i)) = (\<lambda>i. Done (V i) :: ('w, 'a) proto)"
    by (cases "n - k") (auto simp del: relpowp.simps(2) elim: relpowp_Suc_E2 simp: final_no_step)
  then show "V = W" by (auto simp: fun_eq_iff)
qed

lemma joint_Done: "joint (\<lambda>i. Done (V i)) V"
  by (simp add: joint_def)

definition bind_all :: "(PartyID \<Rightarrow> 'a \<Rightarrow> ('w, 'b) proto) \<Rightarrow> ('w, 'a) config \<Rightarrow> ('w, 'b) config"
  where "bind_all K c = (\<lambda>i. pbind (fst c i) (K i), snd c)"

lemma party_step_pbind:
  "party_step i c = Some d \<Longrightarrow> party_step i (bind_all K c) = Some (bind_all K d)"
  by (cases "fst c i") (auto simp: party_step_def bind_all_def split: list.splits)

lemma net_steps_pbind: "net_steps c d \<Longrightarrow> net_steps (bind_all K c) (bind_all K d)"
proof (induction rule: rtranclp_induct)
  case base
  then show ?case by simp
next
  case (step d e)
  then obtain i where "party_step i d = Some e" by (auto simp: net_step_party)
  from party_step_pbind[OF this, of K] have "net_step (bind_all K d) (bind_all K e)"
    by (auto simp: net_step_party)
  with step.IH show ?case by (rule rtranclp.rtrancl_into_rtrancl)
qed

lemma joint_pbind:
  assumes "joint P V" and "joint (\<lambda>i. K i (V i)) W"
  shows "joint (\<lambda>i. pbind (P i) (K i)) W"
proof -
  have "net_steps (bind_all K (P, no_msgs)) (bind_all K (\<lambda>i. Done (V i), no_msgs))"
    using assms(1) unfolding joint_def by (rule net_steps_pbind)
  also have "net_steps (bind_all K (\<lambda>i. Done (V i), no_msgs)) (\<lambda>i. Done (W i), no_msgs)"
    using assms(2) by (simp add: joint_def bind_all_def)
  finally show ?thesis by (simp add: joint_def bind_all_def)
qed

lemma joint_cong: "joint P V \<Longrightarrow> (\<And>i. P i = P' i) \<Longrightarrow> (\<And>i. V i = V' i) \<Longrightarrow> joint P' V'"
proof -
  assume a: "joint P V" "\<And>i. P i = P' i" "\<And>i. V i = V' i"
  then have "P = P'" "V = V'" by auto
  with a(1) show ?thesis by simp
qed

subsection \<open>An executable schedule\<close>

text \<open>
  A round-robin schedule with fuel: each round lets every party act once where it can.
  It evaluates closed sessions; whatever it returns is a complete session.
\<close>

definition try_step :: "PartyID \<Rightarrow> ('w, 'a) config \<Rightarrow> ('w, 'a) config" where
  "try_step i c = (case party_step i c of None \<Rightarrow> c | Some d \<Rightarrow> d)"

fun result_of :: "('w, 'a) proto \<Rightarrow> 'a option" where
  "result_of (Done x) = Some x"
| "result_of _ = None"

definition quiet :: "(PartyID \<times> PartyID \<Rightarrow> 'w list) \<Rightarrow> bool" where
  "quiet ch \<longleftrightarrow> (\<forall>i \<in> set [ID0, ID1, ID2]. \<forall>j \<in> set [ID0, ID1, ID2]. ch (i, j) = [])"

fun run_session :: "nat \<Rightarrow> ('w, 'a) config \<Rightarrow> ('a \<times> 'a \<times> 'a) option" where
  "run_session 0 c = None"
| "run_session (Suc n) c =
     (case (result_of (fst c ID0), result_of (fst c ID1), result_of (fst c ID2)) of
        (Some x, Some y, Some z) \<Rightarrow> (if quiet (snd c) then Some (x, y, z) else None)
      | _ \<Rightarrow> run_session n (try_step ID2 (try_step ID1 (try_step ID0 c))))"

lemma result_of_Some: "result_of p = Some x \<longleftrightarrow> p = Done x"
  by (cases p) auto

lemma quiet_iff: "quiet ch \<longleftrightarrow> ch = no_msgs"
  by (simp add: quiet_def fun_eq_iff split_paired_All all_party)

lemma try_step_steps: "net_steps c (try_step i c)"
  by (auto simp: try_step_def net_step_party split: option.splits intro!: r_into_rtranclp)

definition triple :: "'a \<times> 'a \<times> 'a \<Rightarrow> PartyID \<Rightarrow> 'a" where
  "triple v i = (case i of ID0 \<Rightarrow> fst v | ID1 \<Rightarrow> fst (snd v) | ID2 \<Rightarrow> snd (snd v))"

lemma triple_simps [simp]:
  "triple v ID0 = fst v" "triple v ID1 = fst (snd v)" "triple v ID2 = snd (snd v)"
  by (simp_all add: triple_def)

lemma triple_family: "triple (V ID0, V ID1, V ID2) i = V i"
  by (cases i) simp_all

lemma run_session_steps:
  "run_session n c = Some v \<Longrightarrow> net_steps c (\<lambda>i. Done (triple v i), no_msgs)"
proof (induction n arbitrary: c)
  case 0
  then show ?case by simp
next
  case (Suc n)
  let ?c' = "try_step ID2 (try_step ID1 (try_step ID0 c))"
  have c': "net_steps c ?c'"
    by (meson rtranclp_trans try_step_steps)
  show ?case
  proof (cases "\<exists>x y z. fst c ID0 = Done x \<and> fst c ID1 = Done y \<and> fst c ID2 = Done z")
    case True
    then obtain x y z where d: "fst c ID0 = Done x" "fst c ID1 = Done y" "fst c ID2 = Done z"
      by blast
    with Suc.prems have v: "v = (x, y, z)" and ch: "snd c = no_msgs"
      by (auto simp: quiet_iff split: if_splits)
    from d v have "fst c = (\<lambda>i. Done (triple v i))"
      by (intro party_fun_eqI) auto
    with ch show ?thesis by (cases c) simp
  next
    case False
    with Suc.prems have "run_session n ?c' = Some v"
      by (simp add: result_of_Some[symmetric] split: option.splits)
    from Suc.IH[OF this] c' show ?thesis by (rule rtranclp_trans[rotated])
  qed
qed

lemma run_session_joint: "run_session n (P, no_msgs) = Some v \<Longrightarrow> joint P (triple v)"
  unfolding joint_def by (rule run_session_steps)

lemma joint_session:
  assumes "run_session n (P, no_msgs) = Some (V ID0, V ID1, V ID2)"
  shows "joint P V"
  using run_session_joint[OF assms] by (rule joint_cong) (rule refl, rule triple_family)

end
