(* ===== verification/Network.thy ===== *)
theory Network
  imports Rngs Session
begin

text \<open>
  The network trait and the context of \<open>network.rs\<close>.  A party's program runs in an
  \<open>IoContext\<close> (its identity, its generators and the execution mode) and either returns a
  value or fails with an \<open>io::Error\<close>; a panic is one of the errors.  \<open>prog\<close> is the type of
  such programs (\<open>sprog\<close> over any state), \<open>qbind\<close> their sequencing with the \<open>?\<close> operator.  The trait's
  operations are written over two primitives, \<open>send_many\<close> and \<open>recv_many\<close>, which
  serialise and move one message.
\<close>

subsection \<open>Contexts and programs\<close>

datatype MPCType = Online | Preprocessed

record 'r IoContext =
  ctx_id :: PartyID
  rngs :: "'r Rep3CorrelatedRng"
  own_rng :: 'r
  mpc_type :: MPCType

type_synonym ('w, 's, 'a) sprog = "'s \<Rightarrow> ('w, (io_error + 'a) \<times> 's) proto"

type_synonym ('w, 'r, 'a) prog = "('w, 'r IoContext, 'a) sprog"

definition qret :: "'a \<Rightarrow> ('w, 's, 'a) sprog" where
  "qret x s = Done (Inr x, s)"

definition qfail :: "io_error \<Rightarrow> ('w, 's, 'a) sprog" where
  "qfail e s = Done (Inl e, s)"

definition qbind :: "('w, 's, 'a) sprog \<Rightarrow> ('a \<Rightarrow> ('w, 's, 'b) sprog) \<Rightarrow> ('w, 's, 'b) sprog" where
  "qbind m k s = pbind (m s) (\<lambda>(r, s'). case r of Inl e \<Rightarrow> Done (Inl e, s') | Inr x \<Rightarrow> k x s')"

text \<open>Local steps: reading the identity and the mode, drawing from the generators.\<close>

definition get_id :: "('w, 'r, PartyID) prog" where
  "get_id s = Done (Inr (ctx_id s), s)"

definition get_mpc_type :: "('w, 'r, MPCType) prog" where
  "get_mpc_type s = Done (Inr (mpc_type s), s)"

definition with_rand :: "('r Rep3Rand \<Rightarrow> 'a \<times> 'r Rep3Rand) \<Rightarrow> ('w, 'r, 'a) prog" where
  "with_rand f s = (let (x, t) = f (rand (rngs s)) in Done (Inr x, s\<lparr>rngs := (rngs s)\<lparr>rand := t\<rparr>\<rparr>))"

definition with_bitcomp1 ::
  "('r Rep3RandBitComp \<Rightarrow> (io_error + 'a) \<times> 'r Rep3RandBitComp) \<Rightarrow> ('w, 'r, 'a) prog" where
  "with_bitcomp1 f s =
     (let (x, t) = f (bitcomp1 (rngs s)) in Done (x, s\<lparr>rngs := (rngs s)\<lparr>bitcomp1 := t\<rparr>\<rparr>))"

definition with_bitcomp2 ::
  "('r Rep3RandBitComp \<Rightarrow> (io_error + 'a) \<times> 'r Rep3RandBitComp) \<Rightarrow> ('w, 'r, 'a) prog" where
  "with_bitcomp2 f s =
     (let (x, t) = f (bitcomp2 (rngs s)) in Done (x, s\<lparr>rngs := (rngs s)\<lparr>bitcomp2 := t\<rparr>\<rparr>))"

text \<open>A fallible pure computation, and a loop that collects its results.\<close>

definition lift_result :: "io_error + 'a \<Rightarrow> ('w, 's, 'a) sprog" where
  "lift_result x s = Done (x, s)"

primrec qmap :: "('a \<Rightarrow> ('w, 's, 'b) sprog) \<Rightarrow> 'a list \<Rightarrow> ('w, 's, 'b list) sprog" where
  "qmap f [] = qret []"
| "qmap f (x # xs) = qbind (f x) (\<lambda>y. qbind (qmap f xs) (\<lambda>ys. qret (y # ys)))"

primrec qfold :: "('a \<Rightarrow> 'b \<Rightarrow> ('w, 's, 'b) sprog) \<Rightarrow> 'a list \<Rightarrow> 'b \<Rightarrow> ('w, 's, 'b) sprog" where
  "qfold f [] acc = qret acc"
| "qfold f (x # xs) acc = qbind (f x acc) (qfold f xs)"

lemma qbind_qret [simp]:
  fixes m :: "('w, 's, 'a) sprog"
  shows "qbind m qret = m"
proof
  fix s
  have "pbind p (\<lambda>(r, s). case r of Inl e \<Rightarrow> Done (Inl e, s) | Inr x \<Rightarrow> qret x s) = p"
    for p :: "('w, (io_error + 'a) \<times> 's) proto"
    by (induction p) (auto simp: qret_def split: sum.splits)
  then show "qbind m qret s = m s" by (simp add: qbind_def)
qed

lemma qfold_Nil [simp]: "qfold f [] = qret"
  by (simp add: fun_eq_iff)

subsection \<open>The network trait\<close>

definition send_many :: "('a, 'w) codec \<Rightarrow> PartyID \<Rightarrow> 'a list \<Rightarrow> ('w, 's, unit) sprog" where
  "send_many c target data s =
     (case ser c data of
        None \<Rightarrow> Done (Inl InvalidInput, s)
      | Some w \<Rightarrow> Send target w (Done (Inr (), s)))"

definition recv_many :: "('a, 'w) codec \<Rightarrow> PartyID \<Rightarrow> ('w, 's, 'a list) sprog" where
  "recv_many c from s =
     Recv from (\<lambda>w. case deser c w of
        None \<Rightarrow> Done (Inl InvalidData, s)
      | Some xs \<Rightarrow> Done (Inr xs, s))"

definition the_single :: "'a list \<Rightarrow> ('w, 's, 'a) sprog" where
  "the_single res = (if length res \<noteq> 1 then qfail InvalidData else qret (last res))"

definition send :: "('a, 'w) codec \<Rightarrow> PartyID \<Rightarrow> 'a \<Rightarrow> ('w, 's, unit) sprog" where
  "send c target data = send_many c target [data]"

definition send_next :: "('a, 'w) codec \<Rightarrow> 'a \<Rightarrow> ('w, 'r, unit) prog" where
  "send_next c data = qbind get_id (\<lambda>i. send c (next_id i) data)"

definition send_next_many :: "('a, 'w) codec \<Rightarrow> 'a list \<Rightarrow> ('w, 'r, unit) prog" where
  "send_next_many c data = qbind get_id (\<lambda>i. send_many c (next_id i) data)"

definition recv :: "('a, 'w) codec \<Rightarrow> PartyID \<Rightarrow> ('w, 's, 'a) sprog" where
  "recv c from = qbind (recv_many c from) the_single"

definition recv_prev :: "('a, 'w) codec \<Rightarrow> ('w, 'r, 'a) prog" where
  "recv_prev c = qbind get_id (\<lambda>i. recv c (prev_id i))"

definition recv_prev_many :: "('a, 'w) codec \<Rightarrow> ('w, 'r, 'a list) prog" where
  "recv_prev_many c = qbind get_id (\<lambda>i. recv_many c (prev_id i))"

definition reshare_many :: "('a, 'w) codec \<Rightarrow> 'a list \<Rightarrow> ('w, 'r, 'a list) prog" where
  "reshare_many c data = qbind get_id (\<lambda>i.
     qbind (send_many c (next_id i) data) (\<lambda>_. recv_many c (prev_id i)))"

definition reshare :: "('a, 'w) codec \<Rightarrow> 'a \<Rightarrow> ('w, 'r, 'a) prog" where
  "reshare c data = qbind (reshare_many c [data]) the_single"

definition broadcast_many :: "('a, 'w) codec \<Rightarrow> 'a list \<Rightarrow> ('w, 'r, 'a list \<times> 'a list) prog" where
  "broadcast_many c data = qbind get_id (\<lambda>i.
     qbind (send_many c (next_id i) data) (\<lambda>_.
     qbind (send_many c (prev_id i) data) (\<lambda>_.
     qbind (recv_many c (next_id i)) (\<lambda>recv_next.
     qbind (recv_many c (prev_id i)) (\<lambda>recv_prev.
     qret (recv_prev, recv_next))))))"

definition broadcast :: "('a, 'w) codec \<Rightarrow> 'a \<Rightarrow> ('w, 'r, 'a \<times> 'a) prog" where
  "broadcast c data = qbind (broadcast_many c [data]) (\<lambda>(prev, next).
     if length prev \<noteq> 1 \<or> length next \<noteq> 1 then qfail InvalidData
     else qret (last prev, last next))"

end
