(* ===== verification/Protocol_Logic.thy ===== *)
theory Protocol_Logic
  imports Network
begin

text \<open>
  Proof rules for three-party programs.  \<open>correlated\<close> is the relation between the three
  contexts that the set-up establishes and every protocol keeps: each party's second
  generator is in the state of the previous party's first one, and the bit-composition
  generators agree between the two parties that share them.  \<open>mpc\<close> is total correctness
  of a three-party program from correlated contexts; \<open>mpc_fails\<close> that all parties fail with
  the given error.  The rules are collected in \<open>mpc_rules\<close>.
\<close>

subsection \<open>Correlated contexts\<close>

definition rand_synced :: "(PartyID \<Rightarrow> 'r Rep3Rand) \<Rightarrow> bool" where
  "rand_synced s \<longleftrightarrow> (\<forall>i. rand_rng2 (s i) = rand_rng1 (s (prev_id i)))"

definition bitcomp1_synced :: "(PartyID \<Rightarrow> 'r Rep3RandBitComp) \<Rightarrow> bool" where
  "bitcomp1_synced s \<longleftrightarrow>
     bc_rng3 (s ID2) = Some (bc_rng1 (s ID1)) \<and> bc_rng2 (s ID1) = bc_rng1 (s ID2) \<and>
     bc_rng3 (s ID1) = Some (bc_rng2 (s ID2))"

definition bitcomp2_synced :: "(PartyID \<Rightarrow> 'r Rep3RandBitComp) \<Rightarrow> bool" where
  "bitcomp2_synced s \<longleftrightarrow>
     bc_rng1 (s ID0) = bc_rng2 (s ID2) \<and> bc_rng3 (s ID2) = Some (bc_rng2 (s ID0)) \<and>
     bc_rng3 (s ID0) = Some (bc_rng1 (s ID2))"

definition rngs_synced :: "(PartyID \<Rightarrow> 'r Rep3CorrelatedRng) \<Rightarrow> bool" where
  "rngs_synced s \<longleftrightarrow> rand_synced (\<lambda>i. rand (s i)) \<and>
     bitcomp1_synced (\<lambda>i. bitcomp1 (s i)) \<and> bitcomp2_synced (\<lambda>i. bitcomp2 (s i))"

definition correlated :: "(PartyID \<Rightarrow> 'r IoContext) \<Rightarrow> bool" where
  "correlated C \<longleftrightarrow> (\<forall>i. ctx_id (C i) = i) \<and> (\<forall>i. mpc_type (C i) = mpc_type (C ID0)) \<and>
     rngs_synced (\<lambda>i. rngs (C i))"

lemma correlatedD [simp]: "correlated C \<Longrightarrow> ctx_id (C i) = i"
  by (simp add: correlated_def)

subsection \<open>Sessions of programs\<close>

definition runs ::
  "(PartyID \<Rightarrow> ('w, 'r, 'a) prog) \<Rightarrow> (PartyID \<Rightarrow> 'r IoContext) \<Rightarrow>
   (PartyID \<Rightarrow> io_error + 'a) \<Rightarrow> (PartyID \<Rightarrow> 'r IoContext) \<Rightarrow> bool" where
  "runs P C V C' \<longleftrightarrow> joint (\<lambda>i. P i (C i)) (\<lambda>i. (V i, C' i))"

definition mpc :: "(PartyID \<Rightarrow> ('w, 'r, 'a) prog) \<Rightarrow> ((PartyID \<Rightarrow> 'a) \<Rightarrow> bool) \<Rightarrow> bool" where
  "mpc P Q \<longleftrightarrow>
     (\<forall>C. correlated C \<longrightarrow> (\<exists>V C'. runs P C (\<lambda>i. Inr (V i)) C' \<and> correlated C' \<and> Q V))"

definition mpc_fails :: "(PartyID \<Rightarrow> ('w, 'r, 'a) prog) \<Rightarrow> io_error \<Rightarrow> bool" where
  "mpc_fails P e \<longleftrightarrow> (\<forall>C. correlated C \<longrightarrow> (\<exists>C'. runs P C (\<lambda>i. Inl e) C'))"

lemma mpcI:
  assumes "\<And>C. correlated C \<Longrightarrow> \<exists>V C'. runs P C (\<lambda>i. Inr (V i)) C' \<and> correlated C' \<and> Q V"
  shows "mpc P Q"
  using assms by (auto simp: mpc_def)

lemma mpcE:
  assumes "mpc P Q" "correlated C"
  obtains V C' where "runs P C (\<lambda>i. Inr (V i)) C'" "correlated C'" "Q V"
  using assms unfolding mpc_def by blast

lemma runs_unique:
  assumes "runs P C V C1" "runs P C W C2"
  shows "V = W" "C1 = C2"
  using joint_unique[OF assms[unfolded runs_def]] by (auto simp: fun_eq_iff)

lemma mpc_consequence:
  assumes "mpc P Q" and "\<And>V. Q V \<Longrightarrow> Q' V"
  shows "mpc P Q'"
  using assms unfolding mpc_def by blast

lemma mpc_cong: "mpc P' Q \<Longrightarrow> (\<And>i. P i = P' i) \<Longrightarrow> mpc P Q"
proof -
  assume "mpc P' Q" "\<And>i. P i = P' i"
  moreover from this have "P = P'" by auto
  ultimately show ?thesis by simp
qed

lemma joint_Done_pair: "joint (\<lambda>i. Done (V i, C i)) (\<lambda>i. (V i, C i))"
  by (rule joint_Done)

lemma mpc_local:
  assumes "\<And>i s. P i s = Done (Inr (f i s), u i s)"
    and "\<And>C. correlated C \<Longrightarrow> correlated (\<lambda>i. u i (C i)) \<and> Q (\<lambda>i. f i (C i))"
  shows "mpc P Q"
  unfolding mpc_def runs_def assms(1)
  by (intro allI impI, rule exI, rule exI, rule conjI, rule joint_Done_pair) (rule assms(2))

lemma mpc_local_corr:
  fixes P :: "PartyID \<Rightarrow> ('w, 'r, 'a) prog"
  assumes "\<And>C. correlated C \<Longrightarrow>
     \<exists>V C'. (\<forall>i. P i (C i) = Done (Inr (V i), C' i)) \<and> correlated C' \<and> Q V"
  shows "mpc P Q"
  unfolding mpc_def runs_def
proof (intro allI impI)
  fix C :: "PartyID \<Rightarrow> 'r IoContext" assume "correlated C"
  from assms[OF this] obtain V C' where "\<And>i. P i (C i) = Done (Inr (V i), C' i)" "correlated C'" "Q V"
    by blast
  then show "\<exists>V C'. joint (\<lambda>i. P i (C i)) (\<lambda>i. (Inr (V i), C' i)) \<and> correlated C' \<and> Q V"
    using joint_Done_pair[of "\<lambda>i. Inr (V i)" C'] by auto
qed

lemma mpc_ret [mpc_rules]: "Q V \<Longrightarrow> mpc (\<lambda>i. qret (V i)) Q"
  by (rule mpc_local[where f = "\<lambda>i s. V i" and u = "\<lambda>i s. s"]) (simp_all add: qret_def)

lemma runs_bind:
  assumes "runs P C (\<lambda>i. Inr (V i)) C'" and "runs (\<lambda>i. K i (V i)) C' W C''"
  shows "runs (\<lambda>i. qbind (P i) (K i)) C W C''"
  using joint_pbind[OF assms(1)[unfolded runs_def],
      of "\<lambda>i (r, s'). case r of Inl e \<Rightarrow> Done (Inl e, s') | Inr x \<Rightarrow> K i x s'"] assms(2)
  by (simp add: runs_def qbind_def)

lemma runs_bind_fail:
  assumes "runs P C (\<lambda>i. Inl e) C'"
  shows "runs (\<lambda>i. qbind (P i) (K i)) C (\<lambda>i. Inl e) C'"
  using joint_pbind[OF assms(1)[unfolded runs_def],
      of "\<lambda>i (r, s'). case r of Inl e \<Rightarrow> Done (Inl e, s') | Inr x \<Rightarrow> K i x s'"
         "\<lambda>i. (Inl e, C' i)"] joint_Done_pair[of "\<lambda>i. Inl e" C']
  by (simp add: runs_def qbind_def)

lemma mpc_bind [mpc_rules]:
  fixes P :: "PartyID \<Rightarrow> ('w, 'r, 'a) prog"
  assumes "mpc P (\<lambda>V. mpc (\<lambda>i. K i (V i)) Q)"
  shows "mpc (\<lambda>i. qbind (P i) (K i)) Q"
proof (rule mpcI)
  fix C :: "PartyID \<Rightarrow> 'r IoContext"
  assume "correlated C"
  with assms obtain V C' where 1: "runs P C (\<lambda>i. Inr (V i)) C'" "correlated C'"
    and "mpc (\<lambda>i. K i (V i)) Q" by (rule mpcE)
  then obtain W C'' where 2: "runs (\<lambda>i. K i (V i)) C' (\<lambda>i. Inr (W i)) C''" "correlated C''" "Q W"
    using mpcE by blast
  from runs_bind[where K = K, OF 1(1) 2(1)] 2(2,3)
  show "\<exists>V C'. runs (\<lambda>i. qbind (P i) (K i)) C (\<lambda>i. Inr (V i)) C' \<and> correlated C' \<and> Q V" by blast
qed

lemma mpc_fails_now [mpc_rules]: "mpc_fails (\<lambda>i. qfail e) e"
  unfolding mpc_fails_def runs_def qfail_def using joint_Done_pair[of "\<lambda>i. Inl e"] by blast

lemma mpc_fails_first: "mpc_fails P e \<Longrightarrow> mpc_fails (\<lambda>i. qbind (P i) (K i)) e"
  unfolding mpc_fails_def using runs_bind_fail by blast

lemma mpc_fails_later:
  assumes "mpc P (\<lambda>V. mpc_fails (\<lambda>i. K i (V i)) e)"
  shows "mpc_fails (\<lambda>i. qbind (P i) (K i)) e"
  using assms unfolding mpc_fails_def mpc_def using runs_bind by blast

lemma mpc_not_fails:
  assumes "mpc P Q" "correlated C" shows "\<not> runs P C (\<lambda>i. Inl e) C'"
proof
  assume "runs P C (\<lambda>i. Inl e) C'"
  moreover from assms obtain V C'' where "runs P C (\<lambda>i. Inr (V i)) C''" by (rule mpcE)
  ultimately show False using runs_unique(1) by (metis Inl_Inr_False)
qed

text \<open>
  For programs that may give up depending on the randomness: the session completes, and either
  all parties succeed with results in \<open>Q\<close> or all fail with an error in \<open>E\<close>.
\<close>

definition mpc_or ::
  "(PartyID \<Rightarrow> ('w, 'r, 'a) prog) \<Rightarrow> ((PartyID \<Rightarrow> 'a) \<Rightarrow> bool) \<Rightarrow> (io_error \<Rightarrow> bool) \<Rightarrow> bool" where
  "mpc_or P Q E \<longleftrightarrow> (\<forall>C. correlated C \<longrightarrow>
     (\<exists>V C'. runs P C (\<lambda>i. Inr (V i)) C' \<and> correlated C' \<and> Q V) \<or>
     (\<exists>e C'. runs P C (\<lambda>i. Inl e) C' \<and> E e))"

lemma mpc_or_mpc: "mpc P Q \<Longrightarrow> mpc_or P Q E"
  unfolding mpc_or_def mpc_def by blast

lemma mpc_or_fails: "mpc_fails P e \<Longrightarrow> E e \<Longrightarrow> mpc_or P Q E"
  unfolding mpc_or_def mpc_fails_def by blast

lemma mpc_orE:
  assumes "mpc_or P Q E" "correlated C"
  obtains V C' where "runs P C (\<lambda>i. Inr (V i)) C'" "correlated C'" "Q V"
    | e C' where "runs P C (\<lambda>i. Inl e) C'" "E e"
  using assms unfolding mpc_or_def by blast

lemma mpc_or_bind:
  fixes P :: "PartyID \<Rightarrow> ('w, 'r, 'a) prog"
  assumes "mpc_or P (\<lambda>V. mpc_or (\<lambda>i. K i (V i)) Q E) E"
  shows "mpc_or (\<lambda>i. qbind (P i) (K i)) Q E"
  unfolding mpc_or_def
proof (intro allI impI)
  fix C :: "PartyID \<Rightarrow> 'r IoContext"
  let ?goal = "(\<exists>V C'. runs (\<lambda>i. qbind (P i) (K i)) C (\<lambda>i. Inr (V i)) C' \<and> correlated C' \<and> Q V) \<or>
     (\<exists>e C'. runs (\<lambda>i. qbind (P i) (K i)) C (\<lambda>i. Inl e) C' \<and> E e)"
  assume "correlated C"
  with assms show ?goal
  proof (cases rule: mpc_orE)
    case (1 V C')
    from 1(3,2) show ?goal
    proof (cases rule: mpc_orE)
      case (1 W C'')
      with runs_bind[where K = K, OF \<open>runs P C (\<lambda>i. Inr (V i)) C'\<close> 1(1)] show ?goal by blast
    next
      case (2 e C'')
      with runs_bind[where K = K, OF \<open>runs P C (\<lambda>i. Inr (V i)) C'\<close> 2(1)] show ?goal by blast
    qed
  next
    case (2 e C')
    with runs_bind_fail[where K = K, OF 2(1)] show ?goal by blast
  qed
qed

lemma mpc_or_only_fails:
  assumes "mpc_or P Q (\<lambda>e. e = err)" "\<And>V. \<not> Q V"
  shows "mpc_fails P err"
  using assms unfolding mpc_fails_def mpc_or_def by blast

lemma mpc_or_seq:
  "mpc P (\<lambda>V. mpc_or (\<lambda>i. K i (V i)) Q E) \<Longrightarrow> mpc_or (\<lambda>i. qbind (P i) (K i)) Q E"
  by (intro mpc_or_bind mpc_or_mpc)

lemma mpc_or_consequence:
  "mpc_or P Q E \<Longrightarrow> (\<And>V. Q V \<Longrightarrow> Q' V) \<Longrightarrow> (\<And>e. E e \<Longrightarrow> E' e) \<Longrightarrow> mpc_or P Q' E'"
  unfolding mpc_or_def by blast

subsection \<open>Local steps\<close>

lemma mpc_get_id [mpc_rules]:
  "Q (\<lambda>i. i) \<Longrightarrow> mpc (\<lambda>i. get_id :: ('w, 'r, PartyID) prog) Q"
proof (rule mpc_local[where f = "\<lambda>i. ctx_id" and u = "\<lambda>i s. s"])
  fix C :: "PartyID \<Rightarrow> 'r IoContext"
  assume Q: "Q (\<lambda>i. i)" and C: "correlated C"
  then have "(\<lambda>i. ctx_id (C i)) = (\<lambda>i. i)" by auto
  with Q C show "correlated (\<lambda>i. C i) \<and> Q (\<lambda>i. ctx_id (C i))" by simp
qed (simp add: get_id_def)

lemma mpc_get_mpc_type [mpc_rules]: 
  "(\<And>t. Q (\<lambda>i. t)) \<Longrightarrow> mpc (\<lambda>i. get_mpc_type :: ('w, 'r, MPCType) prog) Q"
proof (rule mpc_local[where f = "\<lambda>i. mpc_type" and u = "\<lambda>i s. s"])
  fix C :: "PartyID \<Rightarrow> 'r IoContext"
  assume Q: "\<And>t. Q (\<lambda>i. t)" and C: "correlated C"
  then have "(\<lambda>i. mpc_type (C i)) = (\<lambda>i. mpc_type (C ID0))"
    by (auto simp: correlated_def)
  with Q C show "correlated (\<lambda>i. C i) \<and> Q (\<lambda>i. mpc_type (C i))" by metis
qed (simp add: get_mpc_type_def)

lemma mpc_lift [mpc_rules]: "(\<And>i. x i = Inr (y i)) \<Longrightarrow> Q y \<Longrightarrow> mpc (\<lambda>i. lift_result (x i)) Q"
  by (rule mpc_local[where f = "\<lambda>i s. y i" and u = "\<lambda>i s. s"]) (auto simp: lift_result_def)

text \<open>
  A draw that takes the same kind of value from both generators: the parties obtain
  \<open>h (z i) (z (prev_id i))\<close> for one family \<open>z\<close> of fresh values.
\<close>

definition draw2 ::
  "('a \<Rightarrow> 'a \<Rightarrow> 'b) \<Rightarrow> ('r \<Rightarrow> 'a \<times> 'r) \<Rightarrow> 'r Rep3Rand \<Rightarrow> 'b \<times> 'r Rep3Rand" where
  "draw2 h g s = (h (fst (g (rand_rng1 s))) (fst (g (rand_rng2 s))),
     \<lparr>rand_rng1 = snd (g (rand_rng1 s)), rand_rng2 = snd (g (rand_rng2 s))\<rparr>)"

lemma draws_draw2:
  "random_elements g = draw2 Pair g"
  "masking_element g' = draw2 (-) g'"
  "random_fes F = draw2 Pair (f_rand F)"
  "masking_field_element F' = draw2 (-) (f_rand F')"
  "random_biguint R n = draw2 Pair (gen_biguint R n)"
  "random_seeds R = draw2 Pair (gen_seed R)"
  "masking_elements_vec g' n = draw2 (map2 (-)) (draw_n n g')"
  by (auto simp: fun_eq_iff draw2_def random_elements_def masking_element_def random_fes_def
      masking_field_element_def random_biguint_def random_seeds_def masking_elements_vec_def
      split_beta Let_def)

lemma masking_field_elements_draw2:
  "masking_field_elements_vec R F n =
     (let k = (modulus_bit_size F + 7) div 8;
          dec = (\<lambda>bs. map (from_be_bytes_mod_order F) (chunks k bs))
      in draw2 (\<lambda>a b. map2 (-) (dec a) (dec b)) (fill_bytes R (k * n)))"
  by (auto simp: fun_eq_iff draw2_def masking_field_elements_vec_def split_beta Let_def
      zip_map1 zip_map2)

lemma mpc_draw2 [mpc_rules]:
  fixes g :: "'r \<Rightarrow> 'a \<times> 'r"
  assumes "\<And>z. (\<And>i. \<exists>r. z i = fst (g r)) \<Longrightarrow> Q (\<lambda>i. h (z i) (z (prev_id i)))"
  shows "mpc (\<lambda>i. with_rand (draw2 h g)) Q"
proof (rule mpc_local[where
      f = "\<lambda>i s. fst (draw2 h g (rand (rngs s)))" and
      u = "\<lambda>i s. s\<lparr>rngs := (rngs s)\<lparr>rand := snd (draw2 h g (rand (rngs s)))\<rparr>\<rparr>"])
  fix C :: "PartyID \<Rightarrow> 'r IoContext"
  assume C: "correlated C"
  let ?z = "\<lambda>i. fst (g (rand_rng1 (rand (rngs (C i)))))"
  from C have "rand_rng2 (rand (rngs (C i))) = rand_rng1 (rand (rngs (C (prev_id i))))" for i
    by (simp add: correlated_def rngs_synced_def rand_synced_def)
  then have "(\<lambda>i. fst (draw2 h g (rand (rngs (C i))))) = (\<lambda>i. h (?z i) (?z (prev_id i)))"
    and "correlated (\<lambda>i. C i\<lparr>rngs := (rngs (C i))\<lparr>rand := snd (draw2 h g (rand (rngs (C i))))\<rparr>\<rparr>)"
    using C by (auto simp: draw2_def correlated_def rngs_synced_def rand_synced_def)
  with assms[of ?z] show "correlated (\<lambda>i. C i\<lparr>rngs := (rngs (C i))\<lparr>rand := snd (draw2 h g (rand (rngs (C i))))\<rparr>\<rparr>) \<and>
      Q (\<lambda>i. fst (draw2 h g (rand (rngs (C i)))))"
    by auto
qed (simp add: with_rand_def split_beta Let_def)

text \<open>
  The draws of three keys from the bit-composition generators: parties 1 and 2 draw the same
  keys from the first, parties 0 and 2 from the second, in different orders.
\<close>

lemma mpc_3keys:
  fixes g :: "'r \<Rightarrow> 'a \<times> 'r"
  assumes "\<And>a b c d e f. Q (\<lambda>i. case i of ID0 \<Rightarrow> ha (d, e, f) | ID1 \<Rightarrow> hb (a, b, c) | ID2 \<Rightarrow> hc (b, c, a) (f, d, e))"
  shows "mpc (\<lambda>i. case i of
      ID0 \<Rightarrow> qbind (with_bitcomp2 (random_elements_3keys g)) (\<lambda>k3. qret (ha k3))
    | ID1 \<Rightarrow> qbind (with_bitcomp1 (random_elements_3keys g)) (\<lambda>k2. qret (hb k2))
    | ID2 \<Rightarrow> qbind (with_bitcomp1 (random_elements_3keys g)) (\<lambda>k2.
             qbind (with_bitcomp2 (random_elements_3keys g)) (\<lambda>k3. qret (hc k2 k3)))) Q"
    (is "mpc ?P Q")
proof (rule mpc_local_corr)
  fix C :: "PartyID \<Rightarrow> 'r IoContext"
  assume C: "correlated C"
  define B where "B = (\<lambda>i. bitcomp1 (rngs (C i)))"
  define D where "D = (\<lambda>i. bitcomp2 (rngs (C i)))"
  define adv :: "'r Rep3RandBitComp \<Rightarrow> 'r Rep3RandBitComp" where
    "adv = (\<lambda>s. s\<lparr>bc_rng1 := snd (g (bc_rng1 s)), bc_rng2 := snd (g (bc_rng2 s)),
       bc_rng3 := map_option (\<lambda>r. snd (g r)) (bc_rng3 s)\<rparr>)"
  define C' where "C' = (\<lambda>i. case i of
      ID0 \<Rightarrow> C i\<lparr>rngs := rngs (C i)\<lparr>bitcomp2 := adv (D i)\<rparr>\<rparr>
    | ID1 \<Rightarrow> C i\<lparr>rngs := rngs (C i)\<lparr>bitcomp1 := adv (B i)\<rparr>\<rparr>
    | ID2 \<Rightarrow> C i\<lparr>rngs := rngs (C i)\<lparr>bitcomp1 := adv (B i), bitcomp2 := adv (D i)\<rparr>\<rparr>)"
  let ?a = "fst (g (bc_rng1 (B ID1)))" and ?b = "fst (g (bc_rng1 (B ID2)))" and ?c = "fst (g (bc_rng2 (B ID2)))"
    and ?d = "fst (g (bc_rng2 (D ID2)))" and ?e = "fst (g (bc_rng2 (D ID0)))" and ?f = "fst (g (bc_rng1 (D ID2)))"
  have B: "bc_rng3 (B ID2) = Some (bc_rng1 (B ID1))" "bc_rng2 (B ID1) = bc_rng1 (B ID2)"
      "bc_rng3 (B ID1) = Some (bc_rng2 (B ID2))"
    and D: "bc_rng1 (D ID0) = bc_rng2 (D ID2)" "bc_rng3 (D ID2) = Some (bc_rng2 (D ID0))"
      "bc_rng3 (D ID0) = Some (bc_rng1 (D ID2))"
    using C by (simp_all add: correlated_def rngs_synced_def bitcomp1_synced_def bitcomp2_synced_def B_def D_def)
  have keys: "random_elements_3keys g (bitcomp1 (rngs (C ID1))) = (Inr (?a, ?b, ?c), adv (B ID1))"
      "random_elements_3keys g (bitcomp1 (rngs (C ID2))) = (Inr (?b, ?c, ?a), adv (B ID2))"
      "random_elements_3keys g (bitcomp2 (rngs (C ID0))) = (Inr (?d, ?e, ?f), adv (D ID0))"
      "random_elements_3keys g (bitcomp2 (rngs (C ID2))) = (Inr (?f, ?d, ?e), adv (D ID2))"
    using B D by (simp_all add: random_elements_3keys_def adv_def B_def D_def split_beta Let_def)
  have "?P i (C i) = Done (Inr (case i of ID0 \<Rightarrow> ha (?d, ?e, ?f) | ID1 \<Rightarrow> hb (?a, ?b, ?c)
      | ID2 \<Rightarrow> hc (?b, ?c, ?a) (?f, ?d, ?e)), C' i)" for i
    by (cases i) (simp_all add: qbind_def qret_def with_bitcomp1_def with_bitcomp2_def keys C'_def)
  moreover have "correlated C'"
    using C B D by (simp add: correlated_def rngs_synced_def rand_synced_def bitcomp1_synced_def bitcomp2_synced_def
        C'_def adv_def split: PartyID.splits)
  ultimately show "\<exists>V C'. (\<forall>i. ?P i (C i) = Done (Inr (V i), C' i)) \<and> correlated C' \<and> Q V"
    using assms by (intro exI conjI allI)
qed

subsection \<open>Messages\<close>

lemma lawful_codec_wires:
  "lawful_codec c \<Longrightarrow> \<exists>w. \<forall>xs. ser c xs = Some (w xs) \<and> deser c (w xs) = Some xs"
  unfolding lawful_codec_def by (rule choice) blast

lemma runs_session:
  assumes "run_session n (\<lambda>i. P i (C i), no_msgs) =
    Some ((V ID0, C' ID0), (V ID1, C' ID1), (V ID2, C' ID2))"
  shows "runs P C V C'"
  unfolding runs_def using run_session_joint[OF assms]
  by (rule joint_cong) (rule refl, rule triple_family)

lemmas session_simps = eval_nat_numeral try_step_def party_step_def quiet_def qbind_def
  get_id_def send_many_def recv_many_def

lemma mpc_messages:
  assumes "\<And>C. correlated C \<Longrightarrow> runs P C (\<lambda>i. Inr (V i)) C" and "Q V"
  shows "mpc P Q"
  using assms unfolding mpc_def by (intro allI impI, rule_tac exI[of _ V], rule_tac exI) auto

lemma mpc_reshare_many [mpc_rules]:
  assumes "lawful_codec c" and "Q (\<lambda>i. x (prev_id i))"
  shows "mpc (\<lambda>i. reshare_many c (x i)) Q"
proof -
  from lawful_codec_wires[OF assms(1)]
  obtain w where w: "\<And>xs. ser c xs = Some (w xs)" "\<And>xs. deser c (w xs) = Some xs" by blast
  from _ assms(2) show ?thesis
    by (rule mpc_messages, intro runs_session[where n = 3])
      (simp add: session_simps reshare_many_def w)
qed

lemma mpc_single [mpc_rules]: "Q x \<Longrightarrow> mpc (\<lambda>i. the_single [x i]) Q"
  by (simp add: the_single_def mpc_ret)

lemma mpc_reshare [mpc_rules]:
  assumes "lawful_codec c" and "Q (\<lambda>i. x (prev_id i))"
  shows "mpc (\<lambda>i. reshare c (x i)) Q"
  unfolding reshare_def by (intro mpc_rules assms)

lemma mpc_broadcast_many [mpc_rules]:
  assumes "lawful_codec c" and "Q (\<lambda>i. (x (prev_id i), x (next_id i)))"
  shows "mpc (\<lambda>i. broadcast_many c (x i)) Q"
proof -
  from lawful_codec_wires[OF assms(1)]
  obtain w where w: "\<And>xs. ser c xs = Some (w xs)" "\<And>xs. deser c (w xs) = Some xs" by blast
  from _ assms(2) show ?thesis
    by (rule mpc_messages, intro runs_session[where n = 5])
      (simp add: session_simps broadcast_many_def qret_def w)
qed

lemma mpc_broadcast [mpc_rules]:
  assumes "lawful_codec c" and "Q (\<lambda>i. (x (prev_id i), x (next_id i)))"
  shows "mpc (\<lambda>i. broadcast c (x i)) Q"
  unfolding broadcast_def by (intro mpc_rules assms) (simp add: mpc_ret assms)

lemma send_recv_reshare_one:
  "qbind (send_next c d) (\<lambda>_. qbind (recv_prev c) k) = qbind (reshare c d) k"
  by (simp add: fun_eq_iff reshare_def reshare_many_def send_next_def recv_prev_def recv_def send_def
      qbind_def get_id_def send_many_def recv_many_def the_single_def qret_def qfail_def
      split: option.splits)

lemma send_recv_reshare:
  "qbind (send_next_many c d) (\<lambda>_. qbind (recv_prev_many c) k) = qbind (reshare_many c d) k"
  by (simp add: fun_eq_iff reshare_many_def send_next_many_def recv_prev_many_def qbind_def
      get_id_def send_many_def recv_many_def split: option.splits)

text \<open>Two of the parties receive: parties 0 and 2 send to the next party, one value or a vector.\<close>

lemma mpc_send_to_two:
  assumes "lawful_codec c" "Q (\<lambda>i. case i of ID0 \<Rightarrow> ha (v ID2) | ID1 \<Rightarrow> hb (v ID0) | ID2 \<Rightarrow> hc)"
  shows "mpc (\<lambda>i. case i of
      ID0 \<Rightarrow> qbind (send_next c (v i)) (\<lambda>_. qbind (recv_prev c) (\<lambda>rcv. qret (ha rcv)))
    | ID1 \<Rightarrow> qbind (recv_prev c) (\<lambda>rcv. qret (hb rcv))
    | ID2 \<Rightarrow> qbind (send_next c (v i)) (\<lambda>_. qret hc)) Q"
proof -
  from lawful_codec_wires[OF assms(1)]
  obtain w where w: "\<And>xs. ser c xs = Some (w xs)" "\<And>xs. deser c (w xs) = Some xs" by blast
  from _ assms(2) show ?thesis
    by (rule mpc_messages, intro runs_session[where n = 4])
      (simp add: session_simps send_next_def recv_prev_def send_def recv_def the_single_def qret_def w)
qed

lemma mpc_send_to_two_many:
  assumes "lawful_codec c" "Q (\<lambda>i. case i of ID0 \<Rightarrow> ha (v ID2) | ID1 \<Rightarrow> hb (v ID0) | ID2 \<Rightarrow> hc)"
  shows "mpc (\<lambda>i. case i of
      ID0 \<Rightarrow> qbind (reshare_many c (v i)) (\<lambda>rcv. qret (ha rcv))
    | ID1 \<Rightarrow> qbind (recv_many c (prev_id i)) (\<lambda>rcv. qret (hb rcv))
    | ID2 \<Rightarrow> qbind (send_many c (next_id i) (v i)) (\<lambda>_. qret hc)) Q"
proof -
  from lawful_codec_wires[OF assms(1)]
  obtain w where w: "\<And>xs. ser c xs = Some (w xs)" "\<And>xs. deser c (w xs) = Some xs" by blast
  from _ assms(2) show ?thesis
    by (rule mpc_messages, intro runs_session[where n = 4])
      (simp add: session_simps reshare_many_def qret_def w)
qed

text \<open>A loop: if every round turns its family of arguments into results satisfying \<open>R\<close>,
  the loop turns equally long lists into equally long lists, pointwise related.\<close>

lemma mpc_qmap:
  assumes "\<And>x k. k < n \<Longrightarrow> (\<And>i. x i = xs i ! k) \<Longrightarrow> mpc (\<lambda>i. f i (x i)) (R k)"
    and "\<And>i. length (xs i) = n"
    and "\<And>ys. (\<And>i. length (ys i) = n) \<Longrightarrow> (\<And>k. k < n \<Longrightarrow> R k (\<lambda>i. ys i ! k)) \<Longrightarrow> Q ys"
  shows "mpc (\<lambda>i. qmap (f i) (xs i)) Q"
  using assms
proof (induction n arbitrary: xs R Q)
  case 0
  then have "xs i = []" for i by simp
  with 0(3)[of "\<lambda>i. []"] show ?case by (simp add: mpc_ret)
next
  case (Suc n)
  have xs: "xs i = hd (xs i) # tl (xs i)" for i
    using Suc.prems(2)[of i] by (cases "xs i") auto
  have 1: "mpc (\<lambda>i. qmap (f i) (tl (xs i)))
      (\<lambda>ys. (\<forall>i. length (ys i) = n) \<and> (\<forall>k < n. R (Suc k) (\<lambda>i. ys i ! k)))"
  proof (rule Suc.IH[where R = "\<lambda>k. R (Suc k)"])
    fix x k assume "k < n" "\<And>i. x i = tl (xs i) ! k"
    with Suc.prems(2) show "mpc (\<lambda>i. f i (x i)) (R (Suc k))"
      by (intro Suc.prems(1)) (auto simp: nth_tl)
  qed (use Suc.prems(2) in auto)
  have 2: "mpc (\<lambda>i. f i (hd (xs i))) (R 0)"
    using Suc.prems(1)[of 0 "\<lambda>i. hd (xs i)"] Suc.prems(2) by (metis hd_conv_nth xs list.distinct(1) zero_less_Suc)
  have "mpc (\<lambda>i. qmap (f i) (hd (xs i) # tl (xs i))) Q"
    unfolding qmap.simps
  proof (rule mpc_bind, rule mpc_consequence[OF 2], rule mpc_bind, rule mpc_consequence[OF 1], rule mpc_ret)
    fix y ys assume "R 0 y" "(\<forall>i. length (ys i) = n) \<and> (\<forall>k < n. R (Suc k) (\<lambda>i. ys i ! k))"
    then show "Q (\<lambda>i. y i # ys i)"
      by (intro Suc.prems(3)) (auto simp: less_Suc_eq_0_disj)
  qed
  then show ?case by (rule mpc_cong) (simp add: xs[symmetric])
qed

text \<open>A counted loop with an invariant on the accumulators.\<close>

lemma mpc_qfold_upt:
  assumes "I 0 s0" "\<And>k s. k < d \<Longrightarrow> I k s \<Longrightarrow> mpc (\<lambda>i. f i k (s i)) (I (Suc k))" "\<And>s. I d s \<Longrightarrow> Q s"
  shows "mpc (\<lambda>i. qfold (f i) [0..<d] (s0 i)) Q"
proof -
  have "mpc (\<lambda>i. qfold (f i) [k..<d] (s i)) Q" if "k \<le> d" "I k s" for k s
    using that
  proof (induction "d - k" arbitrary: k s)
    case 0
    then show ?case by (simp add: mpc_ret assms(3))
  next
    case (Suc m)
    then have "[k..<d] = k # [Suc k..<d]" "k < d" by (simp_all add: upt_conv_Cons)
    moreover have "mpc (\<lambda>i. qbind (f i k (s i)) (qfold (f i) [Suc k..<d])) Q"
    proof (rule mpc_bind, rule mpc_consequence)
      show "mpc (\<lambda>i. f i k (s i)) (I (Suc k))" using Suc.prems \<open>k < d\<close> by (intro assms(2))
      fix t assume "I (Suc k) t"
      then show "mpc (\<lambda>i. qfold (f i) [Suc k..<d] (t i)) Q"
        using Suc.hyps(2) \<open>k < d\<close> by (intro Suc.hyps(1)) auto
    qed
    ultimately show ?case by simp
  qed
  from this[OF _ assms(1)] show ?thesis by simp
qed

end
