(* ===== verification/Sharing.thy ===== *)
theory Sharing
  imports Protocol_Logic
begin

text \<open>
  Replicated sharings.  A value is split into three summands, one per party; party \<open>i\<close> holds
  its own summand and that of the previous party (\<open>types/arithmetic.rs\<close>,
  \<open>types/binary.rs\<close>, \<open>rep3_ring/types.rs\<close>).  The same structure is used over a field or
  a word with addition and over bit strings with exclusive or; what the two have in common is
  proved once, in the locale \<open>share_ring\<close>.
\<close>

datatype 'a share = Share (sh_a: 'a) (sh_b: 'a)

lemma share_eqI: "sh_a x = sh_a y \<Longrightarrow> sh_b x = sh_b y \<Longrightarrow> x = y"
  by (cases x; cases y) simp

subsection \<open>Additive structure\<close>

instantiation share :: (ab_group_add) ab_group_add
begin

definition zero_share_def: "0 = Share 0 0"

definition plus_share_def: "x + y = Share (sh_a x + sh_a y) (sh_b x + sh_b y)"

definition minus_share_def: "x - y = Share (sh_a x - sh_a y) (sh_b x - sh_b y)"

definition uminus_share_def: "- x = Share (- sh_a x) (- sh_b x)"

instance
  by standard (simp_all add: zero_share_def plus_share_def minus_share_def uminus_share_def
      algebra_simps share_eqI)

end

lemma share_sel [simp]:
  "sh_a (0 :: 'a::ab_group_add share) = 0" "sh_b (0 :: 'a::ab_group_add share) = 0"
  "sh_a (x + y) = sh_a x + sh_a y" "sh_b (x + y) = sh_b x + sh_b y"
  "sh_a (x - y) = sh_a x - sh_a y" "sh_b (x - y) = sh_b x - sh_b y"
  "sh_a (- x) = - sh_a x" "sh_b (- x) = - sh_b x"
  for x y :: "'a::ab_group_add share"
  by (simp_all add: zero_share_def plus_share_def minus_share_def uminus_share_def)

subsection \<open>What a family of shares represents\<close>

definition sum3 :: "('a \<Rightarrow> 'a \<Rightarrow> 'a) \<Rightarrow> (PartyID \<Rightarrow> 'a) \<Rightarrow> 'a" where
  "sum3 add z = add (add (z ID0) (z ID1)) (z ID2)"

definition shared_by :: "('a \<Rightarrow> 'a \<Rightarrow> 'a) \<Rightarrow> (PartyID \<Rightarrow> 'a share) \<Rightarrow> 'a \<Rightarrow> bool" where
  "shared_by add x v \<longleftrightarrow>
     (\<forall>i. sh_b (x i) = sh_a (x (prev_id i))) \<and> sum3 add (\<lambda>i. sh_a (x i)) = v"

definition vec_shared_by ::
  "('a \<Rightarrow> 'a \<Rightarrow> 'a) \<Rightarrow> (PartyID \<Rightarrow> 'a share list) \<Rightarrow> 'a list \<Rightarrow> bool" where
  "vec_shared_by add xs vs \<longleftrightarrow> (\<forall>i. length (xs i) = length vs) \<and>
     (\<forall>k < length vs. shared_by add (\<lambda>i. xs i ! k) (vs ! k))"

abbreviation ashare :: "(PartyID \<Rightarrow> 'a::plus share) \<Rightarrow> 'a \<Rightarrow> bool" where
  "ashare \<equiv> shared_by (+)"

abbreviation ashares :: "(PartyID \<Rightarrow> 'a::plus share list) \<Rightarrow> 'a list \<Rightarrow> bool" where
  "ashares \<equiv> vec_shared_by (+)"

abbreviation bshare :: "(PartyID \<Rightarrow> 'a::semiring_bit_operations share) \<Rightarrow> 'a \<Rightarrow> bool" where
  "bshare \<equiv> shared_by (XOR)"

abbreviation bshares :: "(PartyID \<Rightarrow> 'a::semiring_bit_operations share list) \<Rightarrow> 'a list \<Rightarrow> bool" where
  "bshares \<equiv> vec_shared_by (XOR)"

lemma shared_byD: "shared_by add x v \<Longrightarrow> sh_b (x i) = sh_a (x (prev_id i))"
  by (simp add: shared_by_def)

lemma shared_by_sum: "shared_by add x v \<Longrightarrow> v = add (add (sh_a (x ID0)) (sh_a (x ID1))) (sh_a (x ID2))"
  by (simp add: shared_by_def sum3_def)

lemma shared_byI:
  "(\<And>i. sh_b (x i) = sh_a (x (prev_id i))) \<Longrightarrow>
   add (add (sh_a (x ID0)) (sh_a (x ID1))) (sh_a (x ID2)) = v \<Longrightarrow> shared_by add x v"
  by (simp add: shared_by_def sum3_def)

lemma shared_by3I:
  "sh_b (x ID0) = sh_a (x ID2) \<Longrightarrow> sh_b (x ID1) = sh_a (x ID0) \<Longrightarrow> sh_b (x ID2) = sh_a (x ID1) \<Longrightarrow>
   add (add (sh_a (x ID0)) (sh_a (x ID1))) (sh_a (x ID2)) = v \<Longrightarrow> shared_by add x v"
  by (simp add: shared_by_def sum3_def all_party)

lemma shared_by_reshare:
  "sum3 add z = v \<Longrightarrow> shared_by add (\<lambda>i. Share (z i) (z (prev_id i))) v"
  by (simp add: shared_by_def)

lemma shared_by_unique: "shared_by add x v \<Longrightarrow> shared_by add x w \<Longrightarrow> v = w"
  by (simp add: shared_by_def)

lemma vec_shared_byD:
  assumes "vec_shared_by add xs vs"
  shows "length (xs i) = length vs" "k < length vs \<Longrightarrow> shared_by add (\<lambda>i. xs i ! k) (vs ! k)"
  using assms by (simp_all add: vec_shared_by_def)

lemma vec_shared_by_Nil [simp]: "vec_shared_by add xs [] \<longleftrightarrow> (\<forall>i. xs i = [])"
  by (simp add: vec_shared_by_def)

lemma vec_shared_by_Cons:
  assumes "vec_shared_by add xs (v # vs)"
  shows "shared_by add (\<lambda>i. hd (xs i)) v" "vec_shared_by add (\<lambda>i. tl (xs i)) vs"
proof -
  have xs: "xs i = hd (xs i) # tl (xs i)" for i
    using vec_shared_byD(1)[OF assms, of i] by (cases "xs i") auto
  have nth: "xs i ! 0 = hd (xs i)" "xs i ! Suc k = tl (xs i) ! k" for i k
    by (metis xs nth_Cons_0, metis xs nth_Cons_Suc)
  show "shared_by add (\<lambda>i. hd (xs i)) v"
    using vec_shared_byD(2)[OF assms, of 0] by (simp add: nth)
  have "shared_by add (\<lambda>i. tl (xs i) ! k) (vs ! k)" if "k < length vs" for k
    using vec_shared_byD(2)[OF assms, of "Suc k"] that by (simp add: nth)
  with vec_shared_byD(1)[OF assms] show "vec_shared_by add (\<lambda>i. tl (xs i)) vs"
    by (simp add: vec_shared_by_def)
qed

text \<open>Vectors of summands, one vector per party, and their exchange.\<close>

definition vec_summing :: "('a \<Rightarrow> 'a \<Rightarrow> 'a) \<Rightarrow> (PartyID \<Rightarrow> 'a list) \<Rightarrow> 'a list \<Rightarrow> bool" where
  "vec_summing add zs vs \<longleftrightarrow> (\<forall>i. length (zs i) = length vs) \<and>
     (\<forall>k < length vs. sum3 add (\<lambda>i. zs i ! k) = vs ! k)"

lemma vec_shared_by_reshare:
  "vec_summing add zs vs \<Longrightarrow> vec_shared_by add (\<lambda>i. map2 Share (zs i) (zs (prev_id i))) vs"
  by (simp add: vec_summing_def vec_shared_by_def shared_by_def)

lemma vec_shared_by_map2:
  assumes "vec_shared_by add xs us" "vec_shared_by add ys vs" "length us = length vs"
    and "\<And>x y u v. shared_by add x u \<Longrightarrow> shared_by add y v \<Longrightarrow> shared_by add (\<lambda>i. f i (x i) (y i)) (g u v)"
  shows "vec_shared_by add (\<lambda>i. map2 (f i) (xs i) (ys i)) (map2 g us vs)"
  using assms by (simp add: vec_shared_by_def)

lemma vec_shared_by_map:
  assumes "vec_shared_by add xs us"
    and "\<And>x u. shared_by add x u \<Longrightarrow> shared_by add (\<lambda>i. f i (x i)) (g u)"
  shows "vec_shared_by add (\<lambda>i. map (f i) (xs i)) (map g us)"
  using assms by (simp add: vec_shared_by_def)

text \<open>
  Vectors whose values are tabulated over a list of indices: no side conditions on lengths.  A
  step on the elements lifts to the vectors.
\<close>

lemma tab_map:
  assumes "vec_shared_by add xs (map u js)"
    and "\<And>x j. j \<in> set js \<Longrightarrow> shared_by add x (u j) \<Longrightarrow> shared_by add' (\<lambda>i. f i (x i)) (w j)"
  shows "vec_shared_by add' (\<lambda>i. map (f i) (xs i)) (map w js)"
  using assms by (simp add: vec_shared_by_def)

lemma tab_map2:
  assumes "vec_shared_by add xs (map u js)" "vec_shared_by add' ys (map v js)"
    and "\<And>x y j. j \<in> set js \<Longrightarrow> shared_by add x (u j) \<Longrightarrow> shared_by add' y (v j) \<Longrightarrow>
      shared_by add'' (\<lambda>i. f i (x i) (y i)) (w j)"
  shows "vec_shared_by add'' (\<lambda>i. map2 (f i) (xs i) (ys i)) (map w js)"
  using assms by (simp add: vec_shared_by_def)

lemma tab_map2_public:
  assumes "vec_shared_by add xs (map u js)"
    and "\<And>x j. j \<in> set js \<Longrightarrow> shared_by add x (u j) \<Longrightarrow> shared_by add' (\<lambda>i. f i (x i) (c j)) (w j)"
  shows "vec_shared_by add' (\<lambda>i. map2 (f i) (xs i) (map c js)) (map w js)"
  using assms by (simp add: vec_shared_by_def)

lemma tab_zip_update:
  assumes "vec_shared_by add xs (map u js)" "vec_shared_by add' ys (map v js)"
    and "\<And>x y j. j \<in> set js \<Longrightarrow> shared_by add x (u j) \<Longrightarrow> shared_by add' y (v j) \<Longrightarrow>
      shared_by add (\<lambda>i. f i (x i) (y i)) (w j)"
  shows "vec_shared_by add (\<lambda>i. zip_update (f i) (xs i) (ys i)) (map w js)"
proof -
  have "length (xs i) = length (ys i)" for i
    using vec_shared_byD(1)[OF assms(1)] vec_shared_byD(1)[OF assms(2)] by simp
  with tab_map2[OF assms(1,2), where f = f and w = w] assms(3) show ?thesis by simp
qed

lemma tab_length:
  "vec_shared_by add xs (map u js) \<Longrightarrow> length (xs i) = length js"
  by (simp add: vec_shared_by_def)

lemma tab_nth:
  "vec_shared_by add xs (map u js) \<Longrightarrow> k < length js \<Longrightarrow> shared_by add (\<lambda>i. xs i ! k) (u (js ! k))"
  by (simp add: vec_shared_by_def)

text \<open>Any list of values, and any two of the same length, can be tabulated.\<close>

lemma tab_self: "vec_shared_by add xs vs \<longleftrightarrow> vec_shared_by add xs (map (\<lambda>v. v) vs)"
  by simp

lemma tab_zip:
  assumes "vec_shared_by add xs us" "vec_shared_by add' ys vs" "length us = length vs"
  shows "vec_shared_by add xs (map fst (zip us vs))" "vec_shared_by add' ys (map snd (zip us vs))"
  using assms by simp_all

text \<open>The local part of a product of two shares, and a share of a public value.\<close>

definition local_prod :: "('a \<Rightarrow> 'a \<Rightarrow> 'a) \<Rightarrow> ('a \<Rightarrow> 'a \<Rightarrow> 'a) \<Rightarrow> 'a share \<Rightarrow> 'a share \<Rightarrow> 'a" where
  "local_prod add mul x y =
     add (add (mul (sh_a x) (sh_a y)) (mul (sh_a x) (sh_b y))) (mul (sh_b x) (sh_a y))"

definition trivial_share :: "'a \<Rightarrow> PartyID \<Rightarrow> 'a \<Rightarrow> 'a share" where
  "trivial_share zero i v =
     (case i of ID0 \<Rightarrow> Share v zero | ID1 \<Rightarrow> Share zero v | ID2 \<Rightarrow> Share zero zero)"

definition map2_share :: "('a \<Rightarrow> 'b \<Rightarrow> 'c) \<Rightarrow> 'a share \<Rightarrow> 'b share \<Rightarrow> 'c share" where
  "map2_share f x y = Share (f (sh_a x) (sh_a y)) (f (sh_b x) (sh_b y))"

subsection \<open>The common theory\<close>

locale share_ring =
  fixes add :: "'a \<Rightarrow> 'a \<Rightarrow> 'a" and zero :: 'a and neg :: "'a \<Rightarrow> 'a" and mul :: "'a \<Rightarrow> 'a \<Rightarrow> 'a"
  assumes add_assoc: "add (add x y) z = add x (add y z)"
    and add_comm: "add x y = add y x"
    and add_zero: "add zero x = x"
    and add_neg: "add x (neg x) = zero"
    and mul_comm: "mul x y = mul y x"
    and mul_add: "mul x (add y z) = add (mul x y) (mul x z)"
begin

lemma add_left_comm: "add x (add y z) = add y (add x z)"
  by (metis add_assoc add_comm)

lemmas add_ac = add_assoc add_comm add_left_comm

lemma add_zero_right: "add x zero = x"
  by (metis add_comm add_zero)

lemma add_mul: "mul (add y z) x = add (mul y x) (mul z x)"
  by (simp add: mul_comm[of _ x] mul_add)

lemma sum3_add: "sum3 add (\<lambda>i. add (x i) (y i)) = add (sum3 add x) (sum3 add y)"
  by (simp add: sum3_def add_ac)

lemma masks_cancel: "sum3 add (\<lambda>i. add (z i) (neg (z (prev_id i)))) = zero"
proof -
  have 1: "add a (add (neg b) (add b y)) = add a y" for a b y
    by (metis add_assoc add_comm add_neg add_zero)
  have "sum3 add (\<lambda>i. add (z i) (neg (z (prev_id i)))) =
      add (z ID0) (add (neg (z ID2)) (add (z ID2) (add (z ID1) (add (neg (z ID0)) (neg (z ID1))))))"
    by (simp add: sum3_def add_ac)
  also have "\<dots> = add (z ID0) (add (z ID1) (add (neg (z ID0)) (neg (z ID1))))"
    by (simp only: 1)
  also have "\<dots> = add (add (z ID0) (neg (z ID0))) (add (z ID1) (neg (z ID1)))"
    by (simp only: add_ac)
  finally show ?thesis by (simp add: add_neg add_zero)
qed

lemma shared_add:
  "shared_by add x u \<Longrightarrow> shared_by add y v \<Longrightarrow>
   shared_by add (\<lambda>i. map2_share add (x i) (y i)) (add u v)"
  by (auto simp: shared_by_def map2_share_def sum3_add)

lemma shared_map:
  assumes "\<And>a b. f (add a b) = add (f a) (f b)" and "shared_by add x u"
  shows "shared_by add (\<lambda>i. Share (f (sh_a (x i))) (f (sh_b (x i)))) (f u)"
  using assms by (auto simp: shared_by_def sum3_def)

lemma shared_scale:
  "shared_by add x u \<Longrightarrow>
   shared_by add (\<lambda>i. Share (mul (sh_a (x i)) c) (mul (sh_b (x i)) c)) (mul u c)"
  by (rule shared_map) (simp_all add: add_mul)

lemma shared_trivial: "shared_by add (\<lambda>i. trivial_share zero i v) v"
  by (rule shared_byI) (auto simp: trivial_share_def add_zero add_zero_right split: PartyID.splits)

lemma sum3_local_prod:
  assumes "shared_by add x u" "shared_by add y v"
  shows "sum3 add (\<lambda>i. local_prod add mul (x i) (y i)) = mul u v"
  using assms[THEN shared_by_sum] assms[THEN shared_byD]
  by (simp add: sum3_def local_prod_def mul_add add_mul add_ac)

text \<open>The masked local products, exchanged, are a sharing of the product.\<close>

lemma shared_product:
  assumes "shared_by add x u" "shared_by add y v" "sum3 add m = zero"
    and "\<And>i. z i = add (local_prod add mul (x i) (y i)) (m i)"
  shows "shared_by add (\<lambda>i. Share (z i) (z (prev_id i))) (mul u v)"
proof (rule shared_by_reshare)
  have "sum3 add z = add (sum3 add (\<lambda>i. local_prod add mul (x i) (y i))) (sum3 add m)"
    using sum3_add[of "\<lambda>i. local_prod add mul (x i) (y i)" m] by (simp add: assms(4) sum3_def)
  then show "sum3 add z = mul u v" by (simp add: sum3_local_prod[OF assms(1,2)] assms(3) add_zero_right)
qed

lemma shared_open:
  "shared_by add x v \<Longrightarrow> add (add (sh_a (x i)) (sh_b (x i))) (sh_b (x (prev_id i))) = v"
  by (cases i) (simp_all add: shared_by_def sum3_def add_ac)

lemma sum3_rotate: "add (add (z i) (z (prev_id i))) (z (next_id i)) = sum3 add z"
  by (cases i) (simp_all add: sum3_def add_ac)

lemma vec_shared_sum: 
  assumes "vec_shared_by add xs vs"
  shows "shared_by add (\<lambda>i. Share (foldr add (map sh_a (xs i)) zero) (foldr add (map sh_b (xs i)) zero))
     (foldr add vs zero)"
  using assms
proof (induction vs arbitrary: xs)
  case Nil
  then show ?case by (auto simp: shared_by_def sum3_def add_zero)
next
  case (Cons v vs)
  have xs: "xs i = hd (xs i) # tl (xs i)" for i
    using vec_shared_byD(1)[OF Cons.prems, of i] by (cases "xs i") auto
  from shared_add[OF vec_shared_by_Cons(1)[OF Cons.prems] Cons.IH[OF vec_shared_by_Cons(2)[OF Cons.prems]]]
  show ?case
    by (subst xs, subst xs) (simp add: map2_share_def)
qed

end

interpretation arith: share_ring "(+)" 0 uminus "(*) :: 'a::comm_ring_1 \<Rightarrow> 'a \<Rightarrow> 'a"
  by unfold_locales (simp_all add: algebra_simps)

interpretation bits: share_ring "(XOR)" 0 "\<lambda>x. x" "(AND) :: 'a::semiring_bit_operations \<Rightarrow> 'a \<Rightarrow> 'a"
  by unfold_locales (simp_all add: xor.assoc xor.commute xor.left_commute and.commute and_xor_distrib)

end
