(* ===== verification/Example_Env.thy ===== *)
theory Example_Env
  imports Sharing
begin

text \<open>
  A concrete instance of the interfaces of theory \<open>Traits\<close>: the field with five elements, a
  counter as random generator and tagged lists as wire format.  It satisfies \<open>lawful_net\<close>,
  \<open>lawful_field\<close> and \<open>lawful_rng\<close>, so the hypotheses of the protocol theorems can hold; the
  concrete runs of the development are over it.
\<close>

subsection \<open>A wire format\<close>

datatype wire =
    WField "5 list" | WBig "nat list" | WBigs "nat list list" | WBig2 "(nat \<times> nat) list"
  | WBigs2 "(nat list \<times> nat list) list" | WSeed "nat list" | WSeed2 "(nat \<times> nat) list"

definition tag_codec :: "('a list \<Rightarrow> 'w) \<Rightarrow> ('w \<Rightarrow> 'a list option) \<Rightarrow> ('a, 'w) codec" where
  "tag_codec c d = \<lparr>ser = \<lambda>xs. Some (c xs), deser = d\<rparr>"

lemma lawful_tag_codec: "(\<And>xs. d (c xs) = Some xs) \<Longrightarrow> lawful_codec (tag_codec c d)"
  by (simp add: lawful_codec_def tag_codec_def)

subsection \<open>A generator\<close>

text \<open>Draws count upwards from the seed.\<close>

definition ex_rng :: "(nat, nat) rng_ops" where
  "ex_rng = \<lparr>from_seed = \<lambda>s. s, gen_seed = \<lambda>r. (2 * r + 1, r + 1),
     gen_u32 = \<lambda>r. (of_nat r, r + 1), fill_bytes = \<lambda>n r. (map of_nat [r..<r + n], r + n)\<rparr>"

lemma ex_rng_lawful: "lawful_rng ex_rng"
  by (simp add: lawful_rng_def ex_rng_def)

subsection \<open>A field\<close>

definition ex_field :: "(5, nat) field_ops" where
  "ex_field = \<lparr>f_rand = \<lambda>r. (of_nat r, r + 1),
     from_be_bytes_mod_order = \<lambda>bs. of_nat (foldl (\<lambda>n b. n * 256 + unat b) 0 bs),
     modulus = 5, modulus_bit_size = 3,
     into_biguint = \<lambda>x. nat (Rep_bit1 x), from_biguint = of_nat,
     f_inverse = \<lambda>x. if x = 0 then None else Some (x ^ 3),
     f_sqrt = \<lambda>x. if x = 0 then Some 0 else if x = 1 then Some 1 else if x = 4 then Some 2 else None,
     two_inv = 3\<rparr>"

lemma five_cases: "x = 0 \<or> x = 1 \<or> x = 2 \<or> x = 3 \<or> x = (4 :: 5)"
proof (cases x rule: bit1_cases)
  case (of_int z)
  then have "z = 0 \<or> z = 1 \<or> z = 2 \<or> z = 3 \<or> z = 4" by auto
  with of_int show ?thesis by auto
qed

lemma five_numerals: "(6 :: 5) = 1" "(8 :: 5) = 3" "(12 :: 5) = 2" "(24 :: 5) = 4"
  by simp_all

lemma Rep_five_of_nat: "Rep_bit1 (of_nat n :: 5) = int (n mod 5)"
  using bit1.of_int_eq[of "int n", where ?'a = "2"] bit1.Rep_Abs_mod[where ?'a = "2"]
  by (simp add: zmod_int)

lemma five_of_nat_Rep: "of_nat (nat (Rep_bit1 x)) = (x :: 5)"
  using bit1.of_int_eq[of "Rep_bit1 x", where ?'a = "2"] bit1.Rep_mod[of x] Rep_bit1[of x]
  by (simp add: bit1.Rep_inverse)

lemma ex_field_lawful: "lawful_field ex_field"
  unfolding lawful_field_def
proof (intro conjI allI impI)
  fix x :: 5
  show "into_biguint ex_field x < modulus ex_field"
    using bit1.Rep_less_n[of x] Rep_bit1[of x] by (simp add: ex_field_def)
  show "f_inverse ex_field x = Some y \<Longrightarrow> x * y = 1" for y
    using five_cases[of x] by (auto simp: ex_field_def)
qed (auto simp: ex_field_def five_of_nat_Rep Rep_five_of_nat split: if_splits)

definition ex_env :: "(5, nat, nat, wire) env" where
  "ex_env = \<lparr>fld = ex_field, rngop = ex_rng,
     fcodec = tag_codec WField (\<lambda>w. case w of WField xs \<Rightarrow> Some xs | _ \<Rightarrow> None),
     bcodec = tag_codec WBig (\<lambda>w. case w of WBig xs \<Rightarrow> Some xs | _ \<Rightarrow> None),
     bvcodec = tag_codec WBigs (\<lambda>w. case w of WBigs xs \<Rightarrow> Some xs | _ \<Rightarrow> None),
     b2codec = tag_codec WBig2 (\<lambda>w. case w of WBig2 xs \<Rightarrow> Some xs | _ \<Rightarrow> None),
     bv2codec = tag_codec WBigs2 (\<lambda>w. case w of WBigs2 xs \<Rightarrow> Some xs | _ \<Rightarrow> None)\<rparr>"

lemma ex_env_lawful: "lawful_net ex_env" "lawful_field (fld ex_env)"
  by (simp_all add: lawful_net_def ex_env_def lawful_tag_codec ex_field_lawful)

lemma ex_env_simps [simp]:
  "modulus (fld ex_env) = 5" "modulus_bit_size (fld ex_env) = 3"
  "into_biguint (fld ex_env) 0 = 0" "into_biguint (fld ex_env) 1 = 1"
  "into_biguint (fld ex_env) (numeral k) = numeral k mod 5"
  using lawful_fieldD(7)[OF ex_field_lawful, of 0] lawful_fieldD(7)[OF ex_field_lawful, of 1]
    lawful_fieldD(7)[OF ex_field_lawful, of "numeral k"]
  by (simp_all add: ex_env_def) (simp_all add: ex_field_def)

definition ex_seeds :: "(nat, wire) codec" where
  "ex_seeds = tag_codec WSeed (\<lambda>w. case w of WSeed xs \<Rightarrow> Some xs | _ \<Rightarrow> None)"

definition ex_seed_pairs :: "(nat \<times> nat, wire) codec" where
  "ex_seed_pairs = tag_codec WSeed2 (\<lambda>w. case w of WSeed2 xs \<Rightarrow> Some xs | _ \<Rightarrow> None)"

lemma ex_seed_codecs: "lawful_codec ex_seeds" "lawful_codec ex_seed_pairs"
  by (simp_all add: ex_seeds_def ex_seed_pairs_def lawful_tag_codec)

subsection \<open>Concrete sharings\<close>

definition dealt :: "'a \<Rightarrow> 'a \<Rightarrow> 'a \<Rightarrow> PartyID \<Rightarrow> 'a share" where
  "dealt a b c = triple (Share a c, Share b a, Share c b)"

lemma dealt_ashare: "a + b + c = v \<Longrightarrow> ashare (dealt a b c) (v :: 'f::comm_ring_1)"
  unfolding dealt_def by (rule shared_by3I) (simp_all add: add.assoc)

lemma dealt_bshare: "a XOR b XOR c = v \<Longrightarrow> bshare (dealt a b c) v"
  unfolding dealt_def by (rule shared_by3I) (simp_all add: xor.assoc)

lemma dealt_list:
  "shared_by add x v \<Longrightarrow> vec_shared_by add xs vs \<Longrightarrow> vec_shared_by add (\<lambda>i. x i # xs i) (v # vs)"
  "vec_shared_by add (\<lambda>i. []) []"
  by (auto simp: vec_shared_by_def nth_Cons split: nat.splits)

end
