(* ===== verification/Setup.thy ===== *)
theory Setup
  imports Example_Env
begin

text \<open>
  Construction of the contexts (\<open>IoContext::init\<close> and \<open>IoContext::fork\<close> of
  \<open>network.rs\<close>).  The three parties exchange seeds so that the contexts they build are
  \<open>correlated\<close>; a fork draws its generators from the sources that all forks of a party share
  (\<open>rng_src\<close> and \<open>rngs_src\<close>, behind an \<open>Arc\<close>), which are therefore passed along
  explicitly, and keeps the forks of the parties correlated.
\<close>

subsection \<open>Set-up of the generators\<close>

text \<open>
  The state of these programs is the party's own generator; \<open>i\<close> is \<open>network.get_id()\<close>.
  \<open>cs\<close> and \<open>cp\<close> serialise seeds and pairs of seeds.
\<close>

definition setup_prf ::
  "('s, 'r) rng_ops \<Rightarrow> ('s, 'w) codec \<Rightarrow> PartyID \<Rightarrow> ('w, 'r, 'r Rep3Rand) sprog" where
  "setup_prf R cs i rng =
     (let (seed1, rng) = gen_seed R rng
      in qbind (send cs (next_id i) seed1) (\<lambda>_.
         qbind (recv cs (prev_id i)) (\<lambda>seed2.
         qret (rep3_rand_new R seed1 seed2))) rng)"

definition setup_bitcomp ::
  "('s, 'r) rng_ops \<Rightarrow> ('s, 'w) codec \<Rightarrow> ('s \<times> 's, 'w) codec \<Rightarrow> PartyID \<Rightarrow> 'r Rep3Rand \<Rightarrow>
   ('w, 'r, ('r Rep3RandBitComp \<times> 'r Rep3RandBitComp) \<times> 'r Rep3Rand) sprog" where
  "setup_bitcomp R cs cp i rands =
     (let ((k1a, k1c), rands) = random_seeds R rands;
          ((k2a, k2c), rands) = random_seeds R rands
      in case i of
        ID0 \<Rightarrow> qbind (send cs (next_id i) k1c) (\<lambda>_.
               qbind (recv cp (prev_id i)) (\<lambda>(k1b, k2b).
               qret ((new_3keys R k1a k1b k1c, new_3keys R k2a k2b k2c), rands)))
      | ID1 \<Rightarrow> qbind (send cp (next_id i) (k1c, k2c)) (\<lambda>_.
               qbind (recv cs (prev_id i)) (\<lambda>k1b.
               qret ((new_3keys R k1a k1b k1c, new_2keys R k2a k2c), rands)))
      | ID2 \<Rightarrow> qbind (send cp (next_id i) (k1c, k2c)) (\<lambda>_.
               qbind (recv cp (prev_id i)) (\<lambda>(k1b, k2b).
               qret ((new_3keys R k1a k1b k1c, new_3keys R k2a k2b k2c), rands))))"

record 'r rng_sources =
  rng_src :: 'r
  rngs_src :: "'r Rep3CorrelatedRng"

definition get_state :: "('w, 's, 's) sprog" where
  "get_state s = Done (Inr s, s)"

definition init_ctx ::
  "('s, 'r) rng_ops \<Rightarrow> ('s, 'w) codec \<Rightarrow> ('s \<times> 's, 'w) codec \<Rightarrow> PartyID \<Rightarrow>
   ('w, 'r, 'r IoContext \<times> 'r rng_sources) sprog" where
  "init_ctx R cs cp i =
     qbind (setup_prf R cs i) (\<lambda>rand.
     qbind (setup_bitcomp R cs cp i rand) (\<lambda>((bc1, bc2), rand).
     qbind get_state (\<lambda>rng.
       let (child, master) = correlated_fork R \<lparr>rand = rand, bitcomp1 = bc1, bitcomp2 = bc2\<rparr>
       in qret (\<lparr>ctx_id = i, rngs = child, own_rng = rng, mpc_type = Online\<rparr>,
                \<lparr>rng_src = rng, rngs_src = master\<rparr>))))"

definition set_mpc_type :: "MPCType \<Rightarrow> 'r IoContext \<Rightarrow> 'r IoContext" where
  "set_mpc_type t ctx = ctx\<lparr>mpc_type := t\<rparr>"

definition fork_ctx ::
  "('s, 'r) rng_ops \<Rightarrow> 'r IoContext \<Rightarrow> 'r rng_sources \<Rightarrow> 'r IoContext \<times> 'r rng_sources" where
  "fork_ctx R ctx src =
     (let (child_rngs, master) = correlated_fork R (rngs_src src);
          (child_rng, r) = fork_rng R (rng_src src)
      in (\<lparr>ctx_id = ctx_id ctx, rngs = child_rngs, own_rng = child_rng, mpc_type = mpc_type ctx\<rparr>,
          \<lparr>rng_src = r, rngs_src = master\<rparr>))"

subsection \<open>Forking keeps the correlation\<close>

lemma correlated_fork_synced:
  assumes "rngs_synced S"
  shows "rngs_synced (\<lambda>i. fst (correlated_fork R (S i)))"
    and "rngs_synced (\<lambda>i. snd (correlated_fork R (S i)))"
  using assms
  by (auto simp: rngs_synced_def rand_synced_def bitcomp1_synced_def bitcomp2_synced_def
      correlated_fork_def rep3_rand_fork_def rep3_rand_new_def random_seeds_def
      bitcomp_fork_def fork_rng_def split_beta Let_def)

lemma fork_ctx_correlated:
  assumes "correlated C" "rngs_synced (\<lambda>i. rngs_src (S i))"
  shows "correlated (\<lambda>i. fst (fork_ctx R (C i) (S i)))"
    and "rngs_synced (\<lambda>i. rngs_src (snd (fork_ctx R (C i) (S i))))"
  using assms correlated_fork_synced[OF assms(2)]
  by (auto simp: correlated_def fork_ctx_def split_beta Let_def)

lemma set_mpc_type_correlated: "correlated C \<Longrightarrow> correlated (\<lambda>i. set_mpc_type t (C i))"
  by (simp add: correlated_def set_mpc_type_def)

text \<open>\<open>n\<close> successive forks, as \<open>IoContextPool::init\<close> makes them.\<close>

primrec fork_many ::
  "('s, 'r) rng_ops \<Rightarrow> nat \<Rightarrow> 'r IoContext \<Rightarrow> 'r rng_sources \<Rightarrow> 'r IoContext list \<times> 'r rng_sources" where
  "fork_many R 0 ctx src = ([], src)"
| "fork_many R (Suc n) ctx src =
     (let (c, src) = fork_ctx R ctx src; (cs, src) = fork_many R n ctx src in (c # cs, src))"

lemma fork_many_correlated:
  assumes "correlated C" "rngs_synced (\<lambda>i. rngs_src (S i))"
  shows "length (fst (fork_many R n (C i) (S i))) = n"
    and "k < n \<Longrightarrow> correlated (\<lambda>i. fst (fork_many R n (C i) (S i)) ! k)"
    and "rngs_synced (\<lambda>i. rngs_src (snd (fork_many R n (C i) (S i))))"
  using assms(2)
proof (induction n arbitrary: S k)
  case 0
  { case 1 show ?case by simp next case 2 then show ?case by simp next case 3 then show ?case by simp }
next
  case (Suc n)
  { case 1
    from Suc.IH(1)[OF fork_ctx_correlated(2)[OF assms(1) 1(1), of R]] show ?case
      by (simp add: split_beta Let_def)
  next
    case 2
    from Suc.IH(2)[OF _ fork_ctx_correlated(2)[OF assms(1) 2(2), of R]] 2(1)
      fork_ctx_correlated(1)[OF assms(1) 2(2), of R] show ?case
      by (cases k) (simp_all add: split_beta Let_def)
  next
    case 3
    from Suc.IH(3)[OF fork_ctx_correlated(2)[OF assms(1) 3(1), of R]] show ?case
      by (simp add: split_beta Let_def) }
qed

lemma fork_many_mode:
  "k < n \<Longrightarrow> mpc_type (fst (fork_many R n ctx src) ! k) = mpc_type ctx"
  by (induction n arbitrary: k src)
    (auto simp: fork_ctx_def split_beta Let_def nth_Cons split: nat.splits)

subsection \<open>Initialisation establishes the correlation\<close>

lemma setup_prf_session:
  assumes "lawful_codec cs"
  shows "joint (\<lambda>i. setup_prf R cs i (r i))
     (\<lambda>i. (Inr (rep3_rand_new R (fst (gen_seed R (r i))) (fst (gen_seed R (r (prev_id i))))),
           snd (gen_seed R (r i))))"
proof -
  from lawful_codec_wires[OF assms] obtain w
    where w: "\<And>xs. ser cs xs = Some (w xs)" "\<And>xs. deser cs (w xs) = Some xs" by blast
  show ?thesis
    by (rule joint_session[where n = 3])
      (simp add: session_simps setup_prf_def send_def recv_def the_single_def qret_def w
        split_beta Let_def)
qed

definition bitcomps :: "('s, 'r) rng_ops \<Rightarrow> (PartyID \<Rightarrow> 's) \<Rightarrow> (PartyID \<Rightarrow> 's) \<Rightarrow> PartyID \<Rightarrow>
    'r Rep3RandBitComp \<times> 'r Rep3RandBitComp" where
  "bitcomps R k1 k2 i =
    (new_3keys R (k1 i) (k1 (next_id i)) (k1 (prev_id i)),
     if i = ID1 then new_2keys R (k2 i) (k2 (prev_id i))
     else new_3keys R (k2 i) (k2 (next_id i)) (k2 (prev_id i)))"

lemma setup_bitcomp_session:
  fixes R :: "('s, 'r) rng_ops"
  assumes "lawful_codec cs" "lawful_codec cp" "rand_synced s"
  defines "k1 \<equiv> \<lambda>i. fst (gen_seed R (rand_rng1 (s i)))"
    and "k2 \<equiv> \<lambda>i. fst (gen_seed R (snd (gen_seed R (rand_rng1 (s i)))))"
  shows "joint (\<lambda>i. setup_bitcomp R cs cp i (s i) (r i))
     (\<lambda>i. (Inr (bitcomps R k1 k2 i, snd (random_seeds R (snd (random_seeds R (s i))))), r i))"
proof -
  from lawful_codec_wires[OF assms(1)] obtain w
    where w: "\<And>xs. ser cs xs = Some (w xs)" "\<And>xs. deser cs (w xs) = Some xs" by blast
  from lawful_codec_wires[OF assms(2)] obtain v
    where v: "\<And>xs. ser cp xs = Some (v xs)" "\<And>xs. deser cp (v xs) = Some xs" by blast
  from assms(3) have s: "rand_rng2 (s i) = rand_rng1 (s (prev_id i))" for i
    by (simp add: rand_synced_def)
  show ?thesis
    by (rule joint_session[where n = 3])
      (simp add: session_simps setup_bitcomp_def send_def recv_def the_single_def qret_def w v
        random_seeds_def s k1_def k2_def bitcomps_def split_beta Let_def)
qed

lemma random_seeds_synced: "rand_synced s \<Longrightarrow> rand_synced (\<lambda>i. snd (random_seeds R (s i)))"
  by (simp add: rand_synced_def random_seeds_def split_beta Let_def)

lemma master_synced:
  "rand_synced s \<Longrightarrow> rngs_synced (\<lambda>i. \<lparr>rand = s i, bitcomp1 = fst (bitcomps R k1 k2 i),
     bitcomp2 = snd (bitcomps R k1 k2 i)\<rparr>)"
  by (simp add: rngs_synced_def bitcomp1_synced_def bitcomp2_synced_def bitcomps_def
      new_3keys_def)

lemma joint_qbind:
  assumes "joint (\<lambda>i. P i (s i)) (\<lambda>i. (Inr (V i), t i))" and "joint (\<lambda>i. K i (V i) (t i)) W"
  shows "joint (\<lambda>i. qbind (P i) (K i) (s i)) W"
  using joint_pbind[OF assms(1),
      of "\<lambda>i (r, s'). case r of Inl e \<Rightarrow> Done (Inl e, s') | Inr x \<Rightarrow> K i x s'"] assms(2)
  by (simp add: qbind_def)

lemma init_ctx_session:
  assumes "lawful_codec cs" "lawful_codec cp"
  shows "\<exists>C S r'. joint (\<lambda>i. init_ctx R cs cp i (r i)) (\<lambda>i. (Inr (C i, S i), r' i)) \<and>
     correlated C \<and> (\<forall>i. mpc_type (C i) = Online) \<and> rngs_synced (\<lambda>i. rngs_src (S i))"
proof -
  define s where "s = (\<lambda>i. rep3_rand_new R (fst (gen_seed R (r i))) (fst (gen_seed R (r (prev_id i)))))"
  define r' where "r' = (\<lambda>i. snd (gen_seed R (r i)))"
  have s: "rand_synced s" by (simp add: s_def rand_synced_def rep3_rand_new_def)
  define k1 where "k1 = (\<lambda>i. fst (gen_seed R (rand_rng1 (s i))))"
  define k2 where "k2 = (\<lambda>i. fst (gen_seed R (snd (gen_seed R (rand_rng1 (s i))))))"
  define m where "m = (\<lambda>i. \<lparr>rand = snd (random_seeds R (snd (random_seeds R (s i)))),
     bitcomp1 = fst (bitcomps R k1 k2 i), bitcomp2 = snd (bitcomps R k1 k2 i)\<rparr>)"
  define C where "C = (\<lambda>i. \<lparr>ctx_id = i, rngs = fst (correlated_fork R (m i)), own_rng = r' i, mpc_type = Online\<rparr>)"
  define S where "S = (\<lambda>i. \<lparr>rng_src = r' i, rngs_src = snd (correlated_fork R (m i))\<rparr>)"
  have m: "rngs_synced m"
    unfolding m_def by (intro master_synced random_seeds_synced s)
  have "joint (\<lambda>i. init_ctx R cs cp i (r i)) (\<lambda>i. (Inr (C i, S i), r' i))"
    unfolding init_ctx_def
  proof (rule joint_qbind[where V = s and t = r'])
    show "joint (\<lambda>i. setup_prf R cs i (r i)) (\<lambda>i. (Inr (s i), r' i))"
      using setup_prf_session[OF assms(1)] by (simp add: s_def r'_def)
    show "joint (\<lambda>i. qbind (setup_bitcomp R cs cp i (s i))
        (\<lambda>((bc1, bc2), rand). qbind get_state (\<lambda>rng.
         let (child, master) = correlated_fork R \<lparr>rand = rand, bitcomp1 = bc1, bitcomp2 = bc2\<rparr>
         in qret (\<lparr>ctx_id = i, rngs = child, own_rng = rng, mpc_type = Online\<rparr>,
                \<lparr>rng_src = rng, rngs_src = master\<rparr>))) (r' i)) (\<lambda>i. (Inr (C i, S i), r' i))"
      by (rule joint_qbind[OF setup_bitcomp_session[OF assms s, folded k1_def k2_def]])
        (simp add: qbind_def get_state_def qret_def C_def S_def m_def k1_def k2_def split_beta Let_def joint_Done_pair)
  qed
  moreover from m have "correlated C" "rngs_synced (\<lambda>i. rngs_src (S i))"
    using correlated_fork_synced[OF m, of R] by (simp_all add: C_def S_def correlated_def)
  moreover have "\<forall>i. mpc_type (C i) = Online" by (simp add: C_def)
  ultimately show ?thesis by blast
qed

subsection \<open>Properties\<close>



text \<open>
  (C11) Forking keeps the parties in step: when the parties' contexts are correlated and their
  sources agree, the \<open>k\<close>-th of \<open>n\<close> successive forks is again a correlated triple of contexts
  in the same mode, for every \<open>k\<close>, and the sources agree afterwards.
\<close>

theorem fork_many_keeps_correlation:
  assumes "correlated C" "rngs_synced (\<lambda>i. rngs_src (S i))"
  shows "(\<forall>k < n. correlated (\<lambda>i. fst (fork_many R n (C i) (S i)) ! k) \<and>
        (\<forall>i. mpc_type (fst (fork_many R n (C i) (S i)) ! k) = mpc_type (C i))) \<and>
     rngs_synced (\<lambda>i. rngs_src (snd (fork_many R n (C i) (S i))))"
  using fork_many_correlated[OF assms] fork_many_mode by blast

definition ex_rngs :: "PartyID \<Rightarrow> nat Rep3CorrelatedRng" where
  "ex_rngs i = \<lparr>rand = \<lparr>rand_rng1 = party_index i, rand_rng2 = party_index (prev_id i)\<rparr>,
     bitcomp1 = fst (bitcomps ex_rng party_index party_index i),
     bitcomp2 = snd (bitcomps ex_rng party_index party_index i)\<rparr>"

definition ex_ctx :: "PartyID \<Rightarrow> nat IoContext" where
  "ex_ctx i = \<lparr>ctx_id = i, rngs = ex_rngs i, own_rng = 7, mpc_type = Online\<rparr>"

lemma ex_rngs_synced: "rngs_synced ex_rngs"
  unfolding ex_rngs_def[abs_def] by (rule master_synced) (simp add: rand_synced_def)

lemma ex_ctx_correlated: "correlated ex_ctx"
  using ex_rngs_synced by (simp add: correlated_def ex_ctx_def)

theorem fork_many_keeps_correlation_witness:
  "correlated ex_ctx \<and> rngs_synced ex_rngs \<and>
   correlated (\<lambda>i. fst (fork_many ex_rng 3 (ex_ctx i) \<lparr>rng_src = 1, rngs_src = ex_rngs i\<rparr>) ! 2)"
  using fork_many_keeps_correlation[OF ex_ctx_correlated,
      of "\<lambda>i. \<lparr>rng_src = 1, rngs_src = ex_rngs i\<rparr>" 3 ex_rng] ex_rngs_synced ex_ctx_correlated
  by simp

end
