(* ===== verification/Rep3_Types.thy ===== *)
theory Rep3_Types
  imports Example_Env
begin

text \<open>
  The share types of the field protocols and how a dealer shares and reconstructs values:
  \<open>rep3/types/arithmetic.rs\<close>, \<open>rep3/types/binary.rs\<close>, \<open>rep3.rs\<close> and the additive shares of
  \<open>additive\<close>.  A \<open>Rep3PrimeFieldShare\<close> is a \<open>share\<close> of field elements with the
  additive structure of theory \<open>Sharing\<close>; a \<open>Rep3BigUintShare\<close> is a \<open>share\<close> of natural
  numbers under exclusive or; an additive share is a field element.
\<close>

subsection \<open>Rep3PrimeFieldShare\<close>

definition share_scale :: "'f::times share \<Rightarrow> 'f \<Rightarrow> 'f share" where
  "share_scale x c = Share (sh_a x * c) (sh_b x * c)"

definition local_mul :: "'f::{plus, times} share \<Rightarrow> 'f share \<Rightarrow> 'f" where
  "local_mul x y = sh_a x * sh_a y + sh_a x * sh_b y + sh_b x * sh_a y"

definition into_additive :: "('f::{plus, times}, 'r) field_ops \<Rightarrow> 'f share \<Rightarrow> 'f" where
  "into_additive F x = (sh_a x + sh_b x) * two_inv F"

definition promote_from_trivial :: "'f::zero \<Rightarrow> PartyID \<Rightarrow> 'f share" where
  "promote_from_trivial v i =
     (case i of ID0 \<Rightarrow> Share v 0 | ID1 \<Rightarrow> Share 0 v | ID2 \<Rightarrow> Share 0 0)"

definition share_sum :: "'f::ab_group_add share list \<Rightarrow> 'f share" where
  "share_sum xs = foldl (+) 0 xs"

lemma local_mul_prod: "local_mul = local_prod (+) (*)"
  by (simp add: fun_eq_iff local_mul_def local_prod_def)

lemma promote_trivial: "promote_from_trivial v i = trivial_share 0 i v"
  by (simp add: promote_from_trivial_def trivial_share_def split: PartyID.splits)

named_theorems ashare_intros

lemma ashare_add [ashare_intros]:
  "ashare x u \<Longrightarrow> ashare y v \<Longrightarrow> ashare (\<lambda>i. x i + y i) (u + v)"
  for x :: "PartyID \<Rightarrow> 'f::comm_ring_1 share"
  using arith.shared_add by (simp add: plus_share_def map2_share_def)

lemma ashare_uminus [ashare_intros]: "ashare x u \<Longrightarrow> ashare (\<lambda>i. - x i) (- u)"
  for x :: "PartyID \<Rightarrow> 'f::comm_ring_1 share"
  using arith.shared_map[of uminus] by (simp add: uminus_share_def)

lemma ashare_diff [ashare_intros]:
  "ashare x u \<Longrightarrow> ashare y v \<Longrightarrow> ashare (\<lambda>i. x i - y i) (u - v)"
  for x :: "PartyID \<Rightarrow> 'f::comm_ring_1 share"
  using ashare_add[of x u "\<lambda>i. - y i" "- v"] ashare_uminus by fastforce

lemma ashare_scale [ashare_intros]: "ashare x u \<Longrightarrow> ashare (\<lambda>i. share_scale (x i) c) (u * c)"
  for x :: "PartyID \<Rightarrow> 'f::comm_ring_1 share"
  using arith.shared_scale by (simp add: share_scale_def)

lemma ashare_zero [ashare_intros]: "ashare (\<lambda>i. 0) (0 :: 'f::comm_ring_1)"
  by (rule shared_byI) simp_all

lemma ashare_promote [ashare_intros]: "ashare (promote_from_trivial v) (v :: 'f::comm_ring_1)"
  "ashare (\<lambda>i. promote_from_trivial v i) (v :: 'f::comm_ring_1)"
  using arith.shared_trivial[of v] by (simp_all add: promote_trivial[abs_def])

lemma sum3_local_mul:
  "ashare x u \<Longrightarrow> ashare y v \<Longrightarrow> sum3 (+) (\<lambda>i. local_mul (x i) (y i)) = u * (v :: 'f::comm_ring_1)"
  using arith.sum3_local_prod by (simp add: local_mul_prod)

lemma sum3_into_additive:
  assumes "two_inv F * 2 = 1" and "ashare x (v :: 'f::comm_ring_1)"
  shows "sum3 (+) (\<lambda>i. into_additive F (x i)) = v"
proof -
  have "sum3 (+) (\<lambda>i. into_additive F (x i)) = v * (two_inv F * 2)"
    using shared_by_sum[OF assms(2)] shared_byD[OF assms(2)]
    by (simp add: sum3_def into_additive_def algebra_simps)
  with assms(1) show ?thesis by simp
qed

subsection \<open>Rep3BigUintShare\<close>

definition bin_xor :: "'a::semiring_bit_operations share \<Rightarrow> 'a share \<Rightarrow> 'a share" where
  "bin_xor x y = Share (sh_a x XOR sh_a y) (sh_b x XOR sh_b y)"

definition bin_xor_both :: "'a::semiring_bit_operations share \<Rightarrow> 'a \<Rightarrow> 'a share" where
  "bin_xor_both x v = Share (sh_a x XOR v) (sh_b x XOR v)"

definition bin_and_public :: "'a::semiring_bit_operations share \<Rightarrow> 'a \<Rightarrow> 'a share" where
  "bin_and_public x v = Share (sh_a x AND v) (sh_b x AND v)"

definition local_and :: "'a::semiring_bit_operations share \<Rightarrow> 'a share \<Rightarrow> 'a" where
  "local_and x y = (sh_a x AND sh_a y) XOR (sh_a x AND sh_b y) XOR (sh_b x AND sh_a y)"

definition bin_shl :: "'a::semiring_bit_operations share \<Rightarrow> nat \<Rightarrow> 'a share" where
  "bin_shl x n = Share (push_bit n (sh_a x)) (push_bit n (sh_b x))"

definition bin_shr :: "'a::semiring_bit_operations share \<Rightarrow> nat \<Rightarrow> 'a share" where
  "bin_shr x n = Share (drop_bit n (sh_a x)) (drop_bit n (sh_b x))"

fun u64_digits :: "nat \<Rightarrow> nat list" where
  "u64_digits n = (if n = 0 then [] else (n mod 2 ^ 64) # u64_digits (n div 2 ^ 64))"

declare u64_digits.simps [simp del]

definition biguint_to_bits_le :: "nat \<Rightarrow> bool list" where
  "biguint_to_bits_le v =
     concat (map (\<lambda>digit. map (\<lambda>k. digit AND push_bit k 1 \<noteq> 0) [0..<64]) (u64_digits v))"

definition to_le_bits :: "('f, 'r) field_ops \<Rightarrow> nat share \<Rightarrow> nat share list" where
  "to_le_bits F x =
     map (\<lambda>(a, b). Share (of_bool a) (of_bool b))
       (take (modulus_bit_size F) (zip (biguint_to_bits_le (sh_a x)) (biguint_to_bits_le (sh_b x))))"

definition to_le_bits_padded :: "('f, 'r) field_ops \<Rightarrow> nat \<Rightarrow> nat share \<Rightarrow> nat share list" where
  "to_le_bits_padded F num_bits x =
     (let bits = take (modulus_bit_size F) (biguint_to_bits_le (sh_a x))
      in map (\<lambda>b. Share (of_bool b) 0) (bits @ replicate (num_bits - length bits) False))"

definition from_le_bits :: "nat share list \<Rightarrow> nat share" where
  "from_le_bits bits = foldl (\<lambda>int bit. bin_xor (bin_shl int 1) bit) (Share 0 0) (rev bits)"

named_theorems bshare_intros

lemma local_and_prod: "local_and = local_prod (XOR) (AND)"
  by (simp add: fun_eq_iff local_and_def local_prod_def xor.assoc)

lemma bshare_xor [bshare_intros]:
  "bshare x u \<Longrightarrow> bshare y v \<Longrightarrow> bshare (\<lambda>i. bin_xor (x i) (y i)) (u XOR v)"
  using bits.shared_add by (simp add: bin_xor_def map2_share_def)

lemma bshare_xor_both [bshare_intros]:
  "bshare x u \<Longrightarrow> bshare (\<lambda>i. bin_xor_both (x i) v) (u XOR v)"
  by (rule shared_byI) (auto simp: bin_xor_both_def shared_by_def sum3_def xor_cancel ac_simps)

lemma bshare_and_public [bshare_intros]:
  "bshare x u \<Longrightarrow> bshare (\<lambda>i. bin_and_public (x i) v) (u AND v)"
  using bits.shared_scale by (simp add: bin_and_public_def)

lemma bshare_shl [bshare_intros]: "bshare x u \<Longrightarrow> bshare (\<lambda>i. bin_shl (x i) n) (push_bit n u)"
  unfolding bin_shl_def by (rule bits.shared_map) simp_all

lemma bshare_shr [bshare_intros]: "bshare x u \<Longrightarrow> bshare (\<lambda>i. bin_shr (x i) n) (drop_bit n u)"
  unfolding bin_shr_def by (rule bits.shared_map) simp_all

lemma bshare_zero [bshare_intros]: "bshare (\<lambda>i. Share 0 0) 0"
  by (rule shared_byI) simp_all

lemma sum3_local_and:
  "bshare x u \<Longrightarrow> bshare y v \<Longrightarrow> sum3 (XOR) (\<lambda>i. local_and (x i) (y i)) = u AND v"
  using bits.sum3_local_prod by (simp add: local_and_prod)

subsection \<open>Dealing and reconstructing\<close>

definition share_field_element ::
  "('f::minus, 'r) field_ops \<Rightarrow> 'f \<Rightarrow> 'r \<Rightarrow> ('f share \<times> 'f share \<times> 'f share) \<times> 'r" where
  "share_field_element F val r =
     (let (a, r) = f_rand F r; (b, r) = f_rand F r; c = val - a - b
      in ((Share a c, Share b a, Share c b), r))"

definition share_field_element_additive ::
  "('f::minus, 'r) field_ops \<Rightarrow> 'f \<Rightarrow> 'r \<Rightarrow> ('f \<times> 'f \<times> 'f) \<times> 'r" where
  "share_field_element_additive F val r =
     (let (a, r) = f_rand F r; (b, r) = f_rand F r; c = val - a - b in ((a, b, c), r))"

primrec share_field_elements ::
  "('f::minus, 'r) field_ops \<Rightarrow> 'f list \<Rightarrow> 'r \<Rightarrow> ('f share list \<times> 'f share list \<times> 'f share list) \<times> 'r"
  where
  "share_field_elements F [] r = (([], [], []), r)"
| "share_field_elements F (val # vals) r =
     (let ((s1, s2, s3), r) = share_field_element F val r;
          ((ss1, ss2, ss3), r) = share_field_elements F vals r
      in ((s1 # ss1, s2 # ss2, s3 # ss3), r))"

primrec share_maybe_field_elements ::
  "('f::minus, 'r) field_ops \<Rightarrow> 'f option list \<Rightarrow> 'r \<Rightarrow>
   ('f share option list \<times> 'f share option list \<times> 'f share option list) \<times> 'r" where
  "share_maybe_field_elements F [] r = (([], [], []), r)"
| "share_maybe_field_elements F (val # vals) r =
     (case val of
        Some v \<Rightarrow> (let ((s1, s2, s3), r) = share_field_element F v r;
                       ((ss1, ss2, ss3), r) = share_maybe_field_elements F vals r
                   in ((Some s1 # ss1, Some s2 # ss2, Some s3 # ss3), r))
      | None \<Rightarrow> (let ((ss1, ss2, ss3), r) = share_maybe_field_elements F vals r
                 in ((None # ss1, None # ss2, None # ss3), r)))"

primrec share_field_elements_additive ::
  "('f::minus, 'r) field_ops \<Rightarrow> 'f list \<Rightarrow> 'r \<Rightarrow> ('f list \<times> 'f list \<times> 'f list) \<times> 'r" where
  "share_field_elements_additive F [] r = (([], [], []), r)"
| "share_field_elements_additive F (val # vals) r =
     (let ((s1, s2, s3), r) = share_field_element_additive F val r;
          ((ss1, ss2, ss3), r) = share_field_elements_additive F vals r
      in ((s1 # ss1, s2 # ss2, s3 # ss3), r))"

definition share_biguint ::
  "('s, 'r) rng_ops \<Rightarrow> ('f, 'r) field_ops \<Rightarrow> 'f \<Rightarrow> 'r \<Rightarrow> (nat share \<times> nat share \<times> nat share) \<times> 'r" where
  "share_biguint R F val r =
     (let (a, r) = gen_biguint R (modulus_bit_size F) r;
          (b, r) = gen_biguint R (modulus_bit_size F) r;
          c = into_biguint F val XOR a XOR b
      in ((Share a c, Share b a, Share c b), r))"

definition combine_field_element :: "'f::plus share \<Rightarrow> 'f share \<Rightarrow> 'f share \<Rightarrow> 'f" where
  "combine_field_element s1 s2 s3 = sh_a s1 + sh_a s2 + sh_a s3"

definition combine_field_elements ::
  "'f::plus share list \<Rightarrow> 'f share list \<Rightarrow> 'f share list \<Rightarrow> io_error + 'f list" where
  "combine_field_elements s1 s2 s3 =
     (if length s1 \<noteq> length s2 \<or> length s2 \<noteq> length s3 then Inl Panic
      else Inr (map (\<lambda>(x1, x2, x3). sh_a x1 + sh_a x2 + sh_a x3) (zip s1 (zip s2 s3))))"

definition combine_binary_element :: "nat share \<Rightarrow> nat share \<Rightarrow> nat share \<Rightarrow> nat" where
  "combine_binary_element s1 s2 s3 = sh_a s1 XOR sh_a s2 XOR sh_a s3"

subsubsection \<open>What is dealt is a sharing of the input\<close>

lemma share_field_element_shared:
  "ashare (triple (fst (share_field_element F v r))) (v :: 'f::comm_ring_1)"
  by (rule shared_by3I) (simp_all add: share_field_element_def split_beta Let_def)

lemma share_biguint_shared:
  "bshare (triple (fst (share_biguint R F v r))) (into_biguint F v)"
  by (rule shared_by3I) (simp_all add: share_biguint_def split_beta Let_def xor_cancel ac_simps)

lemma share_field_elements_shared:
  "ashares (triple (fst (share_field_elements F vs r))) (vs :: 'f::comm_ring_1 list)"
proof (induction vs arbitrary: r)
  case Nil
  then show ?case by (simp add: all_party)
next
  case (Cons v vs)
  let ?r = "snd (share_field_element F v r)"
  have fam: "triple (fst (share_field_elements F (v # vs) r)) i =
      triple (fst (share_field_element F v r)) i # triple (fst (share_field_elements F vs ?r)) i" for i
    by (cases i) (simp_all add: split_beta Let_def)
  with Cons.IH[of ?r] share_field_element_shared[of F v r] show ?case
    by (auto simp: vec_shared_by_def nth_Cons split: nat.splits)
qed

lemma combine_field_elements_shared:
  assumes "ashares x (vs :: 'f::comm_ring_1 list)"
  shows "combine_field_elements (x ID0) (x ID1) (x ID2) = Inr vs"
  using vec_shared_byD[OF assms]
  by (auto simp: combine_field_elements_def shared_by_def sum3_def intro!: nth_equalityI)

text \<open>
  (C35) Sharing a vector of field elements with \<open>share_field_elements\<close> and recombining the three
  parties' vectors with \<open>combine_field_elements\<close> returns the vector, whatever the generator
  yields: the dealer's three vectors have the length of the input and do not trip the
  assertions of the reconstruction.
\<close>

theorem share_combine_roundtrip:
  "(case fst (share_field_elements F vs r) of (s1, s2, s3) \<Rightarrow> combine_field_elements s1 s2 s3) =
   Inr (vs :: 'f::comm_ring_1 list)"
  using combine_field_elements_shared[OF share_field_elements_shared[of F vs r]]
  by (simp add: split_beta)

end
