(* ===== verification/Rep3_Arithmetic.thy ===== *)
theory Rep3_Arithmetic
  imports Rep3_Types
begin

text \<open>
  Arithmetic on shared field elements, \<open>rep3/arithmetic.rs\<close>: the local operations, the
  interactive ones (multiplication, opening, inversion, square root, selection, products) and
  their correctness in the logic of \<open>Protocol_Logic\<close>: from shares of \<open>u\<close> and \<open>v\<close> the three
  parties obtain shares of the result, whatever the correlated generators yield.  The
  comparisons of the same file are in \<open>Rep3_Compare\<close>.  The prefix \<open>rep3_\<close> stands for the
  module.
\<close>

subsection \<open>Local operations\<close>

definition rep3_add_public :: "'f::plus share \<Rightarrow> 'f \<Rightarrow> PartyID \<Rightarrow> 'f share" where
  "rep3_add_public x v i =
     (case i of ID0 \<Rightarrow> Share (sh_a x + v) (sh_b x) | ID1 \<Rightarrow> Share (sh_a x) (sh_b x + v) | ID2 \<Rightarrow> x)"

definition rep3_sub_shared_by_public :: "'f::{plus, uminus} share \<Rightarrow> 'f \<Rightarrow> PartyID \<Rightarrow> 'f share" where
  "rep3_sub_shared_by_public x v i = rep3_add_public x (- v) i"

definition rep3_sub_public_by_shared :: "'f::ab_group_add \<Rightarrow> 'f share \<Rightarrow> PartyID \<Rightarrow> 'f share" where
  "rep3_sub_public_by_shared v x i = rep3_add_public (- x) v i"

definition rep3_mul_public :: "'f::times share \<Rightarrow> 'f \<Rightarrow> 'f share" where
  "rep3_mul_public x v = share_scale x v"

definition rep3_div_shared_by_public ::
  "('f::{times, zero}, 'r) field_ops \<Rightarrow> 'f share \<Rightarrow> 'f \<Rightarrow> io_error + 'f share" where
  "rep3_div_shared_by_public F x v =
     (if v = 0 then Inl OtherError
      else case f_inverse F v of None \<Rightarrow> Inl Panic | Some b_inv \<Rightarrow> Inr (rep3_mul_public x b_inv))"

definition rep3_neg :: "'f::ab_group_add share \<Rightarrow> 'f share" where
  "rep3_neg x = - x"

definition rep3_add_mul_public :: "'f::comm_ring_1 share \<Rightarrow> 'f share \<Rightarrow> 'f \<Rightarrow> 'f share" where
  "rep3_add_mul_public a b c = a + rep3_mul_public b c"

definition rep3_promote_to_trivial_share :: "PartyID \<Rightarrow> 'f::zero \<Rightarrow> 'f share" where
  "rep3_promote_to_trivial_share i v =
     (case i of ID0 \<Rightarrow> Share v 0 | ID1 \<Rightarrow> Share 0 v | ID2 \<Rightarrow> Share 0 0)"

definition rep3_promote_to_trivial_shares :: "'f::zero list \<Rightarrow> PartyID \<Rightarrow> 'f share list" where
  "rep3_promote_to_trivial_shares vs i = map (rep3_promote_to_trivial_share i) vs"

definition field_mul_0_1_optimized :: "'f::{times, one, zero} \<Rightarrow> 'f \<Rightarrow> 'f" where
  "field_mul_0_1_optimized a b =
     (if a = 0 \<or> b = 0 then 0 else if a = 1 then b else if b = 1 then a else a * b)"

definition rep3_mul_public_0_1_optimized :: "'f::{times, one, zero} share \<Rightarrow> 'f \<Rightarrow> 'f share" where
  "rep3_mul_public_0_1_optimized x v =
     (if v = 0 then Share 0 0 else if v = 1 then x
      else Share (field_mul_0_1_optimized (sh_a x) v) (field_mul_0_1_optimized (sh_b x) v))"

definition rep3_pow_2_public ::
  "('f::comm_ring_1, 'r) field_ops \<Rightarrow> 'f share \<Rightarrow> 'f \<Rightarrow> io_error + 'f share" where
  "rep3_pow_2_public F x v =
     (if v = 0 then Inr x
      else let shift = into_biguint F v
           in if shift \<ge> 2 ^ 32 then Inl Panic
              else if shift \<ge> modulus_bit_size F then Inl Panic
              else Inr (rep3_mul_public x (2 ^ into_biguint F v)))"

definition rep3_sum_batched :: "'f::ab_group_add share list list \<Rightarrow> io_error + 'f share list" where
  "rep3_sum_batched vals =
     (case vals of
        [] \<Rightarrow> Inl Panic
      | val # _ \<Rightarrow>
          if \<exists>w \<in> set vals. length w < length val then Inl Panic
          else Inr (map (\<lambda>k. share_sum (map (\<lambda>w. w ! k) vals)) [0..<length val]))"

definition rep3_combine_field_elements_vec :: "'f::plus share list list \<Rightarrow> io_error + 'f list" where
  "rep3_combine_field_elements_vec shares =
     (case shares of [s0, s1, s2] \<Rightarrow> combine_field_elements s0 s1 s2 | _ \<Rightarrow> Inl Panic)"

subsection \<open>Interactive operations\<close>

definition masked_fe ::
  "('f::{plus, minus}, 'r, 's, 'w) env \<Rightarrow> 'f \<Rightarrow> ('w, 'r, 'f) prog" where
  "masked_fe E v = qbind (with_rand (masking_field_element (fld E))) (\<lambda>m. qret (v + m))"

text \<open>One mask per element, drawn in order.\<close>

definition masked_fes ::
  "('f::{plus, minus}, 'r, 's, 'w) env \<Rightarrow> 'f list \<Rightarrow> ('w, 'r, 'f list) prog" where
  "masked_fes E vs = qmap (masked_fe E) vs"

definition rep3_mul ::
  "('f::comm_ring_1, 'r, 's, 'w) env \<Rightarrow> 'f share \<Rightarrow> 'f share \<Rightarrow> ('w, 'r, 'f share) prog" where
  "rep3_mul E a b = qbind (masked_fe E (local_mul a b)) (\<lambda>local_a.
     qbind (reshare (fcodec E) local_a) (\<lambda>local_b. qret (Share local_a local_b)))"

definition rep3_reshare_vec ::
  "('f, 'r, 's, 'w) env \<Rightarrow> 'f list \<Rightarrow> ('w, 'r, 'f share list) prog" where
  "rep3_reshare_vec E local_a = qbind (reshare_many (fcodec E) local_a) (\<lambda>local_b.
     if length local_b \<noteq> length local_a then qfail InvalidData
     else qret (map2 Share local_a local_b))"

definition rep3_mul_vec ::
  "('f::comm_ring_1, 'r, 's, 'w) env \<Rightarrow> 'f share list \<Rightarrow> 'f share list \<Rightarrow> ('w, 'r, 'f share list) prog" where
  "rep3_mul_vec E lhs rhs =
     qbind (masked_fes E (map2 local_mul lhs rhs)) (rep3_reshare_vec E)"

definition rep3_mul_vec_par ::
  "('f::comm_ring_1, 'r, 's, 'w) env \<Rightarrow> 'f share list \<Rightarrow> 'f share list \<Rightarrow> ('w, 'r, 'f share list) prog" where
  "rep3_mul_vec_par E lhs rhs =
     qbind (qmap (\<lambda>_. with_rand (masking_field_element (fld E))) [0..<length lhs]) (\<lambda>rngs.
     rep3_reshare_vec E (map (\<lambda>((l, r), m). local_mul l r + m) (zip (zip lhs rhs) rngs)))"

definition rep3_open :: "('f::plus, 'r, 's, 'w) env \<Rightarrow> 'f share \<Rightarrow> ('w, 'r, 'f) prog" where
  "rep3_open E a = qbind (reshare (fcodec E) (sh_b a)) (\<lambda>c. qret (sh_a a + sh_b a + c))"

definition rep3_open_bit :: "('f, 'r, 's, 'w) env \<Rightarrow> nat share \<Rightarrow> ('w, 'r, nat) prog" where
  "rep3_open_bit E a = qbind (reshare (bcodec E) (sh_b a)) (\<lambda>c. qret (sh_a a XOR sh_b a XOR c))"

definition rep3_open_vec :: "('f::plus, 'r, 's, 'w) env \<Rightarrow> 'f share list \<Rightarrow> ('w, 'r, 'f list) prog" where
  "rep3_open_vec E xs =
     (let a = map sh_a xs; b = map sh_b xs
      in qbind (reshare_many (fcodec E) b) (\<lambda>c.
         qret (map (\<lambda>(a, b, c). a + b + c) (zip a (zip b c)))))"

definition rep3_cmux ::
  "('f::comm_ring_1, 'r, 's, 'w) env \<Rightarrow> 'f share \<Rightarrow> 'f share \<Rightarrow> 'f share \<Rightarrow> ('w, 'r, 'f share) prog" where
  "rep3_cmux E cond truthy falsy =
     (let b_min_a = truthy - falsy in qbind (rep3_mul E cond b_min_a) (\<lambda>d. qret (falsy + d)))"

definition rep3_cmux_vec ::
  "('f::comm_ring_1, 'r, 's, 'w) env \<Rightarrow> 'f share \<Rightarrow> 'f share list \<Rightarrow> 'f share list \<Rightarrow>
   ('w, 'r, 'f share list) prog" where
  "rep3_cmux_vec E cond truthy falsy =
     qbind (masked_fes E (map2 (\<lambda>t f. local_mul (t - f) cond + sh_a f) truthy falsy))
       (rep3_reshare_vec E)"

definition rep3_cmux_many ::
  "('f::comm_ring_1, 'r, 's, 'w) env \<Rightarrow> 'f share list \<Rightarrow> 'f share list \<Rightarrow> 'f share list \<Rightarrow>
   ('w, 'r, 'f share list) prog" where
  "rep3_cmux_many E cond truthy falsy =
     qbind (masked_fes E
        (map (\<lambda>((t, f), c). local_mul (t - f) c + sh_a f) (zip (zip truthy falsy) cond)))
       (rep3_reshare_vec E)"

definition rep3_add_mul ::
  "('f::comm_ring_1, 'r, 's, 'w) env \<Rightarrow> 'f share \<Rightarrow> 'f share \<Rightarrow> 'f share \<Rightarrow> ('w, 'r, 'f share) prog" where
  "rep3_add_mul E a b c = qbind (rep3_mul E c b) (\<lambda>m. qret (a + m))"

definition rep3_mul_open ::
  "('f::comm_ring_1, 'r, 's, 'w) env \<Rightarrow> 'f share \<Rightarrow> 'f share \<Rightarrow> ('w, 'r, 'f) prog" where
  "rep3_mul_open E a b = qbind (masked_fe E (local_mul a b)) (\<lambda>a.
     qbind (broadcast (fcodec E) a) (\<lambda>(b, c). qret (a + b + c)))"

definition rep3_mul_open_vec ::
  "('f::comm_ring_1, 'r, 's, 'w) env \<Rightarrow> 'f share list \<Rightarrow> 'f share list \<Rightarrow> ('w, 'r, 'f list) prog" where
  "rep3_mul_open_vec E a b =
     qbind (masked_fes E (map2 local_mul a b)) (\<lambda>a.
     qbind (broadcast_many (fcodec E) a) (\<lambda>(b, c).
     qret (map (\<lambda>(a, b, c). a + (b + c)) (zip a (zip b c)) @
           drop (min (length b) (length c)) a)))"

definition rep3_rand :: "('f, 'r, 's, 'w) env \<Rightarrow> ('w, 'r, 'f share) prog" where
  "rep3_rand E = qbind (with_rand (random_fes (fld E))) (\<lambda>(a, b). qret (Share a b))"

definition rep3_inv ::
  "('f::comm_ring_1, 'r, 's, 'w) env \<Rightarrow> 'f share \<Rightarrow> ('w, 'r, 'f share) prog" where
  "rep3_inv E a = qbind (rep3_rand E) (\<lambda>r. qbind (rep3_mul_open E a r) (\<lambda>y.
     if y = 0 then qfail InvalidData
     else case f_inverse (fld E) y of
            None \<Rightarrow> qfail Panic
          | Some y_inv \<Rightarrow> qret (share_scale r y_inv)))"

definition rep3_div ::
  "('f::comm_ring_1, 'r, 's, 'w) env \<Rightarrow> 'f share \<Rightarrow> 'f share \<Rightarrow> ('w, 'r, 'f share) prog" where
  "rep3_div E a b = qbind (rep3_inv E b) (\<lambda>b_inv. rep3_mul E a b_inv)"

definition rep3_div_public_by_shared ::
  "('f::comm_ring_1, 'r, 's, 'w) env \<Rightarrow> 'f \<Rightarrow> 'f share \<Rightarrow> ('w, 'r, 'f share) prog" where
  "rep3_div_public_by_shared E v x = qbind (rep3_inv E x) (\<lambda>x_inv. qret (rep3_mul_public x_inv v))"

definition rep3_inv_vec ::
  "('f::comm_ring_1, 'r, 's, 'w) env \<Rightarrow> 'f share list \<Rightarrow> ('w, 'r, 'f share list) prog" where
  "rep3_inv_vec E a =
     qbind (qmap (\<lambda>_. rep3_rand E) [0..<length a]) (\<lambda>r.
     qbind (rep3_mul_open_vec E a r) (\<lambda>y.
       if \<exists>v \<in> set y. v = 0 then qfail InvalidData
       else qmap (\<lambda>(r, y). case f_inverse (fld E) y of
                     None \<Rightarrow> qfail Panic
                   | Some y_inv \<Rightarrow> qret (share_scale r y_inv)) (zip r y)))"

definition rep3_sqrt ::
  "('f::comm_ring_1, 'r, 's, 'w) env \<Rightarrow> 'f share \<Rightarrow> ('w, 'r, 'f share) prog" where
  "rep3_sqrt E x =
     qbind (rep3_rand E) (\<lambda>r_squ.
     qbind (rep3_rand E) (\<lambda>r_inv.
     qbind (rep3_mul E r_squ r_squ) (\<lambda>rr.
     qbind (rep3_mul_vec E [rr, r_squ] [x, r_inv]) (\<lambda>mul.
     qbind (send_next_many (fcodec E) (map sh_b mul)) (\<lambda>_.
     qbind (recv_prev_many (fcodec E)) (\<lambda>c.
       if length c \<noteq> 2 then qfail InvalidData
       else case f_sqrt (fld E) (sh_a (mul ! 0) + sh_b (mul ! 0) + c ! 0) of
              None \<Rightarrow> qfail InvalidData
            | Some y_sq \<Rightarrow>
                (let y_inv = sh_a (mul ! 1) + sh_b (mul ! 1) + c ! 1
                 in if y_inv = 0 then qfail InvalidData
                    else case f_inverse (fld E) y_inv of
                           None \<Rightarrow> qfail Panic
                         | Some y_inv \<Rightarrow>
                             (let r_squ_inv = share_scale r_inv y_inv
                              in qret (share_scale r_squ_inv y_sq)))))))))"

function pow_loop ::
  "('f::comm_ring_1, 'r, 's, 'w) env \<Rightarrow> nat \<Rightarrow> 'f share \<Rightarrow> 'f share \<Rightarrow>
   ('w, 'r, 'f share \<times> 'f share) prog" where
  "pow_loop E n res shared =
     (if n = 0 then qret (res, shared)
      else qbind (if odd n then rep3_mul E res shared else qret res) (\<lambda>res.
           qbind (rep3_mul E shared shared) (\<lambda>shared. pow_loop E (n div 2) res shared)))"
  by auto
termination by (relation "measure (\<lambda>(E, n, res, shared). n)") auto

declare pow_loop.simps [simp del]

definition rep3_pow_public ::
  "('f::comm_ring_1, 'r, 's, 'w) env \<Rightarrow> 'f share \<Rightarrow> 'f \<Rightarrow> ('w, 'r, 'f share) prog" where
  "rep3_pow_public E shared v = qbind get_id (\<lambda>i.
     qbind (pow_loop E (into_biguint (fld E) v) (rep3_promote_to_trivial_share i 1) shared)
       (\<lambda>(res, shared). rep3_mul E res shared))"

definition rep3_arithmetic_xor ::
  "('f::comm_ring_1, 'r, 's, 'w) env \<Rightarrow> 'f share \<Rightarrow> 'f share \<Rightarrow> ('w, 'r, 'f share) prog" where
  "rep3_arithmetic_xor E x y = qbind (masked_fe E (local_mul x y)) (\<lambda>d.
     let d = d + d; e = sh_a x + sh_a y; res_a = e - d
     in qbind (reshare (fcodec E) res_a) (\<lambda>res_b. qret (Share res_a res_b)))"

definition rep3_arithmetic_xor_many ::
  "('f::comm_ring_1, 'r, 's, 'w) env \<Rightarrow> 'f share list \<Rightarrow> 'f share list \<Rightarrow> ('w, 'r, 'f share list) prog" where
  "rep3_arithmetic_xor_many E x y =
     qbind (masked_fes E (map2 local_mul x y)) (\<lambda>ds.
       let a = map (\<lambda>((x, y), d). (sh_a x + sh_a y) - (d + d)) (zip (zip x y) ds)
       in qbind (reshare_many (fcodec E) a) (\<lambda>b. qret (map2 Share a b)))"

definition rep3_product ::
  "('f::comm_ring_1, 'r, 's, 'w) env \<Rightarrow> 'f share list \<Rightarrow> ('w, 'r, 'f share) prog" where
  "rep3_product E shares =
     (case shares of
        [] \<Rightarrow> qfail Panic
      | x # xs \<Rightarrow> qfold (\<lambda>x acc. rep3_mul E acc x) xs x)"

definition rep3_product_into_additive ::
  "('f::comm_ring_1, 'r, 's, 'w) env \<Rightarrow> 'f share list \<Rightarrow> 'f option \<Rightarrow> ('w, 'r, 'f) prog" where
  "rep3_product_into_additive E shares public_extra =
     (let n = length shares; extra = (case public_extra of None \<Rightarrow> 1 | Some v \<Rightarrow> v)
      in if n = 0 then qfail Panic
         else if n = 1 then qret (into_additive (fld E) (share_scale (shares ! 0) extra))
         else if n = 2 then qret (local_mul (shares ! 0) (share_scale (shares ! 1) extra))
         else qbind (qfold (\<lambda>x acc. rep3_mul E acc x) (take (n - 2) (drop 1 shares))
                       (share_scale (shares ! 0) extra)) (\<lambda>p.
              qret (local_mul p (last shares))))"

definition rep3_product_many ::
  "('f::comm_ring_1, 'r, 's, 'w) env \<Rightarrow> 'f share list list \<Rightarrow> ('w, 'r, 'f share list) prog" where
  "rep3_product_many E shares =
     (case shares of
        [] \<Rightarrow> qfail Panic
      | x # xs \<Rightarrow> qfold (\<lambda>x acc. rep3_mul_vec E acc x) xs x)"

definition rep3_product_many_into_additive ::
  "('f::comm_ring_1, 'r, 's, 'w) env \<Rightarrow> 'f share list list \<Rightarrow> 'f option \<Rightarrow> ('w, 'r, 'f list) prog" where
  "rep3_product_many_into_additive E shares public_extra =
     (let extra = (case public_extra of None \<Rightarrow> 1 | Some v \<Rightarrow> v)
      in case shares of
           [] \<Rightarrow> qfail Panic
         | s0 # _ \<Rightarrow>
             (let n = length s0
              in if \<exists>x \<in> set shares. length x < (if n = 2 then 2 else 1) then qfail Panic
                 else if n = 1 then qret (map (\<lambda>x. into_additive (fld E) (share_scale (x ! 0) extra)) shares)
                 else if n = 2 then qret (map (\<lambda>x. local_mul (x ! 0) (share_scale (x ! 1) extra)) shares)
                 else qbind (qfold (\<lambda>x acc. rep3_mul_vec E acc x) (take (n - 2) (drop 1 shares))
                               (map (\<lambda>x. share_scale (x ! 0) extra) shares)) (\<lambda>ps.
                      qret (map2 local_mul ps (map last shares)))))"

definition rep3_reshare_additive ::
  "('f, 'r, 's, 'w) env \<Rightarrow> 'f \<Rightarrow> ('w, 'r, 'f share) prog" where
  "rep3_reshare_additive E a = qbind (reshare (fcodec E) a) (\<lambda>prev. qret (Share a prev))"

definition rep3_reshare_additive_many ::
  "('f, 'r, 's, 'w) env \<Rightarrow> 'f list \<Rightarrow> ('w, 'r, 'f share list) prog" where
  "rep3_reshare_additive_many E a = qbind (reshare_many (fcodec E) a) (\<lambda>b. qret (map2 Share a b))"

subsection \<open>Correctness of the local operations\<close>

lemma ashare_add_public [ashare_intros]:
  "ashare x u \<Longrightarrow> ashare (\<lambda>i. rep3_add_public (x i) v i) (u + v)"
  for x :: "PartyID \<Rightarrow> 'f::comm_ring_1 share"
  by (rule shared_by3I) (auto simp: rep3_add_public_def shared_by_def sum3_def)

lemma ashare_sub_shared_by_public [ashare_intros]:
  "ashare x u \<Longrightarrow> ashare (\<lambda>i. rep3_sub_shared_by_public (x i) v i) (u - v)"
  for x :: "PartyID \<Rightarrow> 'f::comm_ring_1 share"
  using ashare_add_public[of x u "- v"] by (simp add: rep3_sub_shared_by_public_def)

lemma ashare_sub_public_by_shared [ashare_intros]:
  "ashare x u \<Longrightarrow> ashare (\<lambda>i. rep3_sub_public_by_shared v (x i) i) (v - u)"
  for x :: "PartyID \<Rightarrow> 'f::comm_ring_1 share"
  using ashare_add_public[OF ashare_uminus, of x u v]
  by (simp add: rep3_sub_public_by_shared_def add.commute)

lemma ashare_mul_public [ashare_intros]:
  "ashare x u \<Longrightarrow> ashare (\<lambda>i. rep3_mul_public (x i) v) (u * v)"
  for x :: "PartyID \<Rightarrow> 'f::comm_ring_1 share"
  by (simp add: rep3_mul_public_def ashare_scale)

lemma rep3_promote_eq: "rep3_promote_to_trivial_share i v = promote_from_trivial v i"
  by (simp add: rep3_promote_to_trivial_share_def promote_from_trivial_def)

lemma ashare_promote_to_trivial [ashare_intros]:
  "ashare (\<lambda>i. rep3_promote_to_trivial_share i v) (v :: 'f::comm_ring_1)"
  by (simp add: rep3_promote_eq ashare_promote)

lemma mul_0_1_optimized: "rep3_mul_public_0_1_optimized x v = share_scale x (v :: 'f::comm_ring_1)"
  by (simp add: rep3_mul_public_0_1_optimized_def field_mul_0_1_optimized_def share_scale_def)

lemma div_shared_by_public:
  assumes "lawful_field F" "v \<noteq> 0"
  shows "\<exists>w. v * w = 1 \<and> rep3_div_shared_by_public F x v = Inr (share_scale x w)"
  using assms lawful_fieldD(9,10)[OF assms(1)]
  by (auto simp: rep3_div_shared_by_public_def rep3_mul_public_def split: option.splits)

subsection \<open>Correctness of the interactive operations\<close>

lemma mpc_masked_fe [mpc_rules]:
  fixes v :: "PartyID \<Rightarrow> 'f::comm_ring_1"
  assumes "\<And>z. sum3 (+) z = sum3 (+) v \<Longrightarrow> Q z"
  shows "mpc (\<lambda>i. masked_fe E (v i)) Q"
  unfolding masked_fe_def draws_draw2
proof (intro mpc_rules assms)
  fix z :: "PartyID \<Rightarrow> 'f"
  have "sum3 (+) (\<lambda>i. z i - z (prev_id i)) = 0"
    using arith.masks_cancel[of z] by simp
  then show "sum3 (+) (\<lambda>i. v i + (z i - z (prev_id i))) = sum3 (+) v"
    by (simp only: arith.sum3_add add_0_right)
qed

lemma mpc_rep3_mul [mpc_rules]:
  assumes "lawful_net E" "ashare x u" "ashare y v" "\<And>z. ashare z (u * v) \<Longrightarrow> Q z"
  shows "mpc (\<lambda>i. rep3_mul E (x i) (y i)) Q"
  unfolding rep3_mul_def
  by (intro mpc_rules assms shared_by_reshare)
    (use assms in \<open>simp_all add: sum3_local_mul\<close>)

lemma mpc_reshare_vec [mpc_rules]:
  assumes "lawful_net E" "vec_summing (+) z vs" "\<And>x. ashares x vs \<Longrightarrow> Q x"
  shows "mpc (\<lambda>i. rep3_reshare_vec E (z i)) Q"
  unfolding rep3_reshare_vec_def
proof (intro mpc_rules)
  from assms(2) have "length (z (prev_id i)) = length (z i)" for i
    by (simp add: vec_summing_def)
  then show "mpc (\<lambda>i. if length (z (prev_id i)) \<noteq> length (z i) then qfail InvalidData
      else qret (map2 Share (z i) (z (prev_id i)))) Q"
    by (simp add: mpc_ret assms(3) vec_shared_by_reshare[OF assms(2)])
qed (use assms in simp)

lemma mpc_masked_fes [mpc_rules]:
  fixes y :: "PartyID \<Rightarrow> 'f::comm_ring_1 list"
  assumes "vec_summing (+) y vs" "\<And>z. vec_summing (+) z vs \<Longrightarrow> Q z"
  shows "mpc (\<lambda>i. masked_fes E (y i)) Q"
  unfolding masked_fes_def
proof (rule mpc_qmap[where n = "length vs" and R = "\<lambda>k z. sum3 (+) z = vs ! k"])
  fix x k assume "k < length vs" "\<And>i. x i = y i ! k"
  with assms(1) show "mpc (\<lambda>i. masked_fe E (x i)) (\<lambda>z. sum3 (+) z = vs ! k)"
    by (intro mpc_masked_fe) (simp add: vec_summing_def)
qed (use assms in \<open>simp_all add: vec_summing_def\<close>)

lemma vec_summing_local_mul:
  fixes x y :: "PartyID \<Rightarrow> 'f::comm_ring_1 share list"
  assumes "ashares x us" "ashares y vs" "length us = length vs"
  shows "vec_summing (+) (\<lambda>i. map2 local_mul (x i) (y i)) (map2 (*) us vs)"
  using assms sum3_local_mul by (fastforce simp: vec_summing_def vec_shared_by_def)

lemma mpc_rep3_mul_vec [mpc_rules]:
  assumes "lawful_net E" "ashares x us" "ashares y vs" "length us = length vs"
    and "\<And>z. ashares z (map2 (*) us vs) \<Longrightarrow> Q z"
  shows "mpc (\<lambda>i. rep3_mul_vec E (x i) (y i)) Q"
  unfolding rep3_mul_vec_def
  by (rule mpc_bind, rule mpc_masked_fes, rule vec_summing_local_mul[OF assms(2-4)])
    (rule mpc_reshare_vec[OF assms(1) _ assms(5)])

lemma mpc_rep3_open [mpc_rules]:
  fixes x :: "PartyID \<Rightarrow> 'f::comm_ring_1 share"
  assumes "lawful_net E" "ashare x v" "Q (\<lambda>i. v)"
  shows "mpc (\<lambda>i. rep3_open E (x i)) Q"
  unfolding rep3_open_def
  by (intro mpc_rules) (use assms arith.shared_open[OF assms(2)] in simp_all)

lemma mpc_rep3_open_bit [mpc_rules]:
  assumes "lawful_net E" "bshare x v" "Q (\<lambda>i. v)"
  shows "mpc (\<lambda>i. rep3_open_bit E (x i)) Q"
  unfolding rep3_open_bit_def
  by (intro mpc_rules) (use assms bits.shared_open[OF assms(2)] in \<open>simp_all add: xor.assoc\<close>)

lemma ashares_open:
  fixes x :: "PartyID \<Rightarrow> 'f::comm_ring_1 share list"
  assumes "ashares x vs"
  shows "map (\<lambda>(a, b, c). a + b + c) (zip (map sh_a (x i)) (zip (map sh_b (x i)) (map sh_b (x (prev_id i))))) = vs"
  using vec_shared_byD(1)[OF assms] arith.shared_open[OF vec_shared_byD(2)[OF assms]]
  by (auto intro!: nth_equalityI)

lemma mpc_rep3_open_vec [mpc_rules]:
  fixes x :: "PartyID \<Rightarrow> 'f::comm_ring_1 share list"
  assumes "lawful_net E" "ashares x vs" "Q (\<lambda>i. vs)"
  shows "mpc (\<lambda>i. rep3_open_vec E (x i)) Q"
  unfolding rep3_open_vec_def Let_def
proof (intro mpc_rules)
  from ashares_open[OF assms(2)] assms(3) show "Q (\<lambda>i. map (\<lambda>(a, b, c). a + b + c)
      (zip (map sh_a (x i)) (zip (map sh_b (x i)) (map sh_b (x (prev_id i))))))" by simp
qed (use assms in simp)

lemma mpc_rep3_cmux [mpc_rules]:
  assumes "lawful_net E" "ashare c w" "ashare t u" "ashare f v"
    and "\<And>z. ashare z (v + w * (u - v)) \<Longrightarrow> Q z"
  shows "mpc (\<lambda>i. rep3_cmux E (c i) (t i) (f i)) Q"
  unfolding rep3_cmux_def Let_def
  by (intro mpc_rules) (use assms in \<open>auto intro: ashare_intros\<close>)

lemma mpc_rep3_mul_open [mpc_rules]:
  assumes "lawful_net E" "ashare x u" "ashare y v" "Q (\<lambda>i. u * v)"
  shows "mpc (\<lambda>i. rep3_mul_open E (x i) (y i)) Q"
  unfolding rep3_mul_open_def
proof (intro mpc_rules)
  fix z assume "sum3 (+) z = sum3 (+) (\<lambda>i. local_mul (x i) (y i))"
  then have "z i + z (prev_id i) + z (next_id i) = u * v" for i
    using arith.sum3_rotate sum3_local_mul[OF assms(2,3)] by metis
  then show "mpc (\<lambda>i. case (z (prev_id i), z (next_id i)) of (b, c) \<Rightarrow> qret (z i + b + c)) Q"
    by (simp add: mpc_ret assms(4))
qed (use assms in simp)

lemma vec_summing_open:
  fixes z :: "PartyID \<Rightarrow> 'f::comm_ring_1 list"
  assumes "vec_summing (+) z vs"
  shows "map (\<lambda>(a, b, c). a + (b + c)) (zip (z i) (zip (z (prev_id i)) (z (next_id i)))) @
      drop (min (length (z (prev_id i))) (length (z (next_id i)))) (z i) = vs"
  using assms arith.sum3_rotate[of "\<lambda>i. z i ! k" i for k]
  by (auto simp: vec_summing_def add.assoc intro!: nth_equalityI)

lemma mpc_rep3_mul_open_vec [mpc_rules]:
  assumes "lawful_net E" "ashares x us" "ashares y vs" "length us = length vs" "Q (\<lambda>i. map2 (*) us vs)"
  shows "mpc (\<lambda>i. rep3_mul_open_vec E (x i) (y i)) Q"
  unfolding rep3_mul_open_vec_def
proof (rule mpc_bind, rule mpc_masked_fes, rule vec_summing_local_mul[OF assms(2-4)],
    rule mpc_bind, rule mpc_broadcast_many)
  fix z assume z: "vec_summing (+) z (map2 (*) us vs)"
  from vec_summing_open[OF z] assms(5) show "mpc (\<lambda>i. case (z (prev_id i), z (next_id i)) of (b, c) \<Rightarrow>
      qret (map (\<lambda>(a, b, c). a + (b + c)) (zip (z i) (zip b c)) @ drop (min (length b) (length c)) (z i))) Q"
    by (simp add: mpc_ret)
qed (use assms in simp)

lemma mpc_rep3_rand [mpc_rules]:
  fixes E :: "('f::comm_ring_1, 'r, 's, 'w) env"
  assumes "\<And>z v. ashare z v \<Longrightarrow> Q z"
  shows "mpc (\<lambda>i. rep3_rand E) Q"
  unfolding rep3_rand_def draws_draw2
  by (intro mpc_rules) (auto intro!: mpc_ret assms[OF shared_by_reshare[OF refl]])

lemma mpc_rep3_cmux_many [mpc_rules]:
  fixes c t f :: "PartyID \<Rightarrow> 'f::comm_ring_1 share list"
  assumes "lawful_net E" "ashares c ws" "ashares t us" "ashares f vs"
    and "length us = length vs" "length ws = length vs"
    and "\<And>z. ashares z (map (\<lambda>((u, v), w). v + w * (u - v)) (zip (zip us vs) ws)) \<Longrightarrow> Q z"
  shows "mpc (\<lambda>i. rep3_cmux_many E (c i) (t i) (f i)) Q"
  unfolding rep3_cmux_many_def
proof (intro mpc_rules assms)
  have "sum3 (+) (\<lambda>i. local_mul (t i ! k - f i ! k) (c i ! k) + sh_a (f i ! k)) =
      vs ! k + ws ! k * (us ! k - vs ! k)" if "k < length vs" for k
  proof -
    from that assms(2-6) have c: "ashare (\<lambda>i. c i ! k) (ws ! k)" and t: "ashare (\<lambda>i. t i ! k) (us ! k)"
      and f: "ashare (\<lambda>i. f i ! k) (vs ! k)" by (simp_all add: vec_shared_by_def)
    from sum3_local_mul[OF ashare_diff[OF t f] c] f show ?thesis
      by (simp add: arith.sum3_add shared_by_def mult.commute)
  qed
  with assms(2-6) show "vec_summing (+)
      (\<lambda>i. map (\<lambda>((t, f), c). local_mul (t - f) c + sh_a f) (zip (zip (t i) (f i)) (c i)))
      (map (\<lambda>((u, v), w). v + w * (u - v)) (zip (zip us vs) ws))"
    by (simp add: vec_summing_def vec_shared_by_def)
qed

lemma rep3_cmux_vec_many:
  "rep3_cmux_vec E c t f = rep3_cmux_many E (replicate (min (length t) (length f)) c) t f"
  by (simp add: rep3_cmux_vec_def rep3_cmux_many_def zip_replicate2 case_prod_unfold o_def)

lemma mpc_rep3_mul_vec_par [mpc_rules]:
  fixes x y :: "PartyID \<Rightarrow> 'f::comm_ring_1 share list"
  assumes "lawful_net E" "ashares x us" "ashares y vs" "length us = length vs"
    and "\<And>z. ashares z (map2 (*) us vs) \<Longrightarrow> Q z"
  shows "mpc (\<lambda>i. rep3_mul_vec_par E (x i) (y i)) Q"
  unfolding rep3_mul_vec_par_def
proof (rule mpc_bind, rule mpc_qmap[where n = "length vs" and R = "\<lambda>k m. sum3 (+) m = 0"])
  note l = vec_shared_byD(1)[OF assms(2)] vec_shared_byD(1)[OF assms(3)] assms(4)
  show "mpc (\<lambda>i. with_rand (masking_field_element (fld E))) (\<lambda>m. sum3 (+) m = 0)"
    unfolding draws_draw2 by (intro mpc_rules) (use arith.masks_cancel in simp)
  fix m :: "PartyID \<Rightarrow> 'f list"
  assume m: "\<And>i. length (m i) = length vs" "\<And>k. k < length vs \<Longrightarrow> sum3 (+) (\<lambda>i. m i ! k) = 0"
  have "vec_summing (+) (\<lambda>i. map (\<lambda>((l, r), m). local_mul l r + m) (zip (zip (x i) (y i)) (m i)))
      (map2 (*) us vs)"
    using vec_summing_local_mul[OF assms(2-4)] m l
    by (auto simp: vec_summing_def arith.sum3_add)
  then show "mpc (\<lambda>i. rep3_reshare_vec E
      (map (\<lambda>((l, r), m). local_mul l r + m) (zip (zip (x i) (y i)) (m i)))) Q"
    by (intro mpc_reshare_vec assms)
qed (use vec_shared_byD(1)[OF assms(2)] assms(4) in simp)

lemma mpc_or_ret: "Q V \<Longrightarrow> mpc_or (\<lambda>i. qret (V i)) Q E"
  by (intro mpc_or_mpc mpc_ret)

text \<open>
  Inversion blinds the input with a random \<open>r\<close> and opens the product: it succeeds with a share
  of the inverse, or all parties report that the product is zero.
\<close>

lemma mpc_rep3_inv:
  fixes E :: "('f::comm_ring_1, 'r, 's, 'w) env"
  assumes "lawful_net E" "lawful_field (fld E)" "ashare x u"
  shows "mpc_or (\<lambda>i. rep3_inv E (x i)) (\<lambda>z. \<exists>w. ashare z w \<and> u * w = 1) (\<lambda>e. e = InvalidData)"
  unfolding rep3_inv_def
proof (rule mpc_or_seq, rule mpc_rep3_rand, rule mpc_or_seq, rule mpc_rep3_mul_open[OF assms(1,3)], assumption)
  fix r v assume r: "ashare r (v :: 'f)"
  show "mpc_or (\<lambda>i. if u * v = 0 then qfail InvalidData
      else case f_inverse (fld E) (u * v) of None \<Rightarrow> qfail Panic
           | Some y_inv \<Rightarrow> qret (share_scale (r i) y_inv))
     (\<lambda>z. \<exists>w. ashare z w \<and> u * w = 1) (\<lambda>e. e = InvalidData)"
  proof (cases "f_inverse (fld E) (u * v)")
    case None
    then have "u * v = 0" using lawful_fieldD(9)[OF assms(2)] by simp
    then show ?thesis by (simp add: mpc_or_fails[OF mpc_fails_now])
  next
    case (Some y)
    from lawful_fieldD(9)[OF assms(2), of "u * v"] Some have "u * v \<noteq> 0" by simp
    moreover from lawful_fieldD(10)[OF assms(2) Some] have "u * (v * y) = 1" by (simp add: mult.assoc)
    ultimately
    show ?thesis using Some ashare_scale[OF r, of y] by (auto intro!: mpc_or_ret)
  qed
qed

lemma mpc_rep3_div:
  fixes E :: "('f::comm_ring_1, 'r, 's, 'w) env"
  assumes "lawful_net E" "lawful_field (fld E)" "ashare x u" "ashare y v"
  shows "mpc_or (\<lambda>i. rep3_div E (x i) (y i)) (\<lambda>z. \<exists>w. ashare z w \<and> w * v = u) (\<lambda>e. e = InvalidData)"
  unfolding rep3_div_def
proof (rule mpc_or_bind, rule mpc_or_consequence[OF mpc_rep3_inv[OF assms(1,2,4)]])
  fix z assume "\<exists>w. ashare z w \<and> v * w = 1"
  then obtain w where w: "ashare z w" "v * w = 1" by blast
  then have "u * w * v = u" by (simp add: algebra_simps)
  with assms(1,3) w(1)
  show "mpc_or (\<lambda>i. rep3_mul E (x i) (z i)) (\<lambda>z. \<exists>w. ashare z w \<and> w * v = u) (\<lambda>e. e = InvalidData)"
    by (intro mpc_or_mpc mpc_rep3_mul) auto
qed

lemma sum3_arithmetic_xor:
  fixes x y :: "PartyID \<Rightarrow> 'f::comm_ring_1 share"
  assumes "ashare x u" "ashare y v" "sum3 (+) z = u * v"
  shows "sum3 (+) (\<lambda>i. sh_a (x i) + sh_a (y i) - (z i + z i)) = u + v - 2 * u * v"
proof -
  have "sum3 (+) (\<lambda>i. sh_a (x i) + sh_a (y i) - (z i + z i)) = u + v - 2 * sum3 (+) z"
    using assms(1,2) by (simp add: shared_by_def sum3_def algebra_simps)
  with assms(3) show ?thesis by (simp add: mult.assoc)
qed

lemma vec_summing_arithmetic_xor:
  fixes x y :: "PartyID \<Rightarrow> 'f::comm_ring_1 share list"
  assumes "ashares x us" "ashares y vs" "length us = length vs" "vec_summing (+) d (map2 (*) us vs)"
  shows "vec_summing (+) (\<lambda>i. map (\<lambda>((x, y), d). sh_a x + sh_a y - (d + d)) (zip (zip (x i) (y i)) (d i)))
     (map2 (\<lambda>u v. u + v - 2 * u * v) us vs)"
  unfolding vec_summing_def
proof (intro conjI allI impI)
  fix i show "length (map (\<lambda>((x, y), d). sh_a x + sh_a y - (d + d)) (zip (zip (x i) (y i)) (d i))) =
      length (map2 (\<lambda>u v. u + v - 2 * u * v) us vs)"
    using assms by (simp add: vec_summing_def vec_shared_by_def)
next
  fix k assume "k < length (map2 (\<lambda>u v. u + v - 2 * u * v) us vs)"
  then have k: "k < length us" "k < length vs" using assms(3) by simp_all
  with assms(4) have "sum3 (+) (\<lambda>i. d i ! k) = us ! k * vs ! k" by (simp add: vec_summing_def)
  from sum3_arithmetic_xor[OF vec_shared_byD(2)[OF assms(1) k(1)] vec_shared_byD(2)[OF assms(2) k(2)] this] k assms
  show "sum3 (+) (\<lambda>i. map (\<lambda>((x, y), d). sh_a x + sh_a y - (d + d)) (zip (zip (x i) (y i)) (d i)) ! k) =
      map2 (\<lambda>u v. u + v - 2 * u * v) us vs ! k"
    by (simp add: vec_summing_def vec_shared_by_def)
qed

lemma mpc_rep3_arithmetic_xor [mpc_rules]:
  fixes E :: "('f::comm_ring_1, 'r, 's, 'w) env"
  assumes "lawful_net E" "ashare x u" "ashare y v" "\<And>z. ashare z (u + v - 2 * u * v) \<Longrightarrow> Q z"
  shows "mpc (\<lambda>i. rep3_arithmetic_xor E (x i) (y i)) Q"
  unfolding rep3_arithmetic_xor_def Let_def
proof (intro mpc_rules assms shared_by_reshare)
  fix z :: "PartyID \<Rightarrow> 'f" assume "sum3 (+) z = sum3 (+) (\<lambda>i. local_mul (x i) (y i))"
  then show "sum3 (+) (\<lambda>i. sh_a (x i) + sh_a (y i) - (z i + z i)) = u + v - 2 * u * v"
    using sum3_local_mul[OF assms(2,3)] by (intro sum3_arithmetic_xor[OF assms(2,3)]) simp
qed (use assms in simp)

lemma mpc_rep3_arithmetic_xor_many [mpc_rules]:
  fixes x y :: "PartyID \<Rightarrow> 'f::comm_ring_1 share list"
  assumes "lawful_net E" "ashares x us" "ashares y vs" "length us = length vs"
    and "\<And>z. ashares z (map2 (\<lambda>u v. u + v - 2 * u * v) us vs) \<Longrightarrow> Q z"
  shows "mpc (\<lambda>i. rep3_arithmetic_xor_many E (x i) (y i)) Q"
  unfolding rep3_arithmetic_xor_many_def Let_def
proof (rule mpc_bind, rule mpc_masked_fes, rule vec_summing_local_mul[OF assms(2-4)],
    rule mpc_bind, rule mpc_reshare_many)
  fix d assume d: "vec_summing (+) d (map2 (*) us vs)"
  let ?z = "\<lambda>i. map (\<lambda>((x, y), d). sh_a x + sh_a y - (d + d)) (zip (zip (x i) (y i)) (d i))"
  from assms(5)[OF vec_shared_by_reshare[OF vec_summing_arithmetic_xor[OF assms(2-4) d]]]
  show "mpc (\<lambda>i. qret (map2 Share (?z i) (?z (prev_id i)))) Q" by (rule mpc_ret)
qed (use assms(1) in simp)

lemma mpc_product_fold:
  fixes x :: "PartyID \<Rightarrow> 'f::comm_ring_1 share"
  assumes "lawful_net E" "ashare x u" "ashares xs vs" "\<And>z. ashare z (u * prod_list vs) \<Longrightarrow> Q z"
  shows "mpc (\<lambda>i. qfold (\<lambda>x acc. rep3_mul E acc x) (xs i) (x i)) Q"
  using assms(2-4)
proof (induction vs arbitrary: x u xs Q)
  case Nil
  then show ?case by (simp add: mpc_ret)
next
  case (Cons v vs)
  have xs: "xs i = hd (xs i) # tl (xs i)" for i
    using vec_shared_byD(1)[OF Cons.prems(2), of i] by (cases "xs i") auto
  note hd_tl = vec_shared_by_Cons[OF Cons.prems(2)]
  have "mpc (\<lambda>i. qfold (\<lambda>x acc. rep3_mul E acc x) (hd (xs i) # tl (xs i)) (x i)) Q"
    unfolding qfold.simps
    by (rule mpc_bind, rule mpc_rep3_mul[OF assms(1) Cons.prems(1) hd_tl(1)],
        rule Cons.IH[OF _ hd_tl(2)], assumption)
      (use Cons.prems(3) in \<open>simp add: mult.assoc\<close>)
  then show ?case by (rule mpc_cong) (simp add: xs[symmetric])
qed

lemma mpc_rep3_product:
  fixes xs :: "PartyID \<Rightarrow> 'f::comm_ring_1 share list"
  assumes "lawful_net E" "ashares xs vs" "vs \<noteq> []" "\<And>z. ashare z (prod_list vs) \<Longrightarrow> Q z"
  shows "mpc (\<lambda>i. rep3_product E (xs i)) Q"
proof -
  from assms(3) obtain v ws where vs: "vs = v # ws" by (cases vs) auto
  note hd_tl = vec_shared_by_Cons[OF assms(2)[unfolded vs]]
  have "mpc (\<lambda>i. qfold (\<lambda>x acc. rep3_mul E acc x) (tl (xs i)) (hd (xs i))) Q"
    by (rule mpc_product_fold[OF assms(1) hd_tl]) (use assms(4) vs in simp)
  moreover have "rep3_product E (xs i) = qfold (\<lambda>x acc. rep3_mul E acc x) (tl (xs i)) (hd (xs i))" for i
    using vec_shared_byD(1)[OF assms(2), of i] vs by (cases "xs i") (auto simp: rep3_product_def)
  ultimately show ?thesis by (rule mpc_cong)
qed

lemma mpc_rep3_product_into_additive:
  fixes xs :: "PartyID \<Rightarrow> 'f::comm_ring_1 share list"
  assumes "lawful_net E" "lawful_field (fld E)" "ashares xs vs" "vs \<noteq> []"
    and "\<And>z. sum3 (+) z = prod_list vs * (case e of None \<Rightarrow> 1 | Some v \<Rightarrow> v) \<Longrightarrow> Q z"
  shows "mpc (\<lambda>i. rep3_product_into_additive E (xs i) e) Q"
proof -
  define extra where "extra = (case e of None \<Rightarrow> 1 | Some v \<Rightarrow> v)"
  note len = vec_shared_byD(1)[OF assms(3)] and nth = vec_shared_byD(2)[OF assms(3)]
  consider "length vs = 1" | "length vs = 2" | "length vs > 2"
    using assms(4) by (cases vs rule: remdups_adj.cases) auto
  then show ?thesis
  proof cases
    case 1
    then obtain v where v: "vs = [v]" by (cases vs) auto
    with nth[of 0] have "ashare (\<lambda>i. share_scale (xs i ! 0) extra) (v * extra)"
      by (auto intro: ashare_scale)
    from sum3_into_additive[OF lawful_fieldD(8)[OF assms(2)] this] len v show ?thesis
      by (simp add: rep3_product_into_additive_def extra_def[symmetric])
        (intro mpc_ret assms(5), simp add: v extra_def[symmetric])
  next
    case 2
    then obtain v w where v: "vs = [v, w]" by (auto simp: numeral_2_eq_2 length_Suc_conv)
    from nth[of 0] nth[of 1] v have "ashare (\<lambda>i. xs i ! 0) v" "ashare (\<lambda>i. share_scale (xs i ! 1) extra) (w * extra)"
      by (auto intro: ashare_scale)
    from sum3_local_mul[OF this] len v show ?thesis
      by (simp add: rep3_product_into_additive_def extra_def[symmetric])
        (intro mpc_ret assms(5), simp add: v extra_def[symmetric] mult.assoc)
  next
    case 3
    define n where "n = length vs"
    have hd: "ashare (\<lambda>i. share_scale (xs i ! 0) extra) (vs ! 0 * extra)"
      using nth[of 0] 3 assms(4) by (simp add: ashare_scale)
    have mid: "ashares (\<lambda>i. take (n - 2) (drop 1 (xs i))) (take (n - 2) (drop 1 vs))"
      using assms(3) 3 by (simp add: vec_shared_by_def n_def)
    have "ashare (\<lambda>i. xs i ! (n - 1)) (vs ! (n - 1))" using nth 3 by (simp add: n_def)
    moreover have "last (xs i) = xs i ! (n - 1)" for i
      using len[of i] 3 by (subst last_conv_nth) (auto simp: n_def)
    ultimately have last: "ashare (\<lambda>i. last (xs i)) (last vs)" using assms(4) by (simp add: last_conv_nth n_def)
    have split: "vs = vs ! 0 # take (n - 2) (drop 1 vs) @ [last vs]"
      using 3 by (cases vs; cases "tl vs" rule: rev_cases) (auto simp: n_def)
    have "mpc (\<lambda>i. qbind (qfold (\<lambda>x acc. rep3_mul E acc x) (take (n - 2) (drop 1 (xs i)))
        (share_scale (xs i ! 0) extra)) (\<lambda>p. qret (local_mul p (last (xs i))))) Q"
    proof (rule mpc_bind, rule mpc_product_fold[OF assms(1) hd mid], intro mpc_ret assms(5))
      fix z assume "ashare z (vs ! 0 * extra * prod_list (take (n - 2) (drop 1 vs)))"
      from sum3_local_mul[OF this last]
      show "sum3 (+) (\<lambda>i. local_mul (z i) (last (xs i))) = prod_list vs * (case e of None \<Rightarrow> 1 | Some v \<Rightarrow> v)"
        by (subst split) (simp add: extra_def ac_simps)
    qed
    then show ?thesis
      by (rule mpc_cong) (use len 3 assms(4) in \<open>simp add: rep3_product_into_additive_def extra_def n_def Let_def\<close>)
  qed
qed

lemma mpc_pow_loop:
  fixes x :: "PartyID \<Rightarrow> 'f::comm_ring_1 share"
  assumes "lawful_net E" "ashare r a" "ashare x u"
    and "\<And>r' x'. ashare r' (a * u ^ n) \<Longrightarrow> ashare x' (u ^ (2 ^ bit_count n)) \<Longrightarrow> Q (\<lambda>i. (r' i, x' i))"
  shows "mpc (\<lambda>i. pow_loop E n (r i) (x i)) Q"
  using assms(2-4)
proof (induction n arbitrary: r a x u Q rule: less_induct)
  case (less n)
  show ?case
  proof (cases "n = 0")
    case True
    with less.prems show ?thesis by (simp add: pow_loop.simps[of E 0] bit_count.simps[of 0] mpc_ret)
  next
    case False
    have "a * u ^ n = (if odd n then a * u else a) * (u * u) ^ (n div 2)"
      by (cases "odd n") (auto elim!: evenE oddE simp: power_mult_distrib mult_2 power_add mult.assoc)
    moreover have "u ^ (2 ^ bit_count n) = (u * u) ^ (2 ^ bit_count (n div 2))"
      using False by (simp add: bit_count.simps[of n] power_mult power2_eq_square[symmetric])
    ultimately have step: "mpc (\<lambda>i. qbind (rep3_mul E (x i) (x i)) (\<lambda>s. pow_loop E (n div 2) (r' i) s)) Q"
      if "ashare r' (if odd n then a * u else a)" for r'
      using False less.prems(2,3) that
      by (intro mpc_bind mpc_rep3_mul[OF assms(1)] less.IH) auto
    have "mpc (\<lambda>i. qbind (if odd n then rep3_mul E (r i) (x i) else qret (r i))
        (\<lambda>res. qbind (rep3_mul E (x i) (x i)) (\<lambda>s. pow_loop E (n div 2) res s))) Q"
      using less.prems(1,2) step
      by (intro mpc_bind, cases "odd n") (simp_all add: mpc_rep3_mul[OF assms(1)] mpc_ret)
    then show ?thesis using False by (simp add: pow_loop.simps[of E n])
  qed
qed

lemma ashares2: "ashare x u \<Longrightarrow> ashare y v \<Longrightarrow> ashares (\<lambda>i. [x i, y i]) [u, v]"
  by (simp add: vec_shared_by_def less_Suc_eq)

lemma sqrt_finish:
  fixes F :: "('f::comm_ring_1, 'r) field_ops"
  assumes F: "lawful_field F" and r': "ashare r' v'"
  shows "mpc_or (\<lambda>i. if (2::nat) \<noteq> 2 then qfail InvalidData
       else case f_sqrt F (v * v * u) of
              None \<Rightarrow> qfail InvalidData
            | Some y_sq \<Rightarrow>
                (let y_inv = v * v'
                 in if y_inv = 0 then qfail InvalidData
                    else case f_inverse F y_inv of
                           None \<Rightarrow> qfail Panic
                         | Some y_inv \<Rightarrow>
                             (let r_squ_inv = share_scale (r' i) y_inv
                              in qret (share_scale r_squ_inv y_sq))))
     (\<lambda>z. \<exists>w. ashare z w \<and> w * w = u) (\<lambda>e. e = InvalidData)"
proof (cases "f_sqrt F (v * v * u)")
  case None
  then show ?thesis by (simp add: mpc_or_fails[OF mpc_fails_now])
next
  case (Some y)
  then have y: "y * y = v * v * u" by (rule lawful_fieldD(11)[OF F])
  show ?thesis
  proof (cases "f_inverse F (v * v')")
    case None
    then have "v * v' = 0" using lawful_fieldD(9)[OF F] by blast
    with Some show ?thesis by (simp add: mpc_or_fails[OF mpc_fails_now])
  next
    case (Some s)
    from lawful_fieldD(9)[OF F, of "v * v'"] Some have ne: "v * v' \<noteq> 0" by simp
    from lawful_fieldD(10)[OF F Some] have s: "v * (v' * s) = 1" by (simp add: mult.assoc)
    have "v' * s * y * (v' * s * y) = (v' * s) * (v' * s) * (y * y)" by (simp add: ac_simps)
    also have "\<dots> = (v * (v' * s)) * (v * (v' * s)) * u" unfolding y by (simp add: ac_simps)
    finally have "v' * s * y * (v' * s * y) = u" unfolding s by simp
    with ashare_scale[OF ashare_scale[OF r', of s], of y] ne Some \<open>f_sqrt F (v * v * u) = Some y\<close>
    show ?thesis by (auto simp: Let_def intro!: mpc_or_ret)
  qed
qed

lemma mpc_rep3_sqrt:
  fixes E :: "('f::comm_ring_1, 'r, 's, 'w) env"
  assumes "lawful_net E" "lawful_field (fld E)" "ashare x u"
  shows "mpc_or (\<lambda>i. rep3_sqrt E (x i)) (\<lambda>z. \<exists>w. ashare z w \<and> w * w = u) (\<lambda>e. e = InvalidData)"
  unfolding rep3_sqrt_def send_recv_reshare
proof (rule mpc_or_seq, rule mpc_rep3_rand, rule mpc_or_seq, rule mpc_rep3_rand, rule mpc_or_seq,
    rule mpc_rep3_mul[OF assms(1)], assumption, assumption, rule mpc_or_seq,
    rule mpc_rep3_mul_vec[OF assms(1) ashares2 ashares2[OF assms(3)]], assumption, assumption, assumption,
    simp, rule mpc_or_seq, rule mpc_reshare_many, goal_cases)
  case (2 r v r' v' rr m)
  then have m: "ashares m [v * v * u, v * v']" by simp
  have len: "length (map sh_b (m (prev_id i))) = 2" for i using vec_shared_byD(1)[OF m] by simp
  have y: "sh_a (m i ! 0) + sh_b (m i ! 0) + map sh_b (m (prev_id i)) ! 0 = v * v * u"
    "sh_a (m i ! 1) + sh_b (m i ! 1) + map sh_b (m (prev_id i)) ! 1 = v * v'" for i
    using arith.shared_open[OF vec_shared_byD(2)[OF m, of 0], of i]
      arith.shared_open[OF vec_shared_byD(2)[OF m, of 1], of i] vec_shared_byD(1)[OF m] by simp_all
  show ?case unfolding len y by (rule sqrt_finish[OF assms(2) 2(2)])
qed (use assms(1) in simp)

text \<open>
  The exponentiation multiplies the accumulator by the last square once more after the loop.
\<close>

lemma mpc_rep3_pow_public:
  fixes x :: "PartyID \<Rightarrow> 'f::comm_ring_1 share"
  assumes "lawful_net E" "ashare x u" "n = into_biguint (fld E) v"
    and "\<And>z. ashare z (u ^ (n + 2 ^ bit_count n)) \<Longrightarrow> Q z"
  shows "mpc (\<lambda>i. rep3_pow_public E (x i) v) Q"
  unfolding rep3_pow_public_def assms(3)[symmetric]
  by (rule mpc_bind, rule mpc_get_id, rule mpc_bind,
      rule mpc_pow_loop[OF assms(1) ashare_promote_to_trivial assms(2)])
    (auto intro!: mpc_rep3_mul[OF assms(1)] assms(4) simp: power_add)

subsection \<open>The layout of product_many_into_additive\<close>

lemma mpc_product_many_into_additive_3:
  fixes xs ys :: "PartyID \<Rightarrow> 'f::comm_ring_1 share list"
  assumes "lawful_net E" "ashares xs [x0, x1, x2]" "ashares ys [y0, y1, y2]"
    and "\<And>z. vec_summing (+) z [x0 * y0 * x2, y0 * y1 * y2] \<Longrightarrow> Q z"
  shows "mpc (\<lambda>i. rep3_product_many_into_additive E [xs i, ys i] None) Q"
proof -
  have len: "length (xs i) = 3" "length (ys i) = 3" for i
    using vec_shared_byD(1)[OF assms(2)] vec_shared_byD(1)[OF assms(3)] by simp_all
  have x: "ashare (\<lambda>i. xs i ! 0) x0" "ashare (\<lambda>i. xs i ! 2) x2"
    using vec_shared_byD(2)[OF assms(2), of 0] vec_shared_byD(2)[OF assms(2), of 2] by simp_all
  have y: "ashare (\<lambda>i. ys i ! 0) y0" "ashare (\<lambda>i. ys i ! 1) y1" "ashare (\<lambda>i. ys i ! 2) y2"
    using vec_shared_byD(2)[OF assms(3), of 0] vec_shared_byD(2)[OF assms(3), of 1]
      vec_shared_byD(2)[OF assms(3), of 2] by simp_all
  have heads: "ashares (\<lambda>i. [share_scale (xs i ! 0) 1, share_scale (ys i ! 0) 1]) [x0, y0]"
    by (rule ashares2) (use ashare_scale[OF x(1), of 1] ashare_scale[OF y(1), of 1] in simp_all)
  have row: "ashares (\<lambda>i. [ys i ! 0, ys i ! 1]) [y0, y1]" by (rule ashares2[OF y(1,2)])
  have last: "last (xs i) = xs i ! 2" "last (ys i) = ys i ! 2" for i
    using len[of i] by (auto simp: eval_nat_numeral length_Suc_conv)
  have short: "rep3_mul_vec E [a, b] (ys i) = rep3_mul_vec E [a, b] [ys i ! 0, ys i ! 1]" for a b i
    using len(2)[of i] by (auto simp: rep3_mul_vec_def eval_nat_numeral length_Suc_conv)
  have "mpc (\<lambda>i. qbind (rep3_mul_vec E [share_scale (xs i ! 0) 1, share_scale (ys i ! 0) 1] [ys i ! 0, ys i ! 1])
      (\<lambda>ps. qret (map2 local_mul ps [xs i ! 2, ys i ! 2]))) Q"
  proof (rule mpc_bind, rule mpc_rep3_mul_vec[OF assms(1) heads row], simp, rule mpc_ret, rule assms(4))
    fix z assume "ashares z (map2 (*) [x0, y0] [y0, y1])"
    from vec_summing_local_mul[OF this ashares2[OF x(2) y(3)]]
    show "vec_summing (+) (\<lambda>i. map2 local_mul (z i) [xs i ! 2, ys i ! 2]) [x0 * y0 * x2, y0 * y1 * y2]"
      by simp
  qed
  then show ?thesis
    by (rule mpc_cong)
      (use len in \<open>simp add: rep3_product_many_into_additive_def Let_def last short\<close>)
qed

subsection \<open>Properties\<close>

text \<open>
  (C9) Multiplication of two shared field elements, run by the three parties from correlated
  contexts over any lawful serialiser, succeeds at every party, leaves the contexts correlated
  and returns a replicated sharing of the product.
\<close>

theorem rep3_mul_correct:
  assumes "lawful_net E" "ashare x u" "ashare y v"
  shows "mpc (\<lambda>i. rep3_mul E (x i) (y i)) (\<lambda>z. ashare z (u * v))"
  using assms by (rule mpc_rep3_mul)

theorem rep3_mul_correct_witness:
  "mpc (\<lambda>i. rep3_mul ex_env (dealt 1 2 0 i) (dealt 4 4 1 i)) (\<lambda>z. ashare z (2 :: 5))"
  using rep3_mul_correct[OF ex_env_lawful(1) dealt_ashare[of 1 2 0 3] dealt_ashare[of 4 4 1 4]]
  by (simp add: five_numerals)

text \<open>
  (C10) The fused batch multiplication \<open>mul_vec\<close> and its variant \<open>mul_vec_par\<close>, which draws all
  masks before it multiplies, both return a sharing of the elementwise product of the two
  vectors.
\<close>

theorem rep3_mul_vec_correct:
  assumes "lawful_net E" "ashares x us" "ashares y vs" "length us = length vs"
  shows "mpc (\<lambda>i. rep3_mul_vec E (x i) (y i)) (\<lambda>z. ashares z (map2 (*) us vs)) \<and>
    mpc (\<lambda>i. rep3_mul_vec_par E (x i) (y i)) (\<lambda>z. ashares z (map2 (*) us vs))"
  by (intro conjI) (rule mpc_rep3_mul_vec[OF assms] mpc_rep3_mul_vec_par[OF assms], assumption)+

theorem rep3_mul_vec_correct_witness:
  "mpc (\<lambda>i. rep3_mul_vec_par ex_env [dealt 1 2 0 i, dealt 2 0 0 i] [dealt 0 0 1 i, dealt 4 4 1 i])
     (\<lambda>z. ashares z [3 :: 5, 3])"
  using rep3_mul_vec_correct[OF ex_env_lawful(1) ashares2[OF dealt_ashare[of 1 2 0 3] dealt_ashare[of 2 0 0 2]]
      ashares2[OF dealt_ashare[of 0 0 1 1] dealt_ashare[of 4 4 1 4]]]
  by (simp add: five_numerals)

text \<open>
  (C17) Inversion: all parties either obtain a sharing of the inverse of the shared value or all
  report \<open>InvalidData\<close>; when the shared value is zero (so that no inverse exists) they report
  it always.
\<close>

theorem rep3_inv_correct:
  fixes E :: "('f::comm_ring_1, 'r, 's, 'w) env"
  assumes "lawful_net E" "lawful_field (fld E)" "ashare x u"
  shows "mpc_or (\<lambda>i. rep3_inv E (x i)) (\<lambda>z. \<exists>w. ashare z w \<and> u * w = 1) (\<lambda>e. e = InvalidData) \<and>
    (u = 0 \<longrightarrow> mpc_fails (\<lambda>i. rep3_inv E (x i)) InvalidData)"
proof (intro conjI impI)
  show "mpc_fails (\<lambda>i. rep3_inv E (x i)) InvalidData" if "u = 0"
    using mpc_rep3_inv[OF assms] by (rule mpc_or_only_fails) (simp add: that)
qed (rule mpc_rep3_inv[OF assms])

theorem rep3_inv_correct_witness:
  "mpc_or (\<lambda>i. rep3_inv ex_env (dealt 1 2 0 i)) (\<lambda>z. \<exists>w. ashare z w \<and> 3 * w = (1 :: 5)) (\<lambda>e. e = InvalidData) \<and>
   mpc_fails (\<lambda>i. rep3_inv ex_env (dealt 1 2 2 i)) InvalidData"
  using rep3_inv_correct[OF ex_env_lawful dealt_ashare[of 1 2 0 3]]
    rep3_inv_correct[OF ex_env_lawful dealt_ashare[of 1 2 2 0]] by simp

text \<open>
  Square root: all parties either obtain a sharing of a square root of the shared value or
  all report \<open>InvalidData\<close>.
\<close>

theorem rep3_sqrt_correct:
  fixes E :: "('f::comm_ring_1, 'r, 's, 'w) env"
  assumes "lawful_net E" "lawful_field (fld E)" "ashare x u"
  shows "mpc_or (\<lambda>i. rep3_sqrt E (x i)) (\<lambda>z. \<exists>w. ashare z w \<and> w * w = u) (\<lambda>e. e = InvalidData)"
  using assms by (rule mpc_rep3_sqrt)

theorem rep3_sqrt_correct_witness:
  "mpc_or (\<lambda>i. rep3_sqrt ex_env (dealt 1 3 0 i)) (\<lambda>z. \<exists>w. ashare z w \<and> w * w = (4 :: 5)) (\<lambda>e. e = InvalidData)"
  using rep3_sqrt_correct[OF ex_env_lawful dealt_ashare[of 1 3 0 4]] by simp

text \<open>
  (C18) \<open>product_into_additive\<close> returns an additive sharing of the product of a non-empty vector
  times the optional public factor, for every number of factors: the special cases for one and
  two factors and the loop agree.
\<close>

theorem rep3_product_into_additive_correct:
  fixes xs :: "PartyID \<Rightarrow> 'f::comm_ring_1 share list"
  assumes "lawful_net E" "lawful_field (fld E)" "ashares xs vs" "vs \<noteq> []"
  shows "mpc (\<lambda>i. rep3_product_into_additive E (xs i) e)
     (\<lambda>z. sum3 (+) z = prod_list vs * (case e of None \<Rightarrow> 1 | Some v \<Rightarrow> v))"
  using assms by (rule mpc_rep3_product_into_additive)

theorem rep3_product_into_additive_correct_witness:
  "mpc (\<lambda>i. rep3_product_into_additive ex_env [dealt 1 2 0 i, dealt 2 0 0 i] (Some 4))
     (\<lambda>z. sum3 (+) z = (4 :: 5))"
  using rep3_product_into_additive_correct[OF ex_env_lawful
      ashares2[OF dealt_ashare[of 1 2 0 3] dealt_ashare[of 2 0 0 2]], of "Some 4"]
  by (simp add: five_numerals)

text \<open>
  (C37) What \<open>pow_public\<close> computes: the loop leaves \<open>x ^ n\<close> in \<open>res\<close> and \<open>x\<close> squared once per
  binary digit of the exponent \<open>n\<close> in \<open>shared\<close>, and the final multiplication combines the two,
  so the result is a sharing of \<open>x ^ (n + 2 ^ k)\<close>, where \<open>k\<close> is the number of binary digits
  of \<open>n\<close>, and not of \<open>x ^ n\<close>.
\<close>

theorem rep3_pow_public_exponent:
  fixes x :: "PartyID \<Rightarrow> 'f::comm_ring_1 share"
  assumes "lawful_net E" "ashare x u"
  shows "mpc (\<lambda>i. rep3_pow_public E (x i) v)
     (\<lambda>z. ashare z (u ^ (into_biguint (fld E) v + 2 ^ bit_count (into_biguint (fld E) v))))"
  by (rule mpc_rep3_pow_public[OF assms refl])

theorem rep3_pow_public_exponent_witness:
  "mpc (\<lambda>i. rep3_pow_public ex_env (dealt 1 1 0 i) 1) (\<lambda>z. ashare z (3 :: 5)) \<and> (2 :: 5) ^ 1 \<noteq> 3"
  using rep3_pow_public_exponent[OF ex_env_lawful(1) dealt_ashare[of 1 1 0 2], of 1]
  by (simp add: bit_count.simps five_numerals)



end
