(* ===== verification/Kogge_Stone.thy ===== *)
theory Kogge_Stone
  imports Prelude
begin

text \<open>
  The parallel-prefix adder both \<open>rep3/detail.rs\<close> and \<open>rep3_ring/detail.rs\<close> evaluate on
  shared bits, as a function on plain values, and its correctness.  With propagate bits \<open>p\<close>
  and generate bits \<open>g\<close>, the carry after bit \<open>j\<close> is \<open>g j \<oplus> (p j \<and> c)\<close> of the carry \<open>c\<close>
  before it.  These maps are affine, and the adder composes them over windows that double in
  every round.
\<close>

subsection \<open>Carries\<close>

primrec carries :: "(nat \<Rightarrow> bool) \<Rightarrow> (nat \<Rightarrow> bool) \<Rightarrow> nat \<Rightarrow> nat \<Rightarrow> bool \<Rightarrow> bool" where
  "carries g p lo 0 c = c"
| "carries g p lo (Suc m) c = (g (lo + m) \<noteq> (p (lo + m) \<and> carries g p lo m c))"

definition all_prop :: "(nat \<Rightarrow> bool) \<Rightarrow> nat \<Rightarrow> nat \<Rightarrow> bool" where
  "all_prop p lo m \<longleftrightarrow> (\<forall>t < m. p (lo + t))"

lemma carries_append: "carries g p lo (m + m') c = carries g p (lo + m) m' (carries g p lo m c)"
  by (induction m') (simp_all add: add.assoc)

lemma carries_affine: "carries g p lo m c = (carries g p lo m False \<noteq> (all_prop p lo m \<and> c))"
  by (induction m) (auto simp: all_prop_def less_Suc_eq)

lemma all_prop_append: "all_prop p lo (m + m') \<longleftrightarrow> all_prop p lo m \<and> all_prop p (lo + m) m'"
proof
  assume *: "all_prop p lo (m + m')"
  have "p (lo + m + t)" if "t < m'" for t
    using *[unfolded all_prop_def, rule_format, of "m + t"] that by (simp add: add.assoc)
  moreover have "p (lo + t)" if "t < m" for t
    using *[unfolded all_prop_def, rule_format, of t] that by simp
  ultimately show "all_prop p lo m \<and> all_prop p (lo + m) m'" by (simp add: all_prop_def)
next
  assume *: "all_prop p lo m \<and> all_prop p (lo + m) m'"
  have "p (lo + t)" if "t < m + m'" for t
    using * that by (cases "t < m") (auto simp: all_prop_def dest: spec[of _ "t - m"])
  then show "all_prop p lo (m + m')" by (simp add: all_prop_def)
qed

lemma carries_shift: "carries g p (Suc lo) m c = carries (\<lambda>j. g (Suc j)) (\<lambda>j. p (Suc j)) lo m c"
  by (induction m) simp_all

lemma carries_cong:
  "(\<And>j. lo \<le> j \<Longrightarrow> j < lo + m \<Longrightarrow> g j = g' j \<and> p j = p' j) \<Longrightarrow> carries g p lo m c = carries g' p' lo m c"
  by (induction m) simp_all

text \<open>A carry in is absorbed by correcting the lowest generate bit.\<close>

lemma carries_carry_in:
  assumes "\<And>k. g' k = (g k \<noteq> (k = 0 \<and> p k))" "p' = p"
  shows "carries g' p' 0 (Suc m) False = carries g p 0 (Suc m) True"
proof -
  have "carries g' p 0 (1 + m) False = carries g' p 1 m (carries g p 0 1 True)"
    by (subst carries_append) (auto simp: assms(1))
  also have "\<dots> = carries g p 1 m (carries g p 0 1 True)"
    by (rule carries_cong) (auto simp: assms(1))
  finally show ?thesis using carries_append[of g p 0 1 m True] by (simp add: assms(2))
qed

text \<open>Binary addition by carries, with a carry in.\<close>

lemma bit_add_carries:
  fixes a b :: nat
  shows "bit (a + b + of_bool c) j =
     ((bit a j \<noteq> bit b j) \<noteq> carries (\<lambda>k. bit a k \<and> bit b k) (\<lambda>k. bit a k \<noteq> bit b k) 0 j c)"
proof (induction j arbitrary: a b c)
  case 0
  then show ?case by (auto simp: bit_0)
next
  case (Suc j)
  define c' where "c' = ((odd a \<and> odd b) \<noteq> ((odd a \<noteq> odd b) \<and> c))"
  have "(a + b + of_bool c) div 2 = a div 2 + b div 2 + of_bool c'"
    unfolding c'_def by (cases "odd a"; cases "odd b"; cases c) (auto elim!: evenE oddE)
  with Suc.IH[of "a div 2" "b div 2" c']
    carries_append[of "\<lambda>k. bit a k \<and> bit b k" "\<lambda>k. bit a k \<noteq> bit b k" 0 1 j c]
  show ?case by (simp add: bit_Suc carries_shift c'_def bit_0)
qed

subsection \<open>The prefix network\<close>

text \<open>
  One round of the network on bits below \<open>n\<close> with shift \<open>s\<close>, and the window invariant: after
  the rounds with shifts below \<open>s\<close>, position \<open>j\<close> holds the affine map of the \<open>s\<close> bits that
  end at \<open>j\<close>.
\<close>

definition window :: "(nat \<Rightarrow> bool) \<Rightarrow> (nat \<Rightarrow> bool) \<Rightarrow> nat \<Rightarrow> nat \<Rightarrow> (nat \<Rightarrow> bool) \<Rightarrow> (nat \<Rightarrow> bool) \<Rightarrow> bool" where
  "window g p n s G P \<longleftrightarrow> (\<forall>j < n.
     G j = carries g p (Suc j - s) (min s (Suc j)) False \<and>
     P j = (s \<le> Suc j \<and> all_prop p (Suc j - s) s))"

lemma window_start: "window g p n 1 g p"
  by (auto simp: window_def all_prop_def min_def)

lemma window_round:
  assumes w: "window g p n s G P" and s: "0 < s"
    and G': "\<And>j. j < n \<Longrightarrow> G' j = (G j \<noteq> (s \<le> j \<and> P j \<and> G (j - s)))"
    and P': "\<And>j. j < n \<Longrightarrow> P' j = (s \<le> j \<and> P j \<and> P (j - s))"
  shows "window g p n (2 * s) G' P'"
  unfolding window_def
proof (intro allI impI)
  fix j assume j: "j < n"
  show "G' j = carries g p (Suc j - 2 * s) (min (2 * s) (Suc j)) False \<and>
     P' j = (2 * s \<le> Suc j \<and> all_prop p (Suc j - 2 * s) (2 * s))"
  proof (cases "s \<le> j")
    case False
    then have "min s (Suc j) = Suc j" "min (2 * s) (Suc j) = Suc j" "Suc j - s = 0"
      "Suc j - 2 * s = 0" "\<not> 2 * s \<le> Suc j" using s by auto
    with False j w G'[OF j] P'[OF j] show ?thesis unfolding window_def by metis
  next
    case True
    let ?lo = "Suc j - 2 * s" and ?m = "min s (Suc (j - s))"
    have lo: "?lo + ?m = Suc j - s" and sum: "min (2 * s) (Suc j) = ?m + s"
      using True by (auto simp: min_def)
    have Gj: "G j = carries g p (Suc j - s) s False" and Pj: "P j = all_prop p (Suc j - s) s"
      using w j True by (auto simp: window_def min_def)
    have js: "Suc (j - s) - s = ?lo" and "j - s < n" using j True by auto
    then have Gs: "G (j - s) = carries g p ?lo ?m False"
      and Ps: "P (j - s) = (s \<le> Suc (j - s) \<and> all_prop p ?lo s)"
      using w js unfolding window_def by metis+
    have "carries g p ?lo (min (2 * s) (Suc j)) False =
        carries g p (Suc j - s) s (carries g p ?lo ?m False)"
      unfolding sum carries_append lo by simp
    also have "\<dots> = (G j \<noteq> (P j \<and> G (j - s)))"
      unfolding Gj Pj Gs by (rule carries_affine)
    finally have 1: "G' j = carries g p ?lo (min (2 * s) (Suc j)) False"
      using G'[OF j] True by simp
    have "P' j = (2 * s \<le> Suc j \<and> all_prop p ?lo (s + s))"
      using P'[OF j] True Pj Ps lo by (auto simp: all_prop_append)
    with 1 show ?thesis by (simp add: mult_2)
  qed
qed

lemma window_end:
  assumes "window g p n s G P" "n \<le> s" "j < n"
  shows "G j = carries g p 0 (Suc j) False"
proof -
  have "min s (Suc j) = Suc j" "Suc j - s = 0" using assms(2,3) by auto
  with assms show ?thesis unfolding window_def by metis
qed

subsection \<open>The adder on numbers\<close>

text \<open>
  The loop of \<open>kogge_stone_inner\<close> on plain values: \<open>ks_round\<close> is its body, \<open>ks_rounds d\<close>
  performs rounds \<open>0..d-1\<close>.
\<close>

definition ks_round :: "nat \<Rightarrow> nat \<Rightarrow> nat \<times> nat \<Rightarrow> nat \<times> nat" where
  "ks_round n s = (\<lambda>(p, g).
     (push_bit s (drop_bit s p AND (p AND mask (n - s))),
      g XOR push_bit s ((g AND mask (n - s)) AND drop_bit s p)))"

primrec ks_rounds :: "nat \<Rightarrow> nat \<Rightarrow> nat \<times> nat \<Rightarrow> nat \<times> nat" where
  "ks_rounds n 0 pg = pg"
| "ks_rounds n (Suc d) pg = ks_round n (2 ^ d) (ks_rounds n d pg)"

definition ks_adder :: "nat \<Rightarrow> nat \<Rightarrow> nat \<Rightarrow> nat \<Rightarrow> nat" where
  "ks_adder n d p g = push_bit 1 (snd (ks_rounds n d (p, g))) XOR p"

lemma ks_round_bits:
  assumes "j < n"
  shows "bit (snd (ks_round n s (p, g))) j = (bit g j \<noteq> (s \<le> j \<and> bit p j \<and> bit g (j - s)))"
    and "bit (fst (ks_round n s (p, g))) j = (s \<le> j \<and> bit p j \<and> bit p (j - s))"
  using assms by (auto simp: ks_round_def bit_simps)

lemma ks_round_high: "n \<le> j \<Longrightarrow> bit (snd (ks_round n s pg)) j = bit (snd pg) j"
  by (auto simp: ks_round_def bit_simps split: prod.splits)

lemma ks_rounds_high: "n \<le> j \<Longrightarrow> bit (snd (ks_rounds n d pg)) j = bit (snd pg) j"
  by (induction d) (simp_all add: ks_round_high)

lemma ks_rounds_window:
  "window (bit g) (bit p) n (2 ^ d) (bit (snd (ks_rounds n d (p, g)))) (bit (fst (ks_rounds n d (p, g))))"
proof (induction d)
  case 0
  then show ?case using window_start by simp
next
  case (Suc d)
  obtain p' g' where pg: "ks_rounds n d (p, g) = (p', g')" by fastforce
  have "window (bit g) (bit p) n (2 * 2 ^ d) (bit (snd (ks_round n (2 ^ d) (p', g'))))
      (bit (fst (ks_round n (2 ^ d) (p', g'))))"
    by (rule window_round[OF Suc.IH[unfolded pg fst_conv snd_conv]]) (simp_all add: ks_round_bits)
  then show ?case by (simp add: pg)
qed

lemma ks_adder_bit:
  assumes "n \<le> 2 ^ d"
  shows "bit (ks_adder n d p g) j =
     (bit p j \<noteq> (if j \<le> n then 0 < j \<and> carries (bit g) (bit p) 0 j False else bit g (j - 1)))"
proof (cases j)
  case 0
  then show ?thesis by (simp add: ks_adder_def bit_0 even_xor_iff)
next
  case (Suc k)
  show ?thesis
  proof (cases "k < n")
    case True
    with window_end[OF ks_rounds_window assms True, of p g] Suc show ?thesis
      unfolding ks_adder_def bit_xor_iff bit_push_bit_iff by auto
  next
    case False
    with Suc show ?thesis
      unfolding ks_adder_def bit_xor_iff bit_push_bit_iff by (auto simp: ks_rounds_high)
  qed
qed

lemma bit_high: "(a :: nat) < 2 ^ n \<Longrightarrow> n \<le> j \<Longrightarrow> \<not> bit a j"
  by (metis take_bit_nat_eq_self_iff bit_take_bit_iff leD)

lemma carries_high:
  fixes a b :: nat
  assumes "a < 2 ^ n" "b < 2 ^ n" "n < j"
  shows "\<not> carries (\<lambda>k. bit a k \<and> bit b k) (\<lambda>k. bit a k \<noteq> bit b k) 0 j c"
  using assms bit_high[OF assms(1)] bit_high[OF assms(2)] by (cases j) auto

text \<open>With the propagate and generate bits of two \<open>n\<close>-bit numbers the network adds them.\<close>

lemma ks_adder_add:
  assumes "n \<le> 2 ^ d" "a < 2 ^ n" "b < 2 ^ n"
  shows "ks_adder n d (a XOR b) (a AND b) = a + b"
proof (rule bit_eqI)
  fix j
  have "bit (a + b) j = ((bit a j \<noteq> bit b j) \<noteq>
      carries (\<lambda>k. bit a k \<and> bit b k) (\<lambda>k. bit a k \<noteq> bit b k) 0 j False)"
    using bit_add_carries[of a b False j] by simp
  moreover have "bit (a XOR b) = (\<lambda>k. bit a k \<noteq> bit b k)" "bit (a AND b) = (\<lambda>k. bit a k \<and> bit b k)"
    by (auto simp: bit_and_iff bit_xor_iff)
  ultimately show "bit (ks_adder n d (a XOR b) (a AND b)) j = bit (a + b) j"
    unfolding ks_adder_bit[OF assms(1)]
    using bit_high[OF assms(2), of "j - 1"] carries_high[OF assms(2,3), of j False]
    by (cases j) auto
qed

text \<open>Carry-in one: the lowest generate bit is corrected and the lowest sum bit flipped.\<close>

lemma ks_adder_add_carry_in:
  assumes "n \<le> 2 ^ d" "0 < n" "a < 2 ^ n" "b < 2 ^ n"
  defines "p \<equiv> a XOR b" and "g \<equiv> (a AND b) XOR ((a XOR b) AND 1)"
  shows "ks_adder n d p g XOR 1 = a + b + 1"
proof (rule bit_eqI)
  fix j
  let ?G = "\<lambda>k. bit a k \<and> bit b k" and ?P = "\<lambda>k. bit a k \<noteq> bit b k"
  have p: "bit p = ?P" by (auto simp: p_def bit_xor_iff)
  have g: "bit g k = (?G k \<noteq> (k = 0 \<and> ?P k))" for k
    by (cases k) (auto simp: g_def bit_xor_iff bit_and_iff bit_0 even_xor_iff even_and_iff)
  have run: "carries (bit g) (bit p) 0 (Suc m) False = carries ?G ?P 0 (Suc m) True" for m
    by (rule carries_carry_in) (simp_all add: g p)
  have sum: "bit (a + b + 1) j = (?P j \<noteq> carries ?G ?P 0 j True)"
    using bit_add_carries[of a b True j] by simp
  show "bit (ks_adder n d p g XOR 1) j = bit (a + b + 1) j"
    unfolding sum bit_xor_iff ks_adder_bit[OF assms(1)]
    using bit_high[OF assms(3), of "j - 1"] carries_high[OF assms(3,4), of j True] run[of "j - 1"] assms(2)
    by (cases j) (auto simp: p g bit_1_iff bit_0)
qed

subsection \<open>Circuits built on the adder\<close>

lemma xor_mask: "(a :: nat) < 2 ^ n \<Longrightarrow> a XOR mask n = mask n - a"
proof -
  assume a: "a < 2 ^ n"
  have "a + (a XOR mask n) = mask n"
  proof -
    have "a AND (a XOR mask n) = 0"
      by (rule bit_eqI) (use bit_high[OF a] not_le in \<open>auto simp: bit_simps\<close>)
    then have "a + (a XOR mask n) = a OR (a XOR mask n)"
      by (rule disjunctive_add_eq_or)
    also have "\<dots> = mask n"
      by (rule bit_eqI) (use bit_high[OF a] not_le in \<open>auto simp: bit_simps\<close>)
    finally show ?thesis .
  qed
  then show ?thesis by simp
qed

text \<open>Subtraction by adding the complement with carry-in: \<open>2 ^ n + a - b\<close>.\<close>

lemma ks_adder_sub:
  assumes "n \<le> 2 ^ d" "0 < n" "a < 2 ^ n" "b < 2 ^ n"
  defines "b' \<equiv> b XOR mask n"
  shows "ks_adder n d (a XOR b') ((a AND b') XOR ((a XOR b') AND 1)) XOR 1 = 2 ^ n + a - b"
proof -
  have b': "b' = 2 ^ n - 1 - b" using xor_mask[OF assms(4)] by (simp add: b'_def mask_eq_exp_minus_1)
  then have "b' < 2 ^ n" by simp
  from ks_adder_add_carry_in[OF assms(1-3) this] b' assms(4) show ?thesis by simp
qed

text \<open>Subtracting a public \<open>b\<close> by adding \<open>2 ^ n - b\<close>, which for \<open>b = 0\<close> has one bit too many.\<close>

lemma ks_adder_sub_const:
  assumes "n \<le> 2 ^ d" "a < 2 ^ n" "b < 2 ^ n"
  shows "ks_adder n d (a XOR (2 ^ n - b)) (a AND (2 ^ n - b)) = 2 ^ n + a - b"
proof (cases "b = 0")
  case False
  then have "2 ^ n - b < (2::nat) ^ n" by simp
  from ks_adder_add[OF assms(1,2) this] assms(3) show ?thesis by simp
next
  case True
  have g: "a AND 2 ^ n = 0"
    by (rule bit_eqI) (use bit_high[OF assms(2)] in \<open>auto simp: bit_simps\<close>)
  have zero: "\<not> carries bot p 0 j False" for p j by (induction j) auto
  have "ks_adder n d (a XOR 2 ^ n) 0 = a XOR 2 ^ n"
    by (rule bit_eqI) (auto simp: ks_adder_bit[OF assms(1)] zero)
  also have "\<dots> = a + 2 ^ n"
    using disjunctive_add_eq_xor[OF g] by simp
  finally show ?thesis using True g by simp
qed

text \<open>
  The conditional subtraction of the modulus: from \<open>x < 2 * q\<close> with \<open>q \<le> 2 ^ n\<close>, the adder on
  \<open>n + 1\<close> bits yields the carry \<open>x \<ge> q\<close> and, below, the difference.
\<close>

lemma sub_p_circuit:
  assumes "q \<le> 2 ^ n" "0 < q" "x < 2 * q" "Suc n \<le> 2 ^ d"
  defines "y \<equiv> ks_adder (Suc n) d (x XOR (2 ^ Suc n - q)) (x AND (2 ^ Suc n - q))"
  shows "bit y (Suc n) \<longleftrightarrow> q \<le> x"
    and "(if q \<le> x then y AND mask n else x AND mask n) = x mod q"
proof -
  have x: "x < 2 ^ Suc n" and q': "2 ^ Suc n - q < (2::nat) ^ Suc n" using assms(1-3) by auto
  have y: "y = x + (2 ^ Suc n - q)" unfolding y_def by (rule ks_adder_add[OF assms(4) x q'])
  have carry: "q \<le> x \<Longrightarrow> y = 2 ^ Suc n + (x - q)" "\<not> q \<le> x \<Longrightarrow> y < 2 ^ Suc n"
    using assms(1) y by auto
  have d: "q \<le> x \<Longrightarrow> x - q < 2 ^ n" using assms(1,3) by simp
  show "bit y (Suc n) \<longleftrightarrow> q \<le> x"
  proof (cases "q \<le> x")
    case True
    have "x - q < 2 ^ Suc n" using d[OF True] by simp
    then have "y div 2 ^ Suc n = 1" unfolding carry(1)[OF True] by (subst div_add_self1) simp_all
    then show ?thesis using True unfolding bit_iff_odd by simp
  next
    case False
    then show ?thesis using bit_high[OF carry(2)[OF False]] by simp
  qed
  show "(if q \<le> x then y AND mask n else x AND mask n) = x mod q"
  proof (cases "q \<le> x")
    case True
    then have "x mod q = x - q" using assms(3) by (simp add: le_mod_geq)
    moreover have "y mod 2 ^ n = x - q"
      using carry(1)[OF True] d[OF True] by (simp add: mod_add_left_eq[symmetric] del: mod_add_left_eq)
    ultimately show ?thesis using True by (simp add: take_bit_eq_mask[symmetric] take_bit_eq_mod)
  next
    case False
    then show ?thesis using assms(1) by (simp add: take_bit_eq_mask[symmetric] take_bit_eq_mod)
  qed
qed

text \<open>The top bit of \<open>2 ^ n + u - v\<close> is the negated borrow.\<close>

lemma borrow_bit:
  assumes "u < 2 ^ n" "v < 2 ^ n"
  shows "bit (drop_bit n (2 ^ n + u - v :: nat)) 0 \<longleftrightarrow> v \<le> u"
proof (cases "v \<le> u")
  case True
  then have "(2 ^ n + u - v) div 2 ^ n = (2 ^ n + (u - v)) div 2 ^ n" "u - v < 2 ^ n" using assms by auto
  then have "(2 ^ n + u - v) div 2 ^ n = 1" using div_add_self1[of "2 ^ n :: nat" "u - v"] by simp
  with True show ?thesis by (simp only: drop_bit_eq_div) (simp add: bit_0)
next
  case False
  with assms have "2 ^ n + u - v < 2 ^ n" by auto
  with False show ?thesis by (simp add: drop_bit_eq_div)
qed

subsection \<open>The adder on words\<close>

text \<open>
  The loop of \<open>kogge_stone_loop\<close> in \<open>rep3_ring/detail.rs\<close> on plain values: the words wrap, so no
  masks are needed.
\<close>

definition ksw_round :: "nat \<Rightarrow> 'l::len word \<times> 'l word \<Rightarrow> 'l word \<times> 'l word" where
  "ksw_round s = (\<lambda>(p, g). (p AND push_bit s p, g XOR (push_bit s g AND p)))"

primrec ksw_rounds :: "nat \<Rightarrow> 'l::len word \<times> 'l word \<Rightarrow> 'l word \<times> 'l word" where
  "ksw_rounds 0 pg = pg"
| "ksw_rounds (Suc d) pg = ksw_round (2 ^ d) (ksw_rounds d pg)"

definition ksw_carries :: "nat \<Rightarrow> 'l::len word \<Rightarrow> 'l word \<Rightarrow> 'l word" where
  "ksw_carries d p g = snd (ksw_rounds d (p, g))"

definition ksw_sum :: "nat \<Rightarrow> 'l::len word \<Rightarrow> 'l word \<Rightarrow> 'l word" where
  "ksw_sum d p g = push_bit 1 (ksw_carries d p g) XOR p"

definition ksw_carry_out :: "nat \<Rightarrow> 'l::len word \<Rightarrow> 'l word \<Rightarrow> bool" where
  "ksw_carry_out d p g = bit (ksw_carries d p g) (LENGTH('l) - 1)"

lemma ksw_rounds_window:
  fixes p g :: "'l::len word"
  shows "window (bit g) (bit p) LENGTH('l) (2 ^ d) (bit (snd (ksw_rounds d (p, g)))) (bit (fst (ksw_rounds d (p, g))))"
proof (induction d)
  case 0
  then show ?case using window_start by simp
next
  case (Suc d)
  obtain p' g' where pg: "ksw_rounds d (p, g) = (p', g')" by fastforce
  have "window (bit g) (bit p) LENGTH('l) (2 * 2 ^ d) (bit (snd (ksw_round (2 ^ d) (p', g'))))
      (bit (fst (ksw_round (2 ^ d) (p', g'))))"
    by (rule window_round[OF Suc.IH[unfolded pg fst_conv snd_conv]])
      (auto simp: ksw_round_def bit_simps)
  then show ?case by (simp add: pg)
qed

lemma bit_ksw_carries:
  fixes p g :: "'l::len word"
  assumes "LENGTH('l) \<le> 2 ^ d" "j < LENGTH('l)"
  shows "bit (ksw_carries d p g) j = carries (bit g) (bit p) 0 (Suc j) False"
  unfolding ksw_carries_def by (rule window_end[OF ksw_rounds_window assms])

lemma bit_ksw_sum:
  fixes p g :: "'l::len word"
  assumes "j < LENGTH('l)"
  shows "bit (ksw_sum d p g) j = (bit p j \<noteq> (0 < j \<and> bit (ksw_carries d p g) (j - 1)))"
  using assms unfolding ksw_sum_def bit_xor_iff bit_push_bit_iff by auto

lemma bit_unat: "bit (unat w) = bit w" for w :: "'l::len word"
  by (auto simp: fun_eq_iff bit_simps dest: bit_imp_le_length)

lemma bit_word_add:
  fixes a b :: "'l::len word"
  assumes "j < LENGTH('l)"
  shows "bit (a + b + of_bool c) j \<longleftrightarrow>
    ((bit a j \<noteq> bit b j) \<noteq> carries (\<lambda>k. bit a k \<and> bit b k) (\<lambda>k. bit a k \<noteq> bit b k) 0 j c)"
proof -
  have "a + b + of_bool c = of_nat (unat a + unat b + of_bool c)" by simp
  also have "bit \<dots> j = bit (unat a + unat b + of_bool c) j"
    using assms by (simp only: bit_of_nat_iff possible_bit_word simp_thms)
  finally show ?thesis by (simp only: bit_add_carries bit_unat)
qed

lemma carry_out_add:
  fixes a b :: "'l::len word"
  shows "carries (\<lambda>k. bit a k \<and> bit b k) (\<lambda>k. bit a k \<noteq> bit b k) 0 LENGTH('l) c \<longleftrightarrow>
    2 ^ LENGTH('l) \<le> unat a + unat b + of_bool c"
proof -
  let ?n = "unat a + unat b + of_bool c"
  have "\<not> bit a LENGTH('l)" "\<not> bit b LENGTH('l)" by (auto dest: bit_imp_le_length)
  then have "carries (\<lambda>k. bit a k \<and> bit b k) (\<lambda>k. bit a k \<noteq> bit b k) 0 LENGTH('l) c = bit ?n LENGTH('l)"
    by (simp only: bit_add_carries bit_unat) simp
  moreover have "unat a < 2 ^ LENGTH('l)" "unat b < 2 ^ LENGTH('l)" "of_bool c \<le> (1 :: nat)"
    by (rule unsigned_less)+ simp
  then have "?n < 2 * 2 ^ LENGTH('l)" by linarith
  then have "?n div 2 ^ LENGTH('l) = of_bool (2 ^ LENGTH('l) \<le> ?n)"
    by (cases "2 ^ LENGTH('l) \<le> ?n") (auto intro: div_nat_eqI)
  ultimately show ?thesis by (simp add: bit_iff_odd)
qed

lemma ksw_add:
  fixes a b :: "'l::len word"
  assumes "LENGTH('l) \<le> 2 ^ d"
  shows "ksw_sum d (a XOR b) (a AND b) = a + b"
    and "ksw_carry_out d (a XOR b) (a AND b) \<longleftrightarrow> 2 ^ LENGTH('l) \<le> unat a + unat b"
proof -
  have pg: "bit (a XOR b) = (\<lambda>k. bit a k \<noteq> bit b k)" "bit (a AND b) = (\<lambda>k. bit a k \<and> bit b k)"
    by (auto simp: bit_and_iff bit_xor_iff)
  show "ksw_sum d (a XOR b) (a AND b) = a + b"
  proof (rule bit_word_eqI)
    fix j assume "j < LENGTH('l)"
    then show "bit (ksw_sum d (a XOR b) (a AND b)) j = bit (a + b) j"
      using bit_word_add[of j a b False] bit_ksw_carries[OF assms, of "j - 1" "a XOR b" "a AND b"]
      by (cases j) (simp_all add: bit_ksw_sum pg)
  qed
  show "ksw_carry_out d (a XOR b) (a AND b) \<longleftrightarrow> 2 ^ LENGTH('l) \<le> unat a + unat b"
    using carry_out_add[of a b False] bit_ksw_carries[OF assms, of "LENGTH('l) - 1" "a XOR b" "a AND b"]
    by (simp add: ksw_carry_out_def pg)
qed

lemma ksw_add_carry_in:
  fixes a b :: "'l::len word"
  assumes "LENGTH('l) \<le> 2 ^ d"
  defines "p \<equiv> a XOR b" and "g \<equiv> (a AND b) XOR ((a XOR b) AND 1)"
  shows "ksw_sum d p g XOR 1 = a + b + 1"
    and "ksw_carry_out d p g \<longleftrightarrow> 2 ^ LENGTH('l) \<le> unat a + unat b + 1"
proof -
  let ?G = "\<lambda>k. bit a k \<and> bit b k" and ?P = "\<lambda>k. bit a k \<noteq> bit b k"
  have p: "bit p = ?P" by (auto simp: p_def bit_xor_iff)
  have g: "bit g k = (?G k \<noteq> (k = 0 \<and> ?P k))" for k
    by (cases k) (auto simp: g_def bit_xor_iff bit_and_iff bit_1_iff)
  have run: "carries (bit g) (bit p) 0 (Suc m) False = carries ?G ?P 0 (Suc m) True" for m
    by (rule carries_carry_in) (simp_all add: g p)
  show "ksw_sum d p g XOR 1 = a + b + 1"
  proof (rule bit_word_eqI)
    fix j assume j: "j < LENGTH('l)"
    show "bit (ksw_sum d p g XOR 1) j = bit (a + b + 1) j"
      using bit_word_add[OF j, of a b True] bit_ksw_carries[OF assms(1), of "j - 1" p g] run[of "j - 1"] j
      by (cases j) (auto simp: bit_ksw_sum bit_xor_iff bit_1_iff p simp del: carries.simps(2))
  qed
  show "ksw_carry_out d p g \<longleftrightarrow> 2 ^ LENGTH('l) \<le> unat a + unat b + 1"
    using carry_out_add[of a b True] bit_ksw_carries[OF assms(1), of "LENGTH('l) - 1" p g] run[of "LENGTH('l) - 1"]
    by (simp add: ksw_carry_out_def del: carries.simps)
qed

lemma no_borrow_iff: "b < N \<Longrightarrow> N \<le> a + N - b \<longleftrightarrow> b \<le> a"
  "b < N \<Longrightarrow> N \<le> Suc (a + N - Suc b) \<longleftrightarrow> b \<le> a" for a b N :: nat
  by auto

text \<open>Subtraction: with the complement and a carry in, or with the negated constant.\<close>

lemma ksw_sub:
  fixes a b :: "'l::len word"
  assumes "LENGTH('l) \<le> 2 ^ d"
  defines "p \<equiv> a XOR NOT b" and "g \<equiv> (a AND NOT b) XOR ((a XOR NOT b) AND 1)"
  shows "ksw_sum d p g XOR 1 = a - b" "ksw_carry_out d p g \<longleftrightarrow> b \<le> a"
proof -
  have "unat (- 1 - b) = unat (- 1 :: 'l word) - unat b" by (rule unat_sub) simp
  moreover have "NOT b = - 1 - b" by (simp add: not_eq_complement)
  ultimately have n: "unat (NOT b) = 2 ^ LENGTH('l) - 1 - unat b"
    by (simp add: unsigned_minus_1_eq_mask mask_eq_exp_minus_1)
  show "ksw_sum d p g XOR 1 = a - b"
    using ksw_add_carry_in(1)[OF assms(1), of a "NOT b"] unfolding p_def g_def
    by (simp add: not_eq_complement)
  show "ksw_carry_out d p g \<longleftrightarrow> b \<le> a"
    using ksw_add_carry_in(2)[OF assms(1), of a "NOT b"] unsigned_less[of b, where 'a = nat] unfolding p_def g_def
    by (simp add: n word_le_nat_alt no_borrow_iff)
qed

lemma ksw_sub_const:
  fixes a b :: "'l::len word"
  assumes "LENGTH('l) \<le> 2 ^ d"
  shows "ksw_sum d (a XOR - b) (a AND - b) = a - b"
    and "(ksw_carry_out d (a XOR - b) (a AND - b) \<noteq> (b = 0)) \<longleftrightarrow> b \<le> a"
proof -
  show "ksw_sum d (a XOR - b) (a AND - b) = a - b"
    using ksw_add(1)[OF assms, of a "- b"] by simp
  show "(ksw_carry_out d (a XOR - b) (a AND - b) \<noteq> (b = 0)) \<longleftrightarrow> b \<le> a"
  proof (cases "b = 0")
    case True
    with ksw_add(2)[OF assms, of a "- b"] show ?thesis
      using unsigned_less[of a, where 'a = nat] by simp
  next
    case False
    then have "unat (- b) = 2 ^ LENGTH('l) - unat b" using unat_sub_if'[of 0 b] by (simp add: unat_eq_zero)
    with False ksw_add(2)[OF assms, of a "- b"] unsigned_less[of b, where 'a = nat] show ?thesis
      by (simp add: word_le_nat_alt no_borrow_iff)
  qed
qed

end
