(* ===== verification/Reduction.thy ===== *)
theory Reduction
  imports Sharing
begin

text \<open>
  The reduction tree of \<open>or_tree\<close>, which \<open>rep3/binary.rs\<close> and \<open>rep3_ring/binary.rs\<close> both
  contain: neighbouring halves of a vector of shares are combined by an interactive operation
  until one share is left.  The locale \<open>reduction\<close> states what the tree needs of the operation;
  the two modules interpret it with their disjunctions.
\<close>

text \<open>
  One level of the tree pairs the first half with the second; an odd element is kept.
  \<open>split_at\<close> panics beyond the end.
\<close>

function reduce_tree ::
  "('x \<Rightarrow> 'x \<Rightarrow> ('w, 'r, 'x) prog) \<Rightarrow> nat \<Rightarrow> 'x list \<Rightarrow> ('w, 'r, 'x list) prog" where
  "reduce_tree op num inputs =
     (if num > 1 then
        let odd_one = num mod 2; num = num div 2
        in if 2 * num > length inputs then qfail Panic
           else let a_vec = take num inputs; tmp = drop num inputs;
                    b_vec = take num tmp; leftover = drop num tmp
                in qbind (qmap (\<lambda>(a, b). op a b) (zip a_vec b_vec)) (\<lambda>res.
                   reduce_tree op (num + odd_one) (res @ leftover))
      else qret inputs)"
  by auto
termination by (relation "measure (\<lambda>(op, num, xs). num)") (auto, presburger)

declare reduce_tree.simps [simp del]

lemma vec_shared_by_append:
  "vec_shared_by add xs us \<Longrightarrow> vec_shared_by add ys vs \<Longrightarrow>
   vec_shared_by add (\<lambda>i. xs i @ ys i) (us @ vs)"
  by (auto simp: vec_shared_by_def nth_append)

lemma vec_shared_by_take: "vec_shared_by add xs us \<Longrightarrow> vec_shared_by add (\<lambda>i. take n (xs i)) (take n us)"
  by (simp add: vec_shared_by_def)

lemma vec_shared_by_drop: "vec_shared_by add xs us \<Longrightarrow> vec_shared_by add (\<lambda>i. drop n (xs i)) (drop n us)"
  by (simp add: vec_shared_by_def)

locale reduction =
  fixes ok :: "'e \<Rightarrow> bool"
    and op :: "'e \<Rightarrow> 'a share \<Rightarrow> 'a share \<Rightarrow> ('w, 'r, 'a share) prog"
    and add :: "'a \<Rightarrow> 'a \<Rightarrow> 'a" and join :: "'a \<Rightarrow> 'a \<Rightarrow> 'a" and unit :: 'a
  assumes mpc_op: "ok E \<Longrightarrow> shared_by add x u \<Longrightarrow> shared_by add y v \<Longrightarrow>
      (\<And>z. shared_by add z (join u v) \<Longrightarrow> Q z) \<Longrightarrow> mpc (\<lambda>i. op E (x i) (y i)) Q"
    and join_assoc: "join (join u v) w = join u (join v w)"
    and join_comm: "join u v = join v u"
    and join_unit: "join u unit = u"
begin

definition joins :: "'a list \<Rightarrow> 'a" where
  "joins vs = foldr join vs unit"

lemma joins_simps [simp]: "joins [] = unit" "joins (v # vs) = join v (joins vs)"
  by (simp_all add: joins_def)

lemma joins_append: "joins (us @ vs) = join (joins us) (joins vs)"
  by (induction us) (simp_all add: join_assoc join_unit join_comm[of unit])

lemma join_swap: "join (join a b) (join c d) = join (join a c) (join b d)"
  by (metis join_assoc join_comm)

lemma joins_map2: "length us = length vs \<Longrightarrow> joins (map2 join us vs) = join (joins us) (joins vs)"
  by (induction us vs rule: list_induct2) (simp_all add: join_unit join_swap)

lemma mpc_pairs:
  assumes "ok E" "vec_shared_by add x us" "vec_shared_by add y vs" "length us = length vs"
    and "\<And>z. vec_shared_by add z (map2 join us vs) \<Longrightarrow> Q z"
  shows "mpc (\<lambda>i. qmap (\<lambda>(a, b). op E a b) (zip (x i) (y i))) Q"
proof (rule mpc_qmap[where n = "length vs" and R = "\<lambda>k z. shared_by add z (join (us ! k) (vs ! k))"])
  note len = vec_shared_byD(1)[OF assms(2)] vec_shared_byD(1)[OF assms(3)]
  fix p k assume k: "k < length vs" and p: "\<And>i. p i = zip (x i) (y i) ! k"
  from k p len assms(4) have p: "p = (\<lambda>i. (x i ! k, y i ! k))" by auto
  from k assms(2-4) have "shared_by add (\<lambda>i. x i ! k) (us ! k)" "shared_by add (\<lambda>i. y i ! k) (vs ! k)"
    by (simp_all add: vec_shared_by_def)
  then show "mpc (\<lambda>i. case p i of (a, b) \<Rightarrow> op E a b) (\<lambda>z. shared_by add z (join (us ! k) (vs ! k)))"
    unfolding p by (auto intro: mpc_op[OF assms(1)])
qed (use assms in \<open>auto simp: vec_shared_by_def\<close>)

lemma mpc_tree_loop:
  assumes "ok E" "vec_shared_by add xs vs" "length vs = num" "0 < num"
    and "\<And>z. vec_shared_by add z [joins vs] \<Longrightarrow> Q z"
  shows "mpc (\<lambda>i. reduce_tree (op E) num (xs i)) Q"
  using assms(2-5)
proof (induction num arbitrary: xs vs Q rule: less_induct)
  case (less num)
  note len = vec_shared_byD(1)[OF less.prems(1)]
  show ?case
  proof (cases "num > 1")
    case False
    with less.prems obtain v where "vs = [v]" by (cases vs) (auto simp: not_less_eq_eq Suc_le_eq)
    with False less.prems show ?thesis by (simp add: reduce_tree.simps[of "op E" num] mpc_ret join_unit)
  next
    case True
    let ?n = "num div 2"
    let ?a = "take ?n vs" and ?b = "take ?n (drop ?n vs)" and ?c = "drop ?n (drop ?n vs)"
    have n: "length ?a = ?n" "length ?b = ?n" "length ?c = num mod 2"
      using less.prems(2) by (auto simp: minus_mod_eq_mult_div[symmetric] mult_2[symmetric])
    have lt: "?n + num mod 2 < num" "0 < ?n + num mod 2" using True by presburger+
    have vs: "joins (map2 join ?a ?b @ ?c) = joins vs"
      using joins_append[of ?a "drop ?n vs"] joins_append[of ?b ?c] n
      by (simp add: joins_append joins_map2 join_assoc del: drop_drop length_take length_drop)
    have "mpc (\<lambda>i. qbind (qmap (\<lambda>(a, b). op E a b)
          (zip (take ?n (xs i)) (take ?n (drop ?n (xs i)))))
        (\<lambda>res. reduce_tree (op E) (?n + num mod 2) (res @ drop ?n (drop ?n (xs i))))) Q"
    proof (rule mpc_bind, rule mpc_pairs[OF assms(1)])
      show "vec_shared_by add (\<lambda>i. take ?n (xs i)) ?a"
        "vec_shared_by add (\<lambda>i. take ?n (drop ?n (xs i))) ?b"
        by (intro vec_shared_by_take vec_shared_by_drop less.prems)+
      show "length ?a = length ?b" using n by simp
      fix z assume "vec_shared_by add z (map2 join ?a ?b)"
      then have "vec_shared_by add (\<lambda>i. z i @ drop ?n (drop ?n (xs i))) (map2 join ?a ?b @ ?c)"
        by (intro vec_shared_by_append vec_shared_by_drop less.prems)
      then show "mpc (\<lambda>i. reduce_tree (op E) (?n + num mod 2) (z i @ drop ?n (drop ?n (xs i)))) Q"
        by (rule less.IH[OF lt(1) _ _ lt(2)]) (use n less.prems(4) in \<open>simp_all add: vs del: drop_drop\<close>)
    qed
    then show ?thesis
      by (rule mpc_cong)
        (use True len less.prems(2) times_div_less_eq_dividend[of 2 num] in
          \<open>simp add: reduce_tree.simps[of "op E" num] Let_def not_less[symmetric]\<close>)
  qed
qed

lemma mpc_tree:
  assumes "ok E" "vec_shared_by add xs vs" "vs \<noteq> []" "\<And>z. shared_by add z (joins vs) \<Longrightarrow> Q z"
  shows "mpc (\<lambda>i. qbind (reduce_tree (op E) (length (xs i)) (xs i))
      (\<lambda>zs. case zs of [] \<Rightarrow> qfail Panic | z # _ \<Rightarrow> qret z)) Q"
  unfolding vec_shared_byD(1)[OF assms(2)]
proof (rule mpc_bind, rule mpc_tree_loop[OF assms(1,2) refl])
  fix z assume z: "vec_shared_by add z [joins vs]"
  show "mpc (\<lambda>i. case z i of [] \<Rightarrow> qfail Panic | z # _ \<Rightarrow> qret z) Q"
  proof (rule mpc_cong)
    show "mpc (\<lambda>i. qret (hd (z i))) Q" by (rule mpc_ret, rule assms(4)[OF vec_shared_by_Cons(1)[OF z]])
    fix i
    show "(case z i of [] \<Rightarrow> qfail Panic | z # _ \<Rightarrow> qret z) = qret (hd (z i))"
      using vec_shared_byD(1)[OF z, of i] by (cases "z i") auto
  qed
qed (use assms(3) in simp)

end

end
