(* ===== verification/Rep3_Binary.thy ===== *)
theory Rep3_Binary
  imports Rep3_Arithmetic Kogge_Stone Reduction
begin

text \<open>
  Operations on bit strings shared by exclusive or, \<open>rep3/binary.rs\<close>: the local ones, the
  conjunction with its masking, selection, trees of disjunctions and the zero test.  The prefix
  \<open>bin_\<close> stands for the module.  \<open>shift_l_public_by_shared\<close>, which runs conversions in
  forked contexts, is not modelled.
\<close>

subsection \<open>Local operations\<close>

definition bin_xor_public :: "'a::semiring_bit_operations share \<Rightarrow> 'a \<Rightarrow> PartyID \<Rightarrow> 'a share" where
  "bin_xor_public x v i =
     (case i of ID0 \<Rightarrow> Share (sh_a x XOR v) (sh_b x) | ID1 \<Rightarrow> Share (sh_a x) (sh_b x XOR v) | ID2 \<Rightarrow> x)"

definition bin_xor_public_vec :: "nat share list \<Rightarrow> nat list \<Rightarrow> PartyID \<Rightarrow> nat share list" where
  "bin_xor_public_vec xs vs i = map2 (\<lambda>x v. bin_xor_public x v i) xs vs"

definition bin_or_public :: "'a::semiring_bit_operations share \<Rightarrow> 'a \<Rightarrow> PartyID \<Rightarrow> 'a share" where
  "bin_or_public x v i =
     (let tmp = bin_and_public x v; xor = bin_xor_public x v i in bin_xor xor tmp)"

definition bin_and_with_public :: "'a::semiring_bit_operations share \<Rightarrow> 'a \<Rightarrow> 'a share" where
  "bin_and_with_public x v = bin_and_public x v"

definition bin_shift_r_public ::
  "('f::zero, 'r) field_ops \<Rightarrow> nat share \<Rightarrow> 'f \<Rightarrow> io_error + nat share" where
  "bin_shift_r_public F x v =
     (if v = 0 then Inr x
      else let shift = into_biguint F v
           in if shift \<ge> 2 ^ 64 then Inl Panic else Inr (bin_shr x shift))"

definition bin_shift_l_public ::
  "('f::zero, 'r) field_ops \<Rightarrow> nat share \<Rightarrow> 'f \<Rightarrow> io_error + nat share" where
  "bin_shift_l_public F x v =
     (if v = 0 then Inr x
      else let shift = into_biguint F v
           in if shift \<ge> 2 ^ 64 then Inl Panic else Inr (bin_shl x shift))"

definition bin_promote_to_trivial_share :: "PartyID \<Rightarrow> nat \<Rightarrow> nat share" where
  "bin_promote_to_trivial_share i v =
     (case i of ID0 \<Rightarrow> Share v 0 | ID1 \<Rightarrow> Share 0 v | ID2 \<Rightarrow> Share 0 0)"

definition share_rep3_binary ::
  "('r \<Rightarrow> 64 word \<times> 'r) \<Rightarrow> nat \<Rightarrow> 'r \<Rightarrow> (nat share \<times> nat share \<times> nat share) \<times> 'r" where
  "share_rep3_binary gen_u64 secret r =
     (let (u1, r) = gen_u64 r; (u2, r) = gen_u64 r; a1 = unat u1; a2 = unat u2;
          a3 = (secret XOR a1) XOR a2
      in ((Share a1 a2, Share a2 a3, Share a3 a1), r))"

definition combine_binary_elements ::
  "('f, 'r) field_ops \<Rightarrow> nat share list \<Rightarrow> nat share list \<Rightarrow> nat share list \<Rightarrow> io_error + 'f list" where
  "combine_binary_elements F s1 s2 s3 =
     (if length s1 \<noteq> length s2 \<or> length s2 \<noteq> length s3 then Inl Panic
      else Inr (map (\<lambda>(x1, x2, x3). from_biguint F (sh_a x1 XOR sh_a x2 XOR sh_a x3)) (zip s1 (zip s2 s3))))"

subsection \<open>Interactive operations\<close>

definition masked_big :: "('f, 'r, 's, 'w) env \<Rightarrow> nat \<Rightarrow> nat \<Rightarrow> ('w, 'r, nat) prog" where
  "masked_big E bitlen v = qbind (with_rand (random_biguint (rngop E) bitlen)) (\<lambda>(m, mask_b).
     qret (v XOR (m XOR mask_b)))"

definition bin_and :: "('f, 'r, 's, 'w) env \<Rightarrow> nat share \<Rightarrow> nat share \<Rightarrow> ('w, 'r, nat share) prog" where
  "bin_and E a b = qbind (masked_big E (modulus_bit_size (fld E)) (local_and a b)) (\<lambda>local_a.
     qbind (reshare (bcodec E) local_a) (\<lambda>local_b. qret (Share local_a local_b)))"

definition bin_and_vec ::
  "('f, 'r, 's, 'w) env \<Rightarrow> nat share list \<Rightarrow> nat share list \<Rightarrow> ('w, 'r, nat share list) prog" where
  "bin_and_vec E a b =
     qbind (qmap (masked_big E (modulus_bit_size (fld E))) (map2 local_and a b)) (\<lambda>local_a.
     qbind (reshare (bvcodec E) local_a) (\<lambda>local_b. qret (map2 Share local_a local_b)))"

definition bin_or :: "('f, 'r, 's, 'w) env \<Rightarrow> nat share \<Rightarrow> nat share \<Rightarrow> ('w, 'r, nat share) prog" where
  "bin_or E a b =
     (let xor = bin_xor a b in qbind (bin_and E a b) (\<lambda>conj. qret (bin_xor xor conj)))"

definition bin_or_vec ::
  "('f, 'r, 's, 'w) env \<Rightarrow> nat share list \<Rightarrow> nat share list \<Rightarrow> ('w, 'r, nat share list) prog" where
  "bin_or_vec E a b =
     (let xor = map2 bin_xor a b in qbind (bin_and_vec E a b) (\<lambda>conj. qret (map2 bin_xor xor conj)))"

definition bin_open :: "('f, 'r, 's, 'w) env \<Rightarrow> nat share \<Rightarrow> ('w, 'r, nat) prog" where
  "bin_open E a = qbind (reshare (bcodec E) (sh_b a)) (\<lambda>c. qret (sh_a a XOR sh_b a XOR c))"

text \<open>\<open>conv\<close> is the \<open>TryFrom<BigUint>\<close> of the result type.\<close>

definition bin_open_vec ::
  "('f, 'r, 's, 'w) env \<Rightarrow> (nat \<Rightarrow> 't option) \<Rightarrow> nat share list \<Rightarrow> ('w, 'r, 't list) prog" where
  "bin_open_vec E conv a = qbind (reshare_many (bcodec E) (map sh_b a)) (\<lambda>c.
     qmap (\<lambda>(a, c). case conv (sh_a a XOR sh_b a XOR c) of
              None \<Rightarrow> qfail OtherError | Some t \<Rightarrow> qret t) (zip a c))"

definition bin_cmux ::
  "('f, 'r, 's, 'w) env \<Rightarrow> nat share \<Rightarrow> nat share \<Rightarrow> nat share \<Rightarrow> ('w, 'r, nat share) prog" where
  "bin_cmux E c x_t x_f =
     (let xor = bin_xor x_f x_t in qbind (bin_and E c xor) (\<lambda>conj. qret (bin_xor conj x_f)))"

definition bin_cmux_many ::
  "('f, 'r, 's, 'w) env \<Rightarrow> nat share list \<Rightarrow> nat share list \<Rightarrow> nat share list \<Rightarrow>
   ('w, 'r, nat share list) prog" where
  "bin_cmux_many E c x_t x_f =
     (if length c \<noteq> length x_t \<or> length c \<noteq> length x_f then qfail Panic
      else let xor = map2 bin_xor x_f x_t
           in qbind (bin_and_vec E c xor) (\<lambda>conj.
              qret (zip_update bin_xor conj x_f)))"

definition bin_or_tree :: "('f, 'r, 's, 'w) env \<Rightarrow> nat share list \<Rightarrow> ('w, 'r, nat share) prog" where
  "bin_or_tree E inputs = qbind (reduce_tree (bin_or E) (length inputs) inputs) (\<lambda>inputs.
     case inputs of [] \<Rightarrow> qfail Panic | x # _ \<Rightarrow> qret x)"

definition bin_set_bit :: "nat \<Rightarrow> nat share \<Rightarrow> nat share" where
  "bin_set_bit k x = Share (set_bit k (sh_a x)) (set_bit k (sh_b x))"

function bin_and_tree :: "('f, 'r, 's, 'w) env \<Rightarrow> nat \<Rightarrow> nat share \<Rightarrow> ('w, 'r, nat share) prog" where
  "bin_and_tree E len x =
     (if len > 1 then
        let (len, x) = (if len mod 2 = 1 then (len + 1, bin_set_bit len x) else (len, x));
            len = len div 2;
            y = bin_shr x len
        in qbind (bin_and E (bin_and_public x (mask len)) (bin_and_public y (mask len)))
             (bin_and_tree E len)
      else qret x)"
  by auto
termination
proof (relation "measure (\<lambda>(E, len, x). len)", goal_cases)
  case (2 E len x xa xb y xc xd xe)
  then show ?case by (cases "len mod 2 = 1") auto
qed simp

declare bin_and_tree.simps [simp del]

definition bin_is_zero :: "('f, 'r, 's, 'w) env \<Rightarrow> nat share \<Rightarrow> ('w, 'r, nat share) prog" where
  "bin_is_zero E x =
     (let bit_len = modulus_bit_size (fld E); x = bin_xor_both x (mask bit_len)
      in qbind (bin_and_tree E bit_len x) (\<lambda>x. qret (bin_and_public x 1)))"

function bin_and_tree_many ::
  "('f, 'r, 's, 'w) env \<Rightarrow> nat \<Rightarrow> nat share list \<Rightarrow> ('w, 'r, nat share list) prog" where
  "bin_and_tree_many E len xs =
     (if len > 1 then
        let (len, xs) = (if len mod 2 = 1 then (len + 1, map (bin_set_bit len) xs) else (len, xs));
            len = len div 2;
            ys = map (\<lambda>x. bin_and_public (bin_shr x len) (mask len)) xs;
            xs = map (\<lambda>x. bin_and_public x (mask len)) xs
        in qbind (bin_and_vec E xs ys) (bin_and_tree_many E len)
      else qret xs)"
  by auto
termination
proof (relation "measure (\<lambda>(E, len, x). len)", goal_cases)
  case (2 E len xs x xa y xb xc xd xe)
  then show ?case by (cases "len mod 2 = 1") auto
qed simp

declare bin_and_tree_many.simps [simp del]

definition bin_is_zero_many ::
  "('f, 'r, 's, 'w) env \<Rightarrow> nat share list \<Rightarrow> ('w, 'r, nat share list) prog" where
  "bin_is_zero_many E xs =
     (let bit_len = modulus_bit_size (fld E);
          xs = map (\<lambda>x. bin_and_public (bin_xor_both x (mask bit_len)) (mask bit_len)) xs
      in qbind (bin_and_tree_many E bit_len xs) (\<lambda>xs. qret (map (\<lambda>x. bin_and_public x 1) xs)))"

subsection \<open>Correctness\<close>

lemma xor_or_and: "(u XOR v) XOR (u AND v) = u OR (v :: 'a::semiring_bit_operations)"
  by (rule bit_eqI) (auto simp: bit_simps)

lemma bshare_xor_public [bshare_intros]:
  "bshare x u \<Longrightarrow> bshare (\<lambda>i. bin_xor_public (x i) v i) (u XOR v)"
  by (rule shared_by3I) (auto simp: bin_xor_public_def shared_by_def sum3_def ac_simps)

lemma bshare_or_public [bshare_intros]:
  "bshare x u \<Longrightarrow> bshare (\<lambda>i. bin_or_public (x i) v i) (u OR v)"
  unfolding bin_or_public_def Let_def xor_or_and[symmetric] by (intro bshare_intros)

lemma bshare_promote_to_trivial [bshare_intros]:
  "bshare (\<lambda>i. bin_promote_to_trivial_share i v) v"
  by (rule shared_by3I) (simp_all add: bin_promote_to_trivial_share_def)

lemma bshare_set_bit [bshare_intros]:
  "bshare x u \<Longrightarrow> bshare (\<lambda>i. bin_set_bit k (x i)) (set_bit k u)"
  by (rule shared_by3I)
    (auto simp: bin_set_bit_def shared_by_def sum3_def bit_eq_iff bit_simps)

lemma mpc_masked_big [mpc_rules]:
  assumes "\<And>z. sum3 (XOR) z = sum3 (XOR) v \<Longrightarrow> Q z"
  shows "mpc (\<lambda>i. masked_big E n (v i)) Q"
  unfolding masked_big_def draws_draw2
proof (intro mpc_rules)
  fix z :: "PartyID \<Rightarrow> nat"
  have "sum3 (XOR) (\<lambda>i. z i XOR z (prev_id i)) = 0"
    using bits.masks_cancel[of z] by simp
  then show "mpc (\<lambda>i. case (z i, z (prev_id i)) of (m, b) \<Rightarrow> qret (v i XOR (m XOR b))) Q"
    by (auto intro!: mpc_ret assms simp: bits.sum3_add)
qed

lemma mpc_bin_and [mpc_rules]:
  assumes "lawful_net E" "bshare x u" "bshare y v" "\<And>z. bshare z (u AND v) \<Longrightarrow> Q z"
  shows "mpc (\<lambda>i. bin_and E (x i) (y i)) Q"
  unfolding bin_and_def
  by (intro mpc_rules assms shared_by_reshare)
    (use assms in \<open>simp_all add: sum3_local_and\<close>)

lemma mpc_masked_bigs:
  assumes "vec_summing (XOR) y vs" "\<And>z. vec_summing (XOR) z vs \<Longrightarrow> Q z"
  shows "mpc (\<lambda>i. qmap (masked_big E n) (y i)) Q"
proof (rule mpc_qmap[where n = "length vs" and R = "\<lambda>k z. sum3 (XOR) z = vs ! k"])
  fix x k assume "k < length vs" "\<And>i. x i = y i ! k"
  with assms(1) show "mpc (\<lambda>i. masked_big E n (x i)) (\<lambda>z. sum3 (XOR) z = vs ! k)"
    by (intro mpc_masked_big) (simp add: vec_summing_def)
qed (use assms in \<open>simp_all add: vec_summing_def\<close>)

lemma vec_summing_local_and:
  assumes "bshares x us" "bshares y vs" "length us = length vs"
  shows "vec_summing (XOR) (\<lambda>i. map2 local_and (x i) (y i)) (map2 (AND) us vs)"
  using assms sum3_local_and by (fastforce simp: vec_summing_def vec_shared_by_def)

lemma mpc_bin_and_vec [mpc_rules]:
  assumes "lawful_net E" "bshares x us" "bshares y vs" "length us = length vs"
    and "\<And>z. bshares z (map2 (AND) us vs) \<Longrightarrow> Q z"
  shows "mpc (\<lambda>i. bin_and_vec E (x i) (y i)) Q"
  unfolding bin_and_vec_def
  by (rule mpc_bind, rule mpc_masked_bigs, rule vec_summing_local_and[OF assms(2-4)], rule mpc_bind,
      rule mpc_reshare)
    (use assms in \<open>auto intro!: mpc_ret assms(5) vec_shared_by_reshare\<close>)

lemma mpc_bin_or [mpc_rules]:
  assumes "lawful_net E" "bshare x u" "bshare y v" "\<And>z. bshare z (u OR v) \<Longrightarrow> Q z"
  shows "mpc (\<lambda>i. bin_or E (x i) (y i)) Q"
  unfolding bin_or_def Let_def
  by (rule mpc_bind, rule mpc_bin_and[OF assms(1-3)], rule mpc_ret, rule assms(4))
    (use bshare_xor[OF bshare_xor[OF assms(2,3)]] in \<open>simp add: xor_or_and[symmetric]\<close>)

lemma mpc_bin_or_vec [mpc_rules]:
  assumes "lawful_net E" "bshares x us" "bshares y vs" "length us = length vs"
    and "\<And>z. bshares z (map2 (OR) us vs) \<Longrightarrow> Q z"
  shows "mpc (\<lambda>i. bin_or_vec E (x i) (y i)) Q"
  unfolding bin_or_vec_def Let_def
proof (rule mpc_bind, rule mpc_bin_and_vec[OF assms(1-4)], rule mpc_ret, rule assms(5))
  fix z assume z: "bshares z (map2 (AND) us vs)"
  have "bshares (\<lambda>i. map2 bin_xor (map2 bin_xor (x i) (y i)) (z i)) (map2 (XOR) (map2 (XOR) us vs) (map2 (AND) us vs))"
    by (rule vec_shared_by_map2[OF vec_shared_by_map2[OF assms(2-4)] z])
      (use assms(4) in \<open>simp_all add: bshare_xor\<close>)
  moreover have "map2 (XOR) (map2 (XOR) us vs) (map2 (AND) us vs) = map2 (OR) us vs"
    using assms(4) by (auto simp: xor_or_and intro!: nth_equalityI)
  ultimately show "bshares (\<lambda>i. map2 bin_xor (map2 bin_xor (x i) (y i)) (z i)) (map2 (OR) us vs)" by simp
qed

lemma mpc_bin_open [mpc_rules]:
  assumes "lawful_net E" "bshare x v" "Q (\<lambda>i. v)"
  shows "mpc (\<lambda>i. bin_open E (x i)) Q"
  unfolding bin_open_def
  by (intro mpc_rules) (use assms bits.shared_open[OF assms(2)] in \<open>simp_all add: xor.assoc\<close>)

lemma mpc_bin_cmux [mpc_rules]:
  assumes "lawful_net E" "bshare c w" "bshare t u" "bshare f v"
    and "\<And>z. bshare z ((w AND (v XOR u)) XOR v) \<Longrightarrow> Q z"
  shows "mpc (\<lambda>i. bin_cmux E (c i) (t i) (f i)) Q"
  unfolding bin_cmux_def Let_def
  by (rule mpc_bind, rule mpc_bin_and[OF assms(1,2) bshare_xor[OF assms(4,3)]], rule mpc_ret,
      rule assms(5), rule bshare_xor[OF _ assms(4)])

lemma mpc_bin_cmux_many [mpc_rules]:
  assumes "lawful_net E" "bshares c ws" "bshares t us" "bshares f vs"
    and "length us = length vs" "length ws = length vs"
    and "\<And>z. bshares z (map2 (XOR) (map2 (AND) ws (map2 (XOR) vs us)) vs) \<Longrightarrow> Q z"
  shows "mpc (\<lambda>i. bin_cmux_many E (c i) (t i) (f i)) Q"
proof -
  note len = vec_shared_byD(1)[OF assms(2)] vec_shared_byD(1)[OF assms(3)] vec_shared_byD(1)[OF assms(4)]
  have "mpc (\<lambda>i. qbind (bin_and_vec E (c i) (map2 bin_xor (f i) (t i)))
      (\<lambda>conj. qret (zip_update bin_xor conj (f i)))) Q"
  proof (rule mpc_bind, rule mpc_bin_and_vec[OF assms(1,2)])
    show "bshares (\<lambda>i. map2 bin_xor (f i) (t i)) (map2 (XOR) vs us)"
      by (rule vec_shared_by_map2[OF assms(4,3)]) (simp_all add: assms(5) bshare_xor)
    fix z assume z: "bshares z (map2 (AND) ws (map2 (XOR) vs us))"
    have "bshares (\<lambda>i. map2 bin_xor (z i) (f i)) (map2 (XOR) (map2 (AND) ws (map2 (XOR) vs us)) vs)"
      by (rule vec_shared_by_map2[OF z assms(4)]) (simp_all add: assms(5,6) bshare_xor)
    moreover have "length (z i) = length (f i)" for i
      using vec_shared_byD(1)[OF z, of i] len assms(5,6) by simp
    ultimately show "mpc (\<lambda>i. qret (zip_update bin_xor (z i) (f i))) Q"
      by (simp add: mpc_ret assms(7))
  qed (use assms(5,6) in simp)
  then show ?thesis
    by (rule mpc_cong) (use len assms(5,6) in \<open>simp add: bin_cmux_many_def Let_def\<close>)
qed

subsubsection \<open>The tree of disjunctions\<close>

definition or_list :: "nat list \<Rightarrow> nat" where
  "or_list vs = foldr (OR) vs 0"

interpretation or_reduce: reduction lawful_net bin_or "(XOR)" "(OR)" "0 :: nat"
  by unfold_locales (rule mpc_bin_or, assumption+, simp_all add: ac_simps)

lemma mpc_bin_or_tree [mpc_rules]:
  assumes "lawful_net E" "bshares xs vs" "vs \<noteq> []" "\<And>z. bshare z (or_list vs) \<Longrightarrow> Q z"
  shows "mpc (\<lambda>i. bin_or_tree E (xs i)) Q"
  unfolding bin_or_tree_def
  by (rule or_reduce.mpc_tree[OF assms(1-3)]) (simp add: assms(4) or_list_def or_reduce.joins_def)

subsubsection \<open>The zero test\<close>

text \<open>One level of the tree of conjunctions on plain values.\<close>

definition and_level :: "nat \<Rightarrow> nat \<Rightarrow> nat" where
  "and_level h u = (u AND mask h) AND (drop_bit h u AND mask h)"

lemma and_level_all: "(\<forall>j < h. bit (and_level h u) j) \<longleftrightarrow> (\<forall>j < 2 * h. bit u j)"
proof
  assume *: "\<forall>j < h. bit (and_level h u) j"
  show "\<forall>j < 2 * h. bit u j"
  proof (intro allI impI)
    fix j assume "j < 2 * h"
    with *[rule_format, of j] *[rule_format, of "j - h"] show "bit u j"
      by (cases "j < h") (auto simp: and_level_def bit_simps)
  qed
qed (simp add: and_level_def bit_simps)

lemma pad_all: "(\<forall>j < Suc n. bit (set_bit n u) j) \<longleftrightarrow> (\<forall>j < n. bit (u :: nat) j)"
  by (auto simp: bit_simps less_Suc_eq)

lemma mpc_bin_and_tree:
  assumes "lawful_net E" "bshare x u" "0 < len"
    and "\<And>z r. bshare z r \<Longrightarrow> (bit r 0 \<longleftrightarrow> (\<forall>j < len. bit u j)) \<Longrightarrow> Q z"
  shows "mpc (\<lambda>i. bin_and_tree E len (x i)) Q"
  using assms(2-4)
proof (induction len arbitrary: x u Q rule: less_induct)
  case (less len)
  show ?case
  proof (cases "len > 1")
    case False
    with less.prems(2) have "len = 1" by simp
    with less.prems show ?thesis by (simp add: bin_and_tree.simps[of E "Suc 0"] mpc_ret)
  next
    case True
    define h where "h = (len + len mod 2) div 2"
    define u' where "u' = (if len mod 2 = 1 then set_bit len u else u)"
    define x' where "x' = (\<lambda>i. if len mod 2 = 1 then bin_set_bit len (x i) else x i)"
    have h: "h < len" "0 < h" "2 * h = len + len mod 2" using True by (auto simp: h_def)
    have x': "bshare x' u'" using less.prems(1) by (auto simp: x'_def u'_def intro: bshare_set_bit)
    have all: "(\<forall>j < 2 * h. bit u' j) \<longleftrightarrow> (\<forall>j < len. bit u j)"
      using h(3) pad_all[of len u] by (cases "len mod 2 = 1") (simp_all add: u'_def)
    have "mpc (\<lambda>i. qbind (bin_and E (bin_and_public (x' i) (mask h)) (bin_and_public (bin_shr (x' i) h) (mask h)))
        (bin_and_tree E h)) Q"
    proof (rule mpc_bind, rule mpc_bin_and[OF assms(1)])
      show "bshare (\<lambda>i. bin_and_public (x' i) (mask h)) (u' AND mask h)"
        "bshare (\<lambda>i. bin_and_public (bin_shr (x' i) h) (mask h)) (drop_bit h u' AND mask h)"
        by (intro bshare_intros x')+
      fix z assume "bshare z ((u' AND mask h) AND (drop_bit h u' AND mask h))"
      then have z: "bshare z (and_level h u')" by (simp add: and_level_def)
      show "mpc (\<lambda>i. bin_and_tree E h (z i)) Q"
        by (rule less.IH[OF h(1) z h(2)]) (use less.prems(3) and_level_all all in blast)
    qed
    then show ?thesis
      by (rule mpc_cong)
        (use True in \<open>auto simp: bin_and_tree.simps[of E len] x'_def h_def Let_def\<close>)
  qed
qed

lemma zero_bits: "(\<forall>j < n. bit ((u :: nat) XOR mask n) j) \<longleftrightarrow> u mod 2 ^ n = 0"
proof -
  have "(\<forall>j < n. bit (u XOR mask n) j) \<longleftrightarrow> take_bit n u = 0"
    by (auto simp: bit_eq_iff bit_simps)
  then show ?thesis by (simp add: take_bit_eq_mod)
qed

lemma and_one_of_bit: "(r :: nat) AND 1 = of_bool (bit r 0)"
  by (simp add: and_one_eq bit_0 mod2_eq_if)

text \<open>A share of one bit, each component of which is one bit.\<close>

definition bitshare :: "(PartyID \<Rightarrow> nat share) \<Rightarrow> bool \<Rightarrow> bool" where
  "bitshare x b \<longleftrightarrow> bshare x (of_bool b) \<and> (\<forall>i. sh_a (x i) < 2)"

definition bitshares :: "(PartyID \<Rightarrow> nat share list) \<Rightarrow> bool list \<Rightarrow> bool" where
  "bitshares x bs \<longleftrightarrow> bshares x (map of_bool bs) \<and> (\<forall>i. \<forall>s \<in> set (x i). sh_a s < 2)"

lemma bitshare_lsb: "bshare x u \<Longrightarrow> (bit u 0 \<longleftrightarrow> b) \<Longrightarrow> bitshare (\<lambda>i. bin_and_public (x i) 1) b"
  using bshare_and_public[of x u 1] by (simp only: bitshare_def and_one_of_bit)
    (simp add: bin_and_public_def and_one_eq)

lemma bitshares_lsb:
  assumes "bshares x us" "length us = length bs" "\<And>k. k < length bs \<Longrightarrow> bit (us ! k) 0 \<longleftrightarrow> bs ! k"
  shows "bitshares (\<lambda>i. map (\<lambda>x. bin_and_public x 1) (x i)) bs"
proof -
  have "bshares (\<lambda>i. map (\<lambda>x. bin_and_public x 1) (x i)) (map (\<lambda>u. u AND 1) us)"
    by (rule vec_shared_by_map[OF assms(1)], rule bshare_and_public)
  moreover have "map (\<lambda>u. u AND 1) us = map of_bool bs"
    using assms(2,3) by (intro nth_equalityI) (simp_all only: length_map nth_map and_one_of_bit)
  ultimately show ?thesis by (auto simp: bitshares_def bin_and_public_def and_one_eq)
qed

lemma mpc_bin_is_zero [mpc_rules]:
  assumes "lawful_net E" "0 < modulus_bit_size (fld E)" "bshare x u"
    and "\<And>z. bitshare z (u mod 2 ^ modulus_bit_size (fld E) = 0) \<Longrightarrow> Q z"
  shows "mpc (\<lambda>i. bin_is_zero E (x i)) Q"
  unfolding bin_is_zero_def Let_def
  by (rule mpc_bind, rule mpc_bin_and_tree[OF assms(1) bshare_xor_both[OF assms(3)] assms(2)],
      rule mpc_ret, rule assms(4), erule bitshare_lsb) (simp only: zero_bits)

lemma mpc_bin_and_tree_many:
  assumes "lawful_net E" "bshares x us" "0 < len"
    and "\<And>z rs. bshares z rs \<Longrightarrow> length rs = length us \<Longrightarrow>
      (\<And>k. k < length us \<Longrightarrow> bit (rs ! k) 0 \<longleftrightarrow> (\<forall>j < len. bit (us ! k) j)) \<Longrightarrow> Q z"
  shows "mpc (\<lambda>i. bin_and_tree_many E len (x i)) Q"
  using assms(2-4)
proof (induction len arbitrary: x us Q rule: less_induct)
  case (less len)
  show ?case
  proof (cases "len > 1")
    case False
    with less.prems(2) have "len = 1" by simp
    with less.prems show ?thesis by (simp add: bin_and_tree_many.simps[of E "Suc 0"] mpc_ret)
  next
    case True
    define h where "h = (len + len mod 2) div 2"
    define us' where "us' = (if len mod 2 = 1 then map (set_bit len) us else us)"
    define x' where "x' = (\<lambda>i. if len mod 2 = 1 then map (bin_set_bit len) (x i) else x i)"
    have h: "h < len" "0 < h" "2 * h = len + len mod 2" using True by (auto simp: h_def)
    have x': "bshares x' us'" using less.prems(1)
      by (auto simp: x'_def us'_def intro: vec_shared_by_map bshare_set_bit)
    have l: "length us' = length us" by (simp add: us'_def)
    have all: "k < length us \<Longrightarrow> (\<forall>j < 2 * h. bit (us' ! k) j) \<longleftrightarrow> (\<forall>j < len. bit (us ! k) j)" for k
      using h(3) pad_all[of len "us ! k"] by (cases "len mod 2 = 1") (simp_all add: us'_def)
    have "mpc (\<lambda>i. qbind (bin_and_vec E (map (\<lambda>x. bin_and_public x (mask h)) (x' i))
          (map (\<lambda>x. bin_and_public (bin_shr x h) (mask h)) (x' i))) (bin_and_tree_many E h)) Q"
    proof (rule mpc_bind, rule mpc_bin_and_vec[OF assms(1)])
      show "bshares (\<lambda>i. map (\<lambda>x. bin_and_public x (mask h)) (x' i)) (map (\<lambda>u. u AND mask h) us')"
        "bshares (\<lambda>i. map (\<lambda>x. bin_and_public (bin_shr x h) (mask h)) (x' i)) (map (\<lambda>u. drop_bit h u AND mask h) us')"
        by (rule vec_shared_by_map[OF x'], intro bshare_intros, assumption)+
      fix z assume "bshares z (map2 (AND) (map (\<lambda>u. u AND mask h) us') (map (\<lambda>u. drop_bit h u AND mask h) us'))"
      moreover have "map2 (AND) (map (\<lambda>u. u AND mask h) us') (map (\<lambda>u. drop_bit h u AND mask h) us') = map (and_level h) us'"
        by (auto simp: and_level_def intro!: nth_equalityI)
      ultimately have z: "bshares z (map (and_level h) us')" by simp
      show "mpc (\<lambda>i. bin_and_tree_many E h (z i)) Q"
        by (rule less.IH[OF h(1) z h(2)], rule less.prems(3), assumption) (simp_all add: l and_level_all all)
    qed simp
    then show ?thesis
      by (rule mpc_cong)
        (use True in \<open>auto simp: bin_and_tree_many.simps[of E len] x'_def h_def Let_def o_def\<close>)
  qed
qed

lemma mpc_bin_is_zero_many [mpc_rules]:
  assumes "lawful_net E" "0 < modulus_bit_size (fld E)" "bshares x us"
    and "\<And>z. bitshares z (map (\<lambda>u. u mod 2 ^ modulus_bit_size (fld E) = 0) us) \<Longrightarrow> Q z"
  shows "mpc (\<lambda>i. bin_is_zero_many E (x i)) Q"
  unfolding bin_is_zero_many_def Let_def
proof (rule mpc_bind, rule mpc_bin_and_tree_many[OF assms(1) _ assms(2)])
  let ?n = "modulus_bit_size (fld E)"
  show "bshares (\<lambda>i. map (\<lambda>x. bin_and_public (bin_xor_both x (mask ?n)) (mask ?n)) (x i))
      (map (\<lambda>u. (u XOR mask ?n) AND mask ?n) us)"
    by (rule vec_shared_by_map[OF assms(3)], intro bshare_intros, assumption)
  fix z and rs :: "nat list"
  assume z: "bshares z rs" and l: "length rs = length (map (\<lambda>u. (u XOR mask ?n) AND mask ?n) us)"
    and r: "\<And>k. k < length (map (\<lambda>u. (u XOR mask ?n) AND mask ?n) us) \<Longrightarrow>
      bit (rs ! k) 0 \<longleftrightarrow> (\<forall>j < ?n. bit (map (\<lambda>u. (u XOR mask ?n) AND mask ?n) us ! k) j)"
  have "bit (rs ! k) 0 \<longleftrightarrow> us ! k mod 2 ^ ?n = 0" if "k < length us" for k
    using r[of k] zero_bits[of ?n "us ! k"] that by (simp add: bit_simps)
  with l show "mpc (\<lambda>i. qret (map (\<lambda>x. bin_and_public x 1) (z i))) Q"
    by (intro mpc_ret assms(4) bitshares_lsb[OF z]) simp_all
qed

subsection \<open>Properties\<close>

text \<open>
  (C16) The reduction tree of \<open>or_tree\<close> returns, for every non-empty vector of binary shares of
  any length, a sharing of the disjunction of all of them.
\<close>

theorem bin_or_tree_correct:
  assumes "lawful_net E" "bshares xs vs" "vs \<noteq> []"
  shows "mpc (\<lambda>i. bin_or_tree E (xs i)) (\<lambda>z. bshare z (foldr (OR) vs 0))"
  using mpc_bin_or_tree[OF assms, of "\<lambda>z. bshare z (foldr (OR) vs 0)"] by (simp add: or_list_def)

theorem bin_or_tree_correct_witness:
  "mpc (\<lambda>i. bin_or_tree ex_env [dealt 1 2 0 i, dealt 4 0 0 i, dealt 0 1 0 i]) (\<lambda>z. bshare z 7)"
  using bin_or_tree_correct[OF ex_env_lawful(1) dealt_list(1)[OF dealt_bshare[of 1 2 0 3]
      dealt_list(1)[OF dealt_bshare[of 4 0 0 4] dealt_list(1)[OF dealt_bshare[of 0 1 0 1] dealt_list(2)]]]]
  by simp

text \<open>
  \<open>is_zero\<close> returns a sharing of the single bit that says whether the shared number is zero
  in its low \<open>MODULUS_BIT_SIZE\<close> bits; every component of the result is a single bit.
\<close>

theorem bin_is_zero_correct:
  assumes "lawful_net E" "0 < modulus_bit_size (fld E)" "bshare x u"
  shows "mpc (\<lambda>i. bin_is_zero E (x i)) (\<lambda>z.
     bshare z (of_bool (u mod 2 ^ modulus_bit_size (fld E) = 0)) \<and> (\<forall>i. sh_a (z i) < 2))"
  by (rule mpc_bin_is_zero[OF assms]) (simp add: bitshare_def)

theorem bin_is_zero_correct_witness:
  "mpc (\<lambda>i. bin_is_zero ex_env (dealt 5 3 6 i)) (\<lambda>z. bshare z 1 \<and> (\<forall>i. sh_a (z i) < 2)) \<and>
   mpc (\<lambda>i. bin_is_zero ex_env (dealt 5 3 2 i)) (\<lambda>z. bshare z 0 \<and> (\<forall>i. sh_a (z i) < 2))"
  using bin_is_zero_correct[OF ex_env_lawful(1) _ dealt_bshare[of 5 3 6 0]]
    bin_is_zero_correct[OF ex_env_lawful(1) _ dealt_bshare[of 5 3 2 4]] by simp

end
