(* ===== verification/Rep3_Detail.thy ===== *)
theory Rep3_Detail
  imports Rep3_Binary
begin

text \<open>
  The binary circuits of \<open>rep3/detail.rs\<close>: the Kogge-Stone adder on shared bit strings, single
  and batched, and what is built on it: addition and subtraction, subtraction of the modulus
  and addition modulo the field characteristic.  The results are stated in terms of the plain
  adder of theory \<open>Kogge_Stone\<close>.  The comparisons of the file need conversions and are in
  \<open>Rep3_Compare\<close>.
\<close>

subsection \<open>The adder\<close>

text \<open>\<open>x - 1\<close> wraps at zero in a release build.\<close>

definition ceil_log2 :: "nat \<Rightarrow> nat" where
  "ceil_log2 x = bit_count (if x = 0 then 2 ^ 64 - 1 else x - 1)"

definition and_twice ::
  "('f, 'r, 's, 'w) env \<Rightarrow> nat share \<Rightarrow> nat share \<Rightarrow> nat share \<Rightarrow> nat \<Rightarrow>
   ('w, 'r, nat share \<times> nat share) prog" where
  "and_twice E a b1 b2 bitlen =
     qbind (masked_big E bitlen (local_and b1 a)) (\<lambda>local_a1.
     qbind (masked_big E bitlen (local_and a b2)) (\<lambda>local_a2.
     qbind (send_next (b2codec E) (local_a1, local_a2)) (\<lambda>_.
     qbind (recv_prev (b2codec E)) (\<lambda>(local_b1, local_b2).
     qret (Share local_a1 local_b1, Share local_a2 local_b2)))))"

definition kogge_stone_inner ::
  "('f, 'r, 's, 'w) env \<Rightarrow> nat share \<Rightarrow> nat share \<Rightarrow> nat \<Rightarrow> ('w, 'r, nat share) prog" where
  "kogge_stone_inner E p g bitlen =
     (let d = ceil_log2 bitlen; s0 = p
      in qbind (qfold (\<lambda>i (p, g).
           let shift = 2 ^ i;
               m = mask (bitlen - shift);
               p' = bin_and_public p m;
               g' = bin_and_public g m;
               p_shift = bin_shr p shift
           in qbind (and_twice E p_shift g' p' (bitlen - shift)) (\<lambda>(r1, r2).
              qret (bin_shl r2 shift, bin_xor g (bin_shl r1 shift)))) [0..<d] (p, g))
         (\<lambda>(p, g). qret (bin_xor (bin_shl g 1) s0)))"

definition low_depth_binary_add ::
  "('f, 'r, 's, 'w) env \<Rightarrow> nat share \<Rightarrow> nat share \<Rightarrow> nat \<Rightarrow> ('w, 'r, nat share) prog" where
  "low_depth_binary_add E x1 x2 bitlen =
     (let p = bin_xor x1 x2 in qbind (bin_and E x1 x2) (\<lambda>g. kogge_stone_inner E p g bitlen))"

definition low_depth_binary_sub_p ::
  "('f, 'r, 's, 'w) env \<Rightarrow> nat share \<Rightarrow> nat \<Rightarrow> ('w, 'r, nat share) prog" where
  "low_depth_binary_sub_p E x bitlen =
     (let p' = 2 ^ bitlen - modulus (fld E); g = bin_and_public x p'
      in qbind get_id (\<lambda>i. kogge_stone_inner E (bin_xor_public x p' i) g bitlen))"

text \<open>The lowest bit of each component, spread over \<open>mask\<close>.\<close>

definition spread_lsb :: "nat \<Rightarrow> nat share \<Rightarrow> nat share" where
  "spread_lsb m y = Share (if sh_a y AND 1 = 1 then m else 0) (if sh_b y AND 1 = 1 then m else 0)"

definition low_depth_sub_p_cmux ::
  "('f, 'r, 's, 'w) env \<Rightarrow> nat share \<Rightarrow> nat \<Rightarrow> ('w, 'r, nat share) prog" where
  "low_depth_sub_p_cmux E x bitlen =
     (let original_bitlen = bitlen - 1; m = mask original_bitlen
      in qbind (low_depth_binary_sub_p E x bitlen) (\<lambda>y.
           let x = bin_and_public x m;
               y_msb = bin_shr y bitlen;
               y = bin_and_public y m;
               ov = spread_lsb m y_msb
           in bin_cmux E ov y x))"

definition low_depth_binary_add_mod_p ::
  "('f, 'r, 's, 'w) env \<Rightarrow> nat share \<Rightarrow> nat share \<Rightarrow> nat \<Rightarrow> ('w, 'r, nat share) prog" where
  "low_depth_binary_add_mod_p E x1 x2 bitlen =
     qbind (low_depth_binary_add E x1 x2 bitlen) (\<lambda>x. low_depth_sub_p_cmux E x (bitlen + 1))"

definition low_depth_binary_sub ::
  "('f, 'r, 's, 'w) env \<Rightarrow> nat share \<Rightarrow> nat share \<Rightarrow> nat \<Rightarrow> ('w, 'r, nat share) prog" where
  "low_depth_binary_sub E x1 x2 bitlen = qbind get_id (\<lambda>i.
     let x2 = bin_xor_public x2 (mask bitlen) i;
         p = bin_xor x1 x2
     in qbind (bin_and E x1 x2) (\<lambda>g.
          let g = bin_xor g (bin_and_public p 1)
          in qbind (kogge_stone_inner E p g bitlen) (\<lambda>res. qret (bin_xor_public res 1 i))))"

definition low_depth_binary_sub_by_const ::
  "('f, 'r, 's, 'w) env \<Rightarrow> nat share \<Rightarrow> nat \<Rightarrow> ('w, 'r, nat share) prog" where
  "low_depth_binary_sub_by_const E x1 x2 = qbind get_id (\<lambda>i.
     let x2' = 2 ^ modulus_bit_size (fld E) - x2;
         p = bin_xor_public x1 x2' i;
         g = bin_and_public x1 x2'
     in kogge_stone_inner E p g (modulus_bit_size (fld E)))"

definition low_depth_binary_sub_from_const ::
  "('f, 'r, 's, 'w) env \<Rightarrow> nat \<Rightarrow> nat share \<Rightarrow> ('w, 'r, nat share) prog" where
  "low_depth_binary_sub_from_const E x1 x2 = qbind get_id (\<lambda>i.
     let x2 = bin_xor_public x2 (mask (modulus_bit_size (fld E))) i;
         p = bin_xor_public x2 x1 i;
         g = bin_and_public x2 x1;
         g = bin_xor g (bin_and_public p 1)
     in qbind (kogge_stone_inner E p g (modulus_bit_size (fld E))) (\<lambda>res.
        qret (bin_xor_public res 1 i)))"

subsection \<open>The batched versions\<close>

definition and_twice_many_iter ::
  "('f, 'r, 's, 'w) env \<Rightarrow> nat share list \<Rightarrow> nat share list \<Rightarrow> nat share list \<Rightarrow> nat \<Rightarrow> nat \<Rightarrow>
   ('w, 'r, nat share list \<times> nat share list) prog" where
  "and_twice_many_iter E a b1 b2 bitlen shift =
     qbind (qmap (\<lambda>(a, b1, b2).
       qbind (with_rand (random_biguint (rngop E) bitlen)) (\<lambda>(mask1, mask_b1).
       qbind (with_rand (random_biguint (rngop E) bitlen)) (\<lambda>(mask2, mask_b2).
       qret (push_bit shift (local_and b1 a XOR (mask1 XOR mask_b1)),
             push_bit shift (local_and a b2 XOR (mask2 XOR mask_b2)))))) (zip a (zip b1 b2))) (\<lambda>local.
     let local_a1 = map fst local; local_a2 = map snd local
     in qbind (send_next (bv2codec E) (local_a1, local_a2)) (\<lambda>_.
        qbind (recv_prev (bv2codec E)) (\<lambda>(local_b1, local_b2).
          let quads = zip local_a1 (zip local_b1 (zip local_a2 local_b2))
          in qret (map (\<lambda>(a1, b1, a2, b2). Share a1 b1) quads,
                   map (\<lambda>(a1, b1, a2, b2). Share a2 b2) quads))))"

definition kogge_stone_inner_many ::
  "('f, 'r, 's, 'w) env \<Rightarrow> nat share list \<Rightarrow> nat share list \<Rightarrow> nat \<Rightarrow>
   ('w, 'r, nat share list \<times> nat share list) prog" where
  "kogge_stone_inner_many E p g bitlen =
     (let d = ceil_log2 bitlen; s0 = p
      in qbind (qfold (\<lambda>i (p, g).
           let shift = 2 ^ i;
               m = mask (bitlen - shift);
               p' = map (\<lambda>p. bin_and_public p m) p;
               g' = map (\<lambda>g. bin_and_public g m) g;
               p_shift = map (\<lambda>p. bin_shr p shift) p
           in qbind (and_twice_many_iter E p_shift g' p' (bitlen - shift) shift) (\<lambda>(r1, r2).
              qret (zip_update (\<lambda>_ r2. r2) p r2, zip_update bin_xor g r1))) [0..<d] (p, g))
         (\<lambda>(p, g). qret (p, zip_update (\<lambda>g s. bin_xor (bin_shl g 1) s) g s0)))"

definition low_depth_binary_add_many ::
  "('f, 'r, 's, 'w) env \<Rightarrow> nat share list \<Rightarrow> nat share list \<Rightarrow> nat \<Rightarrow> ('w, 'r, nat share list) prog" where
  "low_depth_binary_add_many E x1 x2 bitlen =
     (let p = map2 bin_xor x1 x2
      in qbind (bin_and_vec E x1 x2) (\<lambda>g.
         qbind (kogge_stone_inner_many E p g bitlen) (\<lambda>(p, g). qret g)))"

definition low_depth_binary_sub_p_many ::
  "('f, 'r, 's, 'w) env \<Rightarrow> nat share list \<Rightarrow> nat \<Rightarrow> ('w, 'r, nat share list) prog" where
  "low_depth_binary_sub_p_many E x bitlen =
     (let p' = 2 ^ bitlen - modulus (fld E); g = map (\<lambda>x. bin_and_public x p') x
      in qbind get_id (\<lambda>i.
         qbind (kogge_stone_inner_many E (map (\<lambda>x. bin_xor_public x p' i) x) g bitlen) (\<lambda>(p, g). qret g)))"

definition low_depth_sub_p_cmux_many ::
  "('f, 'r, 's, 'w) env \<Rightarrow> nat share list \<Rightarrow> nat \<Rightarrow> ('w, 'r, nat share list) prog" where
  "low_depth_sub_p_cmux_many E x bitlen =
     (let original_bitlen = bitlen - 1; m = mask original_bitlen
      in qbind (low_depth_binary_sub_p_many E x bitlen) (\<lambda>y.
           let x = map (\<lambda>x. bin_and_public x m) x;
               y_msb = map (\<lambda>y. bin_shr y bitlen) y;
               y = map (\<lambda>y. bin_and_public y m) y;
               ov = map (spread_lsb m) y_msb
           in bin_cmux_many E ov y x))"

definition low_depth_binary_add_mod_p_many ::
  "('f, 'r, 's, 'w) env \<Rightarrow> nat share list \<Rightarrow> nat share list \<Rightarrow> nat \<Rightarrow> ('w, 'r, nat share list) prog" where
  "low_depth_binary_add_mod_p_many E x1 x2 bitlen =
     qbind (low_depth_binary_add_many E x1 x2 bitlen) (\<lambda>x. low_depth_sub_p_cmux_many E x (bitlen + 1))"

definition low_depth_binary_sub_many ::
  "('f, 'r, 's, 'w) env \<Rightarrow> nat share list \<Rightarrow> nat share list \<Rightarrow> nat \<Rightarrow> ('w, 'r, nat share list) prog" where
  "low_depth_binary_sub_many E x1 x2 bitlen = qbind get_id (\<lambda>i.
     let x2 = map (\<lambda>x. bin_xor_public x (mask bitlen) i) x2;
         p = map2 bin_xor x1 x2
     in qbind (bin_and_vec E x1 x2) (\<lambda>g.
          let g = map2 (\<lambda>g p. bin_xor g (bin_and_public p 1)) g p
          in qbind (kogge_stone_inner_many E p g bitlen) (\<lambda>(p, g).
             qret (map (\<lambda>r. bin_xor_public r 1 i) g))))"

text \<open>The public entry points of \<open>binary.rs\<close>.\<close>

definition bin_add_many ::
  "('f, 'r, 's, 'w) env \<Rightarrow> nat share list \<Rightarrow> nat share list \<Rightarrow> nat \<Rightarrow> ('w, 'r, nat share list) prog" where
  "bin_add_many E a b bitlen = low_depth_binary_add_many E a b bitlen"

definition bin_add_many_mod_p ::
  "('f, 'r, 's, 'w) env \<Rightarrow> nat share list \<Rightarrow> nat share list \<Rightarrow> nat \<Rightarrow> ('w, 'r, nat share list) prog" where
  "bin_add_many_mod_p E a b bitlen = low_depth_binary_add_mod_p_many E a b bitlen"

subsection \<open>Correctness of the adder\<close>

lemma ceil_log2_bound: "0 < n \<Longrightarrow> n \<le> 2 ^ ceil_log2 n"
  using less_2_bit_count[of "n - 1"] by (simp add: ceil_log2_def)

text \<open>The subtraction \<open>bitlen - shift\<close> of the loop never underflows.\<close>

lemma ks_shift_less: "0 < n \<Longrightarrow> i < ceil_log2 n \<Longrightarrow> 2 ^ i < n"
proof -
  assume n: "0 < n" and i: "i < ceil_log2 n"
  then have "n - 1 \<noteq> 0" by (auto simp: ceil_log2_def bit_count.simps[of 0])
  then have "2 ^ (bit_count (n - 1) - 1) \<le> n - 1" using bit_count_le by simp
  moreover have "i \<le> bit_count (n - 1) - 1" using i n by (auto simp: ceil_log2_def)
  then have "2 ^ i \<le> (2::nat) ^ (bit_count (n - 1) - 1)" by simp
  ultimately show ?thesis using n by linarith
qed

lemma mpc_and_twice [mpc_rules]:
  assumes "lawful_net E" "bshare a u" "bshare b1 v1" "bshare b2 v2"
    and "\<And>z1 z2. bshare z1 (v1 AND u) \<Longrightarrow> bshare z2 (u AND v2) \<Longrightarrow> Q (\<lambda>i. (z1 i, z2 i))"
  shows "mpc (\<lambda>i. and_twice E (a i) (b1 i) (b2 i) n) Q"
  unfolding and_twice_def send_recv_reshare_one
  by (rule mpc_bind, rule mpc_masked_big, rule mpc_bind, rule mpc_masked_big, rule mpc_bind,
      rule mpc_reshare)
    (use assms in \<open>auto intro!: mpc_ret assms(5) shared_by_reshare simp: sum3_local_and\<close>)

lemma mpc_kogge_stone_inner [mpc_rules]:
  assumes "lawful_net E" "bshare p u" "bshare g w"
    and "\<And>z. bshare z (ks_adder n (ceil_log2 n) u w) \<Longrightarrow> Q z"
  shows "mpc (\<lambda>i. kogge_stone_inner E (p i) (g i) n) Q"
proof -
  define I where "I = (\<lambda>k (s :: PartyID \<Rightarrow> nat share \<times> nat share).
     bshare (\<lambda>i. fst (s i)) (fst (ks_rounds n k (u, w))) \<and>
     bshare (\<lambda>i. snd (s i)) (snd (ks_rounds n k (u, w))))"
  show ?thesis
    unfolding kogge_stone_inner_def Let_def
  proof (rule mpc_bind, rule mpc_qfold_upt[where I = I])
    show "I 0 (\<lambda>i. (p i, g i))" using assms(2,3) by (simp add: I_def)
  next
    fix k s assume "I k s"
    then have P: "bshare (\<lambda>i. fst (s i)) (fst (ks_rounds n k (u, w)))"
      and G: "bshare (\<lambda>i. snd (s i)) (snd (ks_rounds n k (u, w)))" by (simp_all add: I_def)
    let ?m = "mask (n - 2 ^ k)"
    have "mpc (\<lambda>i. qbind (and_twice E (bin_shr (fst (s i)) (2 ^ k)) (bin_and_public (snd (s i)) ?m)
          (bin_and_public (fst (s i)) ?m) (n - 2 ^ k)) (\<lambda>(r1, r2).
        qret (bin_shl r2 (2 ^ k), bin_xor (snd (s i)) (bin_shl r1 (2 ^ k))))) (I (Suc k))"
      by (rule mpc_bind, rule mpc_and_twice[OF assms(1) bshare_shr[OF P] bshare_and_public[OF G]
            bshare_and_public[OF P]])
        (auto intro!: mpc_ret bshare_shl bshare_xor[OF G] simp: I_def ks_round_def split_beta simp del: push_bit_and)
    then show "mpc (\<lambda>i. case s i of (p, g) \<Rightarrow>
        qbind (and_twice E (bin_shr p (2 ^ k)) (bin_and_public g ?m) (bin_and_public p ?m) (n - 2 ^ k))
          (\<lambda>(r1, r2). qret (bin_shl r2 (2 ^ k), bin_xor g (bin_shl r1 (2 ^ k))))) (I (Suc k))"
      by (rule mpc_cong) (simp add: split_beta)
  next
    fix s assume "I (ceil_log2 n) s"
    then have "bshare (\<lambda>i. bin_xor (bin_shl (snd (s i)) 1) (p i)) (ks_adder n (ceil_log2 n) u w)"
      unfolding I_def ks_adder_def by (intro bshare_xor bshare_shl assms(2)) simp
    then show "mpc (\<lambda>i. case s i of (p', g) \<Rightarrow> qret (bin_xor (bin_shl g 1) (p i))) Q"
      by (simp add: split_beta mpc_ret assms(4))
  qed
qed

lemma mpc_low_depth_binary_add [mpc_rules]:
  assumes "lawful_net E" "bshare x u" "bshare y v" "u < 2 ^ n" "v < 2 ^ n" "0 < n"
    and "\<And>z. bshare z (u + v) \<Longrightarrow> Q z"
  shows "mpc (\<lambda>i. low_depth_binary_add E (x i) (y i) n) Q"
  unfolding low_depth_binary_add_def Let_def
  by (rule mpc_bind, rule mpc_bin_and[OF assms(1-3)],
      rule mpc_kogge_stone_inner[OF assms(1) bshare_xor[OF assms(2,3)]], assumption)
    (simp add: ks_adder_add[OF ceil_log2_bound[OF assms(6)] assms(4,5)] assms(7))

lemma bshare_spread [bshare_intros]:
  "bshare y u \<Longrightarrow> bshare (\<lambda>i. spread_lsb m (y i)) (if bit u 0 then m else 0)"
  by (rule shared_by3I)
    (auto simp: spread_lsb_def shared_by_def sum3_def bit_0 and_one_eq mod2_eq_if even_xor_iff)

lemma cmux_select:
  "((if b then mask n else 0) AND ((x AND mask n) XOR (y AND mask n))) XOR (x AND mask n) =
   (if b then y AND mask n else x AND mask n :: nat)"
  by (rule bit_eqI) (auto simp: bit_simps)

lemma mpc_low_depth_sub_p_cmux [mpc_rules]:
  assumes "lawful_net E" "bshare x u" "modulus (fld E) \<le> 2 ^ n" "0 < modulus (fld E)"
    and "u < 2 * modulus (fld E)" "\<And>z. bshare z (u mod modulus (fld E)) \<Longrightarrow> Q z"
  shows "mpc (\<lambda>i. low_depth_sub_p_cmux E (x i) (Suc n)) Q"
proof -
  let ?p = "2 ^ Suc n - modulus (fld E)" and ?d = "ceil_log2 (Suc n)"
  let ?y = "ks_adder (Suc n) ?d (u XOR ?p) (u AND ?p)"
  have d: "Suc n \<le> 2 ^ ?d" by (rule ceil_log2_bound) simp
  have "mpc (\<lambda>i. low_depth_binary_sub_p E (x i) (Suc n)) (\<lambda>y. bshare y ?y)"
    unfolding low_depth_binary_sub_p_def Let_def
    by (rule mpc_bind, rule mpc_get_id,
        rule mpc_kogge_stone_inner[OF assms(1) bshare_xor_public[OF assms(2)] bshare_and_public[OF assms(2)]])
  then show ?thesis
    unfolding low_depth_sub_p_cmux_def Let_def
  proof (rule_tac mpc_bind, rule_tac mpc_consequence)
    fix y assume y: "bshare y ?y"
    let ?c = "if bit (drop_bit (Suc n) ?y) 0 then mask n else 0"
    have c: "?c = (if modulus (fld E) \<le> u then mask n else 0)"
      using sub_p_circuit(1)[OF assms(3-5) d] by (simp add: bit_drop_bit_eq)
    have eq: "(?c AND ((u AND mask n) XOR (?y AND mask n))) XOR (u AND mask n) = u mod modulus (fld E)"
      unfolding c cmux_select by (rule sub_p_circuit(2)[OF assms(3-5) d])
    show "mpc (\<lambda>i. bin_cmux E (spread_lsb (mask (Suc n - 1)) (bin_shr (y i) (Suc n)))
        (bin_and_public (y i) (mask (Suc n - 1))) (bin_and_public (x i) (mask (Suc n - 1)))) Q"
      unfolding diff_Suc_1
      by (rule mpc_bin_cmux[OF assms(1) bshare_spread[OF bshare_shr[OF y]] bshare_and_public[OF y]
            bshare_and_public[OF assms(2)]]) (simp only: eq assms(6))
  qed
qed

lemma mpc_low_depth_binary_add_mod_p [mpc_rules]:
  assumes "lawful_net E" "bshare x u" "bshare y v" "modulus (fld E) \<le> 2 ^ n" "0 < n"
    and "u < modulus (fld E)" "v < modulus (fld E)"
    and "\<And>z. bshare z ((u + v) mod modulus (fld E)) \<Longrightarrow> Q z"
  shows "mpc (\<lambda>i. low_depth_binary_add_mod_p E (x i) (y i) n) Q"
  unfolding low_depth_binary_add_mod_p_def add.commute[of n] plus_1_eq_Suc
  by (rule mpc_bind, rule mpc_low_depth_binary_add[OF assms(1-3)])
    (use assms in \<open>auto intro: mpc_low_depth_sub_p_cmux\<close>)

text \<open>Subtraction: the result carries the comparison in bit \<open>n\<close>.\<close>

lemma mpc_low_depth_binary_sub [mpc_rules]:
  assumes "lawful_net E" "bshare x u" "bshare y v" "u < 2 ^ n" "v < 2 ^ n" "0 < n"
    and "\<And>z. bshare z (2 ^ n + u - v) \<Longrightarrow> Q z"
  shows "mpc (\<lambda>i. low_depth_binary_sub E (x i) (y i) n) Q"
  unfolding low_depth_binary_sub_def Let_def
proof (rule mpc_bind, rule mpc_get_id, rule mpc_bind,
    rule mpc_bin_and[OF assms(1,2) bshare_xor_public[OF assms(3)]], rule mpc_bind,
    rule mpc_kogge_stone_inner[OF assms(1) bshare_xor[OF assms(2) bshare_xor_public[OF assms(3)]]
      bshare_xor[OF _ bshare_and_public[OF bshare_xor[OF assms(2) bshare_xor_public[OF assms(3)]]]]],
    assumption, rule mpc_ret, rule assms(7))
  fix z r
  assume "bshare r (ks_adder n (ceil_log2 n) (u XOR (v XOR mask n))
      ((u AND (v XOR mask n)) XOR ((u XOR (v XOR mask n)) AND 1)))"
  from bshare_xor_public[OF this, of 1]
  show "bshare (\<lambda>i. bin_xor_public (r i) 1 i) (2 ^ n + u - v)"
    by (simp only: ks_adder_sub[OF ceil_log2_bound[OF assms(6)] assms(6,4,5)])
qed

lemma mpc_low_depth_binary_sub_by_const [mpc_rules]:
  assumes "lawful_net E" "bshare x u" "n = modulus_bit_size (fld E)" "0 < n" "u < 2 ^ n" "v < 2 ^ n"
    and "\<And>z. bshare z (2 ^ n + u - v) \<Longrightarrow> Q z"
  shows "mpc (\<lambda>i. low_depth_binary_sub_by_const E (x i) v) Q"
  unfolding low_depth_binary_sub_by_const_def Let_def assms(3)[symmetric]
  by (rule mpc_bind, rule mpc_get_id,
      rule mpc_kogge_stone_inner[OF assms(1) bshare_xor_public[OF assms(2)] bshare_and_public[OF assms(2)]])
    (simp only: ks_adder_sub_const[OF ceil_log2_bound[OF assms(4)] assms(5,6)] assms(7))

lemma mpc_low_depth_binary_sub_from_const [mpc_rules]:
  assumes "lawful_net E" "bshare y v" "n = modulus_bit_size (fld E)" "0 < n" "u < 2 ^ n" "v < 2 ^ n"
    and "\<And>z. bshare z (2 ^ n + u - v) \<Longrightarrow> Q z"
  shows "mpc (\<lambda>i. low_depth_binary_sub_from_const E u (y i)) Q"
  unfolding low_depth_binary_sub_from_const_def Let_def assms(3)[symmetric]
proof (rule mpc_bind, rule mpc_get_id, rule mpc_bind, rule mpc_kogge_stone_inner[OF assms(1)
      bshare_xor_public[OF bshare_xor_public[OF assms(2)]]
      bshare_xor[OF bshare_and_public[OF bshare_xor_public[OF assms(2)]]
        bshare_and_public[OF bshare_xor_public[OF bshare_xor_public[OF assms(2)]]]]],
    rule mpc_ret, rule assms(7))
  fix r
  assume "bshare r (ks_adder n (ceil_log2 n) ((v XOR mask n) XOR u)
      (((v XOR mask n) AND u) XOR (((v XOR mask n) XOR u) AND 1)))"
  then have "bshare r (ks_adder n (ceil_log2 n) (u XOR (v XOR mask n))
      ((u AND (v XOR mask n)) XOR ((u XOR (v XOR mask n)) AND 1)))"
    by (simp only: xor.commute[of _ u] and.commute[of _ u])
  from bshare_xor_public[OF this, of 1]
  show "bshare (\<lambda>i. bin_xor_public (r i) 1 i) (2 ^ n + u - v)"
    by (simp only: ks_adder_sub[OF ceil_log2_bound[OF assms(4)] assms(4-6)])
qed

subsection \<open>Correctness of the batched versions\<close>

lemma mpc_mask_pair:
  assumes "\<And>z1 z2. sum3 (XOR) z1 = sum3 (XOR) v1 \<Longrightarrow> sum3 (XOR) z2 = sum3 (XOR) v2 \<Longrightarrow>
      Q (\<lambda>i. (push_bit s (z1 i), push_bit s (z2 i)))"
  shows "mpc (\<lambda>i. qbind (with_rand (random_biguint R n)) (\<lambda>(mask1, mask_b1).
      qbind (with_rand (random_biguint R n)) (\<lambda>(mask2, mask_b2).
      qret (push_bit s (v1 i XOR (mask1 XOR mask_b1)), push_bit s (v2 i XOR (mask2 XOR mask_b2)))))) Q"
  unfolding draws_draw2
proof (rule mpc_bind, rule mpc_draw2, unfold prod.case, rule mpc_bind, rule mpc_draw2, unfold prod.case,
    rule mpc_ret, rule assms)
  have "sum3 (XOR) (\<lambda>i. z i XOR z (prev_id i)) = (0 :: nat)" for z
    using bits.masks_cancel[of z] by simp
  then show "sum3 (XOR) (\<lambda>i. v1 i XOR z1 i XOR z1 (prev_id i)) = sum3 (XOR) v1"
    "sum3 (XOR) (\<lambda>i. v2 i XOR z2 i XOR z2 (prev_id i)) = sum3 (XOR) v2" for z1 z2
    by (simp_all add: bits.sum3_add)
qed

lemma sum3_push_bit: "sum3 (XOR) (\<lambda>i. push_bit s (z i)) = push_bit s (sum3 (XOR) (z :: PartyID \<Rightarrow> nat))"
  by (simp add: sum3_def)

lemma mpc_and_twice_many_iter [mpc_rules]:
  assumes "lawful_net E" "bshares a us" "bshares b1 vs" "bshares b2 ws"
    and "length vs = length us" "length ws = length us"
    and "\<And>z1 z2. bshares z1 (map2 (\<lambda>v u. push_bit s (v AND u)) vs us) \<Longrightarrow>
      bshares z2 (map2 (\<lambda>u w. push_bit s (u AND w)) us ws) \<Longrightarrow> Q (\<lambda>i. (z1 i, z2 i))"
  shows "mpc (\<lambda>i. and_twice_many_iter E (a i) (b1 i) (b2 i) n s) Q"
  unfolding and_twice_many_iter_def Let_def send_recv_reshare_one
proof (rule mpc_bind, rule mpc_qmap[where n = "length us" and
      R = "\<lambda>k z. sum3 (XOR) (\<lambda>i. fst (z i)) = push_bit s (vs ! k AND us ! k) \<and>
        sum3 (XOR) (\<lambda>i. snd (z i)) = push_bit s (us ! k AND ws ! k)"])
  note len = vec_shared_byD(1)[OF assms(2)] vec_shared_byD(1)[OF assms(3)] vec_shared_byD(1)[OF assms(4)]
  show "length (zip (a i) (zip (b1 i) (b2 i))) = length us" for i using len assms(5,6) by simp
  fix x k assume k: "k < length us" and x: "\<And>i. x i = zip (a i) (zip (b1 i) (b2 i)) ! k"
  from k x len assms(5,6) have x: "x = (\<lambda>i. (a i ! k, b1 i ! k, b2 i ! k))" by auto
  from k assms(2-6) have "bshare (\<lambda>i. a i ! k) (us ! k)" "bshare (\<lambda>i. b1 i ! k) (vs ! k)"
    "bshare (\<lambda>i. b2 i ! k) (ws ! k)" by (simp_all add: vec_shared_by_def)
  note sums = sum3_local_and[OF this(2,1)] sum3_local_and[OF this(1,3)]
  show "mpc (\<lambda>i. case x i of (a, b1, b2) \<Rightarrow>
       qbind (with_rand (random_biguint (rngop E) n)) (\<lambda>(mask1, mask_b1).
       qbind (with_rand (random_biguint (rngop E) n)) (\<lambda>(mask2, mask_b2).
       qret (push_bit s (local_and b1 a XOR (mask1 XOR mask_b1)),
             push_bit s (local_and a b2 XOR (mask2 XOR mask_b2))))))
     (\<lambda>z. sum3 (XOR) (\<lambda>i. fst (z i)) = push_bit s (vs ! k AND us ! k) \<and>
        sum3 (XOR) (\<lambda>i. snd (z i)) = push_bit s (us ! k AND ws ! k))"
    unfolding x prod.case by (rule mpc_mask_pair) (simp add: sum3_push_bit sums)
next
  fix l :: "PartyID \<Rightarrow> (nat \<times> nat) list"
  assume l: "\<And>i. length (l i) = length us"
    and sums: "\<And>k. k < length us \<Longrightarrow> sum3 (XOR) (\<lambda>i. fst (l i ! k)) = push_bit s (vs ! k AND us ! k) \<and>
        sum3 (XOR) (\<lambda>i. snd (l i ! k)) = push_bit s (us ! k AND ws ! k)"
  let ?quads = "\<lambda>i. zip (map fst (l i)) (zip (map fst (l (prev_id i))) (zip (map snd (l i)) (map snd (l (prev_id i)))))"
  have "bshares (\<lambda>i. map (\<lambda>(a1, b1, a2, b2). Share a1 b1) (?quads i)) (map2 (\<lambda>v u. push_bit s (v AND u)) vs us)"
    "bshares (\<lambda>i. map (\<lambda>(a1, b1, a2, b2). Share a2 b2) (?quads i)) (map2 (\<lambda>u w. push_bit s (u AND w)) us ws)"
    using l sums assms(5,6) by (simp_all add: vec_shared_by_def shared_by_def)
  from mpc_ret[of Q, OF assms(7)[OF this]]
  show "mpc (\<lambda>i. qbind (reshare (bv2codec E) (map fst (l i), map snd (l i)))
      (\<lambda>(local_b1, local_b2). qret
        (map (\<lambda>(a1, b1, a2, b2). Share a1 b1) (zip (map fst (l i)) (zip local_b1 (zip (map snd (l i)) local_b2))),
         map (\<lambda>(a1, b1, a2, b2). Share a2 b2) (zip (map fst (l i)) (zip local_b1 (zip (map snd (l i)) local_b2)))))) Q"
    by (intro mpc_bind mpc_reshare) (use assms(1) in simp_all)
qed

lemma mpc_kogge_stone_inner_many [mpc_rules]:
  assumes "lawful_net E" "bshares p us" "bshares g ws" "length ws = length us"
    and "\<And>q z. bshares z (map2 (ks_adder n (ceil_log2 n)) us ws) \<Longrightarrow> Q (\<lambda>i. (q i, z i))"
  shows "mpc (\<lambda>i. kogge_stone_inner_many E (p i) (g i) n) Q"
proof -
  define P where "P = (\<lambda>k. map2 (\<lambda>u w. fst (ks_rounds n k (u, w))) us ws)"
  define G where "G = (\<lambda>k. map2 (\<lambda>u w. snd (ks_rounds n k (u, w))) us ws)"
  define I where "I = (\<lambda>k (s :: PartyID \<Rightarrow> nat share list \<times> nat share list).
     bshares (\<lambda>i. fst (s i)) (P k) \<and> bshares (\<lambda>i. snd (s i)) (G k))"
  have len: "length (P k) = length us" "length (G k) = length us" for k
    using assms(4) by (simp_all add: P_def G_def)
  show ?thesis
    unfolding kogge_stone_inner_many_def Let_def
  proof (rule mpc_bind, rule mpc_qfold_upt[where I = I])
    show "I 0 (\<lambda>i. (p i, g i))" using assms(2-4) by (simp add: I_def P_def G_def map2_fst map2_snd)
  next
    fix k s assume "I k s"
    then have p: "bshares (\<lambda>i. fst (s i)) (P k)" and g: "bshares (\<lambda>i. snd (s i)) (G k)"
      by (simp_all add: I_def)
    let ?m = "mask (n - 2 ^ k)"
    have "mpc (\<lambda>i. qbind (and_twice_many_iter E (map (\<lambda>p. bin_shr p (2 ^ k)) (fst (s i)))
          (map (\<lambda>g. bin_and_public g ?m) (snd (s i))) (map (\<lambda>p. bin_and_public p ?m) (fst (s i)))
          (n - 2 ^ k) (2 ^ k)) (\<lambda>(r1, r2).
        qret (zip_update (\<lambda>_ r2. r2) (fst (s i)) r2, zip_update bin_xor (snd (s i)) r1))) (I (Suc k))"
    proof (rule mpc_bind, rule mpc_and_twice_many_iter[OF assms(1)])
      show "bshares (\<lambda>i. map (\<lambda>p. bin_shr p (2 ^ k)) (fst (s i))) (map (drop_bit (2 ^ k)) (P k))"
        by (rule vec_shared_by_map[OF p], rule bshare_shr)
      show "bshares (\<lambda>i. map (\<lambda>g. bin_and_public g ?m) (snd (s i))) (map (\<lambda>v. v AND ?m) (G k))"
        by (rule vec_shared_by_map[OF g], rule bshare_and_public)
      show "bshares (\<lambda>i. map (\<lambda>p. bin_and_public p ?m) (fst (s i))) (map (\<lambda>v. v AND ?m) (P k))"
        by (rule vec_shared_by_map[OF p], rule bshare_and_public)
      fix r1 r2
      assume r1: "bshares r1 (map2 (\<lambda>v u. push_bit (2 ^ k) (v AND u)) (map (\<lambda>v. v AND ?m) (G k)) (map (drop_bit (2 ^ k)) (P k)))"
        and r2: "bshares r2 (map2 (\<lambda>u w. push_bit (2 ^ k) (u AND w)) (map (drop_bit (2 ^ k)) (P k)) (map (\<lambda>v. v AND ?m) (P k)))"
      have l: "length (fst (s i)) = length (r2 i)" "length (snd (s i)) = length (r1 i)" for i
        using vec_shared_byD(1)[OF p] vec_shared_byD(1)[OF g] vec_shared_byD(1)[OF r1] vec_shared_byD(1)[OF r2] len
        by simp_all
      have "bshares (\<lambda>i. map2 bin_xor (snd (s i)) (r1 i)) (map2 (XOR) (G k)
          (map2 (\<lambda>v u. push_bit (2 ^ k) (v AND u)) (map (\<lambda>v. v AND ?m) (G k)) (map (drop_bit (2 ^ k)) (P k))))"
        by (rule vec_shared_by_map2[OF g r1]) (simp_all add: len bshare_xor)
      moreover have "map2 (XOR) (G k) (map2 (\<lambda>v u. push_bit (2 ^ k) (v AND u)) (map (\<lambda>v. v AND ?m) (G k)) (map (drop_bit (2 ^ k)) (P k))) = G (Suc k)"
        using assms(4) by (auto simp: P_def G_def ks_round_def split_beta intro!: nth_equalityI simp del: push_bit_and)
      moreover have "map2 (\<lambda>u w. push_bit (2 ^ k) (u AND w)) (map (drop_bit (2 ^ k)) (P k)) (map (\<lambda>v. v AND ?m) (P k)) = P (Suc k)"
        using assms(4) by (auto simp: P_def ks_round_def split_beta intro!: nth_equalityI simp del: push_bit_and)
      moreover have "map2 (\<lambda>_ r2. r2) (fst (s i)) (r2 i) = r2 i" for i
        using l(1)[of i] by (simp add: map2_snd)
      ultimately show "mpc (\<lambda>i. case (r1 i, r2 i) of (r1, r2) \<Rightarrow>
          qret (zip_update (\<lambda>_ r2. r2) (fst (s i)) r2, zip_update bin_xor (snd (s i)) r1)) (I (Suc k))"
        using r2 by (simp add: l I_def mpc_ret)
    qed (simp_all add: len)
    then show "mpc (\<lambda>i. case s i of (p, g) \<Rightarrow> qbind (and_twice_many_iter E (map (\<lambda>p. bin_shr p (2 ^ k)) p)
          (map (\<lambda>g. bin_and_public g ?m) g) (map (\<lambda>p. bin_and_public p ?m) p) (n - 2 ^ k) (2 ^ k)) (\<lambda>(r1, r2).
        qret (zip_update (\<lambda>_ r2. r2) p r2, zip_update bin_xor g r1))) (I (Suc k))"
      by (rule mpc_cong) (simp add: split_beta)
  next
    fix s assume "I (ceil_log2 n) s"
    then have g: "bshares (\<lambda>i. snd (s i)) (G (ceil_log2 n))" by (simp add: I_def)
    have "bshares (\<lambda>i. map2 (\<lambda>g s. bin_xor (bin_shl g 1) s) (snd (s i)) (p i))
        (map2 (\<lambda>v u. push_bit 1 v XOR u) (G (ceil_log2 n)) us)"
      by (rule vec_shared_by_map2[OF g assms(2)]) (simp add: len, intro bshare_xor bshare_shl)
    moreover have "map2 (\<lambda>v u. push_bit 1 v XOR u) (G (ceil_log2 n)) us = map2 (ks_adder n (ceil_log2 n)) us ws"
      using assms(4) by (auto simp: G_def ks_adder_def intro!: nth_equalityI)
    moreover have "length (snd (s i)) = length (p i)" for i
      using vec_shared_byD(1)[OF g] vec_shared_byD(1)[OF assms(2)] len by simp
    ultimately show "mpc (\<lambda>i. case s i of (q, g) \<Rightarrow> qret (q, zip_update (\<lambda>g s. bin_xor (bin_shl g 1) s) g (p i))) Q"
      using assms(5)[of _ "\<lambda>i. fst (s i)"] by (simp add: split_beta mpc_ret)
  qed
qed

lemma mpc_low_depth_binary_add_many [mpc_rules]:
  assumes "lawful_net E" "bshares x us" "bshares y vs" "length us = length vs" "0 < n"
    and "\<forall>u \<in> set us. u < 2 ^ n" "\<forall>v \<in> set vs. v < 2 ^ n"
    and "\<And>z. bshares z (map2 (+) us vs) \<Longrightarrow> Q z"
  shows "mpc (\<lambda>i. low_depth_binary_add_many E (x i) (y i) n) Q"
  unfolding low_depth_binary_add_many_def Let_def
proof (rule mpc_bind, rule mpc_bin_and_vec[OF assms(1-4)], rule mpc_bind,
    rule mpc_kogge_stone_inner_many[OF assms(1)])
  show "bshares (\<lambda>i. map2 bin_xor (x i) (y i)) (map2 (XOR) us vs)"
    by (rule vec_shared_by_map2[OF assms(2-4)], rule bshare_xor)
  fix q z assume "bshares z (map2 (ks_adder n (ceil_log2 n)) (map2 (XOR) us vs) (map2 (AND) us vs))"
  moreover have "map2 (ks_adder n (ceil_log2 n)) (map2 (XOR) us vs) (map2 (AND) us vs) = map2 (+) us vs"
    using assms(4,6,7) by (auto simp: ks_adder_add[OF ceil_log2_bound[OF assms(5)]] intro!: nth_equalityI)
  ultimately show "mpc (\<lambda>i. case (q i, z i) of (p, g) \<Rightarrow> qret g) Q" by (simp add: mpc_ret assms(8))
qed (use assms(4) in simp_all)

lemma mpc_low_depth_sub_p_cmux_many [mpc_rules]:
  assumes "lawful_net E" "bshares x us" "modulus (fld E) \<le> 2 ^ n" "0 < modulus (fld E)"
    and "\<forall>u \<in> set us. u < 2 * modulus (fld E)"
    and "\<And>z. bshares z (map (\<lambda>u. u mod modulus (fld E)) us) \<Longrightarrow> Q z"
  shows "mpc (\<lambda>i. low_depth_sub_p_cmux_many E (x i) (Suc n)) Q"
proof -
  let ?p = "2 ^ Suc n - modulus (fld E)" and ?d = "ceil_log2 (Suc n)"
  let ?f = "\<lambda>u. ks_adder (Suc n) ?d (u XOR ?p) (u AND ?p)"
  let ?c = "\<lambda>u. if bit (drop_bit (Suc n) (?f u)) 0 then mask n else 0"
  have d: "Suc n \<le> 2 ^ ?d" by (rule ceil_log2_bound) simp
  have "mpc (\<lambda>i. low_depth_binary_sub_p_many E (x i) (Suc n)) (\<lambda>y. bshares y (map ?f us))"
    unfolding low_depth_binary_sub_p_many_def Let_def
  proof (rule mpc_bind, rule mpc_get_id, rule mpc_bind, rule mpc_kogge_stone_inner_many[OF assms(1)])
    show "bshares (\<lambda>i. map (\<lambda>x. bin_xor_public x ?p i) (x i)) (map (\<lambda>u. u XOR ?p) us)"
      by (rule vec_shared_by_map[OF assms(2)], rule bshare_xor_public)
    show "bshares (\<lambda>i. map (\<lambda>x. bin_and_public x ?p) (x i)) (map (\<lambda>u. u AND ?p) us)"
      by (rule vec_shared_by_map[OF assms(2)], rule bshare_and_public)
    fix q z assume "bshares z (map2 (ks_adder (Suc n) ?d) (map (\<lambda>u. u XOR ?p) us) (map (\<lambda>u. u AND ?p) us))"
    then show "mpc (\<lambda>i. case (q i, z i) of (p, g) \<Rightarrow> qret g) (\<lambda>y. bshares y (map ?f us))"
      by (simp add: mpc_ret zip_map1 zip_map2 zip_same_conv_map o_def)
  qed simp
  then show ?thesis
    unfolding low_depth_sub_p_cmux_many_def Let_def diff_Suc_1
  proof (rule_tac mpc_bind, rule_tac mpc_consequence)
    fix y assume y: "bshares y (map ?f us)"
    show "mpc (\<lambda>i. bin_cmux_many E (map (spread_lsb (mask n)) (map (\<lambda>y. bin_shr y (Suc n)) (y i)))
        (map (\<lambda>y. bin_and_public y (mask n)) (y i)) (map (\<lambda>x. bin_and_public x (mask n)) (x i))) Q"
    proof (rule mpc_bin_cmux_many[OF assms(1)])
      show "bshares (\<lambda>i. map (spread_lsb (mask n)) (map (\<lambda>y. bin_shr y (Suc n)) (y i)))
          (map (\<lambda>v. if bit v 0 then mask n else 0) (map (drop_bit (Suc n)) (map ?f us)))"
        by (rule vec_shared_by_map[OF vec_shared_by_map[OF y]], rule bshare_shr, assumption, rule bshare_spread)
      show "bshares (\<lambda>i. map (\<lambda>y. bin_and_public y (mask n)) (y i)) (map (\<lambda>v. v AND mask n) (map ?f us))"
        by (rule vec_shared_by_map[OF y], rule bshare_and_public)
      show "bshares (\<lambda>i. map (\<lambda>x. bin_and_public x (mask n)) (x i)) (map (\<lambda>v. v AND mask n) us)"
        by (rule vec_shared_by_map[OF assms(2)], rule bshare_and_public)
      have "(?c u AND ((u AND mask n) XOR (?f u AND mask n))) XOR (u AND mask n) = u mod modulus (fld E)"
        if "u \<in> set us" for u
      proof -
        have u: "u < 2 * modulus (fld E)" using assms(5) that by simp
        have c: "?c u = (if modulus (fld E) \<le> u then mask n else 0)"
          using sub_p_circuit(1)[OF assms(3,4) u d] by (simp add: bit_drop_bit_eq)
        show ?thesis unfolding c cmux_select by (rule sub_p_circuit(2)[OF assms(3,4) u d])
      qed
      then have "map2 (XOR) (map2 (AND) (map (\<lambda>v. if bit v 0 then mask n else 0) (map (drop_bit (Suc n)) (map ?f us)))
          (map2 (XOR) (map (\<lambda>v. v AND mask n) us) (map (\<lambda>v. v AND mask n) (map ?f us)))) (map (\<lambda>v. v AND mask n) us)
        = map (\<lambda>u. u mod modulus (fld E)) us"
        by (intro nth_equalityI) simp_all
      with assms(6) show "Q z" if "bshares z (map2 (XOR) (map2 (AND)
          (map (\<lambda>v. if bit v 0 then mask n else 0) (map (drop_bit (Suc n)) (map ?f us)))
          (map2 (XOR) (map (\<lambda>v. v AND mask n) us) (map (\<lambda>v. v AND mask n) (map ?f us)))) (map (\<lambda>v. v AND mask n) us))" for z
        using that by simp
    qed simp_all
  qed
qed

lemma mpc_low_depth_binary_add_mod_p_many [mpc_rules]:
  assumes "lawful_net E" "bshares x us" "bshares y vs" "length us = length vs"
    and "modulus (fld E) \<le> 2 ^ n" "0 < modulus (fld E)" "0 < n"
    and "\<forall>u \<in> set us. u < modulus (fld E)" "\<forall>v \<in> set vs. v < modulus (fld E)"
    and "\<And>z. bshares z (map2 (\<lambda>u v. (u + v) mod modulus (fld E)) us vs) \<Longrightarrow> Q z"
  shows "mpc (\<lambda>i. low_depth_binary_add_mod_p_many E (x i) (y i) n) Q"
  unfolding low_depth_binary_add_mod_p_many_def add.commute[of n] plus_1_eq_Suc
proof (rule mpc_bind, rule mpc_low_depth_binary_add_many[OF assms(1-4,7)])
  show "\<forall>u \<in> set us. u < 2 ^ n" "\<forall>v \<in> set vs. v < 2 ^ n" using assms(5,8,9) by auto
  fix z assume z: "bshares z (map2 (+) us vs)"
  have "\<forall>w \<in> set (map2 (+) us vs). w < 2 * modulus (fld E)"
  proof
    fix w assume "w \<in> set (map2 (+) us vs)"
    then obtain u v where "(u, v) \<in> set (zip us vs)" and w: "w = u + v" by auto
    then have "u \<in> set us" "v \<in> set vs" by (auto dest: set_zip_leftD set_zip_rightD)
    with assms(8,9) have "u < modulus (fld E)" "v < modulus (fld E)" by auto
    with w show "w < 2 * modulus (fld E)" by simp
  qed
  then show "mpc (\<lambda>i. low_depth_sub_p_cmux_many E (z i) (Suc n)) Q"
    by (rule mpc_low_depth_sub_p_cmux_many[OF assms(1) z assms(5,6)])
      (use assms(10) in \<open>simp add: o_def case_prod_unfold\<close>)
qed

lemma mpc_low_depth_binary_sub_many [mpc_rules]:
  assumes "lawful_net E" "bshares x us" "bshares y vs" "length us = length vs" "0 < n"
    and "\<forall>u \<in> set us. u < 2 ^ n" "\<forall>v \<in> set vs. v < 2 ^ n"
    and "\<And>z. bshares z (map2 (\<lambda>u v. 2 ^ n + u - v) us vs) \<Longrightarrow> Q z"
  shows "mpc (\<lambda>i. low_depth_binary_sub_many E (x i) (y i) n) Q"
  unfolding low_depth_binary_sub_many_def Let_def
proof (rule mpc_bind, rule mpc_get_id, rule mpc_bind, rule mpc_bin_and_vec[OF assms(1,2)])
  let ?n = "\<lambda>v. v XOR mask n"
  show n: "bshares (\<lambda>i. map (\<lambda>x. bin_xor_public x (mask n) i) (y i)) (map ?n vs)"
    by (rule vec_shared_by_map[OF assms(3)], rule bshare_xor_public)
  show "length us = length (map ?n vs)" using assms(4) by simp
  let ?p = "\<lambda>i. map2 bin_xor (x i) (map (\<lambda>x. bin_xor_public x (mask n) i) (y i))"
  let ?ps = "map2 (XOR) us (map ?n vs)" and ?cs = "map2 (AND) us (map ?n vs)"
  have p: "bshares ?p ?ps"
    by (rule vec_shared_by_map2[OF assms(2) n]) (simp_all add: assms(4) bshare_xor)
  fix c assume c: "bshares c ?cs"
  show "mpc (\<lambda>i. qbind (kogge_stone_inner_many E (?p i) (map2 (\<lambda>g p. bin_xor g (bin_and_public p 1)) (c i) (?p i)) n)
      (\<lambda>(p, g). qret (map (\<lambda>r. bin_xor_public r 1 i) g))) Q"
  proof (rule mpc_bind, rule mpc_kogge_stone_inner_many[OF assms(1) p])
    show "bshares (\<lambda>i. map2 (\<lambda>g p. bin_xor g (bin_and_public p 1)) (c i) (?p i)) (map2 (\<lambda>g p. g XOR (p AND 1)) ?cs ?ps)"
      by (rule vec_shared_by_map2[OF c p]) (simp add: assms(4), intro bshare_xor bshare_and_public)
    fix q z assume z: "bshares z (map2 (ks_adder n (ceil_log2 n)) ?ps (map2 (\<lambda>g p. g XOR (p AND 1)) ?cs ?ps))"
    have "bshares (\<lambda>i. map (\<lambda>r. bin_xor_public r 1 i) (z i)) (map (\<lambda>r. r XOR 1)
        (map2 (ks_adder n (ceil_log2 n)) ?ps (map2 (\<lambda>g p. g XOR (p AND 1)) ?cs ?ps)))"
      by (rule vec_shared_by_map[OF z], rule bshare_xor_public)
    moreover have "map (\<lambda>r. r XOR 1) (map2 (ks_adder n (ceil_log2 n)) ?ps (map2 (\<lambda>g p. g XOR (p AND 1)) ?cs ?ps))
        = map2 (\<lambda>u v. 2 ^ n + u - v) us vs"
    proof (rule nth_equalityI)
      fix k assume "k < length (map (\<lambda>r. r XOR 1) (map2 (ks_adder n (ceil_log2 n)) ?ps (map2 (\<lambda>g p. g XOR (p AND 1)) ?cs ?ps)))"
      then have k: "k < length us" "k < length vs" using assms(4) by simp_all
      then have "us ! k < 2 ^ n" "vs ! k < 2 ^ n" using assms(6,7) by simp_all
      from ks_adder_sub[OF ceil_log2_bound[OF assms(5)] assms(5) this] k
      show "map (\<lambda>r. r XOR 1) (map2 (ks_adder n (ceil_log2 n)) ?ps (map2 (\<lambda>g p. g XOR (p AND 1)) ?cs ?ps)) ! k
        = map2 (\<lambda>u v. 2 ^ n + u - v) us vs ! k" by (simp only: nth_map nth_zip length_map length_zip prod.case min_less_iff_conj)
    qed (use assms(4) in simp)
    ultimately show "mpc (\<lambda>i. case (q i, z i) of (p, g) \<Rightarrow> qret (map (\<lambda>r. bin_xor_public r 1 i) g)) Q"
      by (simp add: mpc_ret assms(8) del: map_map)
  qed (simp add: assms(4))
qed

subsection \<open>Properties\<close>

text \<open>
  (C6) Refinement of the Kogge-Stone adder: the interactive circuit \<open>kogge_stone_inner\<close> on
  shared propagate and generate vectors computes, on the shared values, the plain network
  \<open>ks_adder\<close>, and that network adds: with the propagate and generate vectors of two
  \<open>bitlen\<close>-bit numbers it yields their sum, carry included.
\<close>

theorem kogge_stone_refines_addition:
  assumes "lawful_net E" "bshare p (u XOR v)" "bshare g (u AND v)"
    and "u < 2 ^ bitlen" "v < 2 ^ bitlen" "0 < bitlen"
  shows "mpc (\<lambda>i. kogge_stone_inner E (p i) (g i) bitlen)
      (\<lambda>z. bshare z (ks_adder bitlen (ceil_log2 bitlen) (u XOR v) (u AND v))) \<and>
    ks_adder bitlen (ceil_log2 bitlen) (u XOR v) (u AND v) = u + v"
  by (intro conjI) (rule mpc_kogge_stone_inner[OF assms(1-3)], assumption,
      rule ks_adder_add[OF ceil_log2_bound[OF assms(6)] assms(4,5)])

theorem kogge_stone_refines_addition_witness:
  "mpc (\<lambda>i. kogge_stone_inner ex_env (dealt 6 0 0 i) (dealt 0 0 1 i) 3) (\<lambda>z. bshare z 8)"
  using kogge_stone_refines_addition[OF ex_env_lawful(1), of "dealt 6 0 0" 5 3 "dealt 0 0 1" 3]
    dealt_bshare[of "6 :: nat" 0 0 6] dealt_bshare[of "0 :: nat" 0 1 1] by auto

text \<open>
  (C7) Modular addition of binary shared numbers: for two shared numbers below the modulus,
  \<open>low_depth_binary_add_mod_p\<close> (addition, trial subtraction of the modulus, selection by the
  borrow bit) returns a sharing of the sum modulo the field's modulus.
\<close>

theorem low_depth_binary_add_mod_p_correct:
  assumes "lawful_net E" "bshare x u" "bshare y v" "modulus (fld E) \<le> 2 ^ n" "0 < n"
    and "u < modulus (fld E)" "v < modulus (fld E)"
  shows "mpc (\<lambda>i. low_depth_binary_add_mod_p E (x i) (y i) n)
     (\<lambda>z. bshare z ((u + v) mod modulus (fld E)))"
  using assms by (rule mpc_low_depth_binary_add_mod_p)

theorem low_depth_binary_add_mod_p_correct_witness:
  "mpc (\<lambda>i. low_depth_binary_add_mod_p ex_env (dealt 1 2 0 i) (dealt 4 0 0 i) 3) (\<lambda>z. bshare z 2)"
  using low_depth_binary_add_mod_p_correct[OF ex_env_lawful(1)
      dealt_bshare[of 1 2 0 3] dealt_bshare[of 4 0 0 4], of 3] by simp



end
