(* ===== verification/Rep3_Conversion.thy ===== *)
theory Rep3_Conversion
  imports Rep3_Detail
begin

text \<open>
  Conversions between the two sharings of a field element, \<open>rep3/conversion.rs\<close>: from sums to
  exclusive ors (\<open>a2b\<close>), back (\<open>b2a\<close>), and of single bits (\<open>bit_inject\<close>), with their batched
  versions.
\<close>

subsection \<open>Arithmetic to binary\<close>

definition a2b_input ::
  "('f::plus, 'r) field_ops \<Rightarrow> PartyID \<Rightarrow> 'f share \<Rightarrow> nat \<Rightarrow> nat \<times> nat share" where
  "a2b_input F i x r =
     (case i of
        ID0 \<Rightarrow> (r, Share 0 (into_biguint F (sh_b x)))
      | ID1 \<Rightarrow> (into_biguint F (sh_a x + sh_b x) XOR r, Share 0 0)
      | ID2 \<Rightarrow> (r, Share (into_biguint F (sh_a x)) 0))"

definition a2b :: "('f::plus, 'r, 's, 'w) env \<Rightarrow> 'f share \<Rightarrow> ('w, 'r, nat share) prog" where
  "a2b E x =
     (let n = modulus_bit_size (fld E)
      in qbind (with_rand (random_biguint (rngop E) n)) (\<lambda>(r, r2).
         qbind get_id (\<lambda>i.
           let (x01_a, x2) = a2b_input (fld E) i x (r XOR r2)
           in qbind (send_next (bcodec E) x01_a) (\<lambda>_.
              qbind (recv_prev (bcodec E)) (\<lambda>local_b.
              low_depth_binary_add_mod_p E (Share x01_a local_b) x2 n)))))"

definition a2b_many :: "('f::plus, 'r, 's, 'w) env \<Rightarrow> 'f share list \<Rightarrow> ('w, 'r, nat share list) prog" where
  "a2b_many E x =
     (let n = modulus_bit_size (fld E)
      in qbind (qmap (\<lambda>_. qbind (with_rand (random_biguint (rngop E) n)) (\<lambda>(r, r2). qret (r XOR r2))) x) (\<lambda>r_vec.
         qbind get_id (\<lambda>i.
           let inputs = map2 (a2b_input (fld E) i) x r_vec;
               x01_a = map fst inputs; x2 = map snd inputs
           in qbind (reshare_many (bcodec E) x01_a) (\<lambda>x01_b.
              low_depth_binary_add_mod_p_many E (map2 Share x01_a x01_b) x2 n))))"

subsection \<open>Binary to arithmetic\<close>

text \<open>
  The random summands: party 0 knows the third, party 1 the second and party 2 both.  The result
  is the party's contribution to the shared random value and its share of the result so far.
\<close>

definition sum_keys :: "'f::plus \<times> 'f \<times> 'f \<Rightarrow> 'f" where
  "sum_keys k = (case k of (a, b, c) \<Rightarrow> a + b + c)"

definition b2a_keys ::
  "('f::ab_group_add, 'r, 's, 'w) env \<Rightarrow> PartyID \<Rightarrow> nat \<Rightarrow> ('w, 'r, nat \<times> 'f share) prog" where
  "b2a_keys E i r =
     (case i of
        ID0 \<Rightarrow> qbind (with_bitcomp2 (random_fes_3keys (fld E))) (\<lambda>k3.
                 qret (r, Share 0 (- sum_keys k3)))
      | ID1 \<Rightarrow> qbind (with_bitcomp1 (random_fes_3keys (fld E))) (\<lambda>k2.
                 qret (r, Share (- sum_keys k2) 0))
      | ID2 \<Rightarrow> qbind (with_bitcomp1 (random_fes_3keys (fld E))) (\<lambda>k2.
               qbind (with_bitcomp2 (random_fes_3keys (fld E))) (\<lambda>k3.
                 let k2_comp = sum_keys k2; k3_comp = sum_keys k3;
                     val = into_biguint (fld E) (k2_comp + k3_comp)
                 in qret (val XOR r, Share (- k3_comp) (- k2_comp)))))"

definition b2a_open ::
  "('f, 'r, 's, 'w) env \<Rightarrow> PartyID \<Rightarrow> nat share \<Rightarrow> 'f share \<Rightarrow> ('w, 'r, 'f share) prog" where
  "b2a_open E i z res =
     (case i of
        ID0 \<Rightarrow> qbind (send_next (bcodec E) (sh_b z)) (\<lambda>_.
               qbind (recv_prev (bcodec E)) (\<lambda>rcv.
               qret (Share (from_biguint (fld E) (sh_a z XOR sh_b z XOR rcv)) (sh_b res))))
      | ID1 \<Rightarrow> qbind (recv_prev (bcodec E)) (\<lambda>rcv.
               qret (Share (sh_a res) (from_biguint (fld E) (sh_a z XOR sh_b z XOR rcv))))
      | ID2 \<Rightarrow> qbind (send_next (bcodec E) (sh_b z)) (\<lambda>_. qret res))"

definition b2a :: "('f::ab_group_add, 'r, 's, 'w) env \<Rightarrow> nat share \<Rightarrow> ('w, 'r, 'f share) prog" where
  "b2a E x =
     (let n = modulus_bit_size (fld E)
      in qbind (with_rand (random_biguint (rngop E) n)) (\<lambda>(r, r2).
         qbind get_id (\<lambda>i.
         qbind (b2a_keys E i (r XOR r2)) (\<lambda>(y_a, res).
         qbind (send_next (bcodec E) y_a) (\<lambda>_.
         qbind (recv_prev (bcodec E)) (\<lambda>local_b.
         qbind (low_depth_binary_add_mod_p E x (Share y_a local_b) n) (\<lambda>z.
         b2a_open E i z res)))))))"

definition b2a_open_many ::
  "('f, 'r, 's, 'w) env \<Rightarrow> PartyID \<Rightarrow> nat share list \<Rightarrow> 'f share list \<Rightarrow> ('w, 'r, 'f share list) prog" where
  "b2a_open_many E i z res =
     (let z_b = map sh_b z;
          set_a = (\<lambda>res (rcv, z). Share (from_biguint (fld E) (sh_a z XOR sh_b z XOR rcv)) (sh_b res));
          set_b = (\<lambda>res (rcv, z). Share (sh_a res) (from_biguint (fld E) (sh_a z XOR sh_b z XOR rcv)))
      in case i of
           ID0 \<Rightarrow> qbind (reshare_many (bcodec E) z_b) (\<lambda>rcv. qret (zip_update set_a res (zip rcv z)))
         | ID1 \<Rightarrow> qbind (recv_many (bcodec E) (prev_id i)) (\<lambda>rcv. qret (zip_update set_b res (zip rcv z)))
         | ID2 \<Rightarrow> qbind (send_many (bcodec E) (next_id i) z_b) (\<lambda>_. qret res))"

definition b2a_many ::
  "('f::ab_group_add, 'r, 's, 'w) env \<Rightarrow> nat share list \<Rightarrow> ('w, 'r, 'f share list) prog" where
  "b2a_many E x =
     (let n = modulus_bit_size (fld E)
      in qbind (qmap (\<lambda>_. qbind (with_rand (random_biguint (rngop E) n)) (\<lambda>(r, r2). qret (r XOR r2))) x) (\<lambda>r_vec.
         qbind get_id (\<lambda>i.
         qbind (qmap (b2a_keys E i) r_vec) (\<lambda>keys.
           let y_a = map fst keys; res = map snd keys
           in qbind (reshare_many (bcodec E) y_a) (\<lambda>y_b.
              qbind (low_depth_binary_add_mod_p_many E x (map2 Share y_a y_b) n) (\<lambda>z.
              b2a_open_many E i z res))))))"

subsection \<open>Bit injection\<close>

text \<open>The three summands of the bit as sharings of their own.\<close>

definition inject_shares ::
  "('f::zero, 'r) field_ops \<Rightarrow> PartyID \<Rightarrow> nat share \<Rightarrow> 'f share \<times> 'f share \<times> 'f share" where
  "inject_shares F i x =
     (let a = from_biguint F (sh_a x); b = from_biguint F (sh_b x)
      in case i of
           ID0 \<Rightarrow> (Share a 0, Share 0 0, Share 0 b)
         | ID1 \<Rightarrow> (Share 0 b, Share a 0, Share 0 0)
         | ID2 \<Rightarrow> (Share 0 0, Share 0 b, Share a 0))"

definition bit_inject :: "('f::comm_ring_1, 'r, 's, 'w) env \<Rightarrow> nat share \<Rightarrow> ('w, 'r, 'f share) prog" where
  "bit_inject E x =
     (if bit_count (sh_a x) > 1 then qfail Panic
      else qbind get_id (\<lambda>i.
        let (b0, b1, b2) = inject_shares (fld E) i x
        in qbind (rep3_arithmetic_xor E b0 b1) (\<lambda>d. rep3_arithmetic_xor E d b2)))"

definition bit_inject_many ::
  "('f::comm_ring_1, 'r, 's, 'w) env \<Rightarrow> nat share list \<Rightarrow> ('w, 'r, 'f share list) prog" where
  "bit_inject_many E x =
     (if \<exists>s \<in> set x. bit_count (sh_a s) > 1 then qfail Panic
      else qbind get_id (\<lambda>i.
        let b0 = map (\<lambda>s. fst (inject_shares (fld E) i s)) x;
            b1 = map (\<lambda>s. fst (snd (inject_shares (fld E) i s))) x;
            b2 = map (\<lambda>s. snd (snd (inject_shares (fld E) i s))) x
        in qbind (rep3_arithmetic_xor_many E b0 b1) (\<lambda>d. rep3_arithmetic_xor_many E d b2)))"

subsection \<open>Correctness\<close>

lemma into_biguint_add:
  assumes "lawful_field F"
  shows "into_biguint F (x + y) = (into_biguint F x + into_biguint F y) mod modulus F"
proof -
  have "x + y = of_nat (into_biguint F x + into_biguint F y)"
    using lawful_fieldD(5)[OF assms] by simp
  then show ?thesis using lawful_fieldD(7)[OF assms] by metis
qed

lemma modulus_bits_pos: "lawful_field F \<Longrightarrow> 0 < modulus_bit_size F"
  using lawful_fieldD(1,3)[of F] by (cases "modulus_bit_size F") auto

lemma mask_sum_zero: "sum3 (XOR) (\<lambda>i. (z i :: nat) XOR z (prev_id i)) = 0"
  using bits.masks_cancel[of z] by simp

lemma a2b_input_shared:
  fixes x :: "PartyID \<Rightarrow> 'f::comm_ring_1 share"
  assumes "ashare x u" "sum3 (XOR) r = 0"
  shows "sum3 (XOR) (\<lambda>i. fst (a2b_input F i (x i) (r i))) = into_biguint F (sh_a (x ID0) + sh_a (x ID1))"
    and "bshare (\<lambda>i. snd (a2b_input F i (x i) (r i))) (into_biguint F (sh_a (x ID2)))"
proof -
  have "r ID0 XOR r ID1 XOR r ID2 = 0" using assms(2) by (simp add: sum3_def xor.assoc)
  then have "(r ID0 XOR r ID1 XOR r ID2) XOR v = v" for v by simp
  then have cancel: "r ID0 XOR r ID1 XOR r ID2 XOR v = v" for v by (simp only: xor.assoc)
  show "sum3 (XOR) (\<lambda>i. fst (a2b_input F i (x i) (r i))) = into_biguint F (sh_a (x ID0) + sh_a (x ID1))"
    by (simp add: sum3_def a2b_input_def add.commute xor.commute xor.left_commute xor.assoc
        shared_byD[OF assms(1), of ID1] cancel)
  show "bshare (\<lambda>i. snd (a2b_input F i (x i) (r i))) (into_biguint F (sh_a (x ID2)))"
    by (rule shared_by3I) (simp_all add: a2b_input_def shared_byD[OF assms(1)])
qed

lemma mpc_a2b [mpc_rules]:
  fixes x :: "PartyID \<Rightarrow> 'f::comm_ring_1 share"
  assumes "lawful_net E" "lawful_field (fld E)" "ashare x u"
    and "\<And>z. bshare z (into_biguint (fld E) u) \<Longrightarrow> Q z"
  shows "mpc (\<lambda>i. a2b E (x i)) Q"
  unfolding a2b_def Let_def draws_draw2 send_recv_reshare_one split_beta
proof (rule mpc_bind, rule mpc_draw2, rule mpc_bind, rule mpc_get_id, rule mpc_bind, rule mpc_reshare)
  fix r :: "PartyID \<Rightarrow> nat"
  let ?in = "\<lambda>i. a2b_input (fld E) i (x i) (fst (r i, r (prev_id i)) XOR snd (r i, r (prev_id i)))"
  have sum: "sum3 (XOR) (\<lambda>i. fst (?in i)) = into_biguint (fld E) (sh_a (x ID0) + sh_a (x ID1))"
    and x2: "bshare (\<lambda>i. snd (?in i)) (into_biguint (fld E) (sh_a (x ID2)))"
    using a2b_input_shared[OF assms(3) mask_sum_zero[of r]] by simp_all
  have "into_biguint (fld E) u =
      (into_biguint (fld E) (sh_a (x ID0) + sh_a (x ID1)) + into_biguint (fld E) (sh_a (x ID2))) mod modulus (fld E)"
    unfolding shared_by_sum[OF assms(3)] by (rule into_biguint_add[OF assms(2)])
  then show "mpc (\<lambda>i. low_depth_binary_add_mod_p E (Share (fst (?in i)) (fst (?in (prev_id i)))) (snd (?in i))
      (modulus_bit_size (fld E))) Q"
    using assms(4) lawful_fieldD(3,4)[OF assms(2)] modulus_bits_pos[OF assms(2)]
    by (intro mpc_low_depth_binary_add_mod_p[OF assms(1) shared_by_reshare[OF sum] x2]) simp_all
qed (use assms(1) in simp)

lemma vec_summing_fst_snd:
  assumes "\<And>i. length (l i) = length vs"
    and "\<And>k. k < length vs \<Longrightarrow> sum3 add (\<lambda>i. fst (l i ! k)) = vs ! k"
  shows "vec_summing add (\<lambda>i. map fst (l i)) vs"
  using assms by (simp add: vec_summing_def)

lemma mpc_zero_masks:
  assumes "\<And>i. length (xs i) = n"
    and "\<And>r. (\<And>i. length (r i) = n) \<Longrightarrow> (\<And>k. k < n \<Longrightarrow> sum3 (XOR) (\<lambda>i. r i ! k) = 0) \<Longrightarrow> Q r"
  shows "mpc (\<lambda>i. qmap (\<lambda>_. qbind (with_rand (random_biguint R b)) (\<lambda>(r, r2). qret (r XOR r2))) (xs i)) Q"
proof (rule mpc_qmap[where n = n and R = "\<lambda>k z. sum3 (XOR) z = 0", OF _ assms])
  show "mpc (\<lambda>i. qbind (with_rand (random_biguint R b)) (\<lambda>(r, r2). qret (r XOR r2))) (\<lambda>z. sum3 (XOR) z = 0)"
    unfolding draws_draw2 by (rule mpc_bind, rule mpc_draw2) (simp add: mpc_ret mask_sum_zero)
qed

lemma mpc_a2b_many [mpc_rules]:
  fixes x :: "PartyID \<Rightarrow> 'f::comm_ring_1 share list"
  assumes "lawful_net E" "lawful_field (fld E)" "ashares x us"
    and "\<And>z. bshares z (map (into_biguint (fld E)) us) \<Longrightarrow> Q z"
  shows "mpc (\<lambda>i. a2b_many E (x i)) Q"
  unfolding a2b_many_def Let_def
proof (rule mpc_bind, rule mpc_zero_masks, rule vec_shared_byD(1)[OF assms(3)], rule mpc_bind,
    rule mpc_get_id, rule mpc_bind, rule mpc_reshare_many)
  fix r :: "PartyID \<Rightarrow> nat list"
  assume l: "\<And>i. length (r i) = length us" and r: "\<And>k. k < length us \<Longrightarrow> sum3 (XOR) (\<lambda>i. r i ! k) = 0"
  let ?in = "\<lambda>i. map2 (a2b_input (fld E) i) (x i) (r i)"
  let ?ab = "map (\<lambda>k. into_biguint (fld E) (sh_a (x ID0 ! k) + sh_a (x ID1 ! k))) [0..<length us]"
  let ?c = "map (\<lambda>k. into_biguint (fld E) (sh_a (x ID2 ! k))) [0..<length us]"
  note lx = vec_shared_byD(1)[OF assms(3)] and xk = vec_shared_byD(2)[OF assms(3)]
  have sum: "vec_summing (XOR) (\<lambda>i. map fst (?in i)) ?ab"
    using l lx by (simp add: vec_summing_def a2b_input_shared(1)[OF xk r])
  have x2: "bshares (\<lambda>i. map snd (?in i)) ?c"
    using l lx by (simp add: vec_shared_by_def a2b_input_shared(2)[OF xk r])
  have "map2 (\<lambda>u v. (u + v) mod modulus (fld E)) ?ab ?c = map (into_biguint (fld E)) us"
  proof (rule nth_equalityI)
    fix k assume "k < length (map2 (\<lambda>u v. (u + v) mod modulus (fld E)) ?ab ?c)"
    then have k: "k < length us" by simp
    then show "map2 (\<lambda>u v. (u + v) mod modulus (fld E)) ?ab ?c ! k = map (into_biguint (fld E)) us ! k"
      using shared_by_sum[OF xk[OF k]] into_biguint_add[OF assms(2)] by simp
  qed simp
  then show "mpc (\<lambda>i. low_depth_binary_add_mod_p_many E (map2 Share (map fst (?in i)) (map fst (?in (prev_id i))))
      (map snd (?in i)) (modulus_bit_size (fld E))) Q"
    using assms(4) lawful_fieldD(1,3,4)[OF assms(2)] modulus_bits_pos[OF assms(2)]
    by (intro mpc_low_depth_binary_add_mod_p_many[OF assms(1) vec_shared_by_reshare[OF sum] x2]) auto
qed (use assms(1) in simp)

subsubsection \<open>The random summands agree\<close>

lemma mpc_b2a_keys:
  fixes E :: "('f::comm_ring_1, 'r, 's, 'w) env"
  assumes "\<And>k2 k3. Q (\<lambda>i. case i of ID0 \<Rightarrow> (r i, Share 0 (- k3)) | ID1 \<Rightarrow> (r i, Share (- k2) 0)
      | ID2 \<Rightarrow> (into_biguint (fld E) (k2 + k3) XOR r i, Share (- k3) (- k2)))"
  shows "mpc (\<lambda>i. b2a_keys E i (r i)) Q"
proof (rule mpc_cong[OF mpc_3keys[where g = "f_rand (fld E)" and
      ha = "\<lambda>k3. (r ID0, Share 0 (- sum_keys k3))" and hb = "\<lambda>k2. (r ID1, Share (- sum_keys k2) 0)" and
      hc = "\<lambda>k2 k3. (into_biguint (fld E) (sum_keys k2 + sum_keys k3) XOR r ID2,
        Share (- sum_keys k3) (- sum_keys k2))"]])
  fix a b c d e f :: 'f
  from assms[of "d + e + f" "a + b + c"]
  show "Q (\<lambda>i. case i of ID0 \<Rightarrow> (r ID0, Share 0 (- sum_keys (d, e, f))) | ID1 \<Rightarrow> (r ID1, Share (- sum_keys (a, b, c)) 0)
      | ID2 \<Rightarrow> (into_biguint (fld E) (sum_keys (b, c, a) + sum_keys (f, d, e)) XOR r ID2,
          Share (- sum_keys (f, d, e)) (- sum_keys (b, c, a))))"
    by (rule back_subst[of Q]) (auto simp: fun_eq_iff sum_keys_def ac_simps split: PartyID.split)
qed (auto simp: b2a_keys_def random_fes_3keys_def Let_def split: PartyID.split)

lemma mpc_b2a_open:
  assumes "lawful_net E" "bshare z w"
    and "Q (\<lambda>i. case i of ID0 \<Rightarrow> Share (from_biguint (fld E) w) (sh_b (res i))
      | ID1 \<Rightarrow> Share (sh_a (res i)) (from_biguint (fld E) w) | ID2 \<Rightarrow> res i)"
  shows "mpc (\<lambda>i. b2a_open E i (z i) (res i)) Q"
proof (rule mpc_cong[OF mpc_send_to_two[where c = "bcodec E" and v = "\<lambda>i. sh_b (z i)" and
      ha = "\<lambda>rcv. Share (from_biguint (fld E) (sh_a (z ID0) XOR sh_b (z ID0) XOR rcv)) (sh_b (res ID0))" and
      hb = "\<lambda>rcv. Share (sh_a (res ID1)) (from_biguint (fld E) (sh_a (z ID1) XOR sh_b (z ID1) XOR rcv))" and
      hc = "res ID2"]])
  have w: "sh_a (z ID0) XOR sh_b (z ID0) XOR sh_b (z ID2) = w" "sh_a (z ID1) XOR sh_b (z ID1) XOR sh_b (z ID0) = w"
    by (simp_all add: shared_byD[OF assms(2)] shared_by_sum[OF assms(2)] ac_simps)
  from assms(3) show "Q (\<lambda>i. case i of
      ID0 \<Rightarrow> Share (from_biguint (fld E) (sh_a (z ID0) XOR sh_b (z ID0) XOR sh_b (z ID2))) (sh_b (res ID0))
    | ID1 \<Rightarrow> Share (sh_a (res ID1)) (from_biguint (fld E) (sh_a (z ID1) XOR sh_b (z ID1) XOR sh_b (z ID0)))
    | ID2 \<Rightarrow> res ID2)"
    unfolding w by (rule back_subst[of Q]) (auto simp: fun_eq_iff split: PartyID.split)
qed (use assms(1) in \<open>auto simp: b2a_open_def split: PartyID.split\<close>)

lemma b2a_result_shared:
  assumes "lawful_field F" "u < modulus F"
  shows "ashare (\<lambda>i. case i of ID0 \<Rightarrow> Share (of_nat ((u + into_biguint F (k2 + k3)) mod modulus F)) (- k3)
    | ID1 \<Rightarrow> Share (- k2) (of_nat ((u + into_biguint F (k2 + k3)) mod modulus F)) | ID2 \<Rightarrow> Share (- k3) (- k2)) (of_nat u)"
proof -
  have "of_nat ((u + into_biguint F (k2 + k3)) mod modulus F) = of_nat u + (k2 + k3)"
    using lawful_fieldD(5,7)[OF assms(1)] by (metis of_nat_add)
  then show ?thesis by (intro shared_by3I) simp_all
qed

lemma mpc_b2a [mpc_rules]:
  fixes E :: "('f::comm_ring_1, 'r, 's, 'w) env"
  assumes "lawful_net E" "lawful_field (fld E)" "bshare x u" "u < modulus (fld E)"
    and "\<And>z. ashare z (of_nat u) \<Longrightarrow> Q z"
  shows "mpc (\<lambda>i. b2a E (x i)) Q"
  unfolding b2a_def Let_def draws_draw2 send_recv_reshare_one split_beta
proof (rule mpc_bind, rule mpc_draw2, rule mpc_bind, rule mpc_get_id, rule mpc_bind, rule mpc_b2a_keys,
    rule mpc_bind, rule mpc_reshare, goal_cases)
  case (2 r k2 k3)
  let ?y = "\<lambda>i. fst (case i of ID0 \<Rightarrow> (fst (r i, r (prev_id i)) XOR snd (r i, r (prev_id i)), Share 0 (- k3))
    | ID1 \<Rightarrow> (fst (r i, r (prev_id i)) XOR snd (r i, r (prev_id i)), Share (- k2) 0)
    | ID2 \<Rightarrow> (into_biguint (fld E) (k2 + k3) XOR fst (r i, r (prev_id i)) XOR snd (r i, r (prev_id i)), Share (- k3) (- k2)))"
  have "sum3 (XOR) ?y = into_biguint (fld E) (k2 + k3)"
    by (simp add: sum3_def xor.assoc xor.commute xor.left_commute)
  note shared = shared_by_reshare[OF this]
  show ?case
  proof (rule mpc_bind, rule mpc_low_depth_binary_add_mod_p[OF assms(1,3) shared], goal_cases)
    case (5 z)
    from b2a_result_shared[OF assms(2,4), of k2 k3] show ?case
      by (intro mpc_b2a_open[OF assms(1) 5] assms(5))
        (simp add: shared_by_def sum3_def all_party lawful_fieldD(6)[OF assms(2)])
  qed (use lawful_fieldD(3,4)[OF assms(2)] modulus_bits_pos[OF assms(2)] assms(4) in simp_all)
qed (use assms(1) in simp)

lemma mpc_b2a_open_many:
  fixes res :: "PartyID \<Rightarrow> 'f share list"
  assumes "lawful_net E" "bshares z ws" "\<And>i. length (res i) = length ws"
    and "\<And>y. (\<And>i. length (y i) = length ws) \<Longrightarrow> (\<And>k. k < length ws \<Longrightarrow>
      (\<lambda>i. y i ! k) = (\<lambda>i. case i of ID0 \<Rightarrow> Share (from_biguint (fld E) (ws ! k)) (sh_b (res i ! k))
        | ID1 \<Rightarrow> Share (sh_a (res i ! k)) (from_biguint (fld E) (ws ! k)) | ID2 \<Rightarrow> res i ! k)) \<Longrightarrow> Q y"
  shows "mpc (\<lambda>i. b2a_open_many E i (z i) (res i)) Q"
proof -
  define set_a where "set_a = (\<lambda>(res :: 'f share) (rcv, z). Share (from_biguint (fld E) (sh_a z XOR sh_b z XOR rcv)) (sh_b res))"
  define set_b where "set_b = (\<lambda>(res :: 'f share) (rcv, z). Share (sh_a res) (from_biguint (fld E) (sh_a z XOR sh_b z XOR rcv)))"
  define y where "y = (\<lambda>i. case i of
      ID0 \<Rightarrow> zip_update set_a (res ID0) (zip (map sh_b (z ID2)) (z ID0))
    | ID1 \<Rightarrow> zip_update set_b (res ID1) (zip (map sh_b (z ID0)) (z ID1))
    | ID2 \<Rightarrow> res ID2)"
  note lz = vec_shared_byD(1)[OF assms(2)] and zk = vec_shared_byD(2)[OF assms(2)]
  have ly: "length (y i) = length ws" for i
    by (cases i) (simp_all add: y_def assms(3) lz)
  have "Q y"
  proof (rule assms(4)[OF ly], rule ext)
    fix k i assume k: "k < length ws"
    have w: "sh_a (z ID0 ! k) XOR sh_b (z ID0 ! k) XOR sh_b (z ID2 ! k) = ws ! k"
      "sh_a (z ID1 ! k) XOR sh_b (z ID1 ! k) XOR sh_b (z ID0 ! k) = ws ! k"
      by (simp_all add: shared_byD[OF zk[OF k]] shared_by_sum[OF zk[OF k]] ac_simps)
    show "y i ! k = (case i of ID0 \<Rightarrow> Share (from_biguint (fld E) (ws ! k)) (sh_b (res i ! k))
        | ID1 \<Rightarrow> Share (sh_a (res i ! k)) (from_biguint (fld E) (ws ! k)) | ID2 \<Rightarrow> res i ! k)"
      using k by (cases i) (simp_all add: y_def assms(3) lz set_a_def set_b_def w)
  qed
  then show ?thesis
    unfolding y_def b2a_open_many_def Let_def set_a_def[symmetric] set_b_def[symmetric]
    by (rule_tac mpc_cong[OF mpc_send_to_two_many[where c = "bcodec E" and v = "\<lambda>i. map sh_b (z i)" and
          ha = "\<lambda>rcv. zip_update set_a (res ID0) (zip rcv (z ID0))" and
          hb = "\<lambda>rcv. zip_update set_b (res ID1) (zip rcv (z ID1))" and hc = "res ID2"]])
      (use assms(1) in \<open>auto split: PartyID.split\<close>)
qed

text \<open>What the first phase leaves for one element: a sharing, in sums of exclusive ors, of the
  random summand, and the parties' shares of its negation.\<close>

definition b2a_dealt :: "('f::ab_group_add, 'r) field_ops \<Rightarrow> (PartyID \<Rightarrow> nat \<times> 'f share) \<Rightarrow> 'f \<times> 'f \<Rightarrow> bool" where
  "b2a_dealt F z k \<longleftrightarrow> sum3 (XOR) (\<lambda>i. fst (z i)) = into_biguint F (fst k + snd k) \<and>
     snd (z ID0) = Share 0 (- snd k) \<and> snd (z ID1) = Share (- fst k) 0 \<and>
     snd (z ID2) = Share (- snd k) (- fst k)"

lemma mpc_b2a_dealt:
  fixes E :: "('f::comm_ring_1, 'r, 's, 'w) env"
  assumes "sum3 (XOR) r = 0"
  shows "mpc (\<lambda>i. b2a_keys E i (r i)) (\<lambda>z. \<exists>k. b2a_dealt (fld E) z k)"
proof (rule mpc_b2a_keys)
  fix k2 k3 :: 'f
  have "r ID2 = r ID0 XOR r ID1" using assms by (metis sum3_def xor_cancel xor_zero(1))
  then show "\<exists>k. b2a_dealt (fld E) (\<lambda>i. case i of ID0 \<Rightarrow> (r i, Share 0 (- k3)) | ID1 \<Rightarrow> (r i, Share (- k2) 0)
      | ID2 \<Rightarrow> (into_biguint (fld E) (k2 + k3) XOR r i, Share (- k3) (- k2))) k"
    by (intro exI[of _ "(k2, k3)"]) (simp add: b2a_dealt_def sum3_def xor.assoc xor.commute xor.left_commute)
qed

lemma mpc_b2a_many [mpc_rules]:
  fixes E :: "('f::comm_ring_1, 'r, 's, 'w) env"
  assumes "lawful_net E" "lawful_field (fld E)" "bshares x us" "\<forall>u \<in> set us. u < modulus (fld E)"
    and "\<And>z. ashares z (map of_nat us) \<Longrightarrow> Q z"
  shows "mpc (\<lambda>i. b2a_many E (x i)) Q"
  unfolding b2a_many_def Let_def
proof (rule mpc_bind, rule mpc_zero_masks, rule vec_shared_byD(1)[OF assms(3)], rule mpc_bind, rule mpc_get_id,
    rule mpc_bind, rule mpc_qmap[where n = "length us" and R = "\<lambda>_ z. \<exists>k. b2a_dealt (fld E) z k"], goal_cases)
  case (3 r keys)
  then obtain ks where dealt: "\<And>k. k < length us \<Longrightarrow> b2a_dealt (fld E) (\<lambda>i. keys i ! k) (ks k)" by metis
  let ?vs = "map (\<lambda>k. into_biguint (fld E) (fst (ks k) + snd (ks k))) [0..<length us]"
  let ?w = "\<lambda>k. (us ! k + into_biguint (fld E) (fst (ks k) + snd (ks k))) mod modulus (fld E)"
  have sum: "vec_summing (XOR) (\<lambda>i. map fst (keys i)) ?vs"
    using 3(3) dealt by (simp add: vec_summing_def b2a_dealt_def)
  show ?case
  proof (rule mpc_bind, rule mpc_reshare_many, use assms(1) in simp, rule mpc_bind,
      rule mpc_low_depth_binary_add_mod_p_many[OF assms(1,3) vec_shared_by_reshare[OF sum]], goal_cases)
    case (7 z)
    show ?case
    proof (rule mpc_b2a_open_many[OF assms(1) 7])
      fix y :: "PartyID \<Rightarrow> 'f share list"
      assume len: "\<And>i. length (y i) = length (map2 (\<lambda>u v. (u + v) mod modulus (fld E)) us ?vs)"
        and y: "\<And>k. k < length (map2 (\<lambda>u v. (u + v) mod modulus (fld E)) us ?vs) \<Longrightarrow>
          (\<lambda>i. y i ! k) = (\<lambda>i. case i of
            ID0 \<Rightarrow> Share (from_biguint (fld E) (map2 (\<lambda>u v. (u + v) mod modulus (fld E)) us ?vs ! k)) (sh_b (map snd (keys i) ! k))
          | ID1 \<Rightarrow> Share (sh_a (map snd (keys i) ! k)) (from_biguint (fld E) (map2 (\<lambda>u v. (u + v) mod modulus (fld E)) us ?vs ! k))
          | ID2 \<Rightarrow> map snd (keys i) ! k)"
      have "ashare (\<lambda>i. y i ! k) (of_nat (us ! k))" if k: "k < length us" for k
        using b2a_result_shared[OF assms(2), of "us ! k" "fst (ks k)" "snd (ks k)"] assms(4) k y[of k] dealt[OF k] 3(3)
        by (simp add: shared_by_def sum3_def all_party lawful_fieldD(6)[OF assms(2)] b2a_dealt_def)
      then show "Q y" using len by (intro assms(5)) (simp add: vec_shared_by_def)
    qed (use 3(3) in simp)
  qed (use lawful_fieldD(1,3,4)[OF assms(2)] modulus_bits_pos[OF assms(2)] assms(4) in auto)
qed (auto simp del: split_paired_Ex intro!: mpc_b2a_dealt)

subsubsection \<open>Bit injection\<close>

lemma bit_count_le_1: "bit_count n \<le> 1 \<longleftrightarrow> n < 2"
proof
  assume "bit_count n \<le> 1"
  then have "(2::nat) ^ bit_count n \<le> 2 ^ 1" by (intro power_increasing) auto
  then show "n < 2" using less_2_bit_count[of n] by simp
next
  assume "n < 2" then have "n = 0 \<or> n = 1" by auto
  then show "bit_count n \<le> 1" by (auto simp: bit_count.simps[of "Suc 0"] bit_count.simps[of 0])
qed

lemma inject_shares_shared:
  fixes F :: "('f::comm_ring_1, 'r) field_ops"
  assumes "bshare x u"
  shows "ashare (\<lambda>i. fst (inject_shares F i (x i))) (from_biguint F (sh_a (x ID0)))"
    and "ashare (\<lambda>i. fst (snd (inject_shares F i (x i)))) (from_biguint F (sh_a (x ID1)))"
    and "ashare (\<lambda>i. snd (snd (inject_shares F i (x i)))) (from_biguint F (sh_a (x ID2)))"
  by (rule shared_by3I; simp add: inject_shares_def Let_def shared_byD[OF assms])+

lemma xor_of_bits:
  assumes "a < 2" "b < 2" "c < (2::nat)" "a XOR b XOR c = of_bool d"
  shows "of_nat a + of_nat b - 2 * of_nat a * of_nat b + of_nat c
    - 2 * (of_nat a + of_nat b - 2 * of_nat a * of_nat b) * of_nat c = (of_bool d :: 'f::comm_ring_1)"
proof -
  have "a \<in> {0, 1}" "b \<in> {0, 1}" "c \<in> {0, 1}" using assms(1-3) by auto
  then show ?thesis using assms(4) by (cases d) auto
qed

lemma mpc_bit_inject [mpc_rules]:
  fixes E :: "('f::comm_ring_1, 'r, 's, 'w) env"
  assumes "lawful_net E" "lawful_field (fld E)" "bitshare x b" "\<And>z. ashare z (of_bool b) \<Longrightarrow> Q z"
  shows "mpc (\<lambda>i. bit_inject E (x i)) Q"
proof -
  have x: "bshare x (of_bool b)" "\<And>i. sh_a (x i) < 2" using assms(3) by (auto simp: bitshare_def)
  have bits: "\<not> 1 < bit_count (sh_a (x i))" for i using x(2)[of i] by (simp add: not_less bit_count_le_1[simplified])
  note fin = xor_of_bits[OF x(2) x(2) x(2) shared_by_sum[OF x(1), symmetric, unfolded xor.assoc], where 'f = 'f]
  show ?thesis
    unfolding bit_inject_def Let_def split_beta if_not_P[OF bits]
    by (rule mpc_bind, rule mpc_get_id, rule mpc_bind,
        rule mpc_rep3_arithmetic_xor[OF assms(1) inject_shares_shared(1,2)[OF x(1)]],
        rule mpc_rep3_arithmetic_xor[OF assms(1) _ inject_shares_shared(3)[OF x(1)]], assumption,
        rule assms(4)) (simp only: lawful_fieldD(6)[OF assms(2)] fin)
qed

lemma bit_inject_panics: "2 \<le> sh_a x \<Longrightarrow> bit_inject E x = qfail Panic"
  using bit_count_le_1[of "sh_a x"] by (auto simp: bit_inject_def)

lemma vec_ashares_mapI:
  assumes "bshares x us" "\<And>k. k < length us \<Longrightarrow> ashare (\<lambda>i. f i (x i ! k)) (vs ! k)" "length vs = length us"
  shows "ashares (\<lambda>i. map (f i) (x i)) vs"
  using assms vec_shared_byD(1)[OF assms(1)] by (simp add: vec_shared_by_def)

lemma mpc_bit_inject_many [mpc_rules]:
  fixes E :: "('f::comm_ring_1, 'r, 's, 'w) env"
  assumes "lawful_net E" "lawful_field (fld E)" "bitshares x bs" "\<And>z. ashares z (map of_bool bs) \<Longrightarrow> Q z"
  shows "mpc (\<lambda>i. bit_inject_many E (x i)) Q"
proof -
  have x: "bshares x (map of_bool bs)" "\<And>i s. s \<in> set (x i) \<Longrightarrow> sh_a s < 2"
    using assms(3) by (auto simp: bitshares_def)
  note xk = vec_shared_byD(2)[OF x(1)] and lx = vec_shared_byD(1)[OF x(1)]
  have x2: "sh_a (x i ! k) < 2" if "k < length bs" for i k using x(2)[of "x i ! k" i] lx[of i] that by simp
  have bits: "\<not> (\<exists>s \<in> set (x i). 1 < bit_count (sh_a s))" for i
    using x(2)[of _ i] by (auto simp: bit_count_le_1[simplified] simp flip: not_le)
  let ?a = "\<lambda>j. map (\<lambda>k. from_biguint (fld E) (sh_a (x j ! k))) [0..<length bs]"
  have b: "ashares (\<lambda>i. map (\<lambda>s. fst (inject_shares (fld E) i s)) (x i)) (?a ID0)"
    "ashares (\<lambda>i. map (\<lambda>s. fst (snd (inject_shares (fld E) i s))) (x i)) (?a ID1)"
    "ashares (\<lambda>i. map (\<lambda>s. snd (snd (inject_shares (fld E) i s))) (x i)) (?a ID2)"
    by (rule vec_ashares_mapI[OF x(1)]; simp add: inject_shares_shared[OF xk, simplified])+
  have "map2 (\<lambda>u v. u + v - 2 * u * v) (map2 (\<lambda>u v. u + v - 2 * u * v) (?a ID0) (?a ID1)) (?a ID2) = map of_bool bs"
  proof (rule nth_equalityI, simp)
    fix k assume "k < length (map2 (\<lambda>u v. u + v - 2 * u * v) (map2 (\<lambda>u v. u + v - 2 * u * v) (?a ID0) (?a ID1)) (?a ID2))"
    then have k: "k < length bs" by simp
    have "sh_a (x ID0 ! k) XOR sh_a (x ID1 ! k) XOR sh_a (x ID2 ! k) = of_bool (bs ! k)"
      using shared_by_sum[OF xk[of k]] k by (simp add: xor.assoc)
    from xor_of_bits[OF x2 x2 x2 this, where 'f = 'f, OF k k k] k
    show "map2 (\<lambda>u v. u + v - 2 * u * v) (map2 (\<lambda>u v. u + v - 2 * u * v) (?a ID0) (?a ID1)) (?a ID2) ! k = map of_bool bs ! k"
      by (simp add: lawful_fieldD(6)[OF assms(2)])
  qed
  note fin = this
  show ?thesis
    unfolding bit_inject_many_def Let_def if_not_P[OF bits]
    by (rule mpc_bind, rule mpc_get_id, rule mpc_bind,
        rule mpc_rep3_arithmetic_xor_many[OF assms(1) b(1,2)], simp,
        rule mpc_rep3_arithmetic_xor_many[OF assms(1) _ b(3)], assumption, simp, rule assms(4)) (simp only: fin)
qed

subsection \<open>Properties\<close>

text \<open>
  (C4) Arithmetic to binary conversion: from a sharing of a field element \<open>a2b\<close> produces an
  exclusive-or sharing of its canonical representative.
\<close>

theorem a2b_correct:
  fixes x :: "PartyID \<Rightarrow> 'f::comm_ring_1 share"
  assumes "lawful_net E" "lawful_field (fld E)" "ashare x u"
  shows "mpc (\<lambda>i. a2b E (x i)) (\<lambda>z. bshare z (into_biguint (fld E) u))"
  using assms by (rule mpc_a2b)

theorem a2b_correct_witness:
  "mpc (\<lambda>i. a2b ex_env (dealt 3 4 2 i)) (\<lambda>z. bshare z 4)"
  using a2b_correct[OF ex_env_lawful dealt_ashare[of 3 4 2 4]] by simp

text \<open>
  (C3) Binary to arithmetic conversion: from an exclusive-or sharing of a number below the modulus
  \<open>b2a\<close> produces a sharing of that field element, although each of the three parties takes a
  different part in it (the masks come from the bit-composition generators, two of the parties
  open the masked sum).
\<close>

theorem b2a_correct:
  fixes E :: "('f::comm_ring_1, 'r, 's, 'w) env"
  assumes "lawful_net E" "lawful_field (fld E)" "bshare x u" "u < modulus (fld E)"
  shows "mpc (\<lambda>i. b2a E (x i)) (\<lambda>z. ashare z (of_nat u))"
  using assms by (rule mpc_b2a)

theorem b2a_correct_witness:
  "mpc (\<lambda>i. b2a ex_env (dealt 7 1 2 i)) (\<lambda>z. ashare z (4 :: 5))"
  using b2a_correct[OF ex_env_lawful dealt_bshare[of "7 :: nat" 1 2 4]] by simp

text \<open>
  (C5) Round trip through the binary domain: converting a vector of shared field elements with
  \<open>a2b_many\<close> and the result back with \<open>b2a_many\<close>, in one session, gives a sharing of the same
  vector.
\<close>

theorem a2b_b2a_roundtrip:
  fixes x :: "PartyID \<Rightarrow> 'f::comm_ring_1 share list"
  assumes "lawful_net E" "lawful_field (fld E)" "ashares x us"
  shows "mpc (\<lambda>i. qbind (a2b_many E (x i)) (b2a_many E)) (\<lambda>z. ashares z us)"
proof (rule mpc_bind, rule mpc_a2b_many[OF assms])
  fix y assume y: "bshares y (map (into_biguint (fld E)) us)"
  show "mpc (\<lambda>i. b2a_many E (y i)) (\<lambda>z. ashares z us)"
    by (rule mpc_b2a_many[OF assms(1,2) y])
      (use lawful_fieldD(4,5)[OF assms(2)] in \<open>auto simp: o_def\<close>)
qed

theorem a2b_b2a_roundtrip_witness:
  "mpc (\<lambda>i. qbind (a2b_many ex_env [dealt 3 4 2 i, dealt 1 0 0 i]) (b2a_many ex_env))
     (\<lambda>z. ashares z [4 :: 5, 1])"
  using a2b_b2a_roundtrip[OF ex_env_lawful ashares2[OF dealt_ashare[of 3 4 2 4] dealt_ashare[of 1 0 0 1]]]
  by simp

text \<open>
  (C15) Bit injection: from a sharing of one bit, held in single-bit components, \<open>bit_inject\<close>
  produces a field sharing of 0 or 1; a party whose first component is not a bit panics.
\<close>

theorem bit_inject_correct:
  fixes E :: "('f::comm_ring_1, 'r, 's, 'w) env"
  assumes "lawful_net E" "lawful_field (fld E)"
  shows "(bshare x (of_bool b) \<and> (\<forall>i. sh_a (x i) < 2) \<longrightarrow>
       mpc (\<lambda>i. bit_inject E (x i)) (\<lambda>z. ashare z (of_bool b))) \<and>
     (2 \<le> sh_a s \<longrightarrow> bit_inject E s = qfail Panic)"
  using mpc_bit_inject[OF assms, of x b "\<lambda>z. ashare z (of_bool b)"]
  by (simp add: bitshare_def bit_inject_panics)

theorem bit_inject_correct_witness:
  "mpc (\<lambda>i. bit_inject ex_env (dealt 1 1 1 i)) (\<lambda>z. ashare z (1 :: 5)) \<and>
   bit_inject ex_env (Share 2 0) = qfail Panic"
proof -
  have "\<forall>i. sh_a (dealt 1 1 1 i :: nat share) < 2" by (simp add: dealt_def all_party)
  with bit_inject_correct[OF ex_env_lawful, of "dealt 1 1 1" True "Share 2 0"]
    dealt_bshare[of "1 :: nat" 1 1 1] show ?thesis by simp
qed

end
