(* ===== verification/Rep3_Compare.thy ===== *)
theory Rep3_Compare
  imports Rep3_Conversion
begin

text \<open>
  Comparisons of shared field elements: the borrow circuits of \<open>rep3/detail.rs\<close>
  (\<open>unsigned_ge\<close> and its variants) and the comparison functions of \<open>rep3/arithmetic.rs\<close> built on
  them.  Field elements are compared by their canonical representatives.
\<close>

subsection \<open>The borrow circuits\<close>

definition top_bit :: "nat \<Rightarrow> nat share \<Rightarrow> nat share" where
  "top_bit n x = bin_and_public (bin_shr x n) 1"

definition unsigned_ge ::
  "('f::plus, 'r, 's, 'w) env \<Rightarrow> 'f share \<Rightarrow> 'f share \<Rightarrow> ('w, 'r, nat share) prog" where
  "unsigned_ge E x y =
     (let n = modulus_bit_size (fld E)
      in qbind (a2b E x) (\<lambda>a_bits.
         qbind (a2b E y) (\<lambda>b_bits.
         qbind (low_depth_binary_sub E a_bits b_bits n) (\<lambda>diff. qret (top_bit n diff)))))"

definition unsigned_ge_many ::
  "('f, 'r, 's, 'w) env \<Rightarrow> nat share list \<Rightarrow> nat share list \<Rightarrow> ('w, 'r, nat share list) prog" where
  "unsigned_ge_many E x y =
     (let n = modulus_bit_size (fld E)
      in qbind (low_depth_binary_sub_many E x y n) (\<lambda>diff. qret (map (top_bit n) diff)))"

definition unsigned_ge_const_lhs ::
  "('f::plus, 'r, 's, 'w) env \<Rightarrow> 'f \<Rightarrow> 'f share \<Rightarrow> ('w, 'r, nat share) prog" where
  "unsigned_ge_const_lhs E x y =
     qbind (a2b E y) (\<lambda>b_bits.
     qbind (low_depth_binary_sub_from_const E (into_biguint (fld E) x) b_bits) (\<lambda>diff.
     qret (top_bit (modulus_bit_size (fld E)) diff)))"

definition unsigned_ge_const_rhs ::
  "('f::plus, 'r, 's, 'w) env \<Rightarrow> 'f share \<Rightarrow> 'f \<Rightarrow> ('w, 'r, nat share) prog" where
  "unsigned_ge_const_rhs E x y =
     qbind (a2b E x) (\<lambda>a_bits.
     qbind (low_depth_binary_sub_by_const E a_bits (into_biguint (fld E) y)) (\<lambda>diff.
     qret (top_bit (modulus_bit_size (fld E)) diff)))"

subsection \<open>Order\<close>

definition rep3_ge_bit ::
  "('f::plus, 'r, 's, 'w) env \<Rightarrow> 'f share \<Rightarrow> 'f share \<Rightarrow> ('w, 'r, nat share) prog" where
  "rep3_ge_bit E x y = unsigned_ge E x y"

definition rep3_ge_bit_many ::
  "('f, 'r, 's, 'w) env \<Rightarrow> nat share list \<Rightarrow> nat share list \<Rightarrow> ('w, 'r, nat share list) prog" where
  "rep3_ge_bit_many E x y = unsigned_ge_many E x y"

definition rep3_ge_public_bit ::
  "('f::plus, 'r, 's, 'w) env \<Rightarrow> 'f share \<Rightarrow> 'f \<Rightarrow> ('w, 'r, nat share) prog" where
  "rep3_ge_public_bit E x y = unsigned_ge_const_rhs E x y"

definition rep3_le_public_bit ::
  "('f::plus, 'r, 's, 'w) env \<Rightarrow> 'f share \<Rightarrow> 'f \<Rightarrow> ('w, 'r, nat share) prog" where
  "rep3_le_public_bit E x y = unsigned_ge_const_lhs E y x"

definition rep3_ge ::
  "('f::comm_ring_1, 'r, 's, 'w) env \<Rightarrow> 'f share \<Rightarrow> 'f share \<Rightarrow> ('w, 'r, 'f share) prog" where
  "rep3_ge E x y = qbind (rep3_ge_bit E x y) (bit_inject E)"

definition rep3_ge_many ::
  "('f::comm_ring_1, 'r, 's, 'w) env \<Rightarrow> nat share list \<Rightarrow> nat share list \<Rightarrow> ('w, 'r, 'f share list) prog" where
  "rep3_ge_many E x y = qbind (rep3_ge_bit_many E x y) (bit_inject_many E)"

definition rep3_ge_public ::
  "('f::comm_ring_1, 'r, 's, 'w) env \<Rightarrow> 'f share \<Rightarrow> 'f \<Rightarrow> ('w, 'r, 'f share) prog" where
  "rep3_ge_public E x y = qbind (rep3_ge_public_bit E x y) (bit_inject E)"

definition rep3_le ::
  "('f::comm_ring_1, 'r, 's, 'w) env \<Rightarrow> 'f share \<Rightarrow> 'f share \<Rightarrow> ('w, 'r, 'f share) prog" where
  "rep3_le E x y = rep3_ge E y x"

definition rep3_le_public ::
  "('f::comm_ring_1, 'r, 's, 'w) env \<Rightarrow> 'f share \<Rightarrow> 'f \<Rightarrow> ('w, 'r, 'f share) prog" where
  "rep3_le_public E x y = qbind (rep3_le_public_bit E x y) (bit_inject E)"

text \<open>The negation of a shared bit, at the end of \<open>lt\<close>, \<open>gt\<close> and \<open>neq\<close>.\<close>

definition one_minus :: "'f::comm_ring_1 share \<Rightarrow> ('w, 'r, 'f share) prog" where
  "one_minus x = qbind get_id (\<lambda>i. qret (rep3_sub_public_by_shared 1 x i))"

definition rep3_lt ::
  "('f::comm_ring_1, 'r, 's, 'w) env \<Rightarrow> 'f share \<Rightarrow> 'f share \<Rightarrow> ('w, 'r, 'f share) prog" where
  "rep3_lt E x y = qbind (rep3_ge E x y) one_minus"

definition rep3_lt_many ::
  "('f::comm_ring_1, 'r, 's, 'w) env \<Rightarrow> nat share list \<Rightarrow> nat share list \<Rightarrow> ('w, 'r, 'f share list) prog" where
  "rep3_lt_many E x y = qbind (rep3_ge_many E x y) (\<lambda>res.
     qbind get_id (\<lambda>i. qret (map (\<lambda>t. rep3_sub_public_by_shared 1 t i) res)))"

definition rep3_lt_public ::
  "('f::comm_ring_1, 'r, 's, 'w) env \<Rightarrow> 'f share \<Rightarrow> 'f \<Rightarrow> ('w, 'r, 'f share) prog" where
  "rep3_lt_public E x y = qbind (rep3_ge_public E x y) one_minus"

definition rep3_gt ::
  "('f::comm_ring_1, 'r, 's, 'w) env \<Rightarrow> 'f share \<Rightarrow> 'f share \<Rightarrow> ('w, 'r, 'f share) prog" where
  "rep3_gt E x y = qbind (rep3_le E x y) one_minus"

definition rep3_gt_public ::
  "('f::comm_ring_1, 'r, 's, 'w) env \<Rightarrow> 'f share \<Rightarrow> 'f \<Rightarrow> ('w, 'r, 'f share) prog" where
  "rep3_gt_public E x y = qbind (rep3_le_public E x y) one_minus"

subsection \<open>Equality\<close>

definition rep3_eq_bit ::
  "('f::comm_ring_1, 'r, 's, 'w) env \<Rightarrow> 'f share \<Rightarrow> 'f share \<Rightarrow> ('w, 'r, nat share) prog" where
  "rep3_eq_bit E a b = qbind (a2b E (a - b)) (\<lambda>bits. bin_is_zero E bits)"

definition rep3_eq_bit_many ::
  "('f::comm_ring_1, 'r, 's, 'w) env \<Rightarrow> 'f share list \<Rightarrow> 'f share list \<Rightarrow> ('w, 'r, nat share list) prog" where
  "rep3_eq_bit_many E a b =
     (if length a \<noteq> length b then qfail InvalidData
      else qbind (a2b_many E (map2 (-) a b)) (\<lambda>bits. bin_is_zero_many E bits))"

definition rep3_eq_bit_public ::
  "('f::comm_ring_1, 'r, 's, 'w) env \<Rightarrow> 'f share \<Rightarrow> 'f \<Rightarrow> ('w, 'r, nat share) prog" where
  "rep3_eq_bit_public E a v = qbind get_id (\<lambda>i. rep3_eq_bit E a (rep3_promote_to_trivial_share i v))"

definition rep3_eq_bit_public_many ::
  "('f::comm_ring_1, 'r, 's, 'w) env \<Rightarrow> 'f share list \<Rightarrow> 'f list \<Rightarrow> ('w, 'r, nat share list) prog" where
  "rep3_eq_bit_public_many E a vs =
     (if length a \<noteq> length vs then qfail InvalidData
      else qbind get_id (\<lambda>i. rep3_eq_bit_many E a (map (rep3_promote_to_trivial_share i) vs)))"

definition rep3_eq ::
  "('f::comm_ring_1, 'r, 's, 'w) env \<Rightarrow> 'f share \<Rightarrow> 'f share \<Rightarrow> ('w, 'r, 'f share) prog" where
  "rep3_eq E a b = qbind (rep3_eq_bit E a b) (bit_inject E)"

definition rep3_eq_many ::
  "('f::comm_ring_1, 'r, 's, 'w) env \<Rightarrow> 'f share list \<Rightarrow> 'f share list \<Rightarrow> ('w, 'r, 'f share list) prog" where
  "rep3_eq_many E a b =
     (if length a \<noteq> length b then qfail InvalidData
      else qbind (rep3_eq_bit_many E a b) (bit_inject_many E))"

definition rep3_eq_public ::
  "('f::comm_ring_1, 'r, 's, 'w) env \<Rightarrow> 'f share \<Rightarrow> 'f \<Rightarrow> ('w, 'r, 'f share) prog" where
  "rep3_eq_public E a v = qbind (rep3_eq_bit_public E a v) (bit_inject E)"

definition rep3_eq_public_many ::
  "('f::comm_ring_1, 'r, 's, 'w) env \<Rightarrow> 'f share list \<Rightarrow> 'f list \<Rightarrow> ('w, 'r, 'f share list) prog" where
  "rep3_eq_public_many E a vs =
     (if length a \<noteq> length vs then qfail InvalidData
      else qbind (rep3_eq_bit_public_many E a vs) (bit_inject_many E))"

definition rep3_neq ::
  "('f::comm_ring_1, 'r, 's, 'w) env \<Rightarrow> 'f share \<Rightarrow> 'f share \<Rightarrow> ('w, 'r, 'f share) prog" where
  "rep3_neq E a b = qbind (rep3_eq E a b) one_minus"

definition rep3_neq_many ::
  "('f::comm_ring_1, 'r, 's, 'w) env \<Rightarrow> 'f share list \<Rightarrow> 'f share list \<Rightarrow> ('w, 'r, 'f share list) prog" where
  "rep3_neq_many E a b = qbind (rep3_eq_many E a b) (\<lambda>res.
     qbind get_id (\<lambda>i. qret (map (\<lambda>x. rep3_sub_public_by_shared 1 x i) res)))"

definition rep3_neq_public ::
  "('f::comm_ring_1, 'r, 's, 'w) env \<Rightarrow> 'f share \<Rightarrow> 'f \<Rightarrow> ('w, 'r, 'f share) prog" where
  "rep3_neq_public E a v = qbind get_id (\<lambda>i. rep3_neq E a (rep3_promote_to_trivial_share i v))"

definition rep3_is_zero ::
  "('f::comm_ring_1, 'r, 's, 'w) env \<Rightarrow> 'f share \<Rightarrow> ('w, 'r, bool) prog" where
  "rep3_is_zero E a = qbind (rep3_eq_bit E 0 a) (\<lambda>res.
     qbind (rep3_open_bit E res) (\<lambda>x. qret (x = 1)))"

subsection \<open>Correctness\<close>

lemma bitshare_top_bit:
  assumes "bshare x (2 ^ n + u - v)" "u < 2 ^ n" "v < 2 ^ n"
  shows "bitshare (\<lambda>i. top_bit n (x i)) (v \<le> u)"
  unfolding top_bit_def by (rule bitshare_lsb[OF bshare_shr[OF assms(1)] borrow_bit[OF assms(2,3)]])

lemma mpc_unsigned_ge [mpc_rules]:
  fixes x y :: "PartyID \<Rightarrow> 'f::comm_ring_1 share"
  assumes "lawful_net E" "lawful_field (fld E)" "ashare x u" "ashare y v"
    and "\<And>z. bitshare z (into_biguint (fld E) v \<le> into_biguint (fld E) u) \<Longrightarrow> Q z"
  shows "mpc (\<lambda>i. unsigned_ge E (x i) (y i)) Q"
  unfolding unsigned_ge_def Let_def
  by (rule mpc_bind, rule mpc_a2b[OF assms(1-3)], rule mpc_bind, rule mpc_a2b[OF assms(1,2,4)], rule mpc_bind,
      rule mpc_low_depth_binary_sub[OF assms(1)], assumption, assumption)
    (auto intro!: mpc_ret assms(5) bitshare_top_bit into_biguint_bits modulus_bits_pos assms(2))

lemma mpc_unsigned_ge_const_lhs [mpc_rules]:
  fixes y :: "PartyID \<Rightarrow> 'f::comm_ring_1 share"
  assumes "lawful_net E" "lawful_field (fld E)" "ashare y v"
    and "\<And>z. bitshare z (into_biguint (fld E) v \<le> into_biguint (fld E) u) \<Longrightarrow> Q z"
  shows "mpc (\<lambda>i. unsigned_ge_const_lhs E u (y i)) Q"
  unfolding unsigned_ge_const_lhs_def Let_def
  by (rule mpc_bind, rule mpc_a2b[OF assms(1-3)], rule mpc_bind,
      rule mpc_low_depth_binary_sub_from_const[OF assms(1) _ refl], assumption)
    (auto intro!: mpc_ret assms(4) bitshare_top_bit into_biguint_bits modulus_bits_pos assms(2))

lemma mpc_unsigned_ge_const_rhs [mpc_rules]:
  fixes x :: "PartyID \<Rightarrow> 'f::comm_ring_1 share"
  assumes "lawful_net E" "lawful_field (fld E)" "ashare x u"
    and "\<And>z. bitshare z (into_biguint (fld E) v \<le> into_biguint (fld E) u) \<Longrightarrow> Q z"
  shows "mpc (\<lambda>i. unsigned_ge_const_rhs E (x i) v) Q"
  unfolding unsigned_ge_const_rhs_def Let_def
  by (rule mpc_bind, rule mpc_a2b[OF assms(1-3)], rule mpc_bind,
      rule mpc_low_depth_binary_sub_by_const[OF assms(1) _ refl], assumption)
    (auto intro!: mpc_ret assms(4) bitshare_top_bit into_biguint_bits modulus_bits_pos assms(2))

lemma bitshares_mapI:
  assumes "bshares x us" "length bs = length us" "\<And>k. k < length us \<Longrightarrow> bitshare (\<lambda>i. f (x i ! k)) (bs ! k)"
  shows "bitshares (\<lambda>i. map f (x i)) bs"
  using assms vec_shared_byD(1)[OF assms(1)]
  by (auto simp: bitshares_def bitshare_def vec_shared_by_def in_set_conv_nth)

lemma mpc_unsigned_ge_many [mpc_rules]:
  assumes "lawful_net E" "0 < modulus_bit_size (fld E)" "bshares x us" "bshares y vs" "length us = length vs"
    and "\<forall>u \<in> set us. u < 2 ^ modulus_bit_size (fld E)" "\<forall>v \<in> set vs. v < 2 ^ modulus_bit_size (fld E)"
    and "\<And>z. bitshares z (map2 (\<lambda>u v. v \<le> u) us vs) \<Longrightarrow> Q z"
  shows "mpc (\<lambda>i. unsigned_ge_many E (x i) (y i)) Q"
  unfolding unsigned_ge_many_def Let_def
  by (rule mpc_bind, rule mpc_low_depth_binary_sub_many[OF assms(1,3,4,5,2,6,7)], rule mpc_ret,
      rule assms(8), rule bitshares_mapI, assumption)
    (use assms(5-7) in \<open>auto intro!: bitshare_top_bit dest!: vec_shared_byD(2)\<close>)

lemma mpc_one_minus [mpc_rules]:
  fixes x :: "PartyID \<Rightarrow> 'f::comm_ring_1 share"
  assumes "ashare x (of_bool b)" "\<And>z. ashare z (of_bool (\<not> b)) \<Longrightarrow> Q z"
  shows "mpc (\<lambda>i. one_minus (x i)) Q"
  unfolding one_minus_def
  by (rule mpc_bind, rule mpc_get_id, rule mpc_ret, rule assms(2))
    (use ashare_sub_public_by_shared[OF assms(1), of 1] in \<open>cases b; simp\<close>)

lemma ashares_one_minus:
  fixes x :: "PartyID \<Rightarrow> 'f::comm_ring_1 share list"
  assumes "ashares x (map of_bool bs)"
  shows "ashares (\<lambda>i. map (\<lambda>t. rep3_sub_public_by_shared 1 t i) (x i)) (map of_bool (map Not bs))"
proof -
  have "map (\<lambda>u. 1 - u) (map of_bool bs) = (map of_bool (map Not bs) :: 'f list)" by simp
  then show ?thesis
    using vec_shared_by_map[OF assms, of "\<lambda>i t. rep3_sub_public_by_shared 1 t i" "\<lambda>u. 1 - u",
        OF ashare_sub_public_by_shared] by (simp only:)
qed

lemma mpc_rep3_ge [mpc_rules]:
  fixes x y :: "PartyID \<Rightarrow> 'f::comm_ring_1 share"
  assumes "lawful_net E" "lawful_field (fld E)" "ashare x u" "ashare y v"
    and "\<And>z. ashare z (of_bool (into_biguint (fld E) v \<le> into_biguint (fld E) u)) \<Longrightarrow> Q z"
  shows "mpc (\<lambda>i. rep3_ge E (x i) (y i)) Q"
  unfolding rep3_ge_def rep3_ge_bit_def
  by (rule mpc_bind, rule mpc_unsigned_ge[OF assms(1-4)], rule mpc_bit_inject[OF assms(1,2)], assumption, rule assms(5))

lemma mpc_rep3_ge_public [mpc_rules]:
  fixes x :: "PartyID \<Rightarrow> 'f::comm_ring_1 share"
  assumes "lawful_net E" "lawful_field (fld E)" "ashare x u"
    and "\<And>z. ashare z (of_bool (into_biguint (fld E) v \<le> into_biguint (fld E) u)) \<Longrightarrow> Q z"
  shows "mpc (\<lambda>i. rep3_ge_public E (x i) v) Q"
  unfolding rep3_ge_public_def rep3_ge_public_bit_def
  by (rule mpc_bind, rule mpc_unsigned_ge_const_rhs[OF assms(1-3)], rule mpc_bit_inject[OF assms(1,2)], assumption, rule assms(4))

lemma mpc_rep3_le_public [mpc_rules]:
  fixes x :: "PartyID \<Rightarrow> 'f::comm_ring_1 share"
  assumes "lawful_net E" "lawful_field (fld E)" "ashare x u"
    and "\<And>z. ashare z (of_bool (into_biguint (fld E) u \<le> into_biguint (fld E) v)) \<Longrightarrow> Q z"
  shows "mpc (\<lambda>i. rep3_le_public E (x i) v) Q"
  unfolding rep3_le_public_def rep3_le_public_bit_def
  by (rule mpc_bind, rule mpc_unsigned_ge_const_lhs[OF assms(1-3)], rule mpc_bit_inject[OF assms(1,2)], assumption, rule assms(4))

lemma mpc_rep3_le [mpc_rules]:
  fixes x y :: "PartyID \<Rightarrow> 'f::comm_ring_1 share"
  assumes "lawful_net E" "lawful_field (fld E)" "ashare x u" "ashare y v"
    and "\<And>z. ashare z (of_bool (into_biguint (fld E) u \<le> into_biguint (fld E) v)) \<Longrightarrow> Q z"
  shows "mpc (\<lambda>i. rep3_le E (x i) (y i)) Q"
  unfolding rep3_le_def by (rule mpc_rep3_ge[OF assms(1,2,4,3)], rule assms(5))

lemma mpc_rep3_lt [mpc_rules]:
  fixes x y :: "PartyID \<Rightarrow> 'f::comm_ring_1 share"
  assumes "lawful_net E" "lawful_field (fld E)" "ashare x u" "ashare y v"
    and "\<And>z. ashare z (of_bool (into_biguint (fld E) u < into_biguint (fld E) v)) \<Longrightarrow> Q z"
  shows "mpc (\<lambda>i. rep3_lt E (x i) (y i)) Q"
  unfolding rep3_lt_def
  by (rule mpc_bind, rule mpc_rep3_ge[OF assms(1-4)], rule mpc_one_minus, assumption, rule assms(5)) (simp only: not_le)

lemma mpc_rep3_gt [mpc_rules]:
  fixes x y :: "PartyID \<Rightarrow> 'f::comm_ring_1 share"
  assumes "lawful_net E" "lawful_field (fld E)" "ashare x u" "ashare y v"
    and "\<And>z. ashare z (of_bool (into_biguint (fld E) v < into_biguint (fld E) u)) \<Longrightarrow> Q z"
  shows "mpc (\<lambda>i. rep3_gt E (x i) (y i)) Q"
  unfolding rep3_gt_def
  by (rule mpc_bind, rule mpc_rep3_le[OF assms(1-4)], rule mpc_one_minus, assumption, rule assms(5)) (simp only: not_le)

lemma mpc_rep3_lt_public [mpc_rules]:
  fixes x :: "PartyID \<Rightarrow> 'f::comm_ring_1 share"
  assumes "lawful_net E" "lawful_field (fld E)" "ashare x u"
    and "\<And>z. ashare z (of_bool (into_biguint (fld E) u < into_biguint (fld E) v)) \<Longrightarrow> Q z"
  shows "mpc (\<lambda>i. rep3_lt_public E (x i) v) Q"
  unfolding rep3_lt_public_def
  by (rule mpc_bind, rule mpc_rep3_ge_public[OF assms(1-3)], rule mpc_one_minus, assumption, rule assms(4)) (simp only: not_le)

lemma mpc_rep3_gt_public [mpc_rules]:
  fixes x :: "PartyID \<Rightarrow> 'f::comm_ring_1 share"
  assumes "lawful_net E" "lawful_field (fld E)" "ashare x u"
    and "\<And>z. ashare z (of_bool (into_biguint (fld E) v < into_biguint (fld E) u)) \<Longrightarrow> Q z"
  shows "mpc (\<lambda>i. rep3_gt_public E (x i) v) Q"
  unfolding rep3_gt_public_def
  by (rule mpc_bind, rule mpc_rep3_le_public[OF assms(1-3)], rule mpc_one_minus, assumption, rule assms(4)) (simp only: not_le)

lemma mpc_rep3_ge_many [mpc_rules]:
  fixes E :: "('f::comm_ring_1, 'r, 's, 'w) env"
  assumes "lawful_net E" "lawful_field (fld E)" "bshares x us" "bshares y vs" "length us = length vs"
    and "\<forall>u \<in> set us. u < 2 ^ modulus_bit_size (fld E)" "\<forall>v \<in> set vs. v < 2 ^ modulus_bit_size (fld E)"
    and "\<And>z. ashares z (map of_bool (map2 (\<lambda>u v. v \<le> u) us vs)) \<Longrightarrow> Q z"
  shows "mpc (\<lambda>i. rep3_ge_many E (x i) (y i)) Q"
  unfolding rep3_ge_many_def rep3_ge_bit_many_def
  by (rule mpc_bind, rule mpc_unsigned_ge_many[OF assms(1) modulus_bits_pos[OF assms(2)] assms(3-7)],
      rule mpc_bit_inject_many[OF assms(1,2)], assumption, rule assms(8))

lemma mpc_rep3_lt_many [mpc_rules]:
  fixes E :: "('f::comm_ring_1, 'r, 's, 'w) env"
  assumes "lawful_net E" "lawful_field (fld E)" "bshares x us" "bshares y vs" "length us = length vs"
    and "\<forall>u \<in> set us. u < 2 ^ modulus_bit_size (fld E)" "\<forall>v \<in> set vs. v < 2 ^ modulus_bit_size (fld E)"
    and "\<And>z. ashares z (map2 (\<lambda>u v. of_bool (u < v)) us vs) \<Longrightarrow> Q z"
  shows "mpc (\<lambda>i. rep3_lt_many E (x i) (y i)) Q"
proof -
  have eq: "map of_bool (map Not (map2 (\<lambda>u v. v \<le> u) us vs)) = (map2 (\<lambda>u v. of_bool (u < v)) us vs :: 'f list)"
    by (auto simp: not_le)
  show ?thesis
    unfolding rep3_lt_many_def
    by (rule mpc_bind, rule mpc_rep3_ge_many[OF assms(1-7)], rule mpc_bind, rule mpc_get_id, rule mpc_ret,
        rule assms(8), drule ashares_one_minus) (simp only: eq)
qed

subsubsection \<open>Equality\<close>

lemma into_biguint_eq_0:
  assumes "lawful_field F"
  shows "into_biguint F x mod 2 ^ modulus_bit_size F = 0 \<longleftrightarrow> x = 0"
proof -
  have "into_biguint F 0 = 0" using lawful_fieldD(7)[OF assms, of 0] by simp
  moreover have "x = 0" if "into_biguint F x = 0" using lawful_fieldD(5)[OF assms, of x] that by simp
  ultimately show ?thesis using into_biguint_bits[OF assms, of x] by auto
qed

lemma mpc_rep3_eq_bit [mpc_rules]:
  fixes x y :: "PartyID \<Rightarrow> 'f::comm_ring_1 share"
  assumes "lawful_net E" "lawful_field (fld E)" "ashare x u" "ashare y v" "\<And>z. bitshare z (u = v) \<Longrightarrow> Q z"
  shows "mpc (\<lambda>i. rep3_eq_bit E (x i) (y i)) Q"
  unfolding rep3_eq_bit_def
  by (rule mpc_bind, rule mpc_a2b[OF assms(1,2) ashare_diff[OF assms(3,4)]],
      rule mpc_bin_is_zero[OF assms(1) modulus_bits_pos[OF assms(2)]], assumption, rule assms(5))
    (simp add: into_biguint_eq_0[OF assms(2)])

lemma mpc_rep3_eq_bit_many [mpc_rules]:
  fixes x y :: "PartyID \<Rightarrow> 'f::comm_ring_1 share list"
  assumes "lawful_net E" "lawful_field (fld E)" "ashares x us" "ashares y vs" "length us = length vs"
    and "\<And>z. bitshares z (map2 (=) us vs) \<Longrightarrow> Q z"
  shows "mpc (\<lambda>i. rep3_eq_bit_many E (x i) (y i)) Q"
proof -
  have eq: "map (\<lambda>u. u mod 2 ^ modulus_bit_size (fld E) = 0) (map (into_biguint (fld E)) (map2 (-) us vs)) = map2 (=) us vs"
    by (auto simp: into_biguint_eq_0[OF assms(2)])
  have diff: "ashares (\<lambda>i. map2 (-) (x i) (y i)) (map2 (-) us vs)"
    by (rule vec_shared_by_map2[OF assms(3-5)], rule ashare_diff)
  show ?thesis
    unfolding rep3_eq_bit_many_def vec_shared_byD(1)[OF assms(3)] vec_shared_byD(1)[OF assms(4)] assms(5)
      not_True_eq_False simp_thms(6) if_False
    by (rule mpc_bind, rule mpc_a2b_many[OF assms(1,2) diff],
        rule mpc_bin_is_zero_many[OF assms(1) modulus_bits_pos[OF assms(2)]], assumption, rule assms(6))
      (simp only: eq)
qed

lemma mpc_rep3_eq_bit_public [mpc_rules]:
  fixes x :: "PartyID \<Rightarrow> 'f::comm_ring_1 share"
  assumes "lawful_net E" "lawful_field (fld E)" "ashare x u" "\<And>z. bitshare z (u = v) \<Longrightarrow> Q z"
  shows "mpc (\<lambda>i. rep3_eq_bit_public E (x i) v) Q"
  unfolding rep3_eq_bit_public_def
  by (rule mpc_bind, rule mpc_get_id, rule mpc_rep3_eq_bit[OF assms(1-3) ashare_promote_to_trivial assms(4)])

lemma ashares_promote_to_trivial:
  "ashares (\<lambda>i. map (rep3_promote_to_trivial_share i) vs) (vs :: 'f::comm_ring_1 list)"
  by (simp add: vec_shared_by_def ashare_promote_to_trivial)

lemma mpc_rep3_eq_bit_public_many [mpc_rules]:
  fixes x :: "PartyID \<Rightarrow> 'f::comm_ring_1 share list"
  assumes "lawful_net E" "lawful_field (fld E)" "ashares x us" "length us = length vs"
    and "\<And>z. bitshares z (map2 (=) us vs) \<Longrightarrow> Q z"
  shows "mpc (\<lambda>i. rep3_eq_bit_public_many E (x i) vs) Q"
  unfolding rep3_eq_bit_public_many_def vec_shared_byD(1)[OF assms(3)] assms(4)
    not_True_eq_False simp_thms(6) if_False
  by (rule mpc_bind, rule mpc_get_id,
      rule mpc_rep3_eq_bit_many[OF assms(1-3) ashares_promote_to_trivial assms(4,5)])

lemma mpc_rep3_is_zero [mpc_rules]:
  fixes x :: "PartyID \<Rightarrow> 'f::comm_ring_1 share"
  assumes "lawful_net E" "lawful_field (fld E)" "ashare x u" "Q (\<lambda>i. u = 0)"
  shows "mpc (\<lambda>i. rep3_is_zero E (x i)) Q"
proof -
  have z: "ashare (\<lambda>i. 0) (0::'f)" by (rule shared_byI) simp_all
  show ?thesis
    unfolding rep3_is_zero_def
    by (rule mpc_bind, rule mpc_rep3_eq_bit[OF assms(1,2) z assms(3)], rule mpc_bind,
        rule mpc_rep3_open_bit[OF assms(1)], erule bitshare_def[THEN iffD1, THEN conjunct1], rule mpc_ret)
      (use assms(4) in \<open>cases "u = 0"; simp\<close>)
qed

lemma mpc_rep3_eq [mpc_rules]:
  fixes x y :: "PartyID \<Rightarrow> 'f::comm_ring_1 share"
  assumes "lawful_net E" "lawful_field (fld E)" "ashare x u" "ashare y v"
    and "\<And>z. ashare z (of_bool (u = v)) \<Longrightarrow> Q z"
  shows "mpc (\<lambda>i. rep3_eq E (x i) (y i)) Q"
  unfolding rep3_eq_def
  by (rule mpc_bind, rule mpc_rep3_eq_bit[OF assms(1-4)], rule mpc_bit_inject[OF assms(1,2)], assumption, rule assms(5))

lemma mpc_rep3_eq_public [mpc_rules]:
  fixes x :: "PartyID \<Rightarrow> 'f::comm_ring_1 share"
  assumes "lawful_net E" "lawful_field (fld E)" "ashare x u"
    and "\<And>z. ashare z (of_bool (u = v)) \<Longrightarrow> Q z"
  shows "mpc (\<lambda>i. rep3_eq_public E (x i) v) Q"
  unfolding rep3_eq_public_def
  by (rule mpc_bind, rule mpc_rep3_eq_bit_public[OF assms(1-3)], rule mpc_bit_inject[OF assms(1,2)], assumption, rule assms(4))

lemma mpc_rep3_eq_many [mpc_rules]:
  fixes x y :: "PartyID \<Rightarrow> 'f::comm_ring_1 share list"
  assumes "lawful_net E" "lawful_field (fld E)" "ashares x us" "ashares y vs" "length us = length vs"
    and "\<And>z. ashares z (map of_bool (map2 (=) us vs)) \<Longrightarrow> Q z"
  shows "mpc (\<lambda>i. rep3_eq_many E (x i) (y i)) Q"
  unfolding rep3_eq_many_def vec_shared_byD(1)[OF assms(3)] vec_shared_byD(1)[OF assms(4)] assms(5)
    not_True_eq_False simp_thms(6) if_False
  by (rule mpc_bind, rule mpc_rep3_eq_bit_many[OF assms(1-5)], rule mpc_bit_inject_many[OF assms(1,2)], assumption, rule assms(6))

lemma mpc_rep3_eq_public_many [mpc_rules]:
  fixes x :: "PartyID \<Rightarrow> 'f::comm_ring_1 share list"
  assumes "lawful_net E" "lawful_field (fld E)" "ashares x us" "length us = length vs"
    and "\<And>z. ashares z (map of_bool (map2 (=) us vs)) \<Longrightarrow> Q z"
  shows "mpc (\<lambda>i. rep3_eq_public_many E (x i) vs) Q"
  unfolding rep3_eq_public_many_def vec_shared_byD(1)[OF assms(3)] assms(4)
    not_True_eq_False simp_thms(6) if_False
  by (rule mpc_bind, rule mpc_rep3_eq_bit_public_many[OF assms(1-4)], rule mpc_bit_inject_many[OF assms(1,2)], assumption, rule assms(5))

lemma mpc_rep3_neq [mpc_rules]:
  fixes x y :: "PartyID \<Rightarrow> 'f::comm_ring_1 share"
  assumes "lawful_net E" "lawful_field (fld E)" "ashare x u" "ashare y v"
    and "\<And>z. ashare z (of_bool (u \<noteq> v)) \<Longrightarrow> Q z"
  shows "mpc (\<lambda>i. rep3_neq E (x i) (y i)) Q"
  unfolding rep3_neq_def
  by (rule mpc_bind, rule mpc_rep3_eq[OF assms(1-4)], rule mpc_one_minus, assumption, rule assms(5))

lemma mpc_rep3_neq_public [mpc_rules]:
  fixes x :: "PartyID \<Rightarrow> 'f::comm_ring_1 share"
  assumes "lawful_net E" "lawful_field (fld E)" "ashare x u"
    and "\<And>z. ashare z (of_bool (u \<noteq> v)) \<Longrightarrow> Q z"
  shows "mpc (\<lambda>i. rep3_neq_public E (x i) v) Q"
  unfolding rep3_neq_public_def
  by (rule mpc_bind, rule mpc_get_id, rule mpc_rep3_neq[OF assms(1-3) ashare_promote_to_trivial assms(4)])

lemma mpc_rep3_neq_many [mpc_rules]:
  fixes x y :: "PartyID \<Rightarrow> 'f::comm_ring_1 share list"
  assumes "lawful_net E" "lawful_field (fld E)" "ashares x us" "ashares y vs" "length us = length vs"
    and "\<And>z. ashares z (map of_bool (map2 (\<noteq>) us vs)) \<Longrightarrow> Q z"
  shows "mpc (\<lambda>i. rep3_neq_many E (x i) (y i)) Q"
proof -
  have eq: "map of_bool (map Not (map2 (=) us vs)) = (map of_bool (map2 (\<noteq>) us vs) :: 'f list)" by auto
  show ?thesis
    unfolding rep3_neq_many_def
    by (rule mpc_bind, rule mpc_rep3_eq_many[OF assms(1-5)], rule mpc_bind, rule mpc_get_id, rule mpc_ret,
        rule assms(6), drule ashares_one_minus) (simp only: eq)
qed

lemma rep3_eq_many_invalid: "length a \<noteq> length b \<Longrightarrow> rep3_eq_many E a b = qfail InvalidData"
  by (simp add: rep3_eq_many_def)

subsection \<open>Properties\<close>

text \<open>
  (C8) The order comparisons \<open>ge\<close>, \<open>le\<close> and \<open>lt\<close> return a sharing of 1 or 0 according to the order of
  the canonical representatives of the two shared field elements (as unsigned numbers below
  the modulus).
\<close>

theorem rep3_order_correct:
  fixes x y :: "PartyID \<Rightarrow> 'f::comm_ring_1 share"
  assumes "lawful_net E" "lawful_field (fld E)" "ashare x u" "ashare y v"
  shows "mpc (\<lambda>i. rep3_ge E (x i) (y i)) (\<lambda>z. ashare z (of_bool (into_biguint (fld E) v \<le> into_biguint (fld E) u))) \<and>
    mpc (\<lambda>i. rep3_le E (x i) (y i)) (\<lambda>z. ashare z (of_bool (into_biguint (fld E) u \<le> into_biguint (fld E) v))) \<and>
    mpc (\<lambda>i. rep3_lt E (x i) (y i)) (\<lambda>z. ashare z (of_bool (into_biguint (fld E) u < into_biguint (fld E) v)))"
  by (intro conjI) (rule mpc_rep3_ge[OF assms] mpc_rep3_le[OF assms] mpc_rep3_lt[OF assms], assumption)+

theorem rep3_order_correct_witness:
  "mpc (\<lambda>i. rep3_ge ex_env (dealt 3 4 2 i) (dealt 1 2 0 i)) (\<lambda>z. ashare z (1 :: 5)) \<and>
   mpc (\<lambda>i. rep3_lt ex_env (dealt 3 4 2 i) (dealt 1 2 0 i)) (\<lambda>z. ashare z (0 :: 5))"
  using rep3_order_correct[OF ex_env_lawful dealt_ashare[of 3 4 2 4] dealt_ashare[of 1 2 0 3]] by simp

text \<open>
  (C13) Batched equality: \<open>eq_many\<close> on vectors of equal length returns sharings of 1 where the
  shared elements are equal and of 0 elsewhere; on vectors of different lengths it fails with
  \<open>InvalidData\<close> before any message is sent.
\<close>

theorem rep3_eq_many_correct:
  fixes x y :: "PartyID \<Rightarrow> 'f::comm_ring_1 share list"
  assumes "lawful_net E" "lawful_field (fld E)"
  shows "(ashares x us \<and> ashares y vs \<and> length us = length vs \<longrightarrow>
      mpc (\<lambda>i. rep3_eq_many E (x i) (y i)) (\<lambda>z. ashares z (map2 (\<lambda>u v. of_bool (u = v)) us vs))) \<and>
    (length (a :: 'f share list) \<noteq> length b \<longrightarrow> rep3_eq_many E a b = qfail InvalidData)"
  using rep3_eq_many_invalid[of a b E]
    mpc_rep3_eq_many[OF assms, of x us y vs "\<lambda>z. ashares z (map2 (\<lambda>u v. of_bool (u = v)) us vs)"]
  by (simp add: split_def o_def)

theorem rep3_eq_many_correct_witness:
  "mpc (\<lambda>i. rep3_eq_many ex_env [dealt 3 4 2 i, dealt 1 0 0 i] [dealt 0 0 4 i, dealt 1 2 0 i])
     (\<lambda>z. ashares z [1 :: 5, 0]) \<and> rep3_eq_many ex_env [] [Share 1 1] = qfail InvalidData"
  using rep3_eq_many_correct[OF ex_env_lawful,
      of "\<lambda>i. [dealt 3 4 2 i, dealt 1 0 0 i]" "[4, 1]" "\<lambda>i. [dealt 0 0 4 i, dealt 1 2 0 i]" "[4, 3]" "[]" "[Share 1 1]"]
    ashares2[OF dealt_ashare[of 3 4 2 "4 :: 5"] dealt_ashare[of 1 0 0 1]]
    ashares2[OF dealt_ashare[of 0 0 4 "4 :: 5"] dealt_ashare[of 1 2 0 3]] by simp

text \<open>
  (C14) \<open>is_zero\<close> opens, at all three parties alike, whether the shared field element is zero.
\<close>

theorem rep3_is_zero_correct:
  fixes x :: "PartyID \<Rightarrow> 'f::comm_ring_1 share"
  assumes "lawful_net E" "lawful_field (fld E)" "ashare x u"
  shows "mpc (\<lambda>i. rep3_is_zero E (x i)) (\<lambda>r. \<forall>i. r i \<longleftrightarrow> u = 0)"
  by (rule mpc_rep3_is_zero[OF assms]) simp

theorem rep3_is_zero_correct_witness:
  "mpc (\<lambda>i. rep3_is_zero ex_env (dealt 3 4 (3 :: 5) i)) (\<lambda>r. \<forall>i. r i)"
  using rep3_is_zero_correct[OF ex_env_lawful dealt_ashare[of 3 4 3 0]] by simp

end
