(* ===== verification/Ring_Types.thy ===== *)
theory Ring_Types
  imports Rep3_Types
begin

text \<open>
  The rings of integers modulo powers of two: \<open>rep3_ring/ring/*.rs\<close> (the element types),
  \<open>rep3_ring/types.rs\<close> (their shares) and \<open>rep3_ring.rs\<close> (dealing, seeded shares).  An element
  of \<open>RingElement<T>\<close> is a word of \<open>T::K\<close> bits: \<open>Bit\<close> is a word of one bit, \<open>U34\<close> and \<open>U66\<close>
  are words of 34 and 66 bits, and the wrapping operations are those of the word type.  A
  \<open>Rep3RingShare<T>\<close> is a \<open>share\<close> of words, used both for sums and for exclusive ors.
\<close>

type_synonym 'l ring_share = "'l word share"
type_synonym bit_share = "1 word share"

text \<open>
  What \<open>T: IntRing2k\<close> and \<open>N: Rep3Network\<close> supply: the draw of an element from a generator
  (\<open>Standard: Distribution<T>\<close>) and the serialisers of the message types \<open>RingElement<T>\<close>,
  \<open>[RingElement<T>; 2]\<close> and \<open>[Vec<RingElement<T>>; 2]\<close>.
\<close>

record ('e, 'r, 'w) ring_env =
  rgen :: "'r \<Rightarrow> 'e \<times> 'r"
  rcodec :: "('e, 'w) codec"
  r2codec :: "('e \<times> 'e, 'w) codec"
  rv2codec :: "('e list \<times> 'e list, 'w) codec"

definition lawful_ring :: "('e, 'r, 'w) ring_env \<Rightarrow> bool" where
  "lawful_ring R \<longleftrightarrow> lawful_codec (rcodec R) \<and> lawful_codec (r2codec R) \<and> lawful_codec (rv2codec R)"

lemma lawful_ringD [simp]:
  "lawful_ring R \<Longrightarrow> lawful_codec (rcodec R)" "lawful_ring R \<Longrightarrow> lawful_codec (r2codec R)"
  "lawful_ring R \<Longrightarrow> lawful_codec (rv2codec R)"
  by (simp_all add: lawful_ring_def)

subsection \<open>Elements\<close>

text \<open>\<open>ilog2\<close> of a positive number.\<close>

definition ilog2 :: "nat \<Rightarrow> nat" where
  "ilog2 n = bit_count n - 1"

text \<open>\<open>bits\<close>: the value itself for \<open>Bit\<close>, the logarithm for the other types.\<close>

definition int_ring_bits :: "'l::len word \<Rightarrow> nat" where
  "int_ring_bits w =
     (if LENGTH('l) = 1 then unat w else if w = 0 then 0 else ilog2 (unat w))"

definition cast_to_biguint :: "'l::len word \<Rightarrow> nat" where
  "cast_to_biguint w = unat w"

text \<open>The types of up to 64 bits read one 64-bit digit, the wider ones two.\<close>

definition cast_from_biguint :: "nat \<Rightarrow> 'l::len word" where
  "cast_from_biguint n =
     (let ds = u64_digits n;
          digit = (\<lambda>k. if k < length ds then ds ! k else 0)
      in if LENGTH('l) \<le> 64 then of_nat (digit 0)
         else of_nat (push_bit 64 (digit 1) OR digit 0))"

definition ring_get_bit :: "'l::len word \<Rightarrow> nat \<Rightarrow> 'l word" where
  "ring_get_bit w index = drop_bit index w AND 1"

definition ring_shl :: "'l::len word \<Rightarrow> nat \<Rightarrow> 'l word" where
  "ring_shl w n = (if n \<ge> LENGTH('l) then 0 else push_bit n w)"

definition ring_shr :: "'l::len word \<Rightarrow> nat \<Rightarrow> 'l word" where
  "ring_shr w n = (if n \<ge> LENGTH('l) then 0 else drop_bit n w)"

definition bytes_le :: "8 word list \<Rightarrow> nat" where
  "bytes_le bs = foldr (\<lambda>b n. unat b + 2 ^ 8 * n) bs 0"

definition ring_bytes :: "'l::len itself \<Rightarrow> nat" where
  "ring_bytes T = (LENGTH('l) + 7) div 8"

definition ring_write :: "'l::len word \<Rightarrow> 8 word list" where
  "ring_write w = map (\<lambda>k. ucast (drop_bit (8 * k) w)) [0..<ring_bytes TYPE('l)]"

text \<open>\<open>read_exact\<close> of the type's size, returning the rest of the stream; too few bytes are an
  error.\<close>

definition ring_from_reader :: "8 word list \<Rightarrow> io_error + 'l::len word \<times> 8 word list" where
  "ring_from_reader stream =
     (let n = ring_bytes TYPE('l)
      in if length stream < n then Inl UnexpectedEof
         else Inr (of_nat (bytes_le (take n stream)), drop n stream))"

definition bit_write :: "1 word \<Rightarrow> 8 word list" where
  "bit_write b = [of_bool (b = 1)]"

definition bit_try_from :: "nat \<Rightarrow> io_error + 1 word" where
  "bit_try_from v = (if v = 0 then Inr 0 else if v = 1 then Inr 1 else Inl InvalidInput)"

definition bit_from_reader :: "8 word list \<Rightarrow> io_error + 1 word \<times> 8 word list" where
  "bit_from_reader stream =
     (case stream of
        [] \<Rightarrow> Inl UnexpectedEof
      | b # rest \<Rightarrow> (case bit_try_from (unat b) of Inl e \<Rightarrow> Inl e | Inr v \<Rightarrow> Inr (v, rest)))"

lemma ilog2_power: "ilog2 (2 ^ d) = d"
proof -
  have "bit_count (2 ^ d) = Suc d" for d
    by (induction d) (subst bit_count.simps, simp add: bit_count.simps[of 0])+
  then show ?thesis by (simp add: ilog2_def)
qed

lemma ring_shifts: "ring_shl w n = push_bit n w" "ring_shr w n = drop_bit n w"
  by (auto simp: ring_shl_def ring_shr_def bit_eq_iff bit_simps dest: bit_imp_le_length)

lemma cast_from_biguint:
  assumes "LENGTH('l::len) \<le> 128"
  shows "(cast_from_biguint n :: 'l word) = of_nat n"
proof -
  define d0 d1 where "d0 = take_bit 64 n" and "d1 = take_bit 64 (drop_bit 64 n)"
  have digits: "(if 0 < length (u64_digits n) then u64_digits n ! 0 else 0) = d0"
    "(if 1 < length (u64_digits n) then u64_digits n ! 1 else 0) = d1"
    by (subst u64_digits.simps, subst u64_digits.simps, simp add: d0_def d1_def take_bit_eq_mod drop_bit_eq_div)+
  have "bit (push_bit 64 d1 OR d0) k = bit n k" if "k < 128" for k
    using that unfolding d0_def d1_def
    by (auto simp: bit_or_iff bit_push_bit_iff bit_take_bit_iff bit_drop_bit_eq)
  then have wide: "(of_nat (push_bit 64 d1 OR d0) :: 'l word) = of_nat n"
    using assms unfolding word_of_nat_eq_iff by (intro bit_eqI) (simp only: bit_take_bit_iff, auto)
  have "(of_nat d0 :: 'l word) = of_nat n" if "LENGTH('l) \<le> 64"
    using that by (auto simp: d0_def word_of_nat_eq_iff min_def)
  with wide show ?thesis unfolding cast_from_biguint_def Let_def digits by simp
qed

text \<open>A written element is read back, and the rest of the stream is left.\<close>

lemma unat_byte: "unat (ucast (drop_bit n w) :: 8 word) = take_bit 8 (drop_bit n (unat w))"
  for w :: "'l::len word"
  by (rule bit_eqI) (auto simp: bit_simps dest: bit_imp_le_length)

lemma bytes_le_bytes:
  "bytes_le (map (\<lambda>k. ucast (drop_bit (8 * (m + k)) w)) [0..<n]) = take_bit (8 * n) (drop_bit (8 * m) (unat w))"
  for w :: "'l::len word"
proof (induction n arbitrary: m)
  case 0
  then show ?case by (simp add: bytes_le_def)
next
  case (Suc n)
  have split: "map (\<lambda>k. ucast (drop_bit (8 * (m + k)) w)) [0..<Suc n] =
      (ucast (drop_bit (8 * m) w) :: 8 word) # map (\<lambda>k. ucast (drop_bit (8 * (Suc m + k)) w)) [0..<n]"
    by (simp add: upt_conv_Cons map_Suc_upt[symmetric] add.assoc add.left_commute del: upt_Suc)
  have "bytes_le (map (\<lambda>k. ucast (drop_bit (8 * (m + k)) w)) [0..<Suc n]) =
      take_bit 8 (drop_bit (8 * m) (unat w)) + 2 ^ 8 * take_bit (8 * n) (drop_bit (8 * Suc m) (unat w))"
    unfolding split using Suc.IH[of "Suc m"]
    by (simp add: bytes_le_def unat_byte)
  also have "\<dots> = take_bit (8 * Suc n) (drop_bit (8 * m) (unat w))"
    using mod_mult2_eq[of "drop_bit (8 * m) (unat w)" "2 ^ 8" "2 ^ (8 * n)"]
    by (simp add: take_bit_eq_mod drop_bit_eq_div power_add div_mult2_eq div_mult2_eq[of _ 256, symmetric] mult.commute[of 256])
  finally show ?case .
qed

lemma ring_read_write: "ring_from_reader (ring_write w @ rest) = Inr (w :: 'l::len word, rest)"
proof -
  have "8 * ring_bytes TYPE('l) \<ge> LENGTH('l)" by (simp add: ring_bytes_def)
  then have "take_bit (8 * ring_bytes TYPE('l)) (unat w) = unat w"
    by (simp add: take_bit_nat_eq_self_iff order_less_le_trans[OF unsigned_less])
  then have "bytes_le (ring_write w) = unat w"
    using bytes_le_bytes[of 0 w "ring_bytes TYPE('l)"] by (simp add: ring_write_def)
  then show ?thesis by (simp add: ring_from_reader_def ring_write_def)
qed

lemma word1_cases: "(b :: 1 word) = 0 \<or> b = 1"
proof -
  have "unat b < 2" using unsigned_less[of b, where 'a = nat] by simp
  then have "unat b = 0 \<or> unat b = 1" by auto
  then show ?thesis by (auto simp: word_unat_eq_iff)
qed

lemma bit_read_write: "bit_from_reader (bit_write b @ rest) = Inr (b, rest)"
  using word1_cases[of b] by (auto simp: bit_from_reader_def bit_write_def bit_try_from_def)

subsection \<open>Shares\<close>

definition ring_share_new :: "'l::len word \<Rightarrow> 'l word \<Rightarrow> 'l ring_share" where
  "ring_share_new a b = Share a b"

definition ring_share_double :: "'l::len ring_share \<Rightarrow> 'l ring_share" where
  "ring_share_double x = Share (ring_shl (sh_a x) 1) (ring_shl (sh_b x) 1)"

definition ring_promote_from_trivial :: "'l::len word \<Rightarrow> PartyID \<Rightarrow> 'l ring_share" where
  "ring_promote_from_trivial v i =
     (case i of ID0 \<Rightarrow> Share v 0 | ID1 \<Rightarrow> Share 0 v | ID2 \<Rightarrow> Share 0 0)"

definition share_get_bit :: "'l::len ring_share \<Rightarrow> nat \<Rightarrow> bit_share" where
  "share_get_bit x index =
     Share (of_bool (ring_get_bit (sh_a x) index = 1)) (of_bool (ring_get_bit (sh_b x) index = 1))"

definition ring_share_downcast :: "'l::len ring_share \<Rightarrow> io_error + 'k::len ring_share" where
  "ring_share_downcast x =
     (if LENGTH('l) \<ge> LENGTH('k) then Inr (Share (ucast (sh_a x)) (ucast (sh_b x))) else Inl Panic)"

definition ring_share_not :: "'l::len ring_share \<Rightarrow> 'l ring_share" where
  "ring_share_not x = Share (NOT (sh_a x)) (NOT (sh_b x))"

definition ring_share_is_even :: "'l::len ring_share \<Rightarrow> bit_share" where
  "ring_share_is_even x = ring_share_not (share_get_bit x 0)"

definition ring_share_from_le_bytes :: "8 ring_share list \<Rightarrow> io_error + 'l::len ring_share" where
  "ring_share_from_le_bytes bytes =
     (if length bytes \<le> LENGTH('l) div 8 then
        (let pad = replicate (LENGTH('l) div 8 - length bytes) 0
         in Inr (Share (of_nat (bytes_le (map sh_a bytes @ pad))) (of_nat (bytes_le (map sh_b bytes @ pad)))))
      else Inl Panic)"

text \<open>
  The bitwise, additive and multiplicative operators of \<open>Rep3RingShare\<close> are the generic ones of
  theories \<open>Sharing\<close> and \<open>Rep3_Types\<close> at words; shifting a word by its width or more gives
  zero, as \<open>RingElement\<close> writes it (lemma \<open>ring_shifts\<close>).
\<close>

lemma bit_of_bool1 [simp]: "((of_bool b :: 1 word) = 1) = b" "((of_bool b :: 1 word) = 0) = (\<not> b)"
  by (cases b; simp)+

lemma ring_get_bit: "index < LENGTH('l) \<Longrightarrow> (ring_get_bit w index = 1) = bit w index"
  for w :: "'l::len word"
  by (simp add: ring_get_bit_def and_one_eq bit_iff_odd_drop_bit odd_iff_mod_2_eq_one[symmetric] mod2_eq_if)

lemma bshare_get_bit [bshare_intros]:
  fixes x :: "PartyID \<Rightarrow> 'l::len word share"
  assumes "bshare x u" "n < LENGTH('l)"
  shows "bshare (\<lambda>i. share_get_bit (x i) n) (of_bool (bit u n))"
proof -
  have "sum3 (XOR) (\<lambda>i. of_bool (bit (sh_a (x i)) n) :: 1 word) = of_bool (bit (sum3 (XOR) (\<lambda>i. sh_a (x i))) n)"
    by (simp add: sum3_def bit_xor_iff)
  with assms show ?thesis by (simp add: shared_by_def share_get_bit_def ring_get_bit)
qed

lemma bshare_not [bshare_intros]:
  fixes x :: "PartyID \<Rightarrow> 'l::len word share"
  shows "bshare x u \<Longrightarrow> bshare (\<lambda>i. ring_share_not (x i)) (NOT u)"
  by (rule shared_byI) (auto simp: ring_share_not_def shared_by_def sum3_def bit_eq_iff bit_simps)

lemma bshare_ucast [bshare_intros]:
  fixes x :: "PartyID \<Rightarrow> 'l::len word share"
  assumes "bshare x u"
  shows "bshare (\<lambda>i. Share (ucast (sh_a (x i))) (ucast (sh_b (x i)))) (ucast u :: 'k::len word)"
  using assms by (auto simp: shared_by_def sum3_def intro!: bit_word_eqI simp: bit_simps)

lemma ashare_downcast [ashare_intros]:
  fixes x :: "PartyID \<Rightarrow> 'l::len word share"
  assumes "ashare x u" "LENGTH('k::len) \<le> LENGTH('l)"
  shows "ashare (\<lambda>i. Share (ucast (sh_a (x i))) (ucast (sh_b (x i)))) (ucast u :: 'k word)"
proof -
  have "ucast (a + b) = (ucast a + ucast b :: 'k word)" for a b :: "'l word"
  proof -
    have "a + b = word_of_int (uint a + uint b)" by simp
    then have "ucast (a + b) = (word_of_int (uint a + uint b) :: 'k word)"
      using assms(2) by (simp only: ucast_down_wi is_down)
    then show ?thesis by (simp only: ucast_eq wi_hom_add)
  qed
  with assms(1) show ?thesis by (auto simp: shared_by_def sum3_def)
qed

lemma ashare_double [ashare_intros]:
  fixes x :: "PartyID \<Rightarrow> 'l::len word share"
  shows "ashare x u \<Longrightarrow> ashare (\<lambda>i. ring_share_double (x i)) (2 * u)"
  using ashare_scale[of x u 2]
  by (simp add: ring_share_double_def ring_shifts share_scale_def push_bit_eq_mult mult.commute)

lemma bshare_is_even:
  fixes x :: "PartyID \<Rightarrow> 'l::len word share"
  assumes "bshare x u"
  shows "bshare (\<lambda>i. ring_share_is_even (x i)) (of_bool (even u))"
proof -
  have "NOT (of_bool (bit u 0)) = (of_bool (even u) :: 1 word)" by (cases "even u") (simp_all add: bit_0)
  then show ?thesis unfolding ring_share_is_even_def using bshare_not[OF bshare_get_bit[OF assms, of 0]] by simp
qed

subsection \<open>Dealing and reconstructing\<close>

definition share_ring_element ::
  "('r \<Rightarrow> 'l::len word \<times> 'r) \<Rightarrow> 'l word \<Rightarrow> 'r \<Rightarrow>
   ('l ring_share \<times> 'l ring_share \<times> 'l ring_share) \<times> 'r" where
  "share_ring_element g val r =
     (let (a, r) = g r; (b, r) = g r; c = val - a - b in ((Share a c, Share b a, Share c b), r))"

primrec share_ring_elements ::
  "('r \<Rightarrow> 'l::len word \<times> 'r) \<Rightarrow> 'l word list \<Rightarrow> 'r \<Rightarrow>
   ('l ring_share list \<times> 'l ring_share list \<times> 'l ring_share list) \<times> 'r" where
  "share_ring_elements g [] r = (([], [], []), r)"
| "share_ring_elements g (val # vals) r =
     (let ((s1, s2, s3), r) = share_ring_element g val r;
          ((ss1, ss2, ss3), r) = share_ring_elements g vals r
      in ((s1 # ss1, s2 # ss2, s3 # ss3), r))"

definition share_ring_element_binary ::
  "('r \<Rightarrow> 'l::len word \<times> 'r) \<Rightarrow> 'l word \<Rightarrow> 'r \<Rightarrow>
   ('l ring_share \<times> 'l ring_share \<times> 'l ring_share) \<times> 'r" where
  "share_ring_element_binary g val r =
     (let (a, r) = g r; (b, r) = g r; c = val XOR a XOR b in ((Share a c, Share b a, Share c b), r))"

definition combine_ring_element :: "'l::len ring_share \<Rightarrow> 'l ring_share \<Rightarrow> 'l ring_share \<Rightarrow> 'l word" where
  "combine_ring_element s1 s2 s3 = sh_a s1 + sh_a s2 + sh_a s3"

definition combine_ring_elements ::
  "'l::len ring_share list \<Rightarrow> 'l ring_share list \<Rightarrow> 'l ring_share list \<Rightarrow> io_error + 'l word list" where
  "combine_ring_elements s1 s2 s3 =
     (if length s1 \<noteq> length s2 \<or> length s2 \<noteq> length s3 then Inl Panic
      else Inr (map (\<lambda>(x1, x2, x3). sh_a x1 + sh_a x2 + sh_a x3) (zip s1 (zip s2 s3))))"

definition combine_ring_element_binary ::
  "'l::len ring_share \<Rightarrow> 'l ring_share \<Rightarrow> 'l ring_share \<Rightarrow> 'l word" where
  "combine_ring_element_binary s1 s2 s3 = sh_a s1 XOR sh_a s2 XOR sh_a s3"

subsubsection \<open>Seeded shares\<close>

text \<open>
  A summand is either written out or represented by the seed it is drawn from.  \<open>SeedRng\<close> is
  \<open>rand_chacha\<close>'s generator; its seeding and its draw of an element are the parameters
  \<open>sd\<close> and \<open>sg\<close>.
\<close>

datatype ('e, 's) SeededType = Shares "'e list" | Seed 's nat

record ('e, 's) ReplicatedSeedType =
  seed_a :: "('e, 's) SeededType"
  seed_b :: "('e, 's) SeededType"

datatype ('e, 's) Rep3RingShareVec = Replicated "'e share list" | Seeded "('e, 's) ReplicatedSeedType"

definition ring_vec_length :: "('e, 's) Rep3RingShareVec \<Rightarrow> nat" where
  "ring_vec_length v =
     (case v of
        Replicated v \<Rightarrow> length v
      | Seeded s \<Rightarrow> (case seed_a s of Shares v \<Rightarrow> length v | Seed seed len \<Rightarrow> len))"

definition expand_seeded :: "('s \<Rightarrow> 'q) \<Rightarrow> ('q \<Rightarrow> 'e \<times> 'q) \<Rightarrow> ('e, 's) SeededType \<Rightarrow> 'e list" where
  "expand_seeded sd sg t =
     (case t of Shares v \<Rightarrow> v | Seed seed len \<Rightarrow> fst (draw_n len sg (sd seed)))"

definition into_expand_vec ::
  "('s \<Rightarrow> 'q) \<Rightarrow> ('q \<Rightarrow> 'e \<times> 'q) \<Rightarrow> ('e, 's) Rep3RingShareVec \<Rightarrow> 'e share list" where
  "into_expand_vec sd sg v =
     (case v of
        Replicated v \<Rightarrow> v
      | Seeded s \<Rightarrow> map2 Share (expand_seeded sd sg (seed_a s)) (expand_seeded sd sg (seed_b s)))"

primrec seeded_diffs ::
  "('q \<Rightarrow> 'e::minus \<times> 'q) \<Rightarrow> 'e list \<Rightarrow> 'q \<Rightarrow> 'q \<Rightarrow> 'e list" where
  "seeded_diffs sg [] rng_b rng_c = []"
| "seeded_diffs sg (val # vals) rng_b rng_c =
     (let (b_rand, rng_b) = sg rng_b; (c_rand, rng_c) = sg rng_c
      in (val - b_rand - c_rand) # seeded_diffs sg vals rng_b rng_c)"

definition share_ring_elements_seeded ::
  "('r \<Rightarrow> 's \<times> 'r) \<Rightarrow> ('s \<Rightarrow> 'q) \<Rightarrow> ('q \<Rightarrow> 'e::minus \<times> 'q) \<Rightarrow> 'e list \<Rightarrow> 'r \<Rightarrow>
   (('e, 's) Rep3RingShareVec \<times> ('e, 's) Rep3RingShareVec \<times> ('e, 's) Rep3RingShareVec) \<times> 'r" where
  "share_ring_elements_seeded gs sd sg vals r =
     (let len = length vals;
          (seed_b, r) = gs r; (seed_c, r) = gs r;
          b_seeded = Seed seed_b len; c_seeded = Seed seed_c len;
          a_seeded = Shares (seeded_diffs sg vals (sd seed_b) (sd seed_c))
      in ((Seeded \<lparr>seed_a = a_seeded, seed_b = c_seeded\<rparr>,
           Seeded \<lparr>seed_a = b_seeded, seed_b = a_seeded\<rparr>,
           Seeded \<lparr>seed_a = c_seeded, seed_b = b_seeded\<rparr>), r))"

lemma share_ring_element_shared:
  "ashare (triple (fst (share_ring_element g v r))) v"
  by (rule shared_by3I) (simp_all add: share_ring_element_def split_beta Let_def)

lemma share_ring_element_binary_shared:
  "bshare (triple (fst (share_ring_element_binary g v r))) v"
  by (rule shared_by3I) (simp_all add: share_ring_element_binary_def split_beta Let_def xor_cancel ac_simps)

lemma share_ring_elements_shared:
  "ashares (triple (fst (share_ring_elements g vs r))) vs"
proof (induction vs arbitrary: r)
  case Nil
  then show ?case by (simp add: all_party)
next
  case (Cons v vs)
  let ?r = "snd (share_ring_element g v r)"
  have fam: "triple (fst (share_ring_elements g (v # vs) r)) i =
      triple (fst (share_ring_element g v r)) i # triple (fst (share_ring_elements g vs ?r)) i" for i
    by (cases i) (simp_all add: split_beta Let_def)
  with Cons.IH[of ?r] share_ring_element_shared[of g v r] show ?case
    by (auto simp: vec_shared_by_def nth_Cons split: nat.splits)
qed

lemma combine_ring_elements_shared:
  assumes "ashares x (vs :: 'l::len word list)"
  shows "combine_ring_elements (x ID0) (x ID1) (x ID2) = Inr vs"
  using vec_shared_byD[OF assms]
  by (auto simp: combine_ring_elements_def shared_by_def sum3_def intro!: nth_equalityI)

lemma seeded_diffs_draw:
  "length (seeded_diffs sg vs qb qc) = length vs"
  "k < length vs \<Longrightarrow> seeded_diffs sg vs qb qc ! k =
     vs ! k - fst (draw_n (length vs) sg qb) ! k - fst (draw_n (length vs) sg qc) ! k"
  by (induction vs arbitrary: qb qc k) (auto simp: split_beta Let_def nth_Cons split: nat.splits)

lemma share_seeded_shared:
  fixes vs :: "'e::comm_ring_1 list"
  assumes "fst (share_ring_elements_seeded gs sd sg vs r) = (v0, v1, v2)"
  shows "ashares (\<lambda>i. into_expand_vec sd sg (triple (v0, v1, v2) i)) vs"
  unfolding vec_shared_by_def
proof (intro conjI allI impI)
  note d = share_ring_elements_seeded_def split_beta Let_def into_expand_vec_def expand_seeded_def
  fix i show "length (into_expand_vec sd sg (triple (v0, v1, v2) i)) = length vs"
    using assms by (cases i) (auto simp: d seeded_diffs_draw)
next
  note d = share_ring_elements_seeded_def split_beta Let_def into_expand_vec_def expand_seeded_def
  fix k assume "k < length vs"
  then show "ashare (\<lambda>i. into_expand_vec sd sg (triple (v0, v1, v2) i) ! k) (vs ! k)"
    using assms by (intro shared_by3I) (auto simp: d seeded_diffs_draw)
qed

subsection \<open>Properties\<close>

text \<open>
  Serialisation of ring elements of every width: what \<open>write\<close> emits, \<open>from_reader\<close> reads
  back, leaving the rest of the stream; a stream shorter than the type's byte size is an
  \<open>UnexpectedEof\<close> error; and a \<open>Bit\<close> round-trips through its one-byte encoding, while any byte
  above 1 is refused.
\<close>

theorem ring_write_read:
  "ring_from_reader (ring_write w @ rest) = Inr (w :: 'l::len word, rest) \<and>
   (length s < ring_bytes TYPE('l) \<longrightarrow> (ring_from_reader s :: io_error + 'l word \<times> 8 word list) = Inl UnexpectedEof) \<and>
   bit_from_reader (bit_write b @ rest) = Inr (b, rest) \<and>
   (1 < unat c \<longrightarrow> bit_from_reader (c # rest) = Inl InvalidInput)"
  using ring_read_write[of w rest] bit_read_write[of b rest]
  by (simp add: ring_from_reader_def bit_from_reader_def bit_try_from_def Let_def)

theorem ring_write_read_witness:
  "ring_from_reader (ring_write (0x3FFFFFFFF :: 34 word) @ [7]) = Inr (0x3FFFFFFFF :: 34 word, [7]) \<and>
   (ring_from_reader [1, 2, 3, 4] :: io_error + 34 word \<times> 8 word list) = Inl UnexpectedEof \<and>
   bit_from_reader [2, 5] = Inl InvalidInput"
  using ring_write_read[of "0x3FFFFFFFF :: 34 word" "[7]" "[1, 2, 3, 4]" 0 2]
    ring_write_read[of "0 :: 34 word" "[5]" "[]" 0 2]
  by (simp add: ring_bytes_def)

text \<open>
  (C34) Seeded dealing: the three compressed share vectors \<open>share_ring_elements_seeded\<close> hands out
  (one explicit summand, two seeds) expand, party by party, to a replicated sharing of the input
  vector, and recombining the expansions gives the input back, for every seeding function and
  every generator.
\<close>

theorem share_seeded_roundtrip:
  "case fst (share_ring_elements_seeded gs sd sg vs r) of (v0, v1, v2) \<Rightarrow>
     ashares (\<lambda>i. into_expand_vec sd sg (triple (v0, v1, v2) i)) (vs :: 'l::len word list) \<and>
     combine_ring_elements (into_expand_vec sd sg v0) (into_expand_vec sd sg v1) (into_expand_vec sd sg v2) = Inr vs"
proof -
  obtain v0 v1 v2 where v: "fst (share_ring_elements_seeded gs sd sg vs r) = (v0, v1, v2)"
    by (cases "fst (share_ring_elements_seeded gs sd sg vs r)")
  from share_seeded_shared[OF this] combine_ring_elements_shared[OF share_seeded_shared[OF this]]
  show ?thesis by (simp add: v)
qed



end
