(* ===== verification/Backing_Store.thy ===== *)
theory Backing_Store
  imports Ring_Types
begin

text \<open>
  The storage of preprocessed material, \<open>preprocessing/backing_store.rs\<close>: a vector of elements
  that is held in memory or in a file of raw elements, and the fixed-layout header file
  (\<open>MetaData\<close>) with the seeds and the cursor of a pool.  The file system is an explicit map from
  paths to byte lists; a file handle is its path.  The build is the production one, without the
  feature \<open>reuse-preproc\<close>: consumed elements are zeroed on disk.
\<close>

type_synonym bytes = "8 word list"
type_synonym fs = "string \<Rightarrow> bytes option"

subsection \<open>Raw layout of elements\<close>

text \<open>
  The code copies elements as raw memory.  \<open>elem_size\<close> is \<open>size_of::<F>()\<close>; \<open>to_raw\<close> and
  \<open>from_raw\<close> are the two directions of the byte-wise cast.  Every element has a pattern of bytes,
  and all zeros is one of the patterns.
\<close>

record 'f layout =
  elem_size :: nat
  to_raw :: "'f \<Rightarrow> bytes"
  from_raw :: "bytes \<Rightarrow> 'f"

definition lawful_layout :: "'f layout \<Rightarrow> bool" where
  "lawful_layout L \<longleftrightarrow> 0 < elem_size L \<and> (\<forall>x. length (to_raw L x) = elem_size L) \<and>
     (\<forall>x. from_raw L (to_raw L x) = x) \<and> (\<exists>z. to_raw L z = replicate (elem_size L) 0)"

definition raw_vec :: "'f layout \<Rightarrow> 'f list \<Rightarrow> bytes" where
  "raw_vec L v = concat (map (to_raw L) v)"

definition vec_from_bytes :: "'f layout \<Rightarrow> bytes \<Rightarrow> io_error + 'f list" where
  "vec_from_bytes L bs =
     (if length bs mod elem_size L \<noteq> 0 then Inl InvalidInput
      else Inr (map (from_raw L) (chunks (elem_size L) bs)))"

subsection \<open>Files\<close>

definition file_read_exact_at :: "fs \<Rightarrow> string \<Rightarrow> nat \<Rightarrow> nat \<Rightarrow> io_error + bytes" where
  "file_read_exact_at fs path offset n =
     (case fs path of
        None \<Rightarrow> Inl OtherError
      | Some c \<Rightarrow> if offset + n \<le> length c then Inr (take n (drop offset c)) else Inl UnexpectedEof)"

text \<open>A write past the end leaves zeros in between.\<close>

definition overwrite :: "bytes \<Rightarrow> nat \<Rightarrow> bytes \<Rightarrow> bytes" where
  "overwrite c offset buf =
     (if buf = [] then c
      else take offset (c @ replicate (offset - length c) 0) @ buf @ drop (offset + length buf) c)"

definition file_write_all_at :: "fs \<Rightarrow> string \<Rightarrow> nat \<Rightarrow> bytes \<Rightarrow> io_error + fs" where
  "file_write_all_at fs path offset buf =
     (case fs path of
        None \<Rightarrow> Inl OtherError
      | Some c \<Rightarrow> Inr (fs(path \<mapsto> overwrite c offset buf)))"

definition file_set_len :: "bytes \<Rightarrow> nat \<Rightarrow> bytes" where
  "file_set_len c n = take n (c @ replicate (n - length c) 0)"

subsection \<open>The store\<close>

datatype 'f BackingStore =
    InMemory "'f list"
  | FileBacked (store_path: string) (store_file_len: nat) (append_offset: nat)
  | Empty

definition as_slice :: "'f BackingStore \<Rightarrow> io_error + 'f list" where
  "as_slice s = (case s of InMemory v \<Rightarrow> Inr v | FileBacked p n off \<Rightarrow> Inl Panic | Empty \<Rightarrow> Inr [])"

definition store_len :: "'f BackingStore \<Rightarrow> nat" where
  "store_len s = (case s of InMemory v \<Rightarrow> length v | FileBacked p n off \<Rightarrow> n | Empty \<Rightarrow> 0)"

definition store_is_empty :: "'f BackingStore \<Rightarrow> bool" where
  "store_is_empty s \<longleftrightarrow> store_len s = 0"

definition validate_range :: "'f BackingStore \<Rightarrow> nat \<Rightarrow> nat \<Rightarrow> io_error + unit" where
  "validate_range s start fin =
     (if start > fin then Inl InvalidInput
      else if fin > store_len s then Inl InvalidInput
      else Inr ())"

definition byte_range :: "'f layout \<Rightarrow> nat \<Rightarrow> nat \<Rightarrow> nat \<times> nat" where
  "byte_range L start fin = (start * elem_size L, (fin - start) * elem_size L)"

definition read_file_backed_range ::
  "'f layout \<Rightarrow> fs \<Rightarrow> 'f BackingStore \<Rightarrow> string \<Rightarrow> nat \<Rightarrow> nat \<Rightarrow> io_error + 'f list" where
  "read_file_backed_range L fs s path start fin =
     (case validate_range s start fin of
        Inl e \<Rightarrow> Inl e
      | Inr _ \<Rightarrow>
          if fin - start = 0 then Inr []
          else let (byte_offset, byte_len) = byte_range L start fin
               in case file_read_exact_at fs path byte_offset byte_len of
                    Inl e \<Rightarrow> Inl e
                  | Inr bs \<Rightarrow> Inr (map (from_raw L) (chunks (elem_size L) bs)))"

definition read_consume ::
  "'f layout \<Rightarrow> fs \<Rightarrow> 'f BackingStore \<Rightarrow> nat \<Rightarrow> nat \<Rightarrow> io_error + 'f list" where
  "read_consume L fs s start fin =
     (case s of
        InMemory v \<Rightarrow> (case validate_range s start fin of
            Inl e \<Rightarrow> Inl e
          | Inr _ \<Rightarrow> Inr (take (fin - start) (drop start v)))
      | FileBacked p n off \<Rightarrow> read_file_backed_range L fs s p start fin
      | Empty \<Rightarrow> Inr [])"

definition store_from_vec :: "'f list \<Rightarrow> 'f BackingStore" where
  "store_from_vec v = (if v = [] then Empty else InMemory v)"

definition create_file_backed_sized ::
  "'f layout \<Rightarrow> fs \<Rightarrow> string \<Rightarrow> nat \<Rightarrow> fs \<times> 'f BackingStore" where
  "create_file_backed_sized L fs path capacity =
     (fs(path \<mapsto> file_set_len [] (capacity * elem_size L)), FileBacked path capacity 0)"

definition pre_extended_writer ::
  "'f layout \<Rightarrow> fs \<Rightarrow> 'f BackingStore \<Rightarrow> nat \<Rightarrow> io_error + fs \<times> 'f BackingStore \<times> (string \<times> nat) option" where
  "pre_extended_writer L fs s additional =
     (case s of
        FileBacked p n off \<Rightarrow>
          (case fs p of
             None \<Rightarrow> Inl OtherError
           | Some c \<Rightarrow>
               let new_len = n + additional; new_file_size = new_len * elem_size L
               in Inr (fs(p \<mapsto> file_set_len c new_file_size), FileBacked p new_len new_file_size, Some (p, new_len)))
      | _ \<Rightarrow> Inr (fs, s, None))"

text \<open>\<open>File::create\<close> truncates; \<open>std::fs::copy\<close> overwrites.\<close>

definition save_to_file :: "'f layout \<Rightarrow> fs \<Rightarrow> 'f BackingStore \<Rightarrow> string \<Rightarrow> io_error + fs" where
  "save_to_file L fs s path =
     (case s of
        InMemory v \<Rightarrow> Inr (fs(path \<mapsto> raw_vec L v))
      | FileBacked src n off \<Rightarrow>
          if src = path then Inr fs
          else (case fs src of None \<Rightarrow> Inl OtherError | Some c \<Rightarrow> Inr (fs(path \<mapsto> c)))
      | Empty \<Rightarrow> Inr fs)"

definition load_from_file :: "'f layout \<Rightarrow> fs \<Rightarrow> string \<Rightarrow> io_error + 'f BackingStore" where
  "load_from_file L fs path =
     (case fs path of
        None \<Rightarrow> Inl OtherError
      | Some c \<Rightarrow>
          if length c = 0 then Inr Empty
          else if length c mod elem_size L \<noteq> 0 then Inl InvalidData
          else Inr (FileBacked path (length c div elem_size L) (length c)))"

text \<open>A failed append panics.\<close>

definition store_extend ::
  "'f layout \<Rightarrow> fs \<Rightarrow> 'f BackingStore \<Rightarrow> 'f list \<Rightarrow> io_error + fs \<times> 'f BackingStore" where
  "store_extend L fs s additional =
     (if additional = [] then Inr (fs, s)
      else case s of
        InMemory v \<Rightarrow> Inr (fs, InMemory (v @ additional))
      | FileBacked p n off \<Rightarrow>
          let bs = raw_vec L additional
          in (case file_write_all_at fs p off bs of
                Inl e \<Rightarrow> Inl Panic
              | Inr fs' \<Rightarrow> Inr (fs', FileBacked p (n + length additional) (off + length bs)))
      | Empty \<Rightarrow> Inr (fs, InMemory additional))"

text \<open>\<open>Vec::resize\<close> fills a gap with the first new element.\<close>

definition write_vec :: "'f list \<Rightarrow> nat \<Rightarrow> 'f list \<Rightarrow> 'f list" where
  "write_vec v start d =
     (let v = v @ replicate (start + length d - length v) (hd d)
      in take start v @ d @ drop (start + length d) v)"

definition store_write_at ::
  "'f layout \<Rightarrow> fs \<Rightarrow> 'f BackingStore \<Rightarrow> nat \<Rightarrow> 'f list \<Rightarrow> io_error + fs \<times> 'f BackingStore" where
  "store_write_at L fs s start d =
     (if d = [] then Inr (fs, s)
      else case s of
        InMemory v \<Rightarrow> Inr (fs, InMemory (write_vec v start d))
      | FileBacked p n off \<Rightarrow>
          if start + length d > n then Inl InvalidInput
          else let byte_offset = fst (byte_range L start (start + length d)); bs = raw_vec L d
               in (case file_write_all_at fs p byte_offset bs of
                     Inl e \<Rightarrow> Inl e
                   | Inr fs' \<Rightarrow> Inr (fs', FileBacked p n (max off (byte_offset + length bs))))
      | Empty \<Rightarrow> if start \<noteq> 0 then Inl InvalidInput else Inr (fs, InMemory d))"

definition interleave :: "'f list \<Rightarrow> 'f list \<Rightarrow> 'f list" where
  "interleave left right = concat (map (\<lambda>(l, r). [l, r]) (zip left right))"

definition store_write_interleaved_at ::
  "'f layout \<Rightarrow> fs \<Rightarrow> 'f BackingStore \<Rightarrow> nat \<Rightarrow> 'f list \<Rightarrow> 'f list \<Rightarrow> io_error + fs \<times> 'f BackingStore" where
  "store_write_interleaved_at L fs s start_pair left right =
     (if length left \<noteq> length right then Inl InvalidInput
      else if left = [] then Inr (fs, s)
      else store_write_at L fs s (start_pair * 2) (interleave left right))"

text \<open>Punching a hole and overwriting with zeros have the same effect; errors are ignored.\<close>

definition store_consume :: "'f layout \<Rightarrow> fs \<Rightarrow> 'f BackingStore \<Rightarrow> nat \<Rightarrow> nat \<Rightarrow> fs" where
  "store_consume L fs s start fin =
     (case s of
        FileBacked p n off \<Rightarrow>
          if start > fin \<or> fin > n then fs
          else let (byte_offset, byte_len) = byte_range L start fin
               in if byte_len = 0 then fs
                  else (case file_write_all_at fs p byte_offset (replicate byte_len 0) of
                          Inl e \<Rightarrow> fs | Inr fs' \<Rightarrow> fs')
      | _ \<Rightarrow> fs)"

subsection \<open>The header file\<close>

record MetaData =
  md_seed1 :: bytes
  md_pos1 :: "128 word"
  md_seed2 :: bytes
  md_pos2 :: "128 word"
  md_total :: "64 word"
  md_party_id_byte :: "8 word"
  md_cursor :: "64 word"
  md_field_bytes :: "64 word"

definition SEED_SIZE :: nat where
  "SEED_SIZE = 32"

definition CURSOR_OFFSET :: nat where
  "CURSOR_OFFSET = SEED_SIZE + 16 + SEED_SIZE + 16 + 8 + 1"

definition meta_bytes :: "MetaData \<Rightarrow> bytes" where
  "meta_bytes m = md_seed1 m @ ring_write (md_pos1 m) @ md_seed2 m @ ring_write (md_pos2 m) @
     ring_write (md_total m) @ [md_party_id_byte m] @ ring_write (md_cursor m) @
     ring_write (ucast (md_field_bytes m) :: 32 word)"

definition write_meta :: "fs \<Rightarrow> string \<Rightarrow> MetaData \<Rightarrow> fs" where
  "write_meta fs path m = fs(path \<mapsto> meta_bytes m)"

definition read_exact :: "nat \<Rightarrow> bytes \<Rightarrow> io_error + bytes \<times> bytes" where
  "read_exact n f = (if length f < n then Inl UnexpectedEof else Inr (take n f, drop n f))"

definition read_meta :: "fs \<Rightarrow> string \<Rightarrow> io_error + MetaData" where
  "read_meta fs path =
     (case fs path of
        None \<Rightarrow> Inl OtherError
      | Some f \<Rightarrow>
          rbind (read_exact SEED_SIZE f) (\<lambda>(seed1, f).
          rbind (ring_from_reader f) (\<lambda>(pos1, f).
          rbind (read_exact SEED_SIZE f) (\<lambda>(seed2, f).
          rbind (ring_from_reader f) (\<lambda>(pos2, f).
          rbind (ring_from_reader f) (\<lambda>(total, f).
          rbind (read_exact 1 f) (\<lambda>(buf1, f).
          rbind (ring_from_reader f) (\<lambda>(cursor, f).
          rbind (ring_from_reader f) (\<lambda>(field_bytes :: 32 word, f).
          Inr \<lparr>md_seed1 = seed1, md_pos1 = pos1, md_seed2 = seed2, md_pos2 = pos2, md_total = total,
            md_party_id_byte = hd buf1, md_cursor = cursor, md_field_bytes = ucast field_bytes\<rparr>)))))))))"

definition update_cursor :: "fs \<Rightarrow> string \<Rightarrow> 64 word \<Rightarrow> io_error + fs" where
  "update_cursor fs path cursor = file_write_all_at fs path CURSOR_OFFSET (ring_write cursor)"

definition party_id_to_byte :: "PartyID \<Rightarrow> 8 word" where
  "party_id_to_byte i = (case i of ID0 \<Rightarrow> 0 | ID1 \<Rightarrow> 1 | ID2 \<Rightarrow> 2)"

definition byte_to_party_id :: "8 word \<Rightarrow> io_error + PartyID" where
  "byte_to_party_id b =
     (if b = 0 then Inr ID0 else if b = 1 then Inr ID1 else if b = 2 then Inr ID2 else Inl InvalidData)"

subsection \<open>Raw vectors\<close>

lemma lawful_layoutD:
  assumes "lawful_layout L"
  shows "0 < elem_size L" "length (to_raw L x) = elem_size L" "from_raw L (to_raw L x) = x"
    "\<exists>z. to_raw L z = replicate (elem_size L) 0"
  using assms by (auto simp: lawful_layout_def)

lemma raw_vec_simps [simp]:
  "raw_vec L [] = []" "raw_vec L (x # xs) = to_raw L x @ raw_vec L xs" "raw_vec L (xs @ ys) = raw_vec L xs @ raw_vec L ys"
  by (simp_all add: raw_vec_def)

lemma length_raw_vec: "lawful_layout L \<Longrightarrow> length (raw_vec L v) = length v * elem_size L"
  by (induction v) (simp_all add: lawful_layoutD(2))

lemma take_drop_raw_vec:
  assumes "lawful_layout L"
  shows "take (k * elem_size L) (raw_vec L v) = raw_vec L (take k v)"
    and "drop (k * elem_size L) (raw_vec L v) = raw_vec L (drop k v)"
proof -
  show "take (k * elem_size L) (raw_vec L v) = raw_vec L (take k v)"
  proof (induction v arbitrary: k)
    case (Cons x v)
    then show ?case by (cases k) (simp_all add: lawful_layoutD(2)[OF assms])
  qed simp
  show "drop (k * elem_size L) (raw_vec L v) = raw_vec L (drop k v)"
  proof (induction v arbitrary: k)
    case (Cons x v)
    then show ?case by (cases k) (simp_all add: lawful_layoutD(2)[OF assms])
  qed simp
qed

lemma chunks_raw_vec:
  assumes "lawful_layout L"
  shows "map (from_raw L) (chunks (elem_size L) (raw_vec L v)) = v"
proof (induction v)
  case (Cons x v)
  have "to_raw L x \<noteq> []" using lawful_layoutD(1,2)[OF assms] by (metis length_greater_0_conv)
  with Cons lawful_layoutD[OF assms] show ?case by (subst chunks.simps) simp
qed (subst chunks.simps, simp)

lemma raw_vec_zeros:
  assumes "lawful_layout L"
  obtains z where "raw_vec L z = replicate (n * elem_size L) 0" "length z = n"
proof -
  obtain x where "to_raw L x = replicate (elem_size L) 0" using lawful_layoutD(4)[OF assms] by blast
  then have "raw_vec L (replicate n x) = replicate (n * elem_size L) 0"
    by (induction n) (simp_all add: replicate_add)
  then show ?thesis by (rule that) (rule length_replicate)
qed

lemma overwrite_raw_vec:
  assumes "lawful_layout L" "k + length d \<le> length v"
  shows "overwrite (raw_vec L v) (k * elem_size L) (raw_vec L d) = raw_vec L (take k v @ d @ drop (k + length d) v)"
proof (cases "d = []")
  case False
  then have "raw_vec L d \<noteq> []" using length_raw_vec[OF assms(1), of d] lawful_layoutD(1)[OF assms(1)] by fastforce
  moreover have "k * elem_size L \<le> length (raw_vec L v)"
    using assms by (simp add: length_raw_vec)
  moreover have "k * elem_size L + length (raw_vec L d) = (k + length d) * elem_size L"
    using length_raw_vec[OF assms(1)] by (simp add: algebra_simps)
  ultimately show ?thesis
    by (simp add: overwrite_def take_drop_raw_vec[OF assms(1)])
qed (simp add: overwrite_def)

lemma overwrite_append: "overwrite c (length c) buf = c @ buf"
  by (simp add: overwrite_def)

subsection \<open>The store refines a list\<close>

text \<open>
  A store stands for the list \<open>store_elems\<close>.  A file-backed store is well formed when the file
  holds exactly its elements and the next append goes behind them.
\<close>

definition store_elems :: "'f layout \<Rightarrow> fs \<Rightarrow> 'f BackingStore \<Rightarrow> 'f list" where
  "store_elems L fs s =
     (case s of
        InMemory v \<Rightarrow> v
      | FileBacked p n off \<Rightarrow> (case fs p of None \<Rightarrow> [] | Some c \<Rightarrow> map (from_raw L) (chunks (elem_size L) c))
      | Empty \<Rightarrow> [])"

definition store_ok :: "'f layout \<Rightarrow> fs \<Rightarrow> 'f BackingStore \<Rightarrow> bool" where
  "store_ok L fs s \<longleftrightarrow> lawful_layout L \<and>
     (case s of
        FileBacked p n off \<Rightarrow> (\<exists>v. fs p = Some (raw_vec L v) \<and> n = length v \<and> off = n * elem_size L)
      | _ \<Rightarrow> True)"

lemma store_okE:
  assumes "store_ok L fs (FileBacked p n off)"
  obtains v where "fs p = Some (raw_vec L v)" "n = length v" "off = n * elem_size L"
    "store_elems L fs (FileBacked p n off) = v" "lawful_layout L"
  using assms that chunks_raw_vec[of L] by (auto simp: store_ok_def store_elems_def)

lemma store_len_elems: "store_ok L fs s \<Longrightarrow> store_len s = length (store_elems L fs s)"
  by (cases s) (auto simp: store_len_def store_elems_def elim!: store_okE)

lemma read_consume_slice:
  assumes "store_ok L fs s" "start \<le> fin" "fin \<le> length (store_elems L fs s)"
  shows "read_consume L fs s start fin = Inr (take (fin - start) (drop start (store_elems L fs s)))"
proof (cases s)
  case (FileBacked p n off)
  obtain v where v: "fs p = Some (raw_vec L v)" "n = length v" "off = n * elem_size L"
      "store_elems L fs s = v" and L: "lawful_layout L"
    using assms(1) unfolding FileBacked by (rule store_okE)
  have "fin * elem_size L \<le> length v * elem_size L" using assms(3) v by simp
  moreover have "start * elem_size L + (fin - start) * elem_size L = fin * elem_size L"
    using assms(2) by (simp only: add_mult_distrib[symmetric] le_add_diff_inverse)
  ultimately have "file_read_exact_at fs p (start * elem_size L) ((fin - start) * elem_size L) =
      Inr (raw_vec L (take (fin - start) (drop start v)))"
    by (simp add: file_read_exact_at_def v length_raw_vec[OF L] take_drop_raw_vec[OF L])
  with assms(2,3) v show ?thesis
    by (simp add: FileBacked read_consume_def read_file_backed_range_def validate_range_def store_len_def byte_range_def
        chunks_raw_vec[OF L])
qed (use assms in \<open>auto simp: read_consume_def validate_range_def store_len_def store_elems_def\<close>)

lemma store_extend_append:
  assumes "store_ok L fs s"
  shows "\<exists>fs' s'. store_extend L fs s xs = Inr (fs', s') \<and> store_ok L fs' s' \<and>
    store_elems L fs' s' = store_elems L fs s @ xs"
proof (cases s)
  case (FileBacked p n off)
  obtain v where v: "fs p = Some (raw_vec L v)" "n = length v" "off = n * elem_size L"
      "store_elems L fs s = v" and L: "lawful_layout L"
    using assms(1) unfolding FileBacked by (rule store_okE)
  have "overwrite (raw_vec L v) off (raw_vec L xs) = raw_vec L (v @ xs)"
    using v overwrite_append[of "raw_vec L v"] by (simp add: length_raw_vec[OF L])
  with v have "file_write_all_at fs p off (raw_vec L xs) = Inr (fs(p \<mapsto> raw_vec L (v @ xs)))"
    by (simp only: file_write_all_at_def option.case)
  with v show ?thesis
    by (auto simp: FileBacked store_extend_def store_ok_def L store_elems_def chunks_raw_vec[OF L] length_raw_vec[OF L]
        algebra_simps simp del: raw_vec_simps(3) intro!: exI[of _ "v @ xs"])
qed (use assms in \<open>auto simp: store_extend_def store_ok_def store_elems_def\<close>)

lemma store_write_at_update:
  assumes "store_ok L fs s" "start + length d \<le> length (store_elems L fs s)"
  shows "\<exists>fs' s'. store_write_at L fs s start d = Inr (fs', s') \<and> store_ok L fs' s' \<and>
    store_elems L fs' s' = take start (store_elems L fs s) @ d @ drop (start + length d) (store_elems L fs s)"
proof (cases s)
  case (FileBacked p n off)
  obtain v where v: "fs p = Some (raw_vec L v)" "n = length v" "off = n * elem_size L"
      "store_elems L fs s = v" and L: "lawful_layout L"
    using assms(1) unfolding FileBacked by (rule store_okE)
  let ?v = "take start v @ d @ drop (start + length d) v"
  have wr: "file_write_all_at fs p (start * elem_size L) (raw_vec L d) = Inr (fs(p \<mapsto> raw_vec L ?v))"
    using assms(2) v by (simp add: file_write_all_at_def overwrite_raw_vec[OF L] del: raw_vec_simps)
  have "start * elem_size L + length (raw_vec L d) = (start + length d) * elem_size L"
    by (simp add: length_raw_vec[OF L] algebra_simps)
  moreover have "(start + length d) * elem_size L \<le> length v * elem_size L" using assms(2) v by simp
  ultimately have "max off (start * elem_size L + length (raw_vec L d)) = off" using v by simp
  moreover have "length ?v = length v" using assms(2) v by simp
  ultimately show ?thesis
    using v assms(2) wr
    by (cases "d = []") (auto simp: FileBacked store_write_at_def store_ok_def L store_elems_def byte_range_def Let_def
        chunks_raw_vec[OF L] simp del: raw_vec_simps(3) intro!: exI[of _ ?v] split: if_splits)
qed (use assms in \<open>auto simp: store_write_at_def store_ok_def store_elems_def write_vec_def\<close>)

text \<open>Consuming keeps everything outside the range.\<close>

lemma store_consume_outside:
  assumes "store_ok L fs s" "start \<le> fin" "fin \<le> length (store_elems L fs s)"
  shows "store_ok L (store_consume L fs s start fin) s"
    and "length (store_elems L (store_consume L fs s start fin) s) = length (store_elems L fs s)"
    and "drop fin (store_elems L (store_consume L fs s start fin) s) = drop fin (store_elems L fs s)"
    and "take start (store_elems L (store_consume L fs s start fin) s) = take start (store_elems L fs s)"
proof -
  have "store_ok L (store_consume L fs s start fin) s \<and>
    (\<exists>z. length z = fin - start \<and> store_elems L (store_consume L fs s start fin) s =
      take start (store_elems L fs s) @ z @ drop fin (store_elems L fs s)) \<or> store_consume L fs s start fin = fs"
  proof (cases s)
    case (FileBacked p n off)
    obtain v where v: "fs p = Some (raw_vec L v)" "n = length v" "off = n * elem_size L"
        "store_elems L fs s = v" and L: "lawful_layout L"
    using assms(1) unfolding FileBacked by (rule store_okE)
    let ?zeros = "replicate ((fin - start) * elem_size L) 0"
    obtain z where z: "raw_vec L z = ?zeros" "length z = fin - start" using raw_vec_zeros[OF L] by blast
    have le: "start + length z \<le> length v" "start + (fin - start) = fin" using assms v z by auto
    have wr: "file_write_all_at fs p (start * elem_size L) ?zeros = Inr (fs(p \<mapsto> raw_vec L (take start v @ z @ drop fin v)))"
      using overwrite_raw_vec[OF L le(1)] z le by (simp add: file_write_all_at_def v del: raw_vec_simps)
    have "length (take start v @ z @ drop fin v) = length v" using le z by simp
    with wr v z assms(2,3) show ?thesis
      by (auto simp: FileBacked store_consume_def byte_range_def store_ok_def L store_elems_def chunks_raw_vec[OF L]
          simp del: raw_vec_simps(3) intro!: exI[of _ z] exI[of _ "take start v @ z @ drop fin v"])
  qed (simp_all add: store_consume_def)
  then show "store_ok L (store_consume L fs s start fin) s"
    "length (store_elems L (store_consume L fs s start fin) s) = length (store_elems L fs s)"
    "drop fin (store_elems L (store_consume L fs s start fin) s) = drop fin (store_elems L fs s)"
    "take start (store_elems L (store_consume L fs s start fin) s) = take start (store_elems L fs s)"
    using assms by auto
qed

lemma load_save_elems:
  assumes "store_ok L fs s" "save_to_file L fs s path = Inr fs'" "s \<noteq> Empty"
  shows "\<exists>s'. load_from_file L fs' path = Inr s' \<and> store_ok L fs' s' \<and> store_elems L fs' s' = store_elems L fs s"
proof -
  have L: "lawful_layout L" using assms(1) by (simp add: store_ok_def)
  have "fs' path = Some (raw_vec L (store_elems L fs s))"
    using assms by (cases s) (auto simp: save_to_file_def store_elems_def chunks_raw_vec[OF L] elim!: store_okE split: if_splits)
  moreover have "length (raw_vec L v) div elem_size L = length v" "length (raw_vec L v) mod elem_size L = 0" for v
    using lawful_layoutD(1)[OF L] by (simp_all add: length_raw_vec[OF L])
  moreover have "length (raw_vec L v) = 0 \<longleftrightarrow> v = []" for v
    using lawful_layoutD(1)[OF L] by (simp add: length_raw_vec[OF L])
  ultimately show ?thesis
    by (cases "store_elems L fs s = []")
      (auto simp: load_from_file_def store_ok_def L chunks_raw_vec[OF L] length_raw_vec[OF L] store_elems_def)
qed

subsection \<open>The interface of the pools\<close>

text \<open>
  What a pool relies on: ranges are read from a list, material can be appended behind it, and
  consuming a range does not touch what comes after it.
\<close>

locale element_store =
  fixes ok :: "'s \<Rightarrow> bool" and elems :: "'s \<Rightarrow> 'f list"
    and read :: "'s \<Rightarrow> nat \<Rightarrow> nat \<Rightarrow> io_error + 'f list"
    and append :: "'s \<Rightarrow> 'f list \<Rightarrow> io_error + 's"
    and consume :: "'s \<Rightarrow> nat \<Rightarrow> nat \<Rightarrow> 's"
  assumes read_slice: "ok s \<Longrightarrow> a \<le> b \<Longrightarrow> b \<le> length (elems s) \<Longrightarrow> read s a b = Inr (take (b - a) (drop a (elems s)))"
    and append_ok: "ok s \<Longrightarrow> \<exists>s'. append s xs = Inr s' \<and> ok s' \<and> elems s' = elems s @ xs"
    and consume_ok: "ok s \<Longrightarrow> a \<le> b \<Longrightarrow> b \<le> length (elems s) \<Longrightarrow>
      ok (consume s a b) \<and> length (elems (consume s a b)) = length (elems s) \<and>
      drop b (elems (consume s a b)) = drop b (elems s)"
begin

lemma read_behind_consumed:
  assumes "ok s" "a \<le> b" "b \<le> c" "c \<le> length (elems s)"
  shows "read (consume s a b) b c = read s b c"
proof -
  have "b \<le> length (elems s)" using assms(3,4) by simp
  note consumed = consume_ok[OF assms(1,2) this]
  with assms show ?thesis by (simp add: read_slice)
qed

lemma read_appended:
  assumes "ok s"
  shows "\<exists>s'. append s xs = Inr s' \<and> ok s' \<and>
    (\<forall>a b. a \<le> b \<and> b \<le> length (elems s) \<longrightarrow> read s' a b = read s a b) \<and>
    read s' (length (elems s)) (length (elems s) + length xs) = Inr xs"
proof -
  obtain s' where "append s xs = Inr s'" "ok s'" "elems s' = elems s @ xs" using append_ok[OF assms] by blast
  moreover from this have "read s' a b = read s a b" if "a \<le> b" "b \<le> length (elems s)" for a b
    using that assms by (simp add: read_slice)
  ultimately show ?thesis by (intro exI[of _ s']) (simp add: read_slice)
qed

end

interpretation bstore: element_store
  "\<lambda>(fs, s). store_ok L fs s" "\<lambda>(fs, s). store_elems L fs s" "\<lambda>(fs, s). read_consume L fs s"
  "\<lambda>(fs, s). store_extend L fs s" "\<lambda>(fs, s) a b. (store_consume L fs s a b, s)"
  for L :: "'f layout"
proof (unfold_locales, goal_cases)
  case (1 s a b)
  then show ?case by (cases s) (simp add: read_consume_slice)
next
  case (2 s xs)
  then show ?case using store_extend_append[of L "fst s" "snd s" xs] by (cases s) auto
next
  case (3 s a b)
  then show ?case using store_consume_outside[of L "fst s" "snd s" a b] by (cases s) auto
qed

subsection \<open>The header file round-trips\<close>

lemma read_exact_append: "length xs = n \<Longrightarrow> read_exact n (xs @ ys) = Inr (xs, ys)"
  by (simp add: read_exact_def)

lemma length_ring_write: "length (ring_write (w :: 'l::len word)) = ring_bytes TYPE('l)"
  by (simp add: ring_write_def)

lemma read_meta_bytes:
  assumes "length (md_seed1 m) = SEED_SIZE" "length (md_seed2 m) = SEED_SIZE" "unat (md_field_bytes m) < 2 ^ 32"
    and "fs path = Some (meta_bytes m)"
  shows "read_meta fs path = Inr m"
proof -
  have "ucast (ucast (md_field_bytes m) :: 32 word) = md_field_bytes m"
    using assms(3) by (simp add: word_unat_eq_iff unsigned_ucast_eq unsigned_take_bit_eq take_bit_nat_eq_self)
  moreover have "read_exact (Suc 0) (b # f) = Inr ([b], f)" for b f by (simp add: read_exact_def)
  ultimately show ?thesis
    unfolding read_meta_def assms(4) meta_bytes_def
    by (simp add: read_exact_append[OF assms(1)] read_exact_append[OF assms(2)] ring_read_write
        ring_read_write[of _ "[]", simplified])
qed

lemma overwrite_middle:
  "length a = n \<Longrightarrow> length b' = length b \<Longrightarrow> b' \<noteq> [] \<Longrightarrow> overwrite (a @ b @ c) n b' = a @ b' @ c"
  by (auto simp: overwrite_def)

lemma update_cursor_meta:
  assumes "length (md_seed1 m) = SEED_SIZE" "length (md_seed2 m) = SEED_SIZE" "fs path = Some (meta_bytes m)"
  shows "update_cursor fs path c = Inr (fs(path \<mapsto> meta_bytes (m\<lparr>md_cursor := c\<rparr>)))"
proof -
  let ?a = "md_seed1 m @ ring_write (md_pos1 m) @ md_seed2 m @ ring_write (md_pos2 m) @ ring_write (md_total m) @ [md_party_id_byte m]"
  let ?c = "ring_write (ucast (md_field_bytes m) :: 32 word)"
  have bytes: "ring_bytes TYPE(128) = 16" "ring_bytes TYPE(64) = 8" by (simp_all add: ring_bytes_def)
  have "length ?a = CURSOR_OFFSET" using assms(1,2) by (simp add: CURSOR_OFFSET_def length_ring_write bytes)
  moreover have "ring_write c \<noteq> []" using length_ring_write[of c] bytes by fastforce
  ultimately have "overwrite (?a @ ring_write (md_cursor m) @ ?c) CURSOR_OFFSET (ring_write c) = ?a @ ring_write c @ ?c"
    by (intro overwrite_middle) (simp_all add: length_ring_write)
  then show ?thesis using assms(3) by (simp add: update_cursor_def file_write_all_at_def meta_bytes_def)
qed

lemma party_id_byte_roundtrip: "byte_to_party_id (party_id_to_byte i) = Inr i"
  by (cases i) (simp_all add: byte_to_party_id_def party_id_to_byte_def)

subsection \<open>Properties\<close>

text \<open>
  (C32) The backing store refines a list of elements, in memory and on disk: in every well-formed
  store a range is read as the slice of the list, consuming a range leaves the elements behind
  it readable and the store well formed, and extending the store keeps the old elements and
  makes the new ones readable behind them.
\<close>

theorem backing_store_refines_list:
  fixes s :: "'f BackingStore"
  assumes "store_ok L fs s" "a \<le> b" "b \<le> c" "c \<le> length (store_elems L fs s)"
  shows "read_consume L fs s a b = Inr (take (b - a) (drop a (store_elems L fs s))) \<and>
    store_ok L (store_consume L fs s a b) s \<and>
    read_consume L (store_consume L fs s a b) s b c = read_consume L fs s b c \<and>
    (\<exists>fs' s'. store_extend L fs s xs = Inr (fs', s') \<and> store_ok L fs' s' \<and>
       read_consume L fs' s' a b = read_consume L fs s a b \<and>
       read_consume L fs' s' (length (store_elems L fs s)) (length (store_elems L fs s) + length xs) = Inr xs)"
proof -
  have bc: "b \<le> length (store_elems L fs s)" using assms(3,4) by simp
  obtain fs' s' where "store_extend L fs s xs = Inr (fs', s')" "store_ok L fs' s'"
    "\<And>a b. a \<le> b \<Longrightarrow> b \<le> length (store_elems L fs s) \<Longrightarrow> read_consume L fs' s' a b = read_consume L fs s a b"
    "read_consume L fs' s' (length (store_elems L fs s)) (length (store_elems L fs s) + length xs) = Inr xs"
    using bstore.read_appended[of L "(fs, s)" xs] assms(1) by auto
  then show ?thesis
    using read_consume_slice[OF assms(1,2) bc] store_consume_outside(1)[OF assms(1,2) bc]
      bstore.read_behind_consumed[of L "(fs, s)" a b c] assms bc by auto
qed

text \<open>
  (C33) The header file: what \<open>write_meta\<close> writes, \<open>read_meta\<close> reads back, and after
  \<open>update_cursor\<close> it reads the same header with the new cursor, for seeds of the right length and
  an element size of less than \<open>2 ^ 32\<close> bytes (the code stores it as \<open>u32\<close>).
\<close>

theorem meta_file_roundtrip:
  assumes "length (md_seed1 m) = SEED_SIZE" "length (md_seed2 m) = SEED_SIZE" "unat (md_field_bytes m) < 2 ^ 32"
  shows "read_meta (write_meta fs path m) path = Inr m \<and>
    (\<exists>fs'. update_cursor (write_meta fs path m) path c = Inr fs' \<and> read_meta fs' path = Inr (m\<lparr>md_cursor := c\<rparr>))"
  using read_meta_bytes[OF assms, of "write_meta fs path m" path] update_cursor_meta[OF assms(1,2), of "write_meta fs path m" path c]
    read_meta_bytes[of "m\<lparr>md_cursor := c\<rparr>"] assms
  by (simp add: write_meta_def)

definition ex_layout :: "(8 word \<times> 8 word) layout" where
  "ex_layout = \<lparr>elem_size = 2, to_raw = \<lambda>(x, y). [x, y], from_raw = \<lambda>bs. (bs ! 0, bs ! 1)\<rparr>"

definition ex_files :: fs where
  "ex_files = [''pool'' \<mapsto> [1, 2, 3, 4, 5, 6]]"

lemma ex_layout_lawful: "lawful_layout ex_layout"
  by (auto simp: lawful_layout_def ex_layout_def eval_nat_numeral)

lemma ex_store_ok: "store_ok ex_layout ex_files (FileBacked ''pool'' 3 6)"
  unfolding store_ok_def
  by (auto intro!: exI[of _ "[(1, 2), (3, 4), (5, 6)]"] simp: ex_layout_lawful ex_files_def raw_vec_def)
    (simp_all add: ex_layout_def)

theorem backing_store_refines_list_witness:
  "read_consume ex_layout ex_files (FileBacked ''pool'' 3 6) 0 1 = Inr [(1, 2)] \<and>
   read_consume ex_layout (store_consume ex_layout ex_files (FileBacked ''pool'' 3 6) 0 1) (FileBacked ''pool'' 3 6) 1 3
     = read_consume ex_layout ex_files (FileBacked ''pool'' 3 6) 1 3"
proof -
  have "store_elems ex_layout ex_files (FileBacked ''pool'' 3 6) = [(1, 2), (3, 4), (5, 6)]"
    by code_simp
  then show ?thesis using backing_store_refines_list[OF ex_store_ok, of 0 1 3 "[]"] by simp
qed

definition ex_meta :: MetaData where
  "ex_meta = \<lparr>md_seed1 = replicate 32 7, md_pos1 = 5, md_seed2 = replicate 32 9, md_pos2 = 0, md_total = 100,
     md_party_id_byte = 1, md_cursor = 0, md_field_bytes = 32\<rparr>"

theorem meta_file_roundtrip_witness:
  "read_meta (write_meta (\<lambda>_. None) ''meta'' ex_meta) ''meta'' = Inr ex_meta \<and>
   (\<exists>fs'. update_cursor (write_meta (\<lambda>_. None) ''meta'' ex_meta) ''meta'' 40 = Inr fs' \<and>
      read_meta fs' ''meta'' = Inr (ex_meta\<lparr>md_cursor := 40\<rparr>))"
  by (intro meta_file_roundtrip) (simp_all add: ex_meta_def SEED_SIZE_def)

end
