(* ===== verification/Pool_Common.thy ===== *)
theory Pool_Common
  imports Backing_Store
begin

text \<open>
  What the preprocessing pools share.  First, regenerating the output of a generator from a snapshot:
  \<open>Rep3Rand::snapshot\<close> (\<open>rngs.rs\<close>), \<open>seek_and_generate\<close> and \<open>parse_field\<close> (\<open>dabits.rs\<close>).
  The generator of \<open>rand_chacha\<close> can be positioned at any word of its output; these operations
  are the dictionary \<open>seek_ops\<close>, and \<open>lawful_seek\<close> is what its documentation promises: the output
  of a fresh generator is one stream of bytes, and positioning at word \<open>k\<close> continues the stream
  from byte \<open>4 * k\<close>.  A seed is an array of \<open>SEED_SIZE\<close> bytes.  Second, the cursor, the header file
  and the store of a pool: writing the cursor, saving and loading.
\<close>

record 'r seek_ops =
  get_seed :: "'r \<Rightarrow> bytes"
  get_word_pos :: "'r \<Rightarrow> 128 word"
  set_word_pos :: "128 word \<Rightarrow> 'r \<Rightarrow> 'r"

definition keystream :: "(bytes, 'r) rng_ops \<Rightarrow> bytes \<Rightarrow> nat \<Rightarrow> 8 word" where
  "keystream R s k = fst (fill_bytes R (Suc k) (from_seed R s)) ! k"

definition lawful_seek :: "(bytes, 'r) rng_ops \<Rightarrow> 'r seek_ops \<Rightarrow> bool" where
  "lawful_seek R S \<longleftrightarrow>
     (\<forall>r. length (fst (gen_seed R r)) = SEED_SIZE) \<and>
     (\<forall>s. get_seed S (from_seed R s) = s \<and> get_word_pos S (from_seed R s) = 0) \<and>
     (\<forall>s n. fst (fill_bytes R n (from_seed R s)) = map (keystream R s) [0..<n]) \<and>
     (\<forall>s k n. k < 2 ^ 64 \<longrightarrow> fst (fill_bytes R n (set_word_pos S (of_nat k) (from_seed R s))) =
        map (keystream R s) [4 * k..<4 * k + n])"

lemma lawful_seekD:
  assumes "lawful_seek R S"
  shows "length (fst (gen_seed R r)) = SEED_SIZE"
    "get_seed S (from_seed R s) = s" "get_word_pos S (from_seed R s) = 0"
    "fst (fill_bytes R n (from_seed R s)) = map (keystream R s) [0..<n]"
    "k < 2 ^ 64 \<Longrightarrow> fst (fill_bytes R n (set_word_pos S (of_nat k) (from_seed R s))) =
        map (keystream R s) [4 * k..<4 * k + n]"
  using assms by (auto simp: lawful_seek_def)

subsection \<open>Operations\<close>

definition snapshot :: "'r seek_ops \<Rightarrow> 'r Rep3Rand \<Rightarrow> bytes \<times> 128 word \<times> bytes \<times> 128 word" where
  "snapshot S s = (get_seed S (rand_rng1 s), get_word_pos S (rand_rng1 s),
     get_seed S (rand_rng2 s), get_word_pos S (rand_rng2 s))"

definition seek_and_generate ::
  "(bytes, 'r) rng_ops \<Rightarrow> 'r seek_ops \<Rightarrow> bytes \<Rightarrow> 128 word \<Rightarrow> nat \<Rightarrow> nat \<Rightarrow> bytes" where
  "seek_and_generate R S seed base_pos byte_offset needed =
     (let word_offset = of_nat byte_offset div 4;
          skip = byte_offset mod 4;
          rng = set_word_pos S (base_pos + word_offset) (from_seed R seed);
          buf = fst (fill_bytes R (needed + skip) rng)
      in if skip > 0 then drop skip buf else buf)"

text \<open>A slice that is out of range panics.\<close>

definition parse_field :: "bytes \<Rightarrow> nat \<Rightarrow> io_error + 'f::comm_ring_1" where
  "parse_field bs start =
     (if length bs < start + 16 then Inl Panic
      else let lo = bytes_le (take 8 (drop start bs)); hi = bytes_le (take 8 (drop (start + 8) bs))
           in Inr (of_nat (push_bit 64 hi OR lo)))"

definition index_list :: "'a list \<Rightarrow> nat \<Rightarrow> io_error + 'a" where
  "index_list xs i = (if i < length xs then Inr (xs ! i) else Inl Panic)"

subsection \<open>Seeking reads the stream\<close>

lemma of_nat_div4:
  assumes "n < 2 ^ 66" shows "(of_nat n :: 128 word) div 4 = of_nat (n div 4)"
proof -
  have "n mod 2 ^ 128 = n" using assms by (intro mod_less) simp
  then have "unat (of_nat n :: 128 word) = n" by (simp add: unat_of_nat)
  then show ?thesis by (simp add: word_unat_eq_iff unat_div_distrib unat_of_nat)
qed

lemma seek_and_generate_stream:
  assumes "lawful_seek R S" "byte_offset < 2 ^ 66"
  shows "seek_and_generate R S s 0 byte_offset n = map (keystream R s) [byte_offset..<byte_offset + n]"
proof -
  have "byte_offset div 4 < 2 ^ 64" using assms(2) by simp
  from lawful_seekD(5)[OF assms(1) this, of "n + byte_offset mod 4" s]
  have "drop (byte_offset mod 4) (fst (fill_bytes R (n + byte_offset mod 4)
      (set_word_pos S (of_nat (byte_offset div 4)) (from_seed R s)))) = map (keystream R s) [byte_offset..<byte_offset + n]"
    by (simp add: drop_map add.commute add.left_commute)
  then show ?thesis
    using assms(2) by (auto simp: seek_and_generate_def Let_def of_nat_div4)
qed

definition kfield :: "(nat \<Rightarrow> 8 word) \<Rightarrow> nat \<Rightarrow> 'f::comm_ring_1" where
  "kfield ks p = of_nat (push_bit 64 (bytes_le (map ks [p + 8..<p + 16])) OR bytes_le (map ks [p..<p + 8]))"

lemma parse_field_stream:
  assumes "start + 16 \<le> n"
  shows "parse_field (map ks [off..<off + n]) start = Inr (kfield ks (off + start))"
proof -
  have "drop start (map ks [off..<off + n]) = map ks [off + start..<off + n]" for start
    by (simp add: drop_map)
  moreover have "take 8 (map ks [p..<off + n]) = map ks [p..<p + 8]" if "p + 8 \<le> off + n" for p
    using that by (simp add: take_map take_upt)
  ultimately show ?thesis using assms by (simp add: parse_field_def kfield_def Let_def add.assoc)
qed

text \<open>Forking gives every pair of parties a common fresh stream.\<close>

lemma rep3_rand_fork_draw2: "rep3_rand_fork R = draw2 (rep3_rand_new R) (gen_seed R)"
  by (simp add: fun_eq_iff rep3_rand_fork_def random_seeds_def draw2_def split_beta Let_def)

lemma mpc_rand_fork:
  assumes "\<And>s. (\<And>i. \<exists>r. s i = fst (gen_seed R r)) \<Longrightarrow> Q (\<lambda>i. rep3_rand_new R (s i) (s (prev_id i)))"
  shows "mpc (\<lambda>i. with_rand (rep3_rand_fork R)) Q"
  unfolding rep3_rand_fork_draw2 by (rule mpc_draw2) (rule assms)

lemma snapshot_new:
  "lawful_seek R S \<Longrightarrow> snapshot S (rep3_rand_new R s1 s2) = (s1, 0, s2, 0)"
  by (simp add: snapshot_def rep3_rand_new_def lawful_seekD)

lemma qbind_lift_Inr [simp]: "qbind (lift_result (Inr x)) k = k x"
  by (simp add: fun_eq_iff qbind_def lift_result_def)

lemma qbind_assoc: "qbind (qbind m f) g = qbind m (\<lambda>x. qbind (f x) g)"
proof
  have "(\<lambda>x. pbind (case x of (r, s') \<Rightarrow> case r of Inl e \<Rightarrow> Done (Inl e, s') | Inr x \<Rightarrow> f x s')
      (\<lambda>(r, s'). case r of Inl e \<Rightarrow> Done (Inl e, s') | Inr x \<Rightarrow> g x s')) =
    (\<lambda>(r, s'). case r of Inl e \<Rightarrow> Done (Inl e, s') | Inr x \<Rightarrow> qbind (f x) g s')"
    by (auto simp: fun_eq_iff qbind_def split: sum.splits)
  then show "qbind (qbind m f) g s = qbind m (\<lambda>x. qbind (f x) g) s" for s
    by (simp add: qbind_def pbind_assoc)
qed

subsection \<open>Cursor and store of a pool\<close>

text \<open>
  The pools keep a cursor in their header file, if they have one, and a store of received
  elements.  Writing the cursor ignores errors.  As long as header and data are different files,
  advancing the cursor and consuming a range keeps the elements behind the range.
\<close>

definition persist_cursor :: "fs \<Rightarrow> string option \<Rightarrow> nat \<Rightarrow> fs" where
  "persist_cursor fs meta_path cursor =
     (case meta_path of
        None \<Rightarrow> fs
      | Some path \<Rightarrow> (case update_cursor fs path (of_nat cursor) of Inl e \<Rightarrow> fs | Inr fs' \<Rightarrow> fs'))"

definition files_apart :: "string option \<Rightarrow> 'f BackingStore \<Rightarrow> bool" where
  "files_apart meta_path s \<longleftrightarrow> (case s of FileBacked p n off \<Rightarrow> meta_path \<noteq> Some p | _ \<Rightarrow> True)"

lemma store_other_file:
  assumes "\<And>p n off. s = FileBacked p n off \<Longrightarrow> fs' p = fs p"
  shows "store_ok L fs' s = store_ok L fs s" "store_elems L fs' s = store_elems L fs s"
  using assms by (cases s; simp add: store_ok_def store_elems_def)+

lemma persist_cursor_other: "meta_path \<noteq> Some p \<Longrightarrow> persist_cursor fs meta_path c p = fs p"
  by (auto simp: persist_cursor_def update_cursor_def file_write_all_at_def split: option.splits sum.splits)

lemma persist_consume_keeps:
  fixes L fs st meta_path c
  defines "fs' a b \<equiv> store_consume L (persist_cursor fs meta_path c) st a b"
  assumes "store_ok L fs st" "files_apart meta_path st" "a \<le> b" "b \<le> length (store_elems L fs st)"
  shows "store_ok L (fs' a b) st" "length (store_elems L (fs' a b) st) = length (store_elems L fs st)"
    "b \<le> k \<Longrightarrow> k < length (store_elems L fs st) \<Longrightarrow> store_elems L (fs' a b) st ! k = store_elems L fs st ! k"
proof -
  let ?fs = "persist_cursor fs meta_path c"
  have other: "?fs p = fs p" if "st = FileBacked p m off" for p m off
    using assms(3) that by (intro persist_cursor_other) (simp add: files_apart_def)
  have same: "store_ok L ?fs st = store_ok L fs st" "store_elems L ?fs st = store_elems L fs st"
    by (rule store_other_file(1), rule other, assumption, rule store_other_file(2), rule other, assumption)
  note consumed = store_consume_outside[of L ?fs st a b, unfolded same, OF assms(2,4,5)]
  show "store_ok L (fs' a b) st" "length (store_elems L (fs' a b) st) = length (store_elems L fs st)"
    using consumed(1,2) by (simp_all add: fs'_def)
  show "store_elems L (fs' a b) st ! k = store_elems L fs st ! k" if "b \<le> k" "k < length (store_elems L fs st)"
    using arg_cong[OF consumed(3), of "\<lambda>xs. xs ! (k - b)"] that consumed(2) assms(5) by (simp add: fs'_def)
qed

lemma save_to_file_total: "store_ok L fs s \<Longrightarrow> \<exists>fs'. save_to_file L fs s path = Inr fs'"
  by (cases s) (auto simp: save_to_file_def store_ok_def)

text \<open>A pool saves its data file, if it stores anything, and then its header; loading reads the
  header and opens the data file of a party that has one.\<close>

definition save_pool ::
  "'f layout \<Rightarrow> fs \<Rightarrow> 'f BackingStore \<Rightarrow> string \<Rightarrow> string \<Rightarrow> MetaData \<Rightarrow> io_error + fs" where
  "save_pool L fs stored data_path meta_path m =
     rbind (if store_is_empty stored then Inr fs else save_to_file L fs stored data_path)
       (\<lambda>fs. Inr (write_meta fs meta_path m))"

definition load_pool ::
  "'f layout \<Rightarrow> fs \<Rightarrow> string \<Rightarrow> string \<Rightarrow> PartyID \<Rightarrow> (PartyID \<Rightarrow> bool) \<Rightarrow> io_error + MetaData \<times> 'f BackingStore" where
  "load_pool L fs data_path meta_path i stores =
     rbind (read_meta fs meta_path) (\<lambda>meta.
       if md_party_id_byte meta \<noteq> party_id_to_byte i then Inl Panic
       else rbind (if md_total meta > 0 \<and> stores i then load_from_file L fs data_path else Inr Empty)
         (\<lambda>stored. Inr (meta, stored)))"

lemma pool_reload:
  assumes seeds: "length (md_seed1 m) = SEED_SIZE" "length (md_seed2 m) = SEED_SIZE" "unat (md_field_bytes m) < 2 ^ 32"
    and party: "md_party_id_byte m = party_id_to_byte i" and paths: "data_path \<noteq> meta_path" and L: "lawful_layout L"
    and stored: "stores i \<Longrightarrow> store_ok L fs st \<and> (store_elems L fs st = [] \<longleftrightarrow> md_total m = 0)"
      "\<not> stores i \<Longrightarrow> store_is_empty st"
  shows "\<exists>fs' st'. save_pool L fs st data_path meta_path m = Inr fs' \<and>
    load_pool L fs' data_path meta_path i stores = Inr (m, st') \<and> files_apart (Some meta_path) st' \<and>
    (if stores i then store_ok L fs' st' \<and> store_elems L fs' st' = store_elems L fs st else st' = Empty)"
proof -
  have load: "load_pool L fs' data_path meta_path i stores = Inr (m, st')"
    if "fs' meta_path = Some (meta_bytes m)"
      "(if md_total m > 0 \<and> stores i then load_from_file L fs' data_path else Inr Empty) = Inr st'" for fs' st'
    using that(2) read_meta_bytes[OF seeds, of fs' meta_path, OF that(1)] party by (simp add: load_pool_def)
  show ?thesis
  proof (cases "md_total m > 0 \<and> stores i")
    case True
    then have ok: "store_ok L fs st" "store_elems L fs st \<noteq> []" using stored by auto
    then have ne: "\<not> store_is_empty st" "st \<noteq> Empty"
      using store_len_elems[OF ok(1)] by (auto simp: store_is_empty_def store_elems_def)
    obtain fs1 where fs1: "save_to_file L fs st data_path = Inr fs1" using save_to_file_total[OF ok(1)] by blast
    let ?fs = "write_meta fs1 meta_path m"
    obtain st' where st': "load_from_file L fs1 data_path = Inr st'" "store_ok L fs1 st'" "store_elems L fs1 st' = store_elems L fs st"
      using load_save_elems[OF ok(1) fs1 ne(2)] by blast
    have datap: "p = data_path" if "st' = FileBacked p n off" for p n off
      using st'(1) that by (auto simp: load_from_file_def split: option.splits if_splits)
    have "load_from_file L ?fs data_path = Inr st'" using st'(1) paths by (simp add: load_from_file_def write_meta_def)
    moreover have "store_ok L ?fs st' = store_ok L fs1 st'" "store_elems L ?fs st' = store_elems L fs1 st'"
      by (rule store_other_file, drule datap, simp add: write_meta_def paths)+
    ultimately show ?thesis using True fs1 ne st' load[of ?fs st'] datap paths
      by (intro exI[of _ ?fs] exI[of _ st'])
        (auto simp: save_pool_def write_meta_def files_apart_def split: BackingStore.splits)
  next
    case False
    then have "store_is_empty st"
      using stored store_len_elems[of L fs st] by (cases "stores i") (auto simp: store_is_empty_def word_neq_0_conv)
    moreover let ?fs = "write_meta fs meta_path m"
    have "store_ok L ?fs Empty" "store_elems L ?fs Empty = []" using L by (simp_all add: store_ok_def store_elems_def)
    ultimately show ?thesis using False stored(1) load[of ?fs Empty]
      by (intro exI[of _ ?fs] exI[of _ Empty]) (auto simp: save_pool_def write_meta_def files_apart_def word_neq_0_conv)
  qed
qed

lemma item_fits: "k < n \<Longrightarrow> j \<le> w \<Longrightarrow> k * w + j \<le> n * (w :: nat)"
  using mult_le_mono1[of "Suc k" n w] by simp

lemma map_upt_shift: "map f [c..<c + n] = map (\<lambda>i. f (c + i)) [0..<n]"
  by (rule nth_equalityI) simp_all

end
