(* ===== verification/Dabits.thy ===== *)
theory Dabits
  imports Pool_Common
begin

text \<open>
  The daBit pool of \<open>preprocessing/dabits.rs\<close>.  A daBit is a random bit \<open>\<gamma>\<close> known to party 0, a
  random bit \<open>\<theta>\<close> known to parties 1 and 2, and a sharing of \<open>(-1)^\<theta> * \<gamma>\<close> in the field.  A pool
  (\<open>LazyDaBits\<close>) keeps the seeds of the streams the tuples come from and only stores the field
  elements that were received from another party; \<open>take_batch\<close> regenerates the rest.  Offsets and
  counters (\<open>usize\<close>) are natural numbers; in the header file they are 64-bit words.
\<close>

record 'f DaBitBatch =
  gammas :: "bool list"
  thetas :: "bool list"
  v_shares :: "'f share list"

record 'f LazyDaBits =
  da_seed1 :: bytes
  da_pos1 :: "128 word"
  da_seed2 :: bytes
  da_pos2 :: "128 word"
  da_field_bytes :: nat
  da_party_id :: PartyID
  da_total :: nat
  da_cursor :: nat
  da_stored :: "'f BackingStore"
  da_meta_path :: "string option"

definition field_bytes_of :: "('f, 'r) field_ops \<Rightarrow> nat" where
  "field_bytes_of F = (modulus_bit_size F + 7) div 8"

definition dabits_empty :: "('f, 'r) field_ops \<Rightarrow> PartyID \<Rightarrow> 'f LazyDaBits" where
  "dabits_empty F i = \<lparr>da_seed1 = replicate SEED_SIZE 0, da_pos1 = 0, da_seed2 = replicate SEED_SIZE 0, da_pos2 = 0,
     da_field_bytes = field_bytes_of F, da_party_id = i, da_total = 0, da_cursor = 0, da_stored = Empty,
     da_meta_path = None\<rparr>"

definition dabits_new_with_store ::
  "('f, 'r) field_ops \<Rightarrow> bytes \<Rightarrow> 128 word \<Rightarrow> bytes \<Rightarrow> 128 word \<Rightarrow> nat \<Rightarrow> 'f BackingStore \<Rightarrow> PartyID \<Rightarrow> 'f LazyDaBits" where
  "dabits_new_with_store F seed1 pos1 seed2 pos2 num stored i =
     \<lparr>da_seed1 = seed1, da_pos1 = pos1, da_seed2 = seed2, da_pos2 = pos2, da_field_bytes = field_bytes_of F,
      da_party_id = i, da_total = num, da_cursor = 0, da_stored = stored, da_meta_path = None\<rparr>"

definition dabits_new ::
  "('f, 'r) field_ops \<Rightarrow> bytes \<Rightarrow> 128 word \<Rightarrow> bytes \<Rightarrow> 128 word \<Rightarrow> nat \<Rightarrow> 'f list \<Rightarrow> PartyID \<Rightarrow> 'f LazyDaBits" where
  "dabits_new F seed1 pos1 seed2 pos2 num stored i =
     dabits_new_with_store F seed1 pos1 seed2 pos2 num (store_from_vec stored) i"

definition dabits_remaining :: "'f LazyDaBits \<Rightarrow> nat" where
  "dabits_remaining d = da_total d - da_cursor d"

definition dabits_persist_cursor :: "fs \<Rightarrow> 'f LazyDaBits \<Rightarrow> fs" where
  "dabits_persist_cursor fs d = persist_cursor fs (da_meta_path d) (da_cursor d)"

definition byte_bit :: "8 word \<Rightarrow> bool" where
  "byte_bit b \<longleftrightarrow> b AND 1 \<noteq> 0"

definition neg1_pow :: "bool \<Rightarrow> 'f::comm_ring_1" where
  "neg1_pow b = (if b then - 1 else 1)"

subsection \<open>Taking a batch\<close>

text \<open>A failing read of the store panics.\<close>

definition read_or_panic ::
  "'f layout \<Rightarrow> fs \<Rightarrow> 'f BackingStore \<Rightarrow> nat \<Rightarrow> nat \<Rightarrow> io_error + 'f list" where
  "read_or_panic L fs s a b = (case read_consume L fs s a b of Inl e \<Rightarrow> Inl Panic | Inr v \<Rightarrow> Inr v)"

definition advance_cursor ::
  "'f layout \<Rightarrow> fs \<Rightarrow> 'f LazyDaBits \<Rightarrow> nat \<Rightarrow> nat \<Rightarrow> nat \<Rightarrow> 'f LazyDaBits \<times> fs" where
  "advance_cursor L fs d n start fin =
     (let d = d\<lparr>da_cursor := da_cursor d + n\<rparr>;
          fs = dabits_persist_cursor fs d
      in (d, store_consume L fs (da_stored d) start fin))"

definition take_batch_p2 ::
  "(bytes, 'r) rng_ops \<Rightarrow> 'r seek_ops \<Rightarrow> 'f::comm_ring_1 layout \<Rightarrow> fs \<Rightarrow> 'f LazyDaBits \<Rightarrow> nat \<Rightarrow>
   io_error + 'f DaBitBatch \<times> 'f LazyDaBits \<times> fs" where
  "take_batch_p2 R S L fs d n =
     (let theta_bytes = seek_and_generate R S (da_seed2 d) (da_pos2 d) (da_cursor d) n;
          thetas = map byte_bit theta_bytes;
          store_base = da_cursor d * 2
      in rbind (read_or_panic L fs (da_stored d) store_base (store_base + 2 * n)) (\<lambda>stored_slice.
         rbind (rmap (\<lambda>i. rbind (index_list stored_slice (2 * i)) (\<lambda>s20.
                  rbind (index_list stored_slice (2 * i + 1)) (\<lambda>s12. Inr (Share s20 s12)))) [0..<n]) (\<lambda>v.
         let (d, fs) = advance_cursor L fs d n store_base (store_base + 2 * n)
         in Inr (\<lparr>gammas = replicate n False, thetas = thetas, v_shares = v\<rparr>, d, fs))))"

definition take_batch_p0 ::
  "(bytes, 'r) rng_ops \<Rightarrow> 'r seek_ops \<Rightarrow> 'f::comm_ring_1 layout \<Rightarrow> fs \<Rightarrow> 'f LazyDaBits \<Rightarrow> nat \<Rightarrow>
   io_error + 'f DaBitBatch \<times> 'f LazyDaBits \<times> fs" where
  "take_batch_p0 R S L fs d n =
     (let fb = da_field_bytes d;
          da_stride = 1 + 2 * fb;
          s1_buf = seek_and_generate R S (da_seed1 d) (da_pos1 d) (da_cursor d * da_stride) (n * da_stride);
          g2_bytes = seek_and_generate R S (da_seed2 d) (da_pos2 d) (da_cursor d) n;
          gammas = map (\<lambda>i. byte_bit (s1_buf ! (i * da_stride) XOR g2_bytes ! i)) [0..<n]
      in rbind (read_or_panic L fs (da_stored d) (da_cursor d) (da_cursor d + n)) (\<lambda>stored_slice.
         rbind (rmap (\<lambda>i. rbind (parse_field s1_buf (i * da_stride + 1 + fb)) (\<lambda>r1.
                  rbind (index_list stored_slice i) (\<lambda>s20. Inr (Share r1 s20)))) [0..<n]) (\<lambda>v.
         let (d, fs) = advance_cursor L fs d n (da_cursor d) (da_cursor d + n)
         in Inr (\<lparr>gammas = gammas, thetas = replicate n False, v_shares = v\<rparr>, d, fs))))"

text \<open>Party 1 stores nothing, and does not write its cursor here.\<close>

definition take_batch_p1 ::
  "(bytes, 'r) rng_ops \<Rightarrow> 'r seek_ops \<Rightarrow> fs \<Rightarrow> 'f::comm_ring_1 LazyDaBits \<Rightarrow> nat \<Rightarrow>
   io_error + 'f DaBitBatch \<times> 'f LazyDaBits \<times> fs" where
  "take_batch_p1 R S fs d n =
     (let fb = da_field_bytes d;
          da_stride = 1 + 2 * fb;
          theta_bytes = seek_and_generate R S (da_seed1 d) (da_pos1 d) (da_cursor d) n;
          thetas = map byte_bit theta_bytes;
          s2_buf = seek_and_generate R S (da_seed2 d) (da_pos2 d) (da_cursor d * da_stride) (n * da_stride)
      in rbind (rmap (\<lambda>i. rbind (parse_field s2_buf (i * da_stride + 1)) (\<lambda>alpha1.
                  rbind (parse_field s2_buf (i * da_stride + 1 + fb)) (\<lambda>r1.
                  let v1 = neg1_pow (thetas ! i) * alpha1 in Inr (Share (v1 - r1) r1)))) [0..<n]) (\<lambda>v.
         Inr (\<lparr>gammas = replicate n False, thetas = thetas, v_shares = v\<rparr>, d\<lparr>da_cursor := da_cursor d + n\<rparr>, fs)))"

definition dabits_take_batch ::
  "(bytes, 'r) rng_ops \<Rightarrow> 'r seek_ops \<Rightarrow> 'f::comm_ring_1 layout \<Rightarrow> fs \<Rightarrow> 'f LazyDaBits \<Rightarrow> nat \<Rightarrow>
   io_error + 'f DaBitBatch \<times> 'f LazyDaBits \<times> fs" where
  "dabits_take_batch R S L fs d n =
     (if da_cursor d + n > da_total d then Inl OtherError
      else case da_party_id d of
        ID0 \<Rightarrow> take_batch_p0 R S L fs d n
      | ID1 \<Rightarrow> take_batch_p1 R S fs d n
      | ID2 \<Rightarrow> take_batch_p2 R S L fs d n)"

subsection \<open>Persistence and extension\<close>

definition dabits_meta :: "'f LazyDaBits \<Rightarrow> MetaData" where
  "dabits_meta d = \<lparr>md_seed1 = da_seed1 d, md_pos1 = da_pos1 d, md_seed2 = da_seed2 d, md_pos2 = da_pos2 d,
     md_total = of_nat (da_total d), md_party_id_byte = party_id_to_byte (da_party_id d),
     md_cursor = of_nat (da_cursor d), md_field_bytes = of_nat (da_field_bytes d)\<rparr>"

definition dabits_save ::
  "'f layout \<Rightarrow> fs \<Rightarrow> 'f LazyDaBits \<Rightarrow> string \<Rightarrow> io_error + 'f LazyDaBits \<times> fs" where
  "dabits_save L fs d dir =
     (let meta_path = dir @ ''/dabits.meta''
      in rbind (save_pool L fs (da_stored d) (dir @ ''/dabits.stored'') meta_path (dabits_meta d))
           (\<lambda>fs. Inr (d\<lparr>da_meta_path := Some meta_path\<rparr>, fs)))"

definition dabits_load :: "'f layout \<Rightarrow> fs \<Rightarrow> string \<Rightarrow> PartyID \<Rightarrow> io_error + 'f LazyDaBits" where
  "dabits_load L fs dir i =
     (let meta_path = dir @ ''/dabits.meta''
      in rbind (load_pool L fs (dir @ ''/dabits.stored'') meta_path i (\<lambda>i. i \<noteq> ID1)) (\<lambda>(meta, stored).
         Inr \<lparr>da_seed1 = md_seed1 meta, da_pos1 = md_pos1 meta, da_seed2 = md_seed2 meta, da_pos2 = md_pos2 meta,
              da_field_bytes = unat (md_field_bytes meta), da_party_id = i, da_total = unat (md_total meta),
              da_cursor = unat (md_cursor meta), da_stored = stored, da_meta_path = Some meta_path\<rparr>))"

text \<open>The error of extending the store panics.\<close>

definition dabits_apply_extension ::
  "'f layout \<Rightarrow> fs \<Rightarrow> 'f LazyDaBits \<Rightarrow> nat \<Rightarrow> 'f list \<Rightarrow> io_error + 'f LazyDaBits \<times> fs" where
  "dabits_apply_extension L fs d deficit stored_ext =
     (if deficit = 0 then Inr (d, fs)
      else rbind (if stored_ext \<noteq> [] then store_extend L fs (da_stored d) stored_ext else Inr (fs, da_stored d))
        (\<lambda>(fs, stored). Inr (d\<lparr>da_stored := stored, da_total := da_total d + deficit\<rparr>, fs)))"

definition dabits_drop :: "fs \<Rightarrow> 'f LazyDaBits \<Rightarrow> fs" where
  "dabits_drop fs d = dabits_persist_cursor fs d"

subsection \<open>Generating a pool\<close>

definition dabits_p0 ::
  "('f::comm_ring_1, 'r, bytes, 'w) env \<Rightarrow> nat \<Rightarrow> 'r Rep3Rand \<Rightarrow> ('w, 'r, 'f list) prog" where
  "dabits_p0 E num eda_rand =
     (let fb = field_bytes_of (fld E);
          da_stride = 1 + 2 * fb;
          stream1 = fst (fill_bytes (rngop E) (num * da_stride) (rand_rng1 eda_rand));
          g2_bytes = fst (fill_bytes (rngop E) num (rand_rng2 eda_rand))
      in qbind (lift_result (rmap (\<lambda>i. let base = i * da_stride; gamma_bit = byte_bit (stream1 ! base XOR g2_bytes ! i)
                  in rbind (parse_field stream1 (base + 1)) (\<lambda>alpha1. Inr (of_bool gamma_bit - alpha1))) [0..<num])) (\<lambda>alpha2.
         qbind (send_many (fcodec E) ID2 alpha2) (\<lambda>_. recv_many (fcodec E) ID2)))"

definition dabits_p1 ::
  "('f::comm_ring_1, 'r, bytes, 'w) env \<Rightarrow> nat \<Rightarrow> 'r Rep3Rand \<Rightarrow> ('w, 'r, 'f list) prog" where
  "dabits_p1 E num eda_rand =
     (let fb = field_bytes_of (fld E);
          da_stride = 1 + 2 * fb;
          stream2 = fst (fill_bytes (rngop E) (num * da_stride) (rand_rng2 eda_rand));
          theta_bytes = fst (fill_bytes (rngop E) num (rand_rng1 eda_rand))
      in qbind (lift_result (rmap (\<lambda>i. let base = i * da_stride; theta = byte_bit (theta_bytes ! i)
                  in rbind (parse_field stream2 (base + 1)) (\<lambda>alpha1.
                     rbind (parse_field stream2 (base + 1 + fb)) (\<lambda>r1. Inr (neg1_pow theta * alpha1 - r1)))) [0..<num])) (\<lambda>s12.
         qbind (send_many (fcodec E) ID2 s12) (\<lambda>_. qret [])))"

definition dabits_p2 ::
  "('f::comm_ring_1, 'r, bytes, 'w) env \<Rightarrow> nat \<Rightarrow> 'r Rep3Rand \<Rightarrow> ('w, 'r, 'f list) prog" where
  "dabits_p2 E num eda_rand =
     (let theta_bytes = fst (fill_bytes (rngop E) num (rand_rng2 eda_rand))
      in qbind (recv_many (fcodec E) ID0) (\<lambda>alpha2.
         qbind (recv_many (fcodec E) ID1) (\<lambda>s12_recv.
         qbind (lift_result (rmap (\<lambda>i. let theta = byte_bit (theta_bytes ! i)
                  in rbind (index_list alpha2 i) (\<lambda>a. Inr (neg1_pow theta * a))) [0..<num])) (\<lambda>s20.
         qbind (send_many (fcodec E) ID0 s20) (\<lambda>_.
         lift_result (rbind (rmap (\<lambda>i. rbind (index_list s20 i) (\<lambda>x.
                  rbind (index_list s12_recv i) (\<lambda>y. Inr [x, y]))) [0..<num]) (\<lambda>ps. Inr (concat ps))))))))"

definition random_dabits_lazy ::
  "('f::comm_ring_1, 'r, bytes, 'w) env \<Rightarrow> 'r seek_ops \<Rightarrow> nat \<Rightarrow> ('w, 'r, 'f LazyDaBits) prog" where
  "random_dabits_lazy E S num =
     qbind get_id (\<lambda>i.
       if num = 0 then qret (dabits_empty (fld E) i)
       else qbind (with_rand (rep3_rand_fork (rngop E))) (\<lambda>eda_rand.
         let (seed1, pos1, seed2, pos2) = snapshot S eda_rand
         in qbind (case i of ID0 \<Rightarrow> dabits_p0 E num eda_rand | ID1 \<Rightarrow> dabits_p1 E num eda_rand | ID2 \<Rightarrow> dabits_p2 E num eda_rand)
             (\<lambda>stored. qret (dabits_new (fld E) seed1 pos1 seed2 pos2 num stored i))))"

subsection \<open>The tuples of a pool\<close>

text \<open>
  \<open>s i\<close> is the seed party \<open>i\<close> shares with the next party.  The \<open>k\<close>-th tuple is read from the three
  streams at fixed places: \<open>\<gamma>\<close>, \<open>\<alpha>\<^sub>1\<close> and \<open>r\<^sub>1\<close> from the stream of parties 0 and 1, the other half of
  \<open>\<gamma>\<close> from that of parties 2 and 0, \<open>\<theta>\<close> from that of parties 1 and 2.
\<close>

definition da_gamma :: "(bytes, 'r) rng_ops \<Rightarrow> nat \<Rightarrow> (PartyID \<Rightarrow> bytes) \<Rightarrow> nat \<Rightarrow> bool" where
  "da_gamma R fb s k = byte_bit (keystream R (s ID0) (k * (1 + 2 * fb)) XOR keystream R (s ID2) k)"

definition da_theta :: "(bytes, 'r) rng_ops \<Rightarrow> (PartyID \<Rightarrow> bytes) \<Rightarrow> nat \<Rightarrow> bool" where
  "da_theta R s k = byte_bit (keystream R (s ID1) k)"

definition da_alpha1 :: "(bytes, 'r) rng_ops \<Rightarrow> nat \<Rightarrow> (PartyID \<Rightarrow> bytes) \<Rightarrow> nat \<Rightarrow> 'f::comm_ring_1" where
  "da_alpha1 R fb s k = kfield (keystream R (s ID0)) (k * (1 + 2 * fb) + 1)"

definition da_r1 :: "(bytes, 'r) rng_ops \<Rightarrow> nat \<Rightarrow> (PartyID \<Rightarrow> bytes) \<Rightarrow> nat \<Rightarrow> 'f::comm_ring_1" where
  "da_r1 R fb s k = kfield (keystream R (s ID0)) (k * (1 + 2 * fb) + 1 + fb)"

definition da_s12 :: "(bytes, 'r) rng_ops \<Rightarrow> nat \<Rightarrow> (PartyID \<Rightarrow> bytes) \<Rightarrow> nat \<Rightarrow> 'f::comm_ring_1" where
  "da_s12 R fb s k = neg1_pow (da_theta R s k) * da_alpha1 R fb s k - da_r1 R fb s k"

definition da_s20 :: "(bytes, 'r) rng_ops \<Rightarrow> nat \<Rightarrow> (PartyID \<Rightarrow> bytes) \<Rightarrow> nat \<Rightarrow> 'f::comm_ring_1" where
  "da_s20 R fb s k = neg1_pow (da_theta R s k) * (of_bool (da_gamma R fb s k) - da_alpha1 R fb s k)"

definition da_share :: "(bytes, 'r) rng_ops \<Rightarrow> nat \<Rightarrow> (PartyID \<Rightarrow> bytes) \<Rightarrow> nat \<Rightarrow> PartyID \<Rightarrow> 'f::comm_ring_1 share" where
  "da_share R fb s k i =
     (case i of ID0 \<Rightarrow> Share (da_r1 R fb s k) (da_s20 R fb s k) | ID1 \<Rightarrow> Share (da_s12 R fb s k) (da_r1 R fb s k)
      | ID2 \<Rightarrow> Share (da_s20 R fb s k) (da_s12 R fb s k))"

lemma da_share_correct:
  "ashare (da_share R fb s k) (neg1_pow (da_theta R s k) * of_bool (da_gamma R fb s k))"
  by (rule shared_by3I) (simp_all add: da_share_def da_s12_def da_s20_def algebra_simps)

text \<open>
  The invariant of the three pools: common seeds at position 0, a common cursor, and stores that
  hold the tuples not taken yet.  The meta file and the data file of a party are different files.
\<close>

abbreviation store_apart :: "'f LazyDaBits \<Rightarrow> bool" where
  "store_apart d \<equiv> files_apart (da_meta_path d) (da_stored d)"

definition dabits_inv ::
  "(bytes, 'r) rng_ops \<Rightarrow> 'f::comm_ring_1 layout \<Rightarrow> (PartyID \<Rightarrow> bytes) \<Rightarrow> nat \<Rightarrow> nat \<Rightarrow> nat \<Rightarrow>
   (PartyID \<Rightarrow> fs) \<Rightarrow> (PartyID \<Rightarrow> 'f LazyDaBits) \<Rightarrow> bool" where
  "dabits_inv R L s fb num c fs D \<longleftrightarrow>
     (\<forall>i. da_seed1 (D i) = s i \<and> da_pos1 (D i) = 0 \<and> da_seed2 (D i) = s (prev_id i) \<and> da_pos2 (D i) = 0 \<and>
        da_field_bytes (D i) = fb \<and> da_party_id (D i) = i \<and> da_total (D i) = num \<and> da_cursor (D i) = c \<and>
        store_apart (D i)) \<and>
     16 \<le> fb \<and> c \<le> num \<and> num * (1 + 2 * fb) < 2 ^ 64 \<and>
     store_ok L (fs ID0) (da_stored (D ID0)) \<and> store_ok L (fs ID2) (da_stored (D ID2)) \<and>
     length (store_elems L (fs ID0) (da_stored (D ID0))) = num \<and>
     length (store_elems L (fs ID2) (da_stored (D ID2))) = 2 * num \<and> store_is_empty (da_stored (D ID1)) \<and>
     (\<forall>k. c \<le> k \<and> k < num \<longrightarrow>
        store_elems L (fs ID0) (da_stored (D ID0)) ! k = da_s20 R fb s k \<and>
        store_elems L (fs ID2) (da_stored (D ID2)) ! (2 * k) = da_s20 R fb s k \<and>
        store_elems L (fs ID2) (da_stored (D ID2)) ! (2 * k + 1) = da_s12 R fb s k)"

subsection \<open>Taking a batch reads the tuples\<close>

lemma advance_cursor_keeps:
  assumes "store_ok L fs (da_stored d)" "store_apart d" "a \<le> b" "b \<le> length (store_elems L fs (da_stored d))"
  obtains fs' where "advance_cursor L fs d n a b = (d\<lparr>da_cursor := da_cursor d + n\<rparr>, fs')"
    "store_ok L fs' (da_stored d)" "length (store_elems L fs' (da_stored d)) = length (store_elems L fs (da_stored d))"
    "\<And>k. b \<le> k \<Longrightarrow> k < length (store_elems L fs (da_stored d)) \<Longrightarrow>
       store_elems L fs' (da_stored d) ! k = store_elems L fs (da_stored d) ! k"
proof (rule that)
  show "advance_cursor L fs d n a b = (d\<lparr>da_cursor := da_cursor d + n\<rparr>,
      store_consume L (persist_cursor fs (da_meta_path d) (da_cursor d + n)) (da_stored d) a b)"
    by (simp add: advance_cursor_def dabits_persist_cursor_def Let_def)
qed (rule persist_consume_keeps[OF assms]; assumption)+

lemma read_or_panic_slice:
  assumes "store_ok L fs s" "a \<le> b" "b \<le> length (store_elems L fs s)"
  shows "read_or_panic L fs s a b = Inr (take (b - a) (drop a (store_elems L fs s)))"
  using read_consume_slice[OF assms] by (simp add: read_or_panic_def)

lemma seek_bounds:
  fixes c n num fb :: nat
  assumes "c + n \<le> num" "num * (1 + 2 * fb) < 2 ^ 64"
  shows "c * (1 + 2 * fb) < 2 ^ 66" "c < 2 ^ 66"
proof -
  have "c * (1 + 2 * fb) \<le> num * (1 + 2 * fb)" "c * 1 \<le> c * (1 + 2 * fb)" using assms(1) by (intro mult_le_mono; simp)+
  with assms(2) show "c * (1 + 2 * fb) < 2 ^ 66" "c < 2 ^ 66" by simp_all
qed

lemma take_batch_p0_correct:
  fixes L :: "'f::comm_ring_1 layout"
  assumes seek: "lawful_seek R S" and fb: "16 \<le> fb" and le: "c + n \<le> num" and fits: "num * (1 + 2 * fb) < 2 ^ 64"
    and d: "da_seed1 d = s ID0" "da_pos1 d = 0" "da_seed2 d = s ID2" "da_pos2 d = 0" "da_field_bytes d = fb" "da_cursor d = c"
    and ok: "store_ok L fs (da_stored d)" "store_apart d" "length (store_elems L fs (da_stored d)) = num"
    and elems: "\<And>k. c \<le> k \<Longrightarrow> k < num \<Longrightarrow> store_elems L fs (da_stored d) ! k = da_s20 R fb s k"
  obtains fs' where "take_batch_p0 R S L fs d n = Inr (\<lparr>gammas = map (da_gamma R fb s) [c..<c + n], thetas = replicate n False,
       v_shares = map (\<lambda>k. da_share R fb s k ID0) [c..<c + n]\<rparr>, d\<lparr>da_cursor := c + n\<rparr>, fs')"
    "store_ok L fs' (da_stored d)" "length (store_elems L fs' (da_stored d)) = num"
    "\<And>k. c + n \<le> k \<Longrightarrow> k < num \<Longrightarrow> store_elems L fs' (da_stored d) ! k = da_s20 R fb s k"
proof -
  let ?w = "1 + 2 * fb" and ?a = "keystream R (s ID0)" and ?g = "keystream R (s ID2)"
  note bound = seek_bounds[OF le fits]
  let ?buf = "map ?a [c * ?w..<c * ?w + n * ?w]" and ?g2 = "map ?g [c..<c + n]"
  have bufs: "seek_and_generate R S (s ID0) 0 (c * ?w) (n * ?w) = ?buf" "seek_and_generate R S (s ID2) 0 c n = ?g2"
    using seek_and_generate_stream[OF seek] bound by blast+
  obtain fs' where adv: "advance_cursor L fs d n c (c + n) = (d\<lparr>da_cursor := c + n\<rparr>, fs')"
      and fs': "store_ok L fs' (da_stored d)" "length (store_elems L fs' (da_stored d)) = num"
        "\<And>k. c + n \<le> k \<Longrightarrow> k < num \<Longrightarrow> store_elems L fs' (da_stored d) ! k = store_elems L fs (da_stored d) ! k"
    using advance_cursor_keeps[OF ok(1,2), of c "c + n" n] le unfolding ok(3) d(6) by auto
  have gammas: "map (\<lambda>i. byte_bit (?buf ! (i * ?w) XOR ?g2 ! i)) [0..<n] = map (da_gamma R fb s) [c..<c + n]"
  proof (rule nth_equalityI)
    fix i assume i: "i < length (map (\<lambda>i. byte_bit (?buf ! (i * ?w) XOR ?g2 ! i)) [0..<n])"
    then have "i * ?w < n * ?w" using item_fits[of i n 1 ?w] by simp
    with i show "map (\<lambda>i. byte_bit (?buf ! (i * ?w) XOR ?g2 ! i)) [0..<n] ! i = map (da_gamma R fb s) [c..<c + n] ! i"
      by (simp add: da_gamma_def add_mult_distrib add.assoc add.commute add.left_commute)
  qed simp
  have shares: "rmap (\<lambda>i. rbind (parse_field ?buf (i * ?w + 1 + fb)) (\<lambda>r1.
        rbind (index_list (take n (drop c (store_elems L fs (da_stored d)))) i) (\<lambda>s20. Inr (Share r1 s20)))) [0..<n] =
      Inr (map (\<lambda>k. da_share R fb s k ID0) [c..<c + n])" (is "rmap ?f _ = _")
  proof -
    have "rmap ?f [0..<n] = Inr (map (\<lambda>i. da_share R fb s (c + i) ID0) [0..<n])"
    proof (rule rmap_Inr)
      fix i assume "i \<in> set [0..<n]"
      then have i: "i < n" by simp
      have "i * ?w + 1 + fb + 16 \<le> n * ?w" using item_fits[OF i, of "1 + fb + 16" ?w] fb by (simp add: add.assoc)
      note parsed = parse_field_stream[OF this, of ?a "c * ?w"]
      have at: "c * ?w + (i * ?w + 1 + fb) = (c + i) * ?w + 1 + fb" by (simp add: add_mult_distrib)
      have "index_list (take n (drop c (store_elems L fs (da_stored d)))) i = Inr (da_s20 R fb s (c + i))"
        using i le ok(3) elems[of "c + i"] by (simp add: index_list_def)
      then show "?f i = Inr (da_share R fb s (c + i) ID0)" unfolding parsed by (simp only: at) (simp add: da_share_def da_r1_def)
    qed
    then show ?thesis by (simp only: map_upt_shift)
  qed
  have "take_batch_p0 R S L fs d n = Inr (\<lparr>gammas = map (da_gamma R fb s) [c..<c + n], thetas = replicate n False,
       v_shares = map (\<lambda>k. da_share R fb s k ID0) [c..<c + n]\<rparr>, d\<lparr>da_cursor := c + n\<rparr>, fs')"
    unfolding take_batch_p0_def Let_def d bufs gammas
    using read_or_panic_slice[OF ok(1), of c "c + n"] le ok(3) shares adv by (simp add: add.assoc)
  with fs' elems show ?thesis by (intro that) simp_all
qed

lemma take_batch_p1_correct:
  fixes d :: "'f::comm_ring_1 LazyDaBits"
  assumes seek: "lawful_seek R S" and fb: "16 \<le> fb" and le: "c + n \<le> num" and fits: "num * (1 + 2 * fb) < 2 ^ 64"
    and d: "da_seed1 d = s ID1" "da_pos1 d = 0" "da_seed2 d = s ID0" "da_pos2 d = 0" "da_field_bytes d = fb" "da_cursor d = c"
  shows "take_batch_p1 R S fs d n = Inr (\<lparr>gammas = replicate n False, thetas = map (da_theta R s) [c..<c + n],
       v_shares = map (\<lambda>k. da_share R fb s k ID1) [c..<c + n]\<rparr>, d\<lparr>da_cursor := c + n\<rparr>, fs)"
proof -
  let ?w = "1 + 2 * fb" and ?a = "keystream R (s ID0)" and ?t = "keystream R (s ID1)"
  note bound = seek_bounds[OF le fits]
  let ?buf = "map ?a [c * ?w..<c * ?w + n * ?w]"
  have bufs: "seek_and_generate R S (s ID0) 0 (c * ?w) (n * ?w) = ?buf" "seek_and_generate R S (s ID1) 0 c n = map ?t [c..<c + n]"
    using seek_and_generate_stream[OF seek] bound by blast+
  have thetas: "map byte_bit (map ?t [c..<c + n]) = map (da_theta R s) [c..<c + n]"
    by (simp add: da_theta_def)
  have "rmap (\<lambda>i. rbind (parse_field ?buf (i * ?w + 1)) (\<lambda>alpha1. rbind (parse_field ?buf (i * ?w + 1 + fb)) (\<lambda>r1.
        Inr (Share (neg1_pow (map (da_theta R s) [c..<c + n] ! i) * alpha1 - r1) r1)))) [0..<n] =
      Inr (map (\<lambda>i. da_share R fb s (c + i) ID1 :: 'f share) [0..<n])" (is "rmap ?f _ = _")
  proof (rule rmap_Inr)
    fix i assume "i \<in> set [0..<n]"
    then have i: "i < n" by simp
    have le: "i * ?w + 1 + 16 \<le> n * ?w" "i * ?w + 1 + fb + 16 \<le> n * ?w"
      using item_fits[OF i, of "1 + 16" ?w] item_fits[OF i, of "1 + fb + 16" ?w] fb by (simp_all add: add.assoc)
    note parsed = parse_field_stream[OF le(1), of ?a "c * ?w"] parse_field_stream[OF le(2), of ?a "c * ?w"]
    have at: "c * ?w + (i * ?w + 1 + j) = (c + i) * ?w + 1 + j" "c * ?w + (i * ?w + 1) = (c + i) * ?w + 1" for j
      by (simp_all add: add_mult_distrib)
    show "?f i = Inr (da_share R fb s (c + i) ID1)"
      unfolding parsed rbind_simps at using i by (simp add: da_share_def da_r1_def da_s12_def da_alpha1_def)
  qed
  then show ?thesis
    unfolding take_batch_p1_def Let_def d bufs thetas by (simp only: rbind_simps map_upt_shift[of "\<lambda>k. da_share R fb s k ID1"])
qed

lemma take_batch_p2_correct:
  fixes L :: "'f::comm_ring_1 layout"
  assumes seek: "lawful_seek R S" and le: "c + n \<le> num" and fits: "num * (1 + 2 * fb) < 2 ^ 64"
    and d: "da_seed2 d = s ID1" "da_pos2 d = 0" "da_cursor d = c"
    and ok: "store_ok L fs (da_stored d)" "store_apart d" "length (store_elems L fs (da_stored d)) = 2 * num"
    and elems: "\<And>k. c \<le> k \<Longrightarrow> k < num \<Longrightarrow> store_elems L fs (da_stored d) ! (2 * k) = da_s20 R fb s k \<and>
        store_elems L fs (da_stored d) ! (2 * k + 1) = da_s12 R fb s k"
  obtains fs' where "take_batch_p2 R S L fs d n = Inr (\<lparr>gammas = replicate n False, thetas = map (da_theta R s) [c..<c + n],
       v_shares = map (\<lambda>k. da_share R fb s k ID2) [c..<c + n]\<rparr>, d\<lparr>da_cursor := c + n\<rparr>, fs')"
    "store_ok L fs' (da_stored d)" "length (store_elems L fs' (da_stored d)) = 2 * num"
    "\<And>k. c + n \<le> k \<Longrightarrow> k < num \<Longrightarrow> store_elems L fs' (da_stored d) ! (2 * k) = da_s20 R fb s k \<and>
        store_elems L fs' (da_stored d) ! (2 * k + 1) = da_s12 R fb s k"
proof -
  let ?t = "keystream R (s ID1)" and ?xs = "store_elems L fs (da_stored d)"
  have thetas: "map byte_bit (seek_and_generate R S (s ID1) 0 c n) = map (da_theta R s) [c..<c + n]"
    using seek_and_generate_stream[OF seek seek_bounds(2)[OF le fits]] by (simp add: da_theta_def)
  obtain fs' where adv: "advance_cursor L fs d n (c * 2) (c * 2 + 2 * n) = (d\<lparr>da_cursor := c + n\<rparr>, fs')"
      and fs': "store_ok L fs' (da_stored d)" "length (store_elems L fs' (da_stored d)) = 2 * num"
        "\<And>k. c * 2 + 2 * n \<le> k \<Longrightarrow> k < 2 * num \<Longrightarrow> store_elems L fs' (da_stored d) ! k = ?xs ! k"
    using advance_cursor_keeps[OF ok(1,2), of "c * 2" "c * 2 + 2 * n" n] le unfolding ok(3) d(3) by auto
  have "rmap (\<lambda>i. rbind (index_list (take (2 * n) (drop (c * 2) ?xs)) (2 * i)) (\<lambda>s20.
        rbind (index_list (take (2 * n) (drop (c * 2) ?xs)) (2 * i + 1)) (\<lambda>s12. Inr (Share s20 s12)))) [0..<n] =
      Inr (map (\<lambda>i. da_share R fb s (c + i) ID2) [0..<n])" (is "rmap ?f _ = _")
  proof (rule rmap_Inr)
    fix i assume "i \<in> set [0..<n]"
    then have i: "i < n" by simp
    with le ok(3) elems[of "c + i"] show "?f i = Inr (da_share R fb s (c + i) ID2)"
      by (simp add: index_list_def da_share_def mult.commute[of c 2])
  qed
  then have "take_batch_p2 R S L fs d n = Inr (\<lparr>gammas = replicate n False, thetas = map (da_theta R s) [c..<c + n],
       v_shares = map (\<lambda>k. da_share R fb s k ID2) [c..<c + n]\<rparr>, d\<lparr>da_cursor := c + n\<rparr>, fs')"
    unfolding take_batch_p2_def Let_def d thetas map_upt_shift[of "\<lambda>k. da_share R fb s k ID2"]
    using read_or_panic_slice[OF ok(1), of "c * 2" "c * 2 + 2 * n"] le ok(3) adv by simp
  moreover have "store_elems L fs' (da_stored d) ! (2 * k) = da_s20 R fb s k \<and>
      store_elems L fs' (da_stored d) ! (2 * k + 1) = da_s12 R fb s k" if "c + n \<le> k" "k < num" for k
    using fs'(3)[of "2 * k"] fs'(3)[of "2 * k + 1"] elems[of k] that by simp
  ultimately show ?thesis using fs'(1,2) by (intro that)
qed

definition dabit_batch :: "nat \<Rightarrow> (PartyID \<Rightarrow> 'f::comm_ring_1 DaBitBatch) \<Rightarrow> bool" where
  "dabit_batch n B \<longleftrightarrow> length (gammas (B ID0)) = n \<and> length (thetas (B ID1)) = n \<and> thetas (B ID2) = thetas (B ID1) \<and>
     ashares (\<lambda>i. v_shares (B i)) (map2 (\<lambda>\<gamma> \<theta>. neg1_pow \<theta> * of_bool \<gamma>) (gammas (B ID0)) (thetas (B ID1)))"

lemma dabits_take_batch_inv:
  fixes L :: "'f::comm_ring_1 layout"
  assumes seek: "lawful_seek R S" and inv: "dabits_inv R L s fb num c fs D" and le: "c + n \<le> num"
  shows "\<exists>B D' fs'. (\<forall>i. dabits_take_batch R S L (fs i) (D i) n = Inr (B i, D' i, fs' i)) \<and>
     dabits_inv R L s fb num (c + n) fs' D' \<and> dabit_batch n B"
proof -
  define B where "B = (\<lambda>i. \<lparr>gammas = if i = ID0 then map (da_gamma R fb s) [c..<c + n] else replicate n False,
    thetas = if i = ID0 then replicate n False else map (da_theta R s) [c..<c + n],
    v_shares = map (\<lambda>k. da_share R fb s k i :: 'f share) [c..<c + n]\<rparr>)"
  define D' where "D' = (\<lambda>i. D i\<lparr>da_cursor := c + n\<rparr>)"
  have D: "da_seed1 (D i) = s i" "da_pos1 (D i) = 0" "da_seed2 (D i) = s (prev_id i)" "da_pos2 (D i) = 0"
      "da_field_bytes (D i) = fb" "da_party_id (D i) = i" "da_total (D i) = num" "da_cursor (D i) = c" "store_apart (D i)" for i
    using inv unfolding dabits_inv_def by blast+
  have nums: "16 \<le> fb" "num * (1 + 2 * fb) < 2 ^ 64"
    and st: "store_ok L (fs ID0) (da_stored (D ID0))" "store_ok L (fs ID2) (da_stored (D ID2))"
      "length (store_elems L (fs ID0) (da_stored (D ID0))) = num" "length (store_elems L (fs ID2) (da_stored (D ID2))) = 2 * num" "store_is_empty (da_stored (D ID1))"
    and el: "\<And>k. c \<le> k \<Longrightarrow> k < num \<Longrightarrow> store_elems L (fs ID0) (da_stored (D ID0)) ! k = da_s20 R fb s k"
      "\<And>k. c \<le> k \<Longrightarrow> k < num \<Longrightarrow> store_elems L (fs ID2) (da_stored (D ID2)) ! (2 * k) = da_s20 R fb s k \<and>
        store_elems L (fs ID2) (da_stored (D ID2)) ! (2 * k + 1) = da_s12 R fb s k"
    using inv unfolding dabits_inv_def by blast+
  have prev: "s (prev_id ID0) = s ID2" "s (prev_id ID1) = s ID0" "s (prev_id ID2) = s ID1" by simp_all
  obtain fs0 where t0: "take_batch_p0 R S L (fs ID0) (D ID0) n = Inr (B ID0, D' ID0, fs0)"
      and st0: "store_ok L fs0 (da_stored (D ID0))" "length (store_elems L fs0 (da_stored (D ID0))) = num"
        "\<And>k. c + n \<le> k \<Longrightarrow> k < num \<Longrightarrow> store_elems L fs0 (da_stored (D ID0)) ! k = da_s20 R fb s k"
    using take_batch_p0_correct[OF seek nums(1) le nums(2) D(1,2) D(3)[of ID0, unfolded prev] D(4,5,8) st(1) D(9) st(3) el(1)]
    by (auto simp: B_def D'_def)
  obtain fs2 where t2: "take_batch_p2 R S L (fs ID2) (D ID2) n = Inr (B ID2, D' ID2, fs2)"
      and st2: "store_ok L fs2 (da_stored (D ID2))" "length (store_elems L fs2 (da_stored (D ID2))) = 2 * num"
        "\<And>k. c + n \<le> k \<Longrightarrow> k < num \<Longrightarrow> store_elems L fs2 (da_stored (D ID2)) ! (2 * k) = da_s20 R fb s k \<and>
          store_elems L fs2 (da_stored (D ID2)) ! (2 * k + 1) = da_s12 R fb s k"
    using take_batch_p2_correct[OF seek le nums(2) D(3)[of ID2, unfolded prev] D(4,8) st(2) D(9) st(4) el(2)]
    by (auto simp: B_def D'_def)
  have t1: "take_batch_p1 R S (fs ID1) (D ID1) n = Inr (B ID1, D' ID1, fs ID1)"
    using take_batch_p1_correct[OF seek nums(1) le nums(2) D(1,2) D(3)[of ID1, unfolded prev] D(4,5,8)]
    by (simp add: B_def D'_def)
  define fs' where "fs' = triple (fs0, fs ID1, fs2)"
  have batch: "\<forall>i. dabits_take_batch R S L (fs i) (D i) n = Inr (B i, D' i, fs' i)"
    using t0 t1 t2 le by (simp add: all_party dabits_take_batch_def D fs'_def)
  have inv': "dabits_inv R L s fb num (c + n) fs' D'"
    unfolding dabits_inv_def using nums le st0 st2 st(5) D by (simp add: D'_def fs'_def)
  have "ashare (\<lambda>i. v_shares (B i) ! k)
      (map2 (\<lambda>\<gamma> \<theta>. neg1_pow \<theta> * of_bool \<gamma>) (gammas (B ID0)) (thetas (B ID1)) ! k)" if "k < n" for k
    using da_share_correct[of R fb s "c + k"] that by (simp add: B_def)
  moreover have "length (gammas (B ID0)) = n" "length (thetas (B ID1)) = n" "thetas (B ID2) = thetas (B ID1)"
      "\<And>i. length (v_shares (B i)) = n" by (simp_all add: B_def)
  ultimately have "dabit_batch n B"
    by (simp only: dabit_batch_def vec_shared_by_def length_map length_zip min.idem) blast
  with batch inv' show ?thesis by blast
qed

subsection \<open>Generation establishes the invariant\<close>

lemma mpc_two_to_one:
  assumes "lawful_codec c" "f u v = Inr x" "h u v x = Inr y" "Q (\<lambda>i. case i of ID0 \<Rightarrow> x | ID1 \<Rightarrow> z | ID2 \<Rightarrow> y)"
  shows "mpc (\<lambda>i. case i of
      ID0 \<Rightarrow> qbind (send_many c ID2 u) (\<lambda>_. recv_many c ID2)
    | ID1 \<Rightarrow> qbind (send_many c ID2 v) (\<lambda>_. qret z)
    | ID2 \<Rightarrow> qbind (recv_many c ID0) (\<lambda>u. qbind (recv_many c ID1) (\<lambda>v. qbind (lift_result (f u v)) (\<lambda>x.
             qbind (send_many c ID0 x) (\<lambda>_. lift_result (h u v x)))))) Q"
proof -
  from lawful_codec_wires[OF assms(1)]
  obtain w where w: "\<And>xs. ser c xs = Some (w xs)" "\<And>xs. deser c (w xs) = Some xs" by blast
  from _ assms(4) show ?thesis
    by (rule mpc_messages, intro runs_session[where n = 6])
      (simp add: session_simps qret_def lift_result_def w assms(2,3))
qed

lemma dabits_inv_generated:
  fixes F :: "('f::comm_ring_1, 'r) field_ops"
  assumes "lawful_layout L" "16 \<le> field_bytes_of F" "num * (1 + 2 * field_bytes_of F) < 2 ^ 64"
  shows "dabits_inv R L s (field_bytes_of F) num 0 fs (\<lambda>i. dabits_new F (s i) 0 (s (prev_id i)) 0 num
     (case i of ID0 \<Rightarrow> map (da_s20 R (field_bytes_of F) s) [0..<num] | ID1 \<Rightarrow> []
      | ID2 \<Rightarrow> concat (map (\<lambda>k. [da_s20 R (field_bytes_of F) s k, da_s12 R (field_bytes_of F) s k]) [0..<num])) i)"
proof -
  have "length (concat (map (\<lambda>k. [f k, g k]) [0..<n])) = 2 * n" for f g :: "nat \<Rightarrow> 'f" and n
    by (induction n) simp_all
  moreover from this have "k < n \<Longrightarrow> concat (map (\<lambda>k. [f k, g k]) [0..<n]) ! (2 * k) = f k \<and>
      concat (map (\<lambda>k. [f k, g k]) [0..<n]) ! Suc (2 * k) = g k" for f g :: "nat \<Rightarrow> 'f" and k n
    by (induction n) (auto simp: nth_append less_Suc_eq)
  ultimately show ?thesis using assms
    by (simp add: dabits_inv_def dabits_new_def dabits_new_with_store_def store_from_vec_def files_apart_def
        store_ok_def store_elems_def store_is_empty_def store_len_def)
qed

lemma mpc_random_dabits_lazy:
  fixes E :: "('f::comm_ring_1, 'r, bytes, 'w) env"
  assumes net: "lawful_net E" and seek: "lawful_seek (rngop E) S" and L: "lawful_layout L"
    and fb: "16 \<le> field_bytes_of (fld E)" and fits: "num * (1 + 2 * field_bytes_of (fld E)) < 2 ^ 64"
    and Q: "\<And>s D. (\<And>i. length (s i) = SEED_SIZE) \<Longrightarrow> (\<And>i. da_meta_path (D i) = None) \<Longrightarrow>
        (\<And>fs. dabits_inv (rngop E) L s (field_bytes_of (fld E)) num 0 fs D) \<Longrightarrow> Q D"
  shows "mpc (\<lambda>i. random_dabits_lazy E S num) Q"
proof -
  let ?R = "rngop E" and ?fb = "field_bytes_of (fld E)" and ?w = "1 + 2 * field_bytes_of (fld E)"
  show ?thesis
  proof (cases "num = 0")
    case True
    have "Q (\<lambda>i. dabits_empty (fld E) i)"
    proof (rule Q[of "\<lambda>i. replicate SEED_SIZE 0"])
      show "dabits_inv ?R L (\<lambda>i. replicate SEED_SIZE 0) ?fb num 0 fs (dabits_empty (fld E))" for fs
        using True L fb by (simp add: dabits_inv_def dabits_empty_def files_apart_def store_ok_def store_elems_def store_is_empty_def store_len_def)
    qed (simp_all add: dabits_empty_def)
    with True show ?thesis unfolding random_dabits_lazy_def by (intro mpc_bind mpc_get_id) (simp add: mpc_ret)
  next
    case False
    have "mpc (\<lambda>i. case i of ID0 \<Rightarrow> dabits_p0 E num (rep3_rand_new ?R (s i) (s (prev_id i)))
        | ID1 \<Rightarrow> dabits_p1 E num (rep3_rand_new ?R (s i) (s (prev_id i)))
        | ID2 \<Rightarrow> dabits_p2 E num (rep3_rand_new ?R (s i) (s (prev_id i))))
      (\<lambda>st. st = (\<lambda>i. case i of ID0 \<Rightarrow> map (da_s20 ?R ?fb s) [0..<num] | ID1 \<Rightarrow> []
      | ID2 \<Rightarrow> concat (map (\<lambda>k. [da_s20 ?R ?fb s k, da_s12 ?R ?fb s k]) [0..<num])))" for s
    proof -
      let ?a = "keystream ?R (s ID0)"
      have fill: "fst (fill_bytes ?R n (rand_rng1 (rep3_rand_new ?R x y))) = map (keystream ?R x) [0..<n]"
          "fst (fill_bytes ?R n (rand_rng2 (rep3_rand_new ?R x y))) = map (keystream ?R y) [0..<n]" for n x y
        using lawful_seekD(4)[OF seek] by (simp_all add: rep3_rand_new_def)
      have parsed: "parse_field (map ?a [0..<num * ?w]) (k * ?w + 1) = Inr (da_alpha1 ?R ?fb s k :: 'f)"
          "parse_field (map ?a [0..<num * ?w]) (k * ?w + 1 + ?fb) = Inr (da_r1 ?R ?fb s k :: 'f)"
          "map ?a [0..<num * ?w] ! (k * ?w) = ?a (k * ?w)" if "k < num" for k
      proof -
        have "k * ?w + 1 + 16 \<le> num * ?w" "k * ?w + 1 + ?fb + 16 \<le> num * ?w" "k * ?w < num * ?w"
          using item_fits[OF that, of "1 + 16" ?w] item_fits[OF that, of "1 + ?fb + 16" ?w] item_fits[OF that, of 1 ?w] fb
          by (simp_all add: add.assoc)
        then show "parse_field (map ?a [0..<num * ?w]) (k * ?w + 1) = Inr (da_alpha1 ?R ?fb s k :: 'f)"
            "parse_field (map ?a [0..<num * ?w]) (k * ?w + 1 + ?fb) = Inr (da_r1 ?R ?fb s k :: 'f)"
            "map ?a [0..<num * ?w] ! (k * ?w) = ?a (k * ?w)"
          using parse_field_stream[of "k * ?w + 1" "num * ?w" ?a 0] parse_field_stream[of "k * ?w + 1 + ?fb" "num * ?w" ?a 0]
          by (simp_all add: da_alpha1_def da_r1_def add.commute)
      qed
      define w where "w = ?w"
      note at = parsed[folded w_def, unfolded One_nat_def add_Suc_right add_Suc add_0_right]
      let ?alpha2 = "map (\<lambda>k. of_bool (da_gamma ?R ?fb s k) - da_alpha1 ?R ?fb s k :: 'f) [0..<num]"
        and ?s12 = "map (da_s12 ?R ?fb s :: nat \<Rightarrow> 'f) [0..<num]" and ?s20 = "map (da_s20 ?R ?fb s :: nat \<Rightarrow> 'f) [0..<num]"
      have p0: "dabits_p0 E num (rep3_rand_new ?R (s ID0) (s ID2)) = qbind (send_many (fcodec E) ID2 ?alpha2) (\<lambda>_. recv_many (fcodec E) ID2)"
        unfolding dabits_p0_def Let_def fill w_def[symmetric]
        by (subst rmap_Inr[where g = "\<lambda>k. of_bool (da_gamma ?R ?fb s k) - da_alpha1 ?R ?fb s k"])
          (simp_all add: at da_gamma_def[of ?R ?fb s, folded w_def])
      have p1: "dabits_p1 E num (rep3_rand_new ?R (s ID1) (s ID0)) = qbind (send_many (fcodec E) ID2 ?s12) (\<lambda>_. qret [])"
        unfolding dabits_p1_def Let_def fill w_def[symmetric]
        by (subst rmap_Inr[where g = "da_s12 ?R ?fb s"]) (simp_all add: at da_s12_def da_theta_def)
      let ?f = "\<lambda>u (v :: 'f list). rmap (\<lambda>i. rbind (index_list u i) (\<lambda>a.
            Inr (neg1_pow (byte_bit (map (keystream ?R (s ID1)) [0..<num] ! i)) * a))) [0..<num]"
        and ?h = "\<lambda>(u :: 'f list) v x. rbind (rmap (\<lambda>i. rbind (index_list x i) (\<lambda>x.
            rbind (index_list v i) (\<lambda>y. Inr [x, y]))) [0..<num]) (\<lambda>ps. Inr (concat ps))"
      have f: "?f ?alpha2 ?s12 = Inr ?s20"
        by (subst rmap_Inr[where g = "da_s20 ?R ?fb s"]) (simp_all add: index_list_def da_s20_def da_theta_def)
      have h: "?h ?alpha2 ?s12 ?s20 = Inr (concat (map (\<lambda>k. [da_s20 ?R ?fb s k, da_s12 ?R ?fb s k]) [0..<num]))"
        by (subst rmap_Inr[where g = "\<lambda>k. [da_s20 ?R ?fb s k, da_s12 ?R ?fb s k]"]) (simp_all add: index_list_def)
      show ?thesis
        by (rule mpc_cong, rule mpc_two_to_one[where u = ?alpha2 and v = ?s12 and z = "[]" and f = ?f and h = ?h,
              OF lawful_netD(1)[OF net] f h], rule refl)
          (simp add: p0 p1 dabits_p2_def fill Let_def split: PartyID.split)
    qed
    note body = this
    have generated: "Q (\<lambda>i. dabits_new (fld E) (s i) 0 (s (prev_id i)) 0 num
        (case i of ID0 \<Rightarrow> map (da_s20 ?R ?fb s) [0..<num] | ID1 \<Rightarrow> []
         | ID2 \<Rightarrow> concat (map (\<lambda>k. [da_s20 ?R ?fb s k, da_s12 ?R ?fb s k]) [0..<num])) i)"
      if "\<And>i. \<exists>r. s i = fst (gen_seed ?R r)" for s
    proof (rule Q[of s, OF _ _ dabits_inv_generated[OF L fb fits]])
      show "length (s i) = SEED_SIZE" for i using that[of i] lawful_seekD(1)[OF seek] by auto
    qed (simp add: dabits_new_def dabits_new_with_store_def)
    show ?thesis unfolding random_dabits_lazy_def if_not_P[OF False]
      by (intro mpc_bind mpc_get_id mpc_rand_fork)
        (simp add: snapshot_new[OF seek], intro mpc_bind mpc_consequence[OF body] mpc_ret, simp, rule generated)
  qed
qed

subsection \<open>Saving and loading\<close>

lemma dabits_reload:
  assumes seeds: "length (da_seed1 d) = SEED_SIZE" "length (da_seed2 d) = SEED_SIZE"
    and bounds: "da_total d < 2 ^ 64" "da_cursor d < 2 ^ 64" "da_field_bytes d < 2 ^ 32"
    and stored: "da_party_id d \<noteq> ID1 \<Longrightarrow> store_ok L fs (da_stored d)"
      "da_party_id d \<noteq> ID1 \<Longrightarrow> store_elems L fs (da_stored d) = [] \<longleftrightarrow> da_total d = 0"
      "da_party_id d = ID1 \<Longrightarrow> store_is_empty (da_stored d)"
    and L: "lawful_layout L"
  shows "\<exists>fs' st. dabits_save L fs d dir = Inr (d\<lparr>da_meta_path := Some (dir @ ''/dabits.meta'')\<rparr>, fs') \<and>
    dabits_load L fs' dir (da_party_id d) = Inr (d\<lparr>da_stored := st, da_meta_path := Some (dir @ ''/dabits.meta'')\<rparr>) \<and>
    store_apart (d\<lparr>da_stored := st, da_meta_path := Some (dir @ ''/dabits.meta'')\<rparr>) \<and>
    (if da_party_id d = ID1 then st = Empty else store_ok L fs' st \<and> store_elems L fs' st = store_elems L fs (da_stored d))"
proof -
  have words: "unat (of_nat (da_total d) :: 64 word) = da_total d" "unat (of_nat (da_cursor d) :: 64 word) = da_cursor d"
      "unat (of_nat (da_field_bytes d) :: 64 word) = da_field_bytes d"
    using bounds by (simp_all add: unat_of_nat take_bit_nat_eq_self unsigned_of_nat)
  have "of_nat (da_total d) = (0 :: 64 word) \<longleftrightarrow> da_total d = 0" unfolding word_unat_eq_iff words by simp
  then have "\<exists>fs' st'. save_pool L fs (da_stored d) (dir @ ''/dabits.stored'') (dir @ ''/dabits.meta'') (dabits_meta d) = Inr fs' \<and>
      load_pool L fs' (dir @ ''/dabits.stored'') (dir @ ''/dabits.meta'') (da_party_id d) (\<lambda>i. i \<noteq> ID1) = Inr (dabits_meta d, st') \<and>
      files_apart (Some (dir @ ''/dabits.meta'')) st' \<and>
      (if da_party_id d \<noteq> ID1 then store_ok L fs' st' \<and> store_elems L fs' st' = store_elems L fs (da_stored d) else st' = Empty)"
    using seeds bounds(3) stored words by (intro pool_reload L) (simp_all add: dabits_meta_def)
  then obtain fs' st' where saved: "save_pool L fs (da_stored d) (dir @ ''/dabits.stored'') (dir @ ''/dabits.meta'') (dabits_meta d) = Inr fs'"
      "load_pool L fs' (dir @ ''/dabits.stored'') (dir @ ''/dabits.meta'') (da_party_id d) (\<lambda>i. i \<noteq> ID1) = Inr (dabits_meta d, st')"
      "files_apart (Some (dir @ ''/dabits.meta'')) st'"
      "if da_party_id d \<noteq> ID1 then store_ok L fs' st' \<and> store_elems L fs' st' = store_elems L fs (da_stored d) else st' = Empty"
    by blast
  have "dabits_load L fs' dir (da_party_id d) = Inr (d\<lparr>da_stored := st', da_meta_path := Some (dir @ ''/dabits.meta'')\<rparr>)"
    using saved(2) words by (cases d) (simp add: dabits_load_def dabits_meta_def Let_def)
  with saved show ?thesis by (intro exI[of _ fs'] exI[of _ st']) (simp add: dabits_save_def Let_def)
qed

lemma dabits_reload_inv:
  assumes inv: "dabits_inv R L s fb num c fs D" and seeds: "\<And>i. length (s i) = SEED_SIZE" and fb: "fb < 2 ^ 32"
  shows "\<exists>fs' D' D''. (\<forall>i. dabits_save L (fs i) (D i) (dir i) = Inr (D' i, fs' i) \<and>
      dabits_load L (fs' i) (dir i) i = Inr (D'' i)) \<and> dabits_inv R L s fb num c fs' D''"
proof -
  have D: "da_seed1 (D i) = s i" "da_pos1 (D i) = 0" "da_seed2 (D i) = s (prev_id i)" "da_pos2 (D i) = 0"
      "da_field_bytes (D i) = fb" "da_party_id (D i) = i" "da_total (D i) = num" "da_cursor (D i) = c" "store_apart (D i)" for i
    using inv unfolding dabits_inv_def by blast+
  have st: "store_ok L (fs ID0) (da_stored (D ID0))" "store_ok L (fs ID2) (da_stored (D ID2))"
      "length (store_elems L (fs ID0) (da_stored (D ID0))) = num" "length (store_elems L (fs ID2) (da_stored (D ID2))) = 2 * num"
      "store_is_empty (da_stored (D ID1))" and nums: "c \<le> num" "num * (1 + 2 * fb) < 2 ^ 64"
    using inv unfolding dabits_inv_def by blast+
  have L: "lawful_layout L" using st(1) by (simp add: store_ok_def)
  let ?m = "\<lambda>i. Some (dir i @ ''/dabits.meta'')"
  have "\<exists>fs' st. dabits_save L (fs i) (D i) (dir i) = Inr ((D i)\<lparr>da_meta_path := ?m i\<rparr>, fs') \<and>
      dabits_load L fs' (dir i) i = Inr ((D i)\<lparr>da_stored := st, da_meta_path := ?m i\<rparr>) \<and>
      store_apart ((D i)\<lparr>da_stored := st, da_meta_path := ?m i\<rparr>) \<and>
      (if i = ID1 then st = Empty else store_ok L fs' st \<and> store_elems L fs' st = store_elems L (fs i) (da_stored (D i)))" for i
  proof -
    have "num < 2 ^ 64" using nums(2) by simp
    moreover have "store_ok L (fs i) (da_stored (D i))" "store_elems L (fs i) (da_stored (D i)) = [] \<longleftrightarrow> num = 0" if "i \<noteq> ID1"
      using st that by (cases i; auto)+
    moreover have "store_is_empty (da_stored (D i))" if "i = ID1" using st that by simp
    ultimately show ?thesis using dabits_reload[of "D i" L "fs i" "dir i"] seeds nums(1) fb L by (simp add: D)
  qed
  then obtain fs' st' where r: "\<And>i. dabits_save L (fs i) (D i) (dir i) = Inr ((D i)\<lparr>da_meta_path := ?m i\<rparr>, fs' i)"
      "\<And>i. dabits_load L (fs' i) (dir i) i = Inr ((D i)\<lparr>da_stored := st' i, da_meta_path := ?m i\<rparr>)"
      "\<And>i. store_apart ((D i)\<lparr>da_stored := st' i, da_meta_path := ?m i\<rparr>)"
      "\<And>i. if i = ID1 then st' i = Empty else store_ok L (fs' i) (st' i) \<and> store_elems L (fs' i) (st' i) = store_elems L (fs i) (da_stored (D i))"
    by metis
  have "dabits_inv R L s fb num c fs' (\<lambda>i. (D i)\<lparr>da_stored := st' i, da_meta_path := ?m i\<rparr>)"
    using inv r(3) r(4)[of ID0] r(4)[of ID1] r(4)[of ID2]
    by (simp add: dabits_inv_def store_is_empty_def store_len_def)
  with r(1,2) show ?thesis
    by (intro exI[of _ fs'] exI[of _ "\<lambda>i. (D i)\<lparr>da_meta_path := ?m i\<rparr>"]
        exI[of _ "\<lambda>i. (D i)\<lparr>da_stored := st' i, da_meta_path := ?m i\<rparr>"]) simp
qed

end
