(* ===== verification/Edabits_Ring.thy ===== *)
theory Edabits_Ring
  imports Pool_Common
begin

text \<open>
  The pool of edaBits over the rings (\<open>LazyEdaBitsRing\<close> of \<open>preprocessing/edabits.rs\<close>).  An edaBit
  is a random element \<open>\<gamma>\<close> known to party 0 and, for every bit of \<open>\<gamma>\<close>, two summands of that bit in
  the ring, one known to parties 0 and 1 and one known to party 2.  Parties 0 and 1 regenerate
  their part from the seeds, party 2 stores what it received.
\<close>

record 'e EdaBitsRingBatch =
  er_gammas :: "'e list"
  er_alphas_flat :: "'e list"

record 'e LazyEdaBitsRing =
  er_seed1 :: bytes
  er_pos1 :: "128 word"
  er_seed2 :: bytes
  er_pos2 :: "128 word"
  er_total :: nat
  er_cursor :: nat
  er_alpha2 :: "'e BackingStore"
  er_party_id :: PartyID
  er_meta_path :: "string option"

text \<open>\<open>size_of::<T>()\<close>: \<open>Bit\<close> is a byte, \<open>U34\<close> is kept in 64 and \<open>U66\<close> in 128 bits.\<close>

definition size_of_ring :: "'l::len itself \<Rightarrow> nat" where
  "size_of_ring T = (if LENGTH('l) \<le> 8 then 1 else if LENGTH('l) \<le> 16 then 2 else if LENGTH('l) \<le> 32 then 4
     else if LENGTH('l) \<le> 64 then 8 else 16)"

text \<open>\<open>Bit\<close> is set only by the byte 1; the other types read the bytes of the element and mask.\<close>

definition ring_from_le_bytes :: "bytes \<Rightarrow> 'l::len word" where
  "ring_from_le_bytes bs =
     (if LENGTH('l) = 1 then of_bool (bs ! 0 = 1) else of_nat (bytes_le (take (ring_bytes TYPE('l)) bs)))"

definition edabits_ring_empty :: "PartyID \<Rightarrow> 'l::len word LazyEdaBitsRing" where
  "edabits_ring_empty i = \<lparr>er_seed1 = replicate SEED_SIZE 0, er_pos1 = 0, er_seed2 = replicate SEED_SIZE 0, er_pos2 = 0,
     er_total = 0, er_cursor = 0, er_alpha2 = Empty, er_party_id = i, er_meta_path = None\<rparr>"

definition edabits_ring_new_with_store ::
  "bytes \<Rightarrow> 128 word \<Rightarrow> bytes \<Rightarrow> 128 word \<Rightarrow> nat \<Rightarrow> 'l::len word BackingStore \<Rightarrow> PartyID \<Rightarrow> 'l word LazyEdaBitsRing" where
  "edabits_ring_new_with_store seed1 pos1 seed2 pos2 num alpha2 i =
     \<lparr>er_seed1 = seed1, er_pos1 = pos1, er_seed2 = seed2, er_pos2 = pos2, er_total = num, er_cursor = 0,
      er_alpha2 = alpha2, er_party_id = i, er_meta_path = None\<rparr>"

definition edabits_ring_new ::
  "bytes \<Rightarrow> 128 word \<Rightarrow> bytes \<Rightarrow> 128 word \<Rightarrow> nat \<Rightarrow> 'l::len word list \<Rightarrow> PartyID \<Rightarrow> 'l word LazyEdaBitsRing" where
  "edabits_ring_new seed1 pos1 seed2 pos2 num alpha2_flat i =
     edabits_ring_new_with_store seed1 pos1 seed2 pos2 num (store_from_vec alpha2_flat) i"

definition edabits_ring_remaining :: "'l word LazyEdaBitsRing \<Rightarrow> nat" where
  "edabits_ring_remaining d = er_total d - er_cursor d"

definition edabits_ring_persist_cursor :: "fs \<Rightarrow> 'l word LazyEdaBitsRing \<Rightarrow> fs" where
  "edabits_ring_persist_cursor fs d = persist_cursor fs (er_meta_path d) (er_cursor d)"

text \<open>The bytes of one tuple in the stream of parties 0 and 1: \<open>\<gamma>\<close> and one summand per bit.\<close>

definition ring_stride :: "'l::len itself \<Rightarrow> nat" where
  "ring_stride T = (1 + LENGTH('l)) * size_of_ring TYPE('l)"

definition slice_at :: "bytes \<Rightarrow> nat \<Rightarrow> nat \<Rightarrow> bytes" where
  "slice_at bs off len = take len (drop off bs)"

definition edabits_ring_take_batch ::
  "(bytes, 'r) rng_ops \<Rightarrow> 'r seek_ops \<Rightarrow> 'l::len word layout \<Rightarrow> fs \<Rightarrow> 'l word LazyEdaBitsRing \<Rightarrow> nat \<Rightarrow>
   io_error + 'l word EdaBitsRingBatch \<times> 'l word LazyEdaBitsRing \<times> fs" where
  "edabits_ring_take_batch R S L fs d n =
     (if er_cursor d + n > er_total d then Inl OtherError
      else if n = 0 then Inr (\<lparr>er_gammas = [], er_alphas_flat = []\<rparr>, d, fs)
      else let t_bytes = size_of_ring TYPE('l); k = LENGTH('l)
      in if er_party_id d = ID2 then
           let flat_start = er_cursor d * k; flat_end = flat_start + n * k
           in rbind (read_consume L fs (er_alpha2 d) flat_start flat_end) (\<lambda>alphas_flat.
              let d = d\<lparr>er_cursor := er_cursor d + n\<rparr>; fs = edabits_ring_persist_cursor fs d
              in Inr (\<lparr>er_gammas = replicate n 0, er_alphas_flat = alphas_flat\<rparr>, d,
                   store_consume L fs (er_alpha2 d) flat_start flat_end))
         else
           let stride = ring_stride TYPE('l);
               (interleaved, g2_bytes) =
                 (if er_party_id d = ID0
                  then (seek_and_generate R S (er_seed1 d) (er_pos1 d) (er_cursor d * stride) (n * stride),
                        seek_and_generate R S (er_seed2 d) (er_pos2 d) (er_cursor d * stride) (n * stride))
                  else (seek_and_generate R S (er_seed2 d) (er_pos2 d) (er_cursor d * stride) (n * stride), []));
               gammas = (if er_party_id d = ID0
                  then map (\<lambda>i. ring_from_le_bytes (slice_at interleaved (i * stride) t_bytes) XOR
                              ring_from_le_bytes (slice_at g2_bytes (i * stride) t_bytes)) [0..<n]
                  else replicate n 0);
               alphas_flat = map (\<lambda>idx. let item = idx div k; b = idx mod k
                  in ring_from_le_bytes (slice_at interleaved (item * stride + t_bytes + b * t_bytes) t_bytes)) [0..<n * k]
           in Inr (\<lparr>er_gammas = gammas, er_alphas_flat = alphas_flat\<rparr>, d\<lparr>er_cursor := er_cursor d + n\<rparr>, fs))"

subsection \<open>Persistence\<close>

fun show_nat :: "nat \<Rightarrow> string" where
  "show_nat n = (if n < 10 then [char_of (48 + n)] else show_nat (n div 10) @ [char_of (48 + n mod 10)])"

declare show_nat.simps [simp del]

definition edabits_ring_path :: "'l::len itself \<Rightarrow> string \<Rightarrow> string \<Rightarrow> string" where
  "edabits_ring_path T dir suffix = dir @ ''/ring_edabits_'' @ show_nat LENGTH('l) @ suffix"

definition edabits_ring_meta :: "'l::len word LazyEdaBitsRing \<Rightarrow> MetaData" where
  "edabits_ring_meta d = \<lparr>md_seed1 = er_seed1 d, md_pos1 = er_pos1 d, md_seed2 = er_seed2 d, md_pos2 = er_pos2 d,
     md_total = of_nat (er_total d), md_party_id_byte = party_id_to_byte (er_party_id d),
     md_cursor = of_nat (er_cursor d), md_field_bytes = of_nat (size_of_ring TYPE('l))\<rparr>"

definition edabits_ring_save ::
  "'l::len word layout \<Rightarrow> fs \<Rightarrow> 'l word LazyEdaBitsRing \<Rightarrow> string \<Rightarrow> io_error + 'l word LazyEdaBitsRing \<times> fs" where
  "edabits_ring_save L fs d dir =
     (let meta_path = edabits_ring_path TYPE('l) dir ''.meta''
      in rbind (save_pool L fs (er_alpha2 d) (edabits_ring_path TYPE('l) dir ''.alpha2'') meta_path (edabits_ring_meta d))
           (\<lambda>fs. Inr (d\<lparr>er_meta_path := Some meta_path\<rparr>, fs)))"

text \<open>Without a header file the pool is empty.\<close>

definition edabits_ring_load ::
  "'l::len word layout \<Rightarrow> fs \<Rightarrow> string \<Rightarrow> PartyID \<Rightarrow> io_error + 'l word LazyEdaBitsRing" where
  "edabits_ring_load L fs dir i =
     (let meta_path = edabits_ring_path TYPE('l) dir ''.meta''
      in if fs meta_path = None then Inr (edabits_ring_empty i)
         else rbind (load_pool L fs (edabits_ring_path TYPE('l) dir ''.alpha2'') meta_path i (\<lambda>i. i = ID2)) (\<lambda>(meta, alpha2).
           Inr \<lparr>er_seed1 = md_seed1 meta, er_pos1 = md_pos1 meta, er_seed2 = md_seed2 meta, er_pos2 = md_pos2 meta,
              er_total = unat (md_total meta), er_cursor = unat (md_cursor meta), er_alpha2 = alpha2, er_party_id = i,
              er_meta_path = Some meta_path\<rparr>))"

subsection \<open>Generating a pool\<close>

definition edabits_ring_alpha2 :: "nat \<Rightarrow> bytes \<Rightarrow> bytes \<Rightarrow> 'l::len word list" where
  "edabits_ring_alpha2 num all_bytes1 g2_bytes =
     (let t_bytes = size_of_ring TYPE('l); k = LENGTH('l); stride = ring_stride TYPE('l)
      in concat (map (\<lambda>i. let base = i * stride;
               gamma = (ring_from_le_bytes (slice_at all_bytes1 base t_bytes) XOR
                        ring_from_le_bytes (slice_at g2_bytes base t_bytes) :: 'l word)
           in map (\<lambda>j. let alpha_1 = ring_from_le_bytes (slice_at all_bytes1 (base + t_bytes + j * t_bytes) t_bytes);
                          gamma_bit = (ring_shr gamma j AND 1 = 1)
                      in of_bool gamma_bit - alpha_1) [0..<k]) [0..<num]))"

definition random_edabits_ring_lazy ::
  "('l::len word, 'r, 'w) ring_env \<Rightarrow> (bytes, 'r) rng_ops \<Rightarrow> 'r seek_ops \<Rightarrow> nat \<Rightarrow> ('w, 'r, 'l word LazyEdaBitsRing) prog" where
  "random_edabits_ring_lazy T R S num =
     qbind get_id (\<lambda>i.
       if num = 0 then qret (edabits_ring_empty i)
       else let stride = ring_stride TYPE('l)
         in qbind (with_rand (rep3_rand_fork R)) (\<lambda>eda_rand.
           let (seed1, pos1, seed2, pos2) = snapshot S eda_rand
           in qbind (if i = ID0
                then let all_bytes1 = fst (fill_bytes R (num * stride) (rand_rng1 eda_rand));
                         g2_bytes = fst (fill_bytes R (num * stride) (rand_rng2 eda_rand))
                     in send_many (rcodec T) ID2 (edabits_ring_alpha2 num all_bytes1 g2_bytes)
                else qret ()) (\<lambda>_.
              qbind (if i = ID2 then recv_many (rcodec T) ID0 else qret []) (\<lambda>alpha2_flat.
              qret (edabits_ring_new seed1 pos1 seed2 pos2 num alpha2_flat i)))))"

subsection \<open>The tuples of a pool\<close>

definition kring :: "(nat \<Rightarrow> 8 word) \<Rightarrow> nat \<Rightarrow> 'l::len word" where
  "kring ks p = ring_from_le_bytes (map ks [p..<p + size_of_ring TYPE('l)])"

definition edr_gamma :: "(bytes, 'r) rng_ops \<Rightarrow> (PartyID \<Rightarrow> bytes) \<Rightarrow> nat \<Rightarrow> 'l::len word" where
  "edr_gamma R s k = kring (keystream R (s ID0)) (k * ring_stride TYPE('l)) XOR
     kring (keystream R (s ID2)) (k * ring_stride TYPE('l))"

definition edr_alpha1 :: "(bytes, 'r) rng_ops \<Rightarrow> (PartyID \<Rightarrow> bytes) \<Rightarrow> nat \<Rightarrow> nat \<Rightarrow> 'l::len word" where
  "edr_alpha1 R s k j = kring (keystream R (s ID0))
     (k * ring_stride TYPE('l) + size_of_ring TYPE('l) + j * size_of_ring TYPE('l))"

definition edr_alpha2 :: "(bytes, 'r) rng_ops \<Rightarrow> (PartyID \<Rightarrow> bytes) \<Rightarrow> nat \<Rightarrow> nat \<Rightarrow> 'l::len word" where
  "edr_alpha2 R s k j = of_bool (bit (edr_gamma R s k :: 'l word) j) - edr_alpha1 R s k j"

definition edabits_ring_inv ::
  "(bytes, 'r) rng_ops \<Rightarrow> 'l::len word layout \<Rightarrow> (PartyID \<Rightarrow> bytes) \<Rightarrow> nat \<Rightarrow> nat \<Rightarrow>
   (PartyID \<Rightarrow> fs) \<Rightarrow> (PartyID \<Rightarrow> 'l word LazyEdaBitsRing) \<Rightarrow> bool" where
  "edabits_ring_inv R L s num c fs D \<longleftrightarrow>
     (\<forall>i. er_seed1 (D i) = s i \<and> er_pos1 (D i) = 0 \<and> er_seed2 (D i) = s (prev_id i) \<and> er_pos2 (D i) = 0 \<and>
        er_party_id (D i) = i \<and> er_total (D i) = num \<and> er_cursor (D i) = c \<and>
        files_apart (er_meta_path (D i)) (er_alpha2 (D i)) \<and> (i \<noteq> ID2 \<longrightarrow> store_is_empty (er_alpha2 (D i)))) \<and>
     c \<le> num \<and> num * ring_stride TYPE('l) < 2 ^ 64 \<and> store_ok L (fs ID2) (er_alpha2 (D ID2)) \<and>
     length (store_elems L (fs ID2) (er_alpha2 (D ID2))) = num * LENGTH('l) \<and>
     (\<forall>k j. c \<le> k \<and> k < num \<and> j < LENGTH('l) \<longrightarrow>
        store_elems L (fs ID2) (er_alpha2 (D ID2)) ! (k * LENGTH('l) + j) = edr_alpha2 R s k j)"

text \<open>What a batch promises: the summands of parties 1 and 2 add up to the bits of \<open>\<gamma>\<close>.\<close>

definition edabits_ring_batch :: "nat \<Rightarrow> (PartyID \<Rightarrow> 'l::len word EdaBitsRingBatch) \<Rightarrow> bool" where
  "edabits_ring_batch n B \<longleftrightarrow> length (er_gammas (B ID0)) = n \<and>
     (\<forall>i. length (er_alphas_flat (B i)) = n * LENGTH('l)) \<and>
     (\<forall>k j. k < n \<and> j < LENGTH('l) \<longrightarrow>
        er_alphas_flat (B ID1) ! (k * LENGTH('l) + j) + er_alphas_flat (B ID2) ! (k * LENGTH('l) + j) =
        of_bool (bit (er_gammas (B ID0) ! k) j))"

lemma size_of_ring_pos: "0 < size_of_ring TYPE('l::len)"
  by (simp add: size_of_ring_def)

lemma slice_at_stream:
  "p + t \<le> n \<Longrightarrow> slice_at (map ks [off..<off + n]) p t = map ks [off + p..<off + p + t]"
  by (simp add: slice_at_def drop_map take_map take_upt add.assoc)

lemma ring_at_stream:
  fixes ks :: "nat \<Rightarrow> 8 word"
  defines "t \<equiv> size_of_ring TYPE('l::len)"
  assumes "i < n" "j \<le> LENGTH('l)"
  shows "ring_from_le_bytes (slice_at (map ks [c * ring_stride TYPE('l)..<c * ring_stride TYPE('l) + n * ring_stride TYPE('l)])
       (i * ring_stride TYPE('l) + j * t) t) = (kring ks ((c + i) * ring_stride TYPE('l) + j * t) :: 'l word)"
proof -
  have "(j + 1) * t \<le> ring_stride TYPE('l)" unfolding t_def ring_stride_def using assms(3) by (intro mult_le_mono1) simp
  then have "i * ring_stride TYPE('l) + j * t + t \<le> n * ring_stride TYPE('l)"
    using item_fits[OF assms(2), of "(j + 1) * t" "ring_stride TYPE('l)"] by (simp add: add_mult_distrib)
  then show ?thesis by (simp add: slice_at_stream kring_def t_def add_mult_distrib add.assoc)
qed

lemma flat_index:
  assumes "idx < n * (K :: nat)" shows "idx div K < n" "idx mod K < K"
  using assms less_mult_imp_div_less[OF assms] by (cases K; simp)+

lemma flat_bound: "k < n \<Longrightarrow> j < K \<Longrightarrow> k * K + j < n * (K :: nat)"
  using item_fits[of k n "Suc j" K] by simp

lemma take_batch_regenerated:
  fixes s :: "PartyID \<Rightarrow> bytes" and c n :: nat
  defines "w \<equiv> ring_stride TYPE('l::len)" and "t \<equiv> size_of_ring TYPE('l)"
  defines "buf \<equiv> \<lambda>ks :: nat \<Rightarrow> 8 word. map ks [c * w..<c * w + n * w]"
  shows "map (\<lambda>i. ring_from_le_bytes (slice_at (buf (keystream R (s ID0))) (i * w) t) XOR
        ring_from_le_bytes (slice_at (buf (keystream R (s ID2))) (i * w) t)) [0..<n] =
      (map (\<lambda>i. edr_gamma R s (c + i)) [0..<n] :: 'l word list)"
    and "map (\<lambda>idx. ring_from_le_bytes (slice_at (buf (keystream R (s ID0)))
          (idx div LENGTH('l) * w + t + idx mod LENGTH('l) * t) t)) [0..<n * LENGTH('l)] =
      (map (\<lambda>idx. edr_alpha1 R s (c + idx div LENGTH('l)) (idx mod LENGTH('l))) [0..<n * LENGTH('l)] :: 'l word list)"
proof -
  have at: "ring_from_le_bytes (slice_at (buf ks) (i * w + j * t) t) = (kring ks ((c + i) * w + j * t) :: 'l word)"
    if "i < n" "j \<le> LENGTH('l)" for ks i j
    using ring_at_stream[where ?'l = 'l, OF that, of ks c] by (simp only: buf_def w_def t_def)
  show "map (\<lambda>i. ring_from_le_bytes (slice_at (buf (keystream R (s ID0))) (i * w) t) XOR
        ring_from_le_bytes (slice_at (buf (keystream R (s ID2))) (i * w) t)) [0..<n] =
      (map (\<lambda>i. edr_gamma R s (c + i)) [0..<n] :: 'l word list)"
    using at[where j = 0] by (auto simp: edr_gamma_def w_def[symmetric])
  have "ring_from_le_bytes (slice_at (buf (keystream R (s ID0))) (idx div LENGTH('l) * w + t + idx mod LENGTH('l) * t) t) =
      (edr_alpha1 R s (c + idx div LENGTH('l)) (idx mod LENGTH('l)) :: 'l word)" if "idx < n * LENGTH('l)" for idx
    using at[of "idx div LENGTH('l)" "Suc (idx mod LENGTH('l))" "keystream R (s ID0)"] flat_index[OF that]
    by (simp add: edr_alpha1_def w_def[symmetric] t_def[symmetric] add.assoc Suc_leI)
  then show "map (\<lambda>idx. ring_from_le_bytes (slice_at (buf (keystream R (s ID0)))
          (idx div LENGTH('l) * w + t + idx mod LENGTH('l) * t) t)) [0..<n * LENGTH('l)] =
      (map (\<lambda>idx. edr_alpha1 R s (c + idx div LENGTH('l)) (idx mod LENGTH('l))) [0..<n * LENGTH('l)] :: 'l word list)"
    by simp
qed

lemma edabits_ring_take_batch_inv:
  fixes L :: "'l::len word layout"
  assumes seek: "lawful_seek R S" and inv: "edabits_ring_inv R L s num c fs D" and le: "c + n \<le> num"
  shows "\<exists>B D' fs'. (\<forall>i. edabits_ring_take_batch R S L (fs i) (D i) n = Inr (B i, D' i, fs' i)) \<and>
     edabits_ring_inv R L s num (c + n) fs' D' \<and> edabits_ring_batch n B"
proof (cases "n = 0")
  case True
  have "\<forall>i. edabits_ring_take_batch R S L (fs i) (D i) n = Inr (\<lparr>er_gammas = [], er_alphas_flat = []\<rparr>, D i, fs i)"
    using True inv by (simp add: edabits_ring_take_batch_def edabits_ring_inv_def)
  moreover have "edabits_ring_batch n (\<lambda>i. \<lparr>er_gammas = [], er_alphas_flat = []\<rparr> :: 'l word EdaBitsRingBatch)"
    using True by (simp add: edabits_ring_batch_def)
  ultimately show ?thesis using inv True by (intro exI conjI) simp_all
next
  case False
  let ?K = "LENGTH('l)" and ?w = "ring_stride TYPE('l)"
  have D: "er_seed1 (D i) = s i" "er_pos1 (D i) = 0" "er_seed2 (D i) = s (prev_id i)" "er_pos2 (D i) = 0"
      "er_party_id (D i) = i" "er_total (D i) = num" "er_cursor (D i) = c"
      "files_apart (er_meta_path (D i)) (er_alpha2 (D i))" "i \<noteq> ID2 \<longrightarrow> store_is_empty (er_alpha2 (D i))" for i
    using inv unfolding edabits_ring_inv_def by blast+
  have nums: "num * ?w < 2 ^ 64" and st: "store_ok L (fs ID2) (er_alpha2 (D ID2))"
      "length (store_elems L (fs ID2) (er_alpha2 (D ID2))) = num * ?K"
    and el: "\<And>k j. c \<le> k \<Longrightarrow> k < num \<Longrightarrow> j < ?K \<Longrightarrow>
      store_elems L (fs ID2) (er_alpha2 (D ID2)) ! (k * ?K + j) = edr_alpha2 R s k j"
    using inv unfolding edabits_ring_inv_def by blast+
  have "c * ?w \<le> num * ?w" using le by (intro mult_le_mono1) simp
  also note nums
  finally have "c * ?w < 2 ^ 66" by simp
  note seeks = seek_and_generate_stream[OF seek this]
  define a1 where "a1 = (map (\<lambda>idx. edr_alpha1 R s (c + idx div ?K) (idx mod ?K)) [0..<n * ?K] :: 'l word list)"
  define a2 where "a2 = take (n * ?K) (drop (c * ?K) (store_elems L (fs ID2) (er_alpha2 (D ID2))))"
  define B where "B = (\<lambda>i. \<lparr>er_gammas = if i = ID0 then map (\<lambda>k. edr_gamma R s (c + k)) [0..<n] else replicate n 0,
    er_alphas_flat = if i = ID2 then a2 else a1\<rparr>)"
  define D' where "D' = (\<lambda>i. (D i)\<lparr>er_cursor := c + n\<rparr>)"
  let ?fs2 = "store_consume L (persist_cursor (fs ID2) (er_meta_path (D ID2)) (c + n)) (er_alpha2 (D ID2)) (c * ?K) (c * ?K + n * ?K)"
  define fs' where "fs' = triple (fs ID0, fs ID1, ?fs2)"
  have fit: "c * ?K + n * ?K \<le> num * ?K" using le by (metis add_mult_distrib mult_le_mono1)
  have t2: "edabits_ring_take_batch R S L (fs ID2) (D ID2) n = Inr (B ID2, D' ID2, fs' ID2)"
    using read_consume_slice[OF st(1), of "c * ?K" "c * ?K + n * ?K"] fit st(2) le False
    by (simp add: edabits_ring_take_batch_def Let_def D B_def D'_def fs'_def a2_def edabits_ring_persist_cursor_def)
  have t01: "edabits_ring_take_batch R S L (fs i) (D i) n = Inr (B i, D' i, fs' i)" if "i = ID0 \<or> i = ID1" for i
    using that le False take_batch_regenerated[where ?'l = 'l and R = R and s = s and c = c and n = n]
    by (auto simp: edabits_ring_take_batch_def Let_def D B_def D'_def fs'_def a1_def seeks)
  have "\<forall>i. edabits_ring_take_batch R S L (fs i) (D i) n = Inr (B i, D' i, fs' i)"
    using t01 t2 by (simp add: all_party)
  moreover have "edabits_ring_inv R L s num (c + n) fs' D'"
  proof -
    note kept = persist_consume_keeps[OF st(1) D(8) _ fit[folded st(2)], of "c * ?K", unfolded st(2), OF le_add1]
    have "store_elems L ?fs2 (er_alpha2 (D ID2)) ! (k * ?K + j) = edr_alpha2 R s k j" if "c + n \<le> k" "k < num" "j < ?K" for k j
    proof -
      have "(c + n) * ?K \<le> k * ?K" using that(1) by (rule mult_le_mono1)
      then show ?thesis using kept(3)[of "k * ?K + j"] flat_bound[OF that(2,3)] el[OF _ that(2,3)] that(1)
        by (simp add: add_mult_distrib)
    qed
    then show ?thesis unfolding edabits_ring_inv_def using D nums le kept(1,2) by (simp add: D'_def fs'_def)
  qed
  moreover have "edabits_ring_batch n B"
  proof -
    have "a1 ! (k * ?K + j) + a2 ! (k * ?K + j) = of_bool (bit (edr_gamma R s (c + k) :: 'l word) j)" if "k < n" "j < ?K" for k j
      using flat_bound[OF that] el[of "c + k" j] that le st(2) fit
      by (simp add: a1_def a2_def edr_alpha2_def add_mult_distrib add.assoc)
    then show ?thesis using fit st(2) by (simp add: edabits_ring_batch_def B_def a1_def a2_def)
  qed
  ultimately show ?thesis by blast
qed

subsection \<open>Generation establishes the invariant\<close>

lemma mpc_one_to_one:
  assumes "lawful_codec c" "mpc (\<lambda>i. K i (if i = ID2 then u else [])) Q"
  shows "mpc (\<lambda>i. qbind (if i = ID0 then send_many c ID2 u else qret ()) (\<lambda>_.
     qbind (if i = ID2 then recv_many c ID0 else qret []) (K i))) Q"
proof -
  from lawful_codec_wires[OF assms(1)]
  obtain w where w: "\<And>xs. ser c xs = Some (w xs)" "\<And>xs. deser c (w xs) = Some xs" by blast
  have "mpc (\<lambda>i. qbind (if i = ID0 then send_many c ID2 u else qret ()) (\<lambda>_. if i = ID2 then recv_many c ID0 else qret []))
      (\<lambda>V. mpc (\<lambda>i. K i (V i)) Q)"
    using _ assms(2) by (rule mpc_messages, intro runs_session[where n = 3]) (simp add: session_simps qret_def w)
  then show ?thesis unfolding qbind_assoc[symmetric] by (rule mpc_bind)
qed

lemma edabits_ring_alpha2_stream:
  "edabits_ring_alpha2 num (map (keystream R (s ID0)) [0..<num * ring_stride TYPE('l)])
     (map (keystream R (s ID2)) [0..<num * ring_stride TYPE('l)]) =
   concat (map (\<lambda>k. map (\<lambda>j. edr_alpha2 R s k j :: 'l::len word) [0..<LENGTH('l)]) [0..<num])"
proof -
  let ?w = "ring_stride TYPE('l)" and ?t = "size_of_ring TYPE('l)"
  have at: "ring_from_le_bytes (slice_at (map ks [0..<num * ?w]) (i * ?w + j * ?t) ?t) = (kring ks (i * ?w + j * ?t) :: 'l word)"
    if "i < num" "j \<le> LENGTH('l)" for ks i j
    using ring_at_stream[where ?'l = 'l, OF that, of ks 0] by simp
  have "ring_from_le_bytes (slice_at (map (keystream R (s ID0)) [0..<num * ?w]) (i * ?w + ?t + j * ?t) ?t) =
      (edr_alpha1 R s i j :: 'l word)" if "i < num" "j < LENGTH('l)" for i j
    using at[OF that(1), of "Suc j" "keystream R (s ID0)"] that(2) by (simp add: edr_alpha1_def add.assoc)
  moreover have "ring_from_le_bytes (slice_at (map (keystream R (s ID0)) [0..<num * ?w]) (i * ?w) ?t) XOR
      ring_from_le_bytes (slice_at (map (keystream R (s ID2)) [0..<num * ?w]) (i * ?w) ?t) = (edr_gamma R s i :: 'l word)"
    if "i < num" for i
    using at[OF that, of 0] by (simp add: edr_gamma_def)
  moreover have "(ring_shr x j AND 1 = 1) = bit x j" for x :: "'l word" and j
    by (simp add: ring_shifts and_one_eq mod2_eq_if bit_iff_odd_drop_bit)
  ultimately show ?thesis
    unfolding edabits_ring_alpha2_def Let_def
    by (intro arg_cong[where f = concat] map_cong refl) (simp add: edr_alpha2_def)
qed

lemma nth_concat_rows:
  "k < n \<Longrightarrow> j < K \<Longrightarrow> concat (map (\<lambda>k. map (f k) [0..<K]) [0..<n]) ! (k * K + j) = f k j"
  "length (concat (map (\<lambda>k. map (f k) [0..<K]) [0..<n])) = n * K"
proof -
  show len: "length (concat (map (\<lambda>k. map (f k) [0..<K]) [0..<n])) = n * K" for n
    by (induction n) (simp_all add: add.commute)
  show "k < n \<Longrightarrow> j < K \<Longrightarrow> concat (map (\<lambda>k. map (f k) [0..<K]) [0..<n]) ! (k * K + j) = f k j"
  proof (induction n)
    case (Suc n)
    then show ?case
      by (cases "k = n") (simp_all add: nth_append len flat_bound)
  qed simp
qed

lemma mpc_random_edabits_ring_lazy:
  fixes T :: "('l::len word, 'r, 'w) ring_env"
  assumes net: "lawful_ring T" and seek: "lawful_seek R S" and L: "lawful_layout L" and fits: "num * ring_stride TYPE('l) < 2 ^ 64"
    and Q: "\<And>s D. (\<And>i. length (s i) = SEED_SIZE) \<Longrightarrow> (\<And>fs. edabits_ring_inv R L s num 0 fs D) \<Longrightarrow> Q D"
  shows "mpc (\<lambda>i. random_edabits_ring_lazy T R S num) Q"
proof (cases "num = 0")
  case True
  have "Q edabits_ring_empty"
  proof (rule Q[of "\<lambda>i. replicate SEED_SIZE 0"])
    show "edabits_ring_inv R L (\<lambda>i. replicate SEED_SIZE 0) num 0 fs edabits_ring_empty" for fs
      using True L by (simp add: edabits_ring_inv_def edabits_ring_empty_def files_apart_def store_ok_def store_elems_def
          store_is_empty_def store_len_def)
  qed simp
  with True show ?thesis unfolding random_edabits_ring_lazy_def by (intro mpc_bind mpc_get_id) (simp add: mpc_ret)
next
  case False
  let ?w = "ring_stride TYPE('l)"
  have fill: "fst (fill_bytes R n (rand_rng1 (rep3_rand_new R x y))) = map (keystream R x) [0..<n]"
      "fst (fill_bytes R n (rand_rng2 (rep3_rand_new R x y))) = map (keystream R y) [0..<n]" for n x y
    using lawful_seekD(4)[OF seek] by (simp_all add: rep3_rand_new_def)
  let ?alpha2 = "\<lambda>s. concat (map (\<lambda>k. map (\<lambda>j. edr_alpha2 R s k j :: 'l word) [0..<LENGTH('l)]) [0..<num])"
  have generated: "Q (\<lambda>i. edabits_ring_new (s i) 0 (s (prev_id i)) 0 num (if i = ID2 then ?alpha2 s else []) i)"
    if "\<And>i. \<exists>r. s i = fst (gen_seed R r)" for s
  proof (rule Q[of s])
    show "length (s i) = SEED_SIZE" for i using that[of i] lawful_seekD(1)[OF seek] by auto
    show "edabits_ring_inv R L s num 0 fs (\<lambda>i. edabits_ring_new (s i) 0 (s (prev_id i)) 0 num (if i = ID2 then ?alpha2 s else []) i)" for fs
      using fits L by (simp add: edabits_ring_inv_def edabits_ring_new_def edabits_ring_new_with_store_def files_apart_def
          store_from_vec_def store_ok_def store_elems_def store_is_empty_def store_len_def nth_concat_rows) auto
  qed
  have "mpc (\<lambda>i. qbind (if i = ID0 then send_many (rcodec T) ID2 (?alpha2 s) else qret ()) (\<lambda>_.
      qbind (if i = ID2 then recv_many (rcodec T) ID0 else qret []) (\<lambda>alpha2_flat.
      qret (edabits_ring_new (s i) 0 (s (prev_id i)) 0 num alpha2_flat i)))) Q" if "\<And>i. \<exists>r. s i = fst (gen_seed R r)" for s
    using net by (intro mpc_one_to_one mpc_ret generated that) simp
  note body = this
  show ?thesis unfolding random_edabits_ring_lazy_def if_not_P[OF False] Let_def
  proof (intro mpc_bind mpc_get_id mpc_rand_fork, goal_cases)
    case (1 s)
    show ?case
      by (rule mpc_cong[OF body[of s, OF 1]]) (simp add: snapshot_new[OF seek] fill edabits_ring_alpha2_stream)
  qed
qed

subsection \<open>Saving and loading\<close>

lemma edabits_ring_reload:
  fixes d :: "'l::len word LazyEdaBitsRing"
  assumes seeds: "length (er_seed1 d) = SEED_SIZE" "length (er_seed2 d) = SEED_SIZE"
    and bounds: "er_total d < 2 ^ 64" "er_cursor d < 2 ^ 64" and L: "lawful_layout L"
    and stored: "er_party_id d = ID2 \<Longrightarrow> store_ok L fs (er_alpha2 d)"
      "er_party_id d = ID2 \<Longrightarrow> store_elems L fs (er_alpha2 d) = [] \<longleftrightarrow> er_total d = 0"
      "er_party_id d \<noteq> ID2 \<Longrightarrow> store_is_empty (er_alpha2 d)"
  shows "\<exists>fs' st meta. edabits_ring_save L fs d dir = Inr (d\<lparr>er_meta_path := Some meta\<rparr>, fs') \<and>
    edabits_ring_load L fs' dir (er_party_id d) = Inr (d\<lparr>er_alpha2 := st, er_meta_path := Some meta\<rparr>) \<and>
    files_apart (Some meta) st \<and>
    (if er_party_id d = ID2 then store_ok L fs' st \<and> store_elems L fs' st = store_elems L fs (er_alpha2 d) else st = Empty)"
proof -
  let ?data = "edabits_ring_path TYPE('l) dir ''.alpha2''" and ?meta = "edabits_ring_path TYPE('l) dir ''.meta''"
  have words: "unat (of_nat (er_total d) :: 64 word) = er_total d" "unat (of_nat (er_cursor d) :: 64 word) = er_cursor d"
      "unat (of_nat (size_of_ring TYPE('l)) :: 64 word) < 2 ^ 32"
    using bounds by (simp_all add: unat_of_nat take_bit_nat_eq_self unsigned_of_nat size_of_ring_def)
  have "of_nat (er_total d) = (0 :: 64 word) \<longleftrightarrow> er_total d = 0" unfolding word_unat_eq_iff words by simp
  then have "\<exists>fs' st'. save_pool L fs (er_alpha2 d) ?data ?meta (edabits_ring_meta d) = Inr fs' \<and>
      load_pool L fs' ?data ?meta (er_party_id d) (\<lambda>i. i = ID2) = Inr (edabits_ring_meta d, st') \<and> files_apart (Some ?meta) st' \<and>
      (if er_party_id d = ID2 then store_ok L fs' st' \<and> store_elems L fs' st' = store_elems L fs (er_alpha2 d) else st' = Empty)"
    using seeds stored words by (intro pool_reload L) (simp_all add: edabits_ring_meta_def edabits_ring_path_def)
  then obtain fs' st' where saved: "save_pool L fs (er_alpha2 d) ?data ?meta (edabits_ring_meta d) = Inr fs'"
      "load_pool L fs' ?data ?meta (er_party_id d) (\<lambda>i. i = ID2) = Inr (edabits_ring_meta d, st')" "files_apart (Some ?meta) st'"
      "if er_party_id d = ID2 then store_ok L fs' st' \<and> store_elems L fs' st' = store_elems L fs (er_alpha2 d) else st' = Empty"
    by blast
  have "fs' ?meta \<noteq> None" using saved(1) by (auto simp: save_pool_def rbind_def write_meta_def split: sum.splits)
  then have "edabits_ring_load L fs' dir (er_party_id d) = Inr (d\<lparr>er_alpha2 := st', er_meta_path := Some ?meta\<rparr>)"
    using saved(2) words by (cases d) (auto simp: edabits_ring_load_def edabits_ring_meta_def Let_def)
  with saved show ?thesis by (intro exI[of _ fs'] exI[of _ st'] exI[of _ ?meta]) (simp add: edabits_ring_save_def Let_def)
qed

end
