(* ===== verification/Store_Views.thy ===== *)
theory Store_Views
  imports Pool_Common
begin

text \<open>
  The remaining operations of \<open>preprocessing/backing_store.rs\<close>: reads into a slice of the caller,
  the read view that worker threads share, the writer of a file-backed store, and writes of raw
  bytes.  A slice is given by its length, and its new contents are the result.  Reading and writing
  through them is reading and writing the list that the store holds.
\<close>

subsection \<open>Operations\<close>

text \<open>The file-backed case does not validate the range; \<open>end - start\<close> is computed unchecked.\<close>

definition read_consume_into_slice ::
  "'f layout \<Rightarrow> fs \<Rightarrow> 'f BackingStore \<Rightarrow> nat \<Rightarrow> nat \<Rightarrow> nat \<Rightarrow> io_error + 'f list" where
  "read_consume_into_slice L fs s start fin out_len =
     (if out_len \<noteq> fin - start then Inl InvalidInput
      else case s of
        InMemory v \<Rightarrow> (case validate_range s start fin of
            Inl e \<Rightarrow> Inl e
          | Inr _ \<Rightarrow> Inr (take (fin - start) (drop start v)))
      | FileBacked p n off \<Rightarrow>
          if fin < start then Inl Panic
          else let (byte_offset, byte_len) = byte_range L start fin
               in (case file_read_exact_at fs p byte_offset byte_len of
                     Inl e \<Rightarrow> Inl e
                   | Inr bs \<Rightarrow> Inr (map (from_raw L) (chunks (elem_size L) bs)))
      | Empty \<Rightarrow> if out_len \<noteq> 0 then Inl UnexpectedEof else Inr [])"

datatype 'f BackingStoreReadView = ViewInMemory "'f list" | ViewFileBacked string nat | ViewEmpty

definition read_view :: "'f BackingStore \<Rightarrow> 'f BackingStoreReadView" where
  "read_view s = (case s of InMemory v \<Rightarrow> ViewInMemory v | FileBacked p n off \<Rightarrow> ViewFileBacked p n | Empty \<Rightarrow> ViewEmpty)"

definition view_validate_range :: "'f BackingStoreReadView \<Rightarrow> nat \<Rightarrow> nat \<Rightarrow> io_error + unit" where
  "view_validate_range w start fin =
     (let len = (case w of ViewInMemory v \<Rightarrow> length v | ViewFileBacked p n \<Rightarrow> n | ViewEmpty \<Rightarrow> 0)
      in if start > fin then Inl InvalidInput else if fin > len then Inl InvalidInput else Inr ())"

definition read_into_slice ::
  "'f layout \<Rightarrow> fs \<Rightarrow> 'f BackingStoreReadView \<Rightarrow> nat \<Rightarrow> nat \<Rightarrow> nat \<Rightarrow> io_error + 'f list" where
  "read_into_slice L fs w start fin out_len =
     (if out_len \<noteq> fin - start then Inl InvalidInput
      else case w of
        ViewInMemory v \<Rightarrow> rbind (view_validate_range w start fin) (\<lambda>_. Inr (take (fin - start) (drop start v)))
      | ViewFileBacked p n \<Rightarrow> rbind (view_validate_range w start fin) (\<lambda>_.
          let (byte_offset, byte_len) = byte_range L start fin
          in rbind (file_read_exact_at fs p byte_offset byte_len) (\<lambda>bs. Inr (map (from_raw L) (chunks (elem_size L) bs))))
      | ViewEmpty \<Rightarrow> if out_len \<noteq> 0 then Inl UnexpectedEof else Inr [])"

datatype FileBackedWriter = FileBackedWriter (writer_file: string) (writer_len: nat)

definition store_writer :: "'f BackingStore \<Rightarrow> FileBackedWriter option" where
  "store_writer s = (case s of FileBacked p n off \<Rightarrow> Some (FileBackedWriter p n) | _ \<Rightarrow> None)"

definition writer_write_at :: "'f layout \<Rightarrow> fs \<Rightarrow> FileBackedWriter \<Rightarrow> nat \<Rightarrow> 'f list \<Rightarrow> io_error + fs" where
  "writer_write_at L fs w start d =
     (if d = [] then Inr fs
      else if start + length d > writer_len w then Inl InvalidInput
      else file_write_all_at fs (writer_file w) (fst (byte_range L start (start + length d))) (raw_vec L d))"

definition writer_write_interleaved_at ::
  "'f layout \<Rightarrow> fs \<Rightarrow> FileBackedWriter \<Rightarrow> nat \<Rightarrow> 'f list \<Rightarrow> 'f list \<Rightarrow> io_error + fs" where
  "writer_write_interleaved_at L fs w start_pair left right =
     (if length left \<noteq> length right then Inl InvalidInput
      else if left = [] then Inr fs
      else writer_write_at L fs w (start_pair * 2) (interleave left right))"

definition writer_write_bytes_at :: "'f layout \<Rightarrow> fs \<Rightarrow> FileBackedWriter \<Rightarrow> nat \<Rightarrow> bytes \<Rightarrow> io_error + fs" where
  "writer_write_bytes_at L fs w start bs =
     (if bs = [] then Inr fs
      else if length bs mod elem_size L \<noteq> 0 then Inl InvalidInput
      else let fin = start + length bs div elem_size L
      in if fin > writer_len w then Inl InvalidInput
         else file_write_all_at fs (writer_file w) (fst (byte_range L start fin)) bs)"

definition store_write_bytes_at ::
  "'f layout \<Rightarrow> fs \<Rightarrow> 'f BackingStore \<Rightarrow> nat \<Rightarrow> bytes \<Rightarrow> io_error + fs \<times> 'f BackingStore" where
  "store_write_bytes_at L fs s start bs =
     (if bs = [] then Inr (fs, s)
      else if length bs mod elem_size L \<noteq> 0 then Inl InvalidInput
      else let fin = start + length bs div elem_size L
      in case s of
        InMemory v \<Rightarrow> rbind (vec_from_bytes L bs) (\<lambda>decoded. Inr (fs, InMemory (write_vec v start decoded)))
      | FileBacked p n off \<Rightarrow>
          if fin > n then Inl InvalidInput
          else let byte_offset = fst (byte_range L start fin)
               in rbind (file_write_all_at fs p byte_offset bs) (\<lambda>fs.
                  Inr (fs, FileBacked p n (max off (byte_offset + length bs))))
      | Empty \<Rightarrow> if start \<noteq> 0 then Inl InvalidInput
                  else rbind (vec_from_bytes L bs) (\<lambda>decoded. Inr (fs, InMemory decoded)))"

subsection \<open>The list a store holds\<close>

text \<open>Unlike \<open>store_ok\<close>, nothing is said of the append offset.\<close>

definition holds :: "'f layout \<Rightarrow> fs \<Rightarrow> 'f BackingStore \<Rightarrow> 'f list \<Rightarrow> bool" where
  "holds L fs s v \<longleftrightarrow> lawful_layout L \<and>
     (case s of
        InMemory w \<Rightarrow> w = v
      | FileBacked p n off \<Rightarrow> fs p = Some (raw_vec L v) \<and> n = length v
      | Empty \<Rightarrow> v = [])"

lemma store_ok_holds: "store_ok L fs s \<Longrightarrow> holds L fs s (store_elems L fs s)"
  by (cases s) (auto simp: holds_def store_elems_def store_ok_def chunks_raw_vec)

lemma holds_len: "holds L fs s v \<Longrightarrow> store_len s = length v"
  by (cases s) (auto simp: holds_def store_len_def)

lemma holds_other_file:
  assumes "\<And>p n off. s = FileBacked p n off \<Longrightarrow> fs' p = fs p"
  shows "holds L fs' s v = holds L fs s v"
  using assms by (cases s) (simp_all add: holds_def)

text \<open>Reading the bytes of a range gives its elements.\<close>

lemma read_raw_range:
  assumes "lawful_layout L" "fs p = Some (raw_vec L v)" "a \<le> b" "b \<le> length v"
  shows "file_read_exact_at fs p (a * elem_size L) ((b - a) * elem_size L) = Inr (raw_vec L (take (b - a) (drop a v)))"
proof -
  have "a * elem_size L + (b - a) * elem_size L = b * elem_size L"
    using assms(3) by (simp only: add_mult_distrib[symmetric] le_add_diff_inverse)
  moreover have "b * elem_size L \<le> length v * elem_size L" using assms(4) by (rule mult_le_mono1)
  ultimately show ?thesis
    by (simp add: file_read_exact_at_def assms(2) length_raw_vec[OF assms(1)] take_drop_raw_vec[OF assms(1)])
qed

lemma read_slices:
  assumes "holds L fs s v" "a \<le> b" "b \<le> length v" "n = b - a"
  shows "read_consume_into_slice L fs s a b n = Inr (take n (drop a v))"
    and "read_into_slice L fs (read_view s) a b n = Inr (take n (drop a v))"
proof -
  have "read_consume_into_slice L fs s a b n = Inr (take n (drop a v)) \<and> read_into_slice L fs (read_view s) a b n = Inr (take n (drop a v))"
  proof (cases s)
    case (FileBacked p m off)
    with assms(1) have L: "lawful_layout L" and p: "fs p = Some (raw_vec L v)" "m = length v" by (simp_all add: holds_def)
    with assms(2-) show ?thesis
      by (simp add: FileBacked read_consume_into_slice_def read_into_slice_def read_view_def view_validate_range_def
          byte_range_def read_raw_range[OF L, of fs p, OF p(1)] chunks_raw_vec[OF L] Let_def)
  qed (use assms in \<open>auto simp: holds_def read_consume_into_slice_def read_into_slice_def read_view_def validate_range_def
      view_validate_range_def store_len_def\<close>)
  then show "read_consume_into_slice L fs s a b n = Inr (take n (drop a v))"
    "read_into_slice L fs (read_view s) a b n = Inr (take n (drop a v))" by blast+
qed

lemma writer_writes:
  assumes "holds L fs s v" "store_writer s = Some w" "a + length d \<le> length v"
  shows "\<exists>fs'. writer_write_at L fs w a d = Inr fs' \<and> holds L fs' s (take a v @ d @ drop (a + length d) v) \<and>
    (\<forall>q. q \<noteq> writer_file w \<longrightarrow> fs' q = fs q)"
proof -
  obtain p n off where s: "s = FileBacked p n off" and w: "w = FileBackedWriter p n"
    using assms(2) by (auto simp: store_writer_def split: BackingStore.splits)
  from assms(1) have L: "lawful_layout L" and p: "fs p = Some (raw_vec L v)" "n = length v" by (simp_all add: holds_def s)
  have "length (take a v @ d @ drop (a + length d) v) = length v" using assms(3) by simp
  then show ?thesis using p assms(3) overwrite_raw_vec[OF L assms(3)]
    by (cases "d = []") (simp_all add: writer_write_at_def w s holds_def L byte_range_def file_write_all_at_def del: raw_vec_simps)
qed

lemma create_sized_holds:
  assumes "lawful_layout L"
  shows "\<exists>v. length v = n \<and> holds L (fst (create_file_backed_sized L fs p n)) (snd (create_file_backed_sized L fs p n)) v"
proof -
  obtain z where z: "raw_vec L z = replicate (n * elem_size L) 0" "length z = n" using raw_vec_zeros[OF assms] by blast
  then show ?thesis using assms
    by (intro exI[of _ z]) (simp add: holds_def create_file_backed_sized_def file_set_len_def)
qed

lemma load_holds:
  assumes "lawful_layout L" "fs p = Some (raw_vec L v)"
  shows "\<exists>s. load_from_file L fs p = Inr s \<and> holds L fs s v \<and> (\<forall>q n off. s = FileBacked q n off \<longrightarrow> q = p)"
proof -
  have len: "length (raw_vec L v) = length v * elem_size L" "0 < elem_size L"
    using assms(1) by (simp_all add: length_raw_vec lawful_layoutD)
  then show ?thesis using assms by (cases "v = []") (simp_all add: load_from_file_def holds_def)
qed

text \<open>Consuming a range keeps the elements outside it.\<close>

lemma consume_holds:
  assumes "holds L fs s v" "a \<le> b" "b \<le> length v"
  shows "\<exists>z. length z = b - a \<and> holds L (store_consume L fs s a b) s (if store_writer s = None then v else take a v @ z @ drop b v)"
proof (cases s)
  case (FileBacked p n off)
  with assms(1) have L: "lawful_layout L" and p: "fs p = Some (raw_vec L v)" "n = length v" by (simp_all add: holds_def)
  obtain z where z: "raw_vec L z = replicate ((b - a) * elem_size L) 0" "length z = b - a" using raw_vec_zeros[OF L] by blast
  have le: "a + length z \<le> length v" "a + length z = b" using assms(2,3) z(2) by auto
  have "length (take a v @ z @ drop b v) = length v" using le by simp
  moreover have "z = []" if "b = a" using z(2) that by simp
  ultimately show ?thesis using p z assms(2,3) overwrite_raw_vec[OF L le(1)] lawful_layoutD(1)[OF L] le(2)
    by (intro exI[of _ z]) (cases "b = a",
      auto simp: FileBacked store_consume_def holds_def L byte_range_def file_write_all_at_def store_writer_def simp del: raw_vec_simps)
qed (use assms in \<open>auto simp: holds_def store_consume_def store_writer_def intro!: exI[of _ "replicate (b - a) undefined"]\<close>)

lemma consume_other: "(\<And>n off. s \<noteq> FileBacked p n off) \<Longrightarrow> store_consume L fs s a b p = fs p"
  by (auto simp: store_consume_def file_write_all_at_def byte_range_def split: BackingStore.splits option.splits if_splits)

end
