(* ===== verification/Edabits.thy ===== *)
theory Edabits
  imports Dabits Edabits_Ring Store_Views
begin

text \<open>
  The pool of edaBits over the field (\<open>LazyEdaBits\<close> of \<open>preprocessing/edabits.rs\<close>).  An edaBit is
  a random ring element \<open>\<gamma>\<close> known to party 0 and, for every bit of \<open>\<gamma>\<close>, two summands of that bit in
  the field.  Party 2 stores its summands; parties 0 and 1 regenerate theirs, or read them from a
  cache on disk that \<open>prepare_precache\<close> fills ahead of time.  A pool can also hand out views of a
  reserved range, which several threads fill at the same time.
\<close>

subsection \<open>State\<close>

record ('e, 'f) EdaBitsBatch =
  eb_gammas :: "'e list"
  eb_alphas_flat :: "'f list"

datatype EdaBitsStorageMode = NoStorage | P2Authoritative | P01Precache nat nat

record ('e, 'f) LazyEdaBits =
  eb_seed1 :: bytes
  eb_pos1 :: "128 word"
  eb_seed2 :: bytes
  eb_pos2 :: "128 word"
  eb_total :: nat
  eb_field_bytes :: nat
  eb_cursor :: nat
  eb_alphas :: "'f BackingStore"
  eb_mode :: EdaBitsStorageMode
  eb_gamma_store :: "'e BackingStore"
  eb_party_id :: PartyID
  eb_meta_path :: "string option"

record EdaBitsPrecacheMeta =
  pm_seed1 :: bytes
  pm_pos1 :: "128 word"
  pm_seed2 :: bytes
  pm_pos2 :: "128 word"
  pm_field_bytes :: nat
  pm_total :: nat
  pm_start_cursor :: nat
  pm_len :: nat
  pm_party_id_byte :: "8 word"

definition edabits_new_with_store ::
  "('f, 'r) field_ops \<Rightarrow> bytes \<Rightarrow> 128 word \<Rightarrow> bytes \<Rightarrow> 128 word \<Rightarrow> nat \<Rightarrow> 'f BackingStore \<Rightarrow> EdaBitsStorageMode \<Rightarrow>
   'e BackingStore \<Rightarrow> PartyID \<Rightarrow> ('e, 'f) LazyEdaBits" where
  "edabits_new_with_store F seed1 pos1 seed2 pos2 num alphas mode gs i =
     \<lparr>eb_seed1 = seed1, eb_pos1 = pos1, eb_seed2 = seed2, eb_pos2 = pos2, eb_total = num, eb_field_bytes = field_bytes_of F,
      eb_cursor = 0, eb_alphas = alphas, eb_mode = mode, eb_gamma_store = gs, eb_party_id = i, eb_meta_path = None\<rparr>"

definition edabits_empty :: "('f, 'r) field_ops \<Rightarrow> PartyID \<Rightarrow> ('e, 'f) LazyEdaBits" where
  "edabits_empty F i = edabits_new_with_store F (replicate SEED_SIZE 0) 0 (replicate SEED_SIZE 0) 0 0 Empty NoStorage Empty i"

definition edabits_new ::
  "('f, 'r) field_ops \<Rightarrow> bytes \<Rightarrow> 128 word \<Rightarrow> bytes \<Rightarrow> 128 word \<Rightarrow> nat \<Rightarrow> 'f list \<Rightarrow> PartyID \<Rightarrow> ('e, 'f) LazyEdaBits" where
  "edabits_new F seed1 pos1 seed2 pos2 num alphas_flat i =
     edabits_new_with_store F seed1 pos1 seed2 pos2 num (store_from_vec alphas_flat)
       (if i = ID2 then P2Authoritative else NoStorage) Empty i"

definition edabits_remaining :: "('e, 'f) LazyEdaBits \<Rightarrow> nat" where
  "edabits_remaining d = eb_total d - eb_cursor d"

definition edabits_persist_cursor :: "fs \<Rightarrow> ('e, 'f) LazyEdaBits \<Rightarrow> fs" where
  "edabits_persist_cursor fs d = persist_cursor fs (eb_meta_path d) (eb_cursor d)"

definition edabits_drop :: "fs \<Rightarrow> ('e, 'f) LazyEdaBits \<Rightarrow> fs" where
  "edabits_drop fs d = edabits_persist_cursor fs d"

definition extension_seeds :: "('e, 'f) LazyEdaBits \<Rightarrow> bytes \<times> 128 word \<times> bytes \<times> 128 word" where
  "extension_seeds d = (eb_seed1 d, eb_pos1 d, eb_seed2 d, eb_pos2 d)"

subsection \<open>Regenerating a range\<close>

text \<open>The bytes of one tuple in the stream of parties 0 and 1.\<close>

definition eb_stride :: "'l::len itself \<Rightarrow> nat \<Rightarrow> nat" where
  "eb_stride T fb = size_of_ring TYPE('l) + LENGTH('l) * fb"

text \<open>Overwriting a range of a scratch buffer; out of range panics.\<close>

definition splice :: "'a list \<Rightarrow> nat \<Rightarrow> 'a list \<Rightarrow> io_error + 'a list" where
  "splice xs off ys = (if off + length ys \<le> length xs then Inr (take off xs @ ys @ drop (off + length ys) xs) else Inl Panic)"

definition generate_into_from_state ::
  "(bytes, 'r) rng_ops \<Rightarrow> 'r seek_ops \<Rightarrow> bytes \<times> 128 word \<times> bytes \<times> 128 word \<Rightarrow> nat \<Rightarrow> PartyID \<Rightarrow> nat \<Rightarrow> nat \<Rightarrow>
   ('l::len word, 'f::comm_ring_1) EdaBitsBatch \<Rightarrow> nat \<Rightarrow> io_error + ('l word, 'f) EdaBitsBatch" where
  "generate_into_from_state R S seeds fb i cursor_base n scratch item_offset =
     (if n = 0 then Inr scratch
      else let (seed1, pos1, seed2, pos2) = seeds;
          t_bytes = size_of_ring TYPE('l);
          k = LENGTH('l);
          stride = eb_stride TYPE('l) fb;
          (interleaved, g2_bytes) =
            (if i = ID0
             then (seek_and_generate R S seed1 pos1 (cursor_base * stride) (n * stride),
                   seek_and_generate R S seed2 pos2 (cursor_base * t_bytes) (n * t_bytes))
             else (seek_and_generate R S seed2 pos2 (cursor_base * stride) (n * stride), []));
          gs = (if i = ID0
             then map (\<lambda>j. ring_from_le_bytes (slice_at interleaved (j * stride) t_bytes) XOR
                          ring_from_le_bytes (slice_at g2_bytes (j * t_bytes) t_bytes)) [0..<n]
             else replicate n 0)
      in rbind (splice (eb_gammas scratch) item_offset gs) (\<lambda>gammas.
         rbind (rmap (\<lambda>idx. parse_field interleaved (idx div k * stride + t_bytes + idx mod k * fb)) [0..<n * k]) (\<lambda>as.
         rbind (splice (eb_alphas_flat scratch) (item_offset * k) as) (\<lambda>alphas_flat.
         Inr \<lparr>eb_gammas = gammas, eb_alphas_flat = alphas_flat\<rparr>))))"

definition edabits_generate_into ::
  "(bytes, 'r) rng_ops \<Rightarrow> 'r seek_ops \<Rightarrow> ('l::len word, 'f::comm_ring_1) LazyEdaBits \<Rightarrow> nat \<Rightarrow> nat \<Rightarrow>
   ('l word, 'f) EdaBitsBatch \<Rightarrow> nat \<Rightarrow> io_error + ('l word, 'f) EdaBitsBatch" where
  "edabits_generate_into R S d = generate_into_from_state R S (extension_seeds d) (eb_field_bytes d) (eb_party_id d)"

subsection \<open>Taking a batch\<close>

definition take_store_range_into ::
  "'f layout \<Rightarrow> fs \<Rightarrow> 'f BackingStore \<Rightarrow> nat \<Rightarrow> nat \<Rightarrow> nat \<Rightarrow> io_error + 'f list \<times> fs" where
  "take_store_range_into L fs s start fin out_len =
     rbind (read_consume_into_slice L fs s start fin out_len) (\<lambda>xs. Inr (xs, store_consume L fs s start fin))"

definition or_panic :: "io_error + 'a \<Rightarrow> io_error + 'a" where
  "or_panic r = (case r of Inl e \<Rightarrow> Inl Panic | Inr x \<Rightarrow> Inr x)"

definition zero_scratch :: "nat \<Rightarrow> ('l::len word, 'f::zero) EdaBitsBatch" where
  "zero_scratch n = \<lparr>eb_gammas = replicate n 0, eb_alphas_flat = replicate (n * LENGTH('l)) 0\<rparr>"

definition fill_p2_store_into ::
  "'f layout \<Rightarrow> fs \<Rightarrow> ('l::len word, 'f) LazyEdaBits \<Rightarrow> nat \<Rightarrow> nat \<Rightarrow> ('l word, 'f) EdaBitsBatch \<Rightarrow>
   io_error + ('l word, 'f) EdaBitsBatch \<times> fs" where
  "fill_p2_store_into L fs d cursor_base n scratch =
     (let k = LENGTH('l); flat_start = cursor_base * k; flat_end = flat_start + n * k
      in rbind (or_panic (take_store_range_into L fs (eb_alphas d) flat_start flat_end (n * k))) (\<lambda>(xs, fs).
         rbind (splice (eb_alphas_flat scratch) 0 xs) (\<lambda>alphas. Inr (scratch\<lparr>eb_alphas_flat := alphas\<rparr>, fs))))"

text \<open>Returns the number of tuples that came from the cache.\<close>

definition fill_precache_into ::
  "'f layout \<Rightarrow> 'l::len word layout \<Rightarrow> fs \<Rightarrow> ('l word, 'f) LazyEdaBits \<Rightarrow> nat \<Rightarrow> nat \<Rightarrow> ('l word, 'f) EdaBitsBatch \<Rightarrow>
   io_error + nat \<times> ('l word, 'f) EdaBitsBatch \<times> fs" where
  "fill_precache_into L G fs d cursor_base n scratch =
     (case eb_mode d of
        P01Precache start_cursor len \<Rightarrow>
          if cursor_base < start_cursor \<or> cursor_base \<ge> start_cursor + len then Inr (0, scratch, fs)
          else let cached = min (start_cursor + len - cursor_base) n;
                   k = LENGTH('l);
                   alpha_start = (cursor_base - start_cursor) * k
               in rbind (or_panic (take_store_range_into L fs (eb_alphas d) alpha_start (alpha_start + cached * k) (cached * k))) (\<lambda>(xs, fs).
                  rbind (splice (eb_alphas_flat scratch) 0 xs) (\<lambda>alphas.
                  let gamma_start = cursor_base - start_cursor
                  in rbind (case eb_party_id d of
                       ID0 \<Rightarrow> or_panic (take_store_range_into G fs (eb_gamma_store d) gamma_start (gamma_start + cached) cached)
                     | ID1 \<Rightarrow> Inr (replicate cached 0, fs)
                     | ID2 \<Rightarrow> Inr ([], fs)) (\<lambda>(gs, fs).
                  rbind (splice (eb_gammas scratch) 0 gs) (\<lambda>gammas.
                  Inr (cached, \<lparr>eb_gammas = gammas, eb_alphas_flat = alphas\<rparr>, fs)))))
      | _ \<Rightarrow> Inr (0, scratch, fs))"

definition edabits_take_batch ::
  "(bytes, 'r) rng_ops \<Rightarrow> 'r seek_ops \<Rightarrow> 'f::comm_ring_1 layout \<Rightarrow> 'l::len word layout \<Rightarrow> fs \<Rightarrow> ('l word, 'f) LazyEdaBits \<Rightarrow> nat \<Rightarrow>
   io_error + ('l word, 'f) EdaBitsBatch \<times> ('l word, 'f) LazyEdaBits \<times> fs" where
  "edabits_take_batch R S L G fs d n =
     (if eb_cursor d + n > eb_total d then Inl OtherError
      else if n = 0 then Inr (\<lparr>eb_gammas = [], eb_alphas_flat = []\<rparr>, d, fs)
      else let cursor_base = eb_cursor d; scratch = zero_scratch n; d' = d\<lparr>eb_cursor := eb_cursor d + n\<rparr>
      in if eb_party_id d = ID2
         then rbind (fill_p2_store_into L fs d cursor_base n scratch) (\<lambda>(scratch, fs).
              Inr (scratch, d', edabits_persist_cursor fs d'))
         else rbind (fill_precache_into L G fs d cursor_base n scratch) (\<lambda>(precached, scratch, fs).
              rbind (if precached < n
                     then edabits_generate_into R S d (cursor_base + precached) (n - precached) scratch precached
                     else Inr scratch) (\<lambda>scratch.
              Inr (scratch, d', edabits_persist_cursor fs d'))))"

subsection \<open>Reserved ranges\<close>

record ('e, 'f) EdaBitsRangeView =
  rv_start_cursor :: nat
  rv_len :: nat
  rv_party_id :: PartyID
  rv_field_bytes :: nat
  rv_cached_start_cursor :: nat
  rv_cached_len :: nat
  rv_store_start_cursor :: nat
  rv_alpha_view :: "'f BackingStoreReadView option"
  rv_gamma_view :: "'e BackingStoreReadView option"
  rv_seeds :: "bytes \<times> 128 word \<times> bytes \<times> 128 word"

record EdabitsReserveRange =
  rr_cursor_base :: nat
  rr_len :: nat
  rr_alpha_consume :: "(nat \<times> nat) option"
  rr_gamma_consume :: "(nat \<times> nat) option"

record ('e, 'f) EdaBitsReservation =
  resv_root :: "('e, 'f) EdaBitsRangeView"
  resv_range :: EdabitsReserveRange

text \<open>Subtraction of \<open>usize\<close> wraps around in the release build.\<close>

definition usize_sub :: "nat \<Rightarrow> nat \<Rightarrow> nat" where
  "usize_sub a b = unat (of_nat a - of_nat b :: 64 word)"

definition cached_items :: "('e, 'f) EdaBitsRangeView \<Rightarrow> nat" where
  "cached_items v =
     (if rv_cached_len v = 0 \<or> rv_start_cursor v < rv_cached_start_cursor v then 0
      else min (usize_sub (rv_cached_start_cursor v + rv_cached_len v) (rv_start_cursor v)) (rv_len v))"

definition is_fully_backed :: "('e, 'f) EdaBitsRangeView \<Rightarrow> bool" where
  "is_fully_backed v =
     (if rv_len v = 0 \<or> rv_alpha_view v = None then rv_len v = 0
      else cached_items v = rv_len v \<and> (rv_party_id v \<noteq> ID0 \<or> rv_gamma_view v \<noteq> None))"

definition range_view :: "('e, 'f) EdaBitsReservation \<Rightarrow> nat \<Rightarrow> nat \<Rightarrow> ('e, 'f) EdaBitsRangeView" where
  "range_view r start len = (resv_root r)\<lparr>rv_start_cursor := rv_start_cursor (resv_root r) + start, rv_len := len\<rparr>"

text \<open>A view reads what is cached and regenerates the rest.\<close>

definition fill_from_cache ::
  "'f layout \<Rightarrow> 'l::len word layout \<Rightarrow> fs \<Rightarrow> ('l word, 'f) EdaBitsRangeView \<Rightarrow> nat \<Rightarrow> ('l word, 'f) EdaBitsBatch \<Rightarrow>
   io_error + ('l word, 'f) EdaBitsBatch" where
  "fill_from_cache L G fs v cached scratch =
     (let k = LENGTH('l);
          alpha_start = (rv_start_cursor v - rv_store_start_cursor v) * k;
          gamma_start = rv_start_cursor v - rv_store_start_cursor v
      in rbind (case rv_alpha_view v of None \<Rightarrow> Inl UnexpectedEof
                | Some w \<Rightarrow> read_into_slice L fs w alpha_start (alpha_start + cached * k) (cached * k)) (\<lambda>xs.
         rbind (splice (eb_alphas_flat scratch) 0 xs) (\<lambda>alphas.
         rbind (if rv_party_id v = ID0
                then (case rv_gamma_view v of None \<Rightarrow> Inl UnexpectedEof
                      | Some w \<Rightarrow> read_into_slice G fs w gamma_start (gamma_start + cached) cached)
                else Inr (replicate cached 0)) (\<lambda>gs.
         rbind (splice (eb_gammas scratch) 0 gs) (\<lambda>gammas.
         Inr \<lparr>eb_gammas = gammas, eb_alphas_flat = alphas\<rparr>)))))"

definition fill_into_par_safe ::
  "(bytes, 'r) rng_ops \<Rightarrow> 'r seek_ops \<Rightarrow> 'f::comm_ring_1 layout \<Rightarrow> 'l::len word layout \<Rightarrow> fs \<Rightarrow>
   ('l word, 'f) EdaBitsRangeView \<Rightarrow> io_error + ('l word, 'f) EdaBitsBatch" where
  "fill_into_par_safe R S L G fs v =
     (let n = rv_len v; scratch = zero_scratch n; cached = cached_items v
      in if n = 0 then Inr scratch
         else rbind (if cached > 0 then fill_from_cache L G fs v cached scratch else Inr scratch) (\<lambda>scratch.
              if cached < n
              then (if rv_party_id v = ID2 then Inl UnexpectedEof
                    else generate_into_from_state R S (rv_seeds v) (rv_field_bytes v) (rv_party_id v)
                           (rv_start_cursor v + cached) (n - cached) scratch cached)
              else Inr scratch))"

definition reserve_range ::
  "('l::len word, 'f) LazyEdaBits \<Rightarrow> nat \<Rightarrow> io_error + ('l word, 'f) EdaBitsReservation" where
  "reserve_range d n =
     (if eb_cursor d + n > eb_total d then Inl OtherError
      else let cursor_base = eb_cursor d; K = LENGTH('l);
          (cached_start, cached_len, store_start, alpha_view, gamma_view, alpha_consume, gamma_consume) =
            (case eb_mode d of
               P2Authoritative \<Rightarrow>
                 let alpha_start = cursor_base * K
                 in (cursor_base, n, 0, Some (read_view (eb_alphas d)), None, Some (alpha_start, alpha_start + n * K), None)
             | P01Precache start_cursor len \<Rightarrow>
                 let cached = (if cursor_base < start_cursor \<or> cursor_base \<ge> start_cursor + len then 0
                               else min (start_cursor + len - cursor_base) n);
                     alpha_start = (cursor_base - start_cursor) * K
                 in (start_cursor, len, start_cursor,
                     if cached > 0 then Some (read_view (eb_alphas d)) else None,
                     if cached > 0 \<and> eb_party_id d = ID0 then Some (read_view (eb_gamma_store d)) else None,
                     if cached > 0 then Some (alpha_start, alpha_start + cached * K) else None,
                     if cached > 0 then Some (cursor_base - start_cursor, cursor_base - start_cursor + cached) else None)
             | NoStorage \<Rightarrow> (0, 0, 0, None, None, None, None))
      in Inr \<lparr>resv_root = \<lparr>rv_start_cursor = cursor_base, rv_len = n, rv_party_id = eb_party_id d, rv_field_bytes = eb_field_bytes d,
                rv_cached_start_cursor = cached_start, rv_cached_len = cached_len, rv_store_start_cursor = store_start,
                rv_alpha_view = alpha_view, rv_gamma_view = gamma_view, rv_seeds = extension_seeds d\<rparr>,
              resv_range = \<lparr>rr_cursor_base = cursor_base, rr_len = n, rr_alpha_consume = alpha_consume, rr_gamma_consume = gamma_consume\<rparr>\<rparr>)"

definition finalize_reserved_range ::
  "'f layout \<Rightarrow> 'l::len word layout \<Rightarrow> fs \<Rightarrow> ('l word, 'f) LazyEdaBits \<Rightarrow> EdabitsReserveRange \<Rightarrow> ('l word, 'f) LazyEdaBits \<times> fs" where
  "finalize_reserved_range L G fs d rr =
     (let d = d\<lparr>eb_cursor := eb_cursor d + rr_len rr\<rparr>;
          fs = (case rr_alpha_consume rr of None \<Rightarrow> fs | Some (a, b) \<Rightarrow> store_consume L fs (eb_alphas d) a b);
          fs = (case rr_gamma_consume rr of None \<Rightarrow> fs | Some (a, b) \<Rightarrow> store_consume G fs (eb_gamma_store d) a b)
      in (d, edabits_persist_cursor fs d))"

subsection \<open>The cache on disk\<close>

definition edabits_path :: "'l::len itself \<Rightarrow> string \<Rightarrow> string \<Rightarrow> string" where
  "edabits_path T dir suffix = dir @ ''/edabits_'' @ show_nat LENGTH('l) @ suffix"

definition authoritative_alpha_path :: "'l::len itself \<Rightarrow> string \<Rightarrow> string" where
  "authoritative_alpha_path T dir = edabits_path T dir ''.alpha2''"

definition precache_alpha_path :: "'l::len itself \<Rightarrow> string \<Rightarrow> string" where
  "precache_alpha_path T dir = edabits_path T dir ''.precache_alpha''"

definition precache_gamma_path :: "'l::len itself \<Rightarrow> string \<Rightarrow> string" where
  "precache_gamma_path T dir = edabits_path T dir ''.precache_gamma''"

definition precache_meta_path :: "'l::len itself \<Rightarrow> string \<Rightarrow> string" where
  "precache_meta_path T dir = edabits_path T dir ''.precache.meta''"

definition precache_meta_bytes :: "EdaBitsPrecacheMeta \<Rightarrow> bytes" where
  "precache_meta_bytes m = pm_seed1 m @ ring_write (pm_pos1 m) @ pm_seed2 m @ ring_write (pm_pos2 m) @
     ring_write (of_nat (pm_field_bytes m) :: 64 word) @ ring_write (of_nat (pm_total m) :: 64 word) @
     ring_write (of_nat (pm_start_cursor m) :: 64 word) @ ring_write (of_nat (pm_len m) :: 64 word) @ [pm_party_id_byte m]"

definition write_precache_meta :: "fs \<Rightarrow> string \<Rightarrow> EdaBitsPrecacheMeta \<Rightarrow> fs" where
  "write_precache_meta fs path m = fs(path \<mapsto> precache_meta_bytes m)"

definition read_precache_meta :: "fs \<Rightarrow> string \<Rightarrow> io_error + EdaBitsPrecacheMeta" where
  "read_precache_meta fs path =
     (case fs path of
        None \<Rightarrow> Inl OtherError
      | Some f \<Rightarrow>
          rbind (read_exact SEED_SIZE f) (\<lambda>(seed1, f).
          rbind (ring_from_reader f) (\<lambda>(pos1, f).
          rbind (read_exact SEED_SIZE f) (\<lambda>(seed2, f).
          rbind (ring_from_reader f) (\<lambda>(pos2, f).
          rbind (ring_from_reader f) (\<lambda>(field_bytes :: 64 word, f).
          rbind (ring_from_reader f) (\<lambda>(num :: 64 word, f).
          rbind (ring_from_reader f) (\<lambda>(start_cursor :: 64 word, f).
          rbind (ring_from_reader f) (\<lambda>(len :: 64 word, f).
          rbind (read_exact 1 f) (\<lambda>(buf1, f).
          Inr \<lparr>pm_seed1 = seed1, pm_pos1 = pos1, pm_seed2 = seed2, pm_pos2 = pos2, pm_field_bytes = unat field_bytes,
            pm_total = unat num, pm_start_cursor = unat start_cursor, pm_len = unat len, pm_party_id_byte = hd buf1\<rparr>))))))))))"

definition remove_file_if_exists :: "fs \<Rightarrow> string \<Rightarrow> fs" where
  "remove_file_if_exists fs path = fs(path := None)"

definition current_precache_meta :: "('e, 'f) LazyEdaBits \<Rightarrow> nat \<Rightarrow> nat \<Rightarrow> EdaBitsPrecacheMeta" where
  "current_precache_meta d start_cursor len =
     \<lparr>pm_seed1 = eb_seed1 d, pm_pos1 = eb_pos1 d, pm_seed2 = eb_seed2 d, pm_pos2 = eb_pos2 d,
      pm_field_bytes = eb_field_bytes d, pm_total = eb_total d, pm_start_cursor = start_cursor, pm_len = len,
      pm_party_id_byte = party_id_to_byte (eb_party_id d)\<rparr>"

definition precache_meta_matches :: "('e, 'f) LazyEdaBits \<Rightarrow> EdaBitsPrecacheMeta \<Rightarrow> nat \<Rightarrow> nat \<Rightarrow> bool" where
  "precache_meta_matches d m requested cursor \<longleftrightarrow>
     pm_party_id_byte m = party_id_to_byte (eb_party_id d) \<and> pm_seed1 m = eb_seed1 d \<and> pm_pos1 m = eb_pos1 d \<and>
     pm_seed2 m = eb_seed2 d \<and> pm_pos2 m = eb_pos2 d \<and> pm_field_bytes m = eb_field_bytes d \<and>
     pm_total m = eb_total d \<and> pm_start_cursor m = cursor \<and> pm_len m \<ge> requested"

definition expected_precache_alpha_len :: "'l::len itself \<Rightarrow> nat \<Rightarrow> nat" where
  "expected_precache_alpha_len T requested = requested * LENGTH('l)"

definition has_matching_precache :: "('l::len word, 'f) LazyEdaBits \<Rightarrow> nat \<Rightarrow> bool" where
  "has_matching_precache d requested =
     (let requested = min requested (edabits_remaining d)
      in if requested = 0 then False
         else (case eb_mode d of
            P01Precache start_cursor len \<Rightarrow>
              \<not> (start_cursor \<noteq> eb_cursor d \<or> len < requested) \<and>
              \<not> store_len (eb_alphas d) < expected_precache_alpha_len TYPE('l) requested \<and>
              \<not> (eb_party_id d = ID0 \<and> store_len (eb_gamma_store d) < requested)
          | _ \<Rightarrow> False))"

text \<open>The directory of the header file; a path is a directory, a slash and a name.\<close>

definition path_parent :: "string \<Rightarrow> string" where
  "path_parent p = rev (tl (dropWhile (\<lambda>c. c \<noteq> CHR ''/'') (rev p)))"

definition current_precache_dir :: "('e, 'f) LazyEdaBits \<Rightarrow> string option" where
  "current_precache_dir d = map_option path_parent (eb_meta_path d)"

definition clear_precache_runtime :: "('e, 'f) LazyEdaBits \<Rightarrow> ('e, 'f) LazyEdaBits" where
  "clear_precache_runtime d =
     (if eb_party_id d = ID2 then d\<lparr>eb_mode := P2Authoritative, eb_gamma_store := Empty\<rparr>
      else d\<lparr>eb_mode := NoStorage, eb_alphas := Empty, eb_gamma_store := Empty\<rparr>)"

definition clear_precache_files ::
  "fs \<Rightarrow> ('l::len word, 'f) LazyEdaBits \<Rightarrow> string \<Rightarrow> ('l word, 'f) LazyEdaBits \<times> fs" where
  "clear_precache_files fs d dir =
     (if eb_party_id d = ID2 then (d, fs)
      else let fs = remove_file_if_exists fs (precache_alpha_path TYPE('l) dir);
               fs = remove_file_if_exists fs (precache_gamma_path TYPE('l) dir);
               fs = remove_file_if_exists fs (precache_meta_path TYPE('l) dir)
           in (clear_precache_runtime d, fs))"

definition clear_precache_files_if_present ::
  "fs \<Rightarrow> ('l::len word, 'f) LazyEdaBits \<Rightarrow> ('l word, 'f) LazyEdaBits \<times> fs" where
  "clear_precache_files_if_present fs d =
     (case current_precache_dir d of
        Some dir \<Rightarrow> clear_precache_files fs d dir
      | None \<Rightarrow> (clear_precache_runtime d, fs))"

text \<open>A cache that does not fit the pool, or is damaged, is removed.\<close>

definition load_precache ::
  "'f layout \<Rightarrow> 'l::len word layout \<Rightarrow> fs \<Rightarrow> ('l word, 'f) LazyEdaBits \<Rightarrow> string \<Rightarrow>
   io_error + ('l word, 'f) LazyEdaBits \<times> fs" where
  "load_precache L G fs d dir =
     (if eb_party_id d = ID2 then Inr (d, fs)
      else if fs (precache_meta_path TYPE('l) dir) = None then Inr (d, fs)
      else case read_precache_meta fs (precache_meta_path TYPE('l) dir) of
        Inl e \<Rightarrow> Inr (clear_precache_files fs d dir)
      | Inr meta \<Rightarrow>
          if \<not> precache_meta_matches d meta (pm_len meta) (eb_cursor d) then Inr (clear_precache_files fs d dir)
          else if fs (precache_alpha_path TYPE('l) dir) = None then Inr (clear_precache_files fs d dir)
          else rbind (load_from_file L fs (precache_alpha_path TYPE('l) dir)) (\<lambda>alphas.
            if store_len alphas < expected_precache_alpha_len TYPE('l) (pm_len meta) then Inr (clear_precache_files fs d dir)
            else let d = d\<lparr>eb_alphas := alphas\<rparr>;
                     mode = P01Precache (pm_start_cursor meta) (pm_len meta)
            in if eb_party_id d = ID0
               then (if fs (precache_gamma_path TYPE('l) dir) = None then Inr (clear_precache_files fs d dir)
                     else rbind (load_from_file G fs (precache_gamma_path TYPE('l) dir)) (\<lambda>gs.
                       if store_len gs < pm_len meta then Inr (clear_precache_files fs d dir)
                       else Inr (d\<lparr>eb_gamma_store := gs, eb_mode := mode\<rparr>, fs)))
               else Inr (d\<lparr>eb_gamma_store := Empty, eb_mode := mode\<rparr>, fs)))"

text \<open>The cache is written in chunks of about 96 MiB, of at least 16384 tuples.\<close>

definition precache_chunk_len :: "'f layout \<Rightarrow> 'l::len itself \<Rightarrow> nat \<Rightarrow> nat" where
  "precache_chunk_len L T requested =
     (let alpha_bytes_per_item = max (LENGTH('l) * elem_size L) 1;
          target_items = 96 * 1024 * 1024 div alpha_bytes_per_item
      in min requested (max (max target_items (16 * 1024)) 1))"

text \<open>\<open>(0..to).step_by(step)\<close>.\<close>

definition step_by :: "nat \<Rightarrow> nat \<Rightarrow> nat list" where
  "step_by to step = map (\<lambda>j. j * step) [0..<(to + step - 1) div step]"

definition precache_write_chunk ::
  "(bytes, 'r) rng_ops \<Rightarrow> 'r seek_ops \<Rightarrow> 'f::comm_ring_1 layout \<Rightarrow> 'l::len word layout \<Rightarrow> ('l word, 'f) LazyEdaBits \<Rightarrow>
   FileBackedWriter \<Rightarrow> FileBackedWriter option \<Rightarrow> nat \<Rightarrow> nat \<Rightarrow> nat \<Rightarrow> fs \<Rightarrow> io_error + fs" where
  "precache_write_chunk R S L G d alpha_writer gamma_writer requested chunk_len offset fs =
     (let len = min (requested - offset) chunk_len
      in rbind (edabits_generate_into R S d (eb_cursor d + offset) len (zero_scratch len) 0) (\<lambda>scratch.
         rbind (writer_write_at L fs alpha_writer (offset * LENGTH('l)) (eb_alphas_flat scratch)) (\<lambda>fs.
         case gamma_writer of None \<Rightarrow> Inr fs | Some w \<Rightarrow> writer_write_at G fs w offset (eb_gammas scratch))))"

definition prepare_precache ::
  "(bytes, 'r) rng_ops \<Rightarrow> 'r seek_ops \<Rightarrow> 'f::comm_ring_1 layout \<Rightarrow> 'l::len word layout \<Rightarrow> fs \<Rightarrow> ('l word, 'f) LazyEdaBits \<Rightarrow>
   string \<Rightarrow> nat \<Rightarrow> io_error + ('l word, 'f) LazyEdaBits \<times> fs" where
  "prepare_precache R S L G fs d dir requested =
     (if eb_party_id d = ID2 \<or> requested = 0 \<or> edabits_remaining d = 0 then Inr (clear_precache_files fs d dir)
      else if requested > edabits_remaining d then Inl InvalidInput
      else if has_matching_precache d requested then Inr (d, fs)
      else let start_cursor = eb_cursor d;
               gamma_path = precache_gamma_path TYPE('l) dir;
               (fs, alpha_store) = create_file_backed_sized L fs (precache_alpha_path TYPE('l) dir) (requested * LENGTH('l));
               (fs, gamma_store) = (if eb_party_id d = ID0 then create_file_backed_sized G fs gamma_path requested
                                    else (remove_file_if_exists fs gamma_path, Empty));
               chunk_len = precache_chunk_len L TYPE('l) requested
      in case store_writer alpha_store of
           None \<Rightarrow> Inl Panic
         | Some alpha_writer \<Rightarrow>
             rbind (rfold (precache_write_chunk R S L G d alpha_writer (store_writer gamma_store) requested chunk_len)
                      (step_by requested chunk_len) fs) (\<lambda>fs.
             Inr (d\<lparr>eb_alphas := alpha_store, eb_gamma_store := gamma_store, eb_mode := P01Precache start_cursor requested\<rparr>,
                  write_precache_meta fs (precache_meta_path TYPE('l) dir) (current_precache_meta d start_cursor requested))))"

subsection \<open>Persistence and extension\<close>

definition edabits_meta :: "('e, 'f) LazyEdaBits \<Rightarrow> MetaData" where
  "edabits_meta d = \<lparr>md_seed1 = eb_seed1 d, md_pos1 = eb_pos1 d, md_seed2 = eb_seed2 d, md_pos2 = eb_pos2 d,
     md_total = of_nat (eb_total d), md_party_id_byte = party_id_to_byte (eb_party_id d),
     md_cursor = of_nat (eb_cursor d), md_field_bytes = of_nat (eb_field_bytes d)\<rparr>"

definition edabits_save ::
  "'f layout \<Rightarrow> fs \<Rightarrow> ('l::len word, 'f) LazyEdaBits \<Rightarrow> string \<Rightarrow> io_error + ('l word, 'f) LazyEdaBits \<times> fs" where
  "edabits_save L fs d dir =
     rbind (if eb_mode d = P2Authoritative \<and> \<not> store_is_empty (eb_alphas d)
            then save_to_file L fs (eb_alphas d) (authoritative_alpha_path TYPE('l) dir) else Inr fs) (\<lambda>fs.
       let meta_path = edabits_path TYPE('l) dir ''.meta''
       in Inr (d\<lparr>eb_meta_path := Some meta_path\<rparr>, write_meta fs meta_path (edabits_meta d)))"

definition expected_authoritative_alpha_len :: "'l::len itself \<Rightarrow> nat \<Rightarrow> nat" where
  "expected_authoritative_alpha_len T num = num * LENGTH('l)"

definition edabits_load ::
  "'f layout \<Rightarrow> 'l::len word layout \<Rightarrow> fs \<Rightarrow> string \<Rightarrow> PartyID \<Rightarrow> io_error + ('l word, 'f) LazyEdaBits \<times> fs" where
  "edabits_load L G fs dir i =
     (let meta_path = edabits_path TYPE('l) dir ''.meta''
      in rbind (read_meta fs meta_path) (\<lambda>meta.
         if md_party_id_byte meta \<noteq> party_id_to_byte i then Inl Panic
         else rbind (if i = ID2 \<and> md_total meta > 0
                     then rbind (load_from_file L fs (authoritative_alpha_path TYPE('l) dir)) (\<lambda>store.
                          if store_len store < expected_authoritative_alpha_len TYPE('l) (unat (md_total meta)) then Inl UnexpectedEof
                          else Inr (store, P2Authoritative))
                     else Inr (Empty, NoStorage)) (\<lambda>(alphas, mode).
              load_precache L G fs
                \<lparr>eb_seed1 = md_seed1 meta, eb_pos1 = md_pos1 meta, eb_seed2 = md_seed2 meta, eb_pos2 = md_pos2 meta,
                 eb_total = unat (md_total meta), eb_field_bytes = unat (md_field_bytes meta), eb_cursor = unat (md_cursor meta),
                 eb_alphas = alphas, eb_mode = mode, eb_gamma_store = Empty, eb_party_id = i, eb_meta_path = Some meta_path\<rparr> dir)))"

text \<open>The error of extending the store panics.\<close>

definition edabits_apply_extension ::
  "'f layout \<Rightarrow> fs \<Rightarrow> ('l::len word, 'f) LazyEdaBits \<Rightarrow> nat \<Rightarrow> 'f list \<Rightarrow> io_error + ('l word, 'f) LazyEdaBits \<times> fs" where
  "edabits_apply_extension L fs d deficit alpha2_ext =
     (if deficit = 0 then Inr (d, fs)
      else rbind (if alpha2_ext \<noteq> [] then store_extend L fs (eb_alphas d) alpha2_ext else Inr (fs, eb_alphas d)) (\<lambda>(fs, alphas).
        let d = d\<lparr>eb_alphas := alphas, eb_total := eb_total d + deficit\<rparr>
        in Inr (if eb_party_id d \<noteq> ID2 then clear_precache_files_if_present fs d else (d, fs))))"

subsection \<open>Generating a pool\<close>

definition edabits_alpha2 :: "nat \<Rightarrow> nat \<Rightarrow> bytes \<Rightarrow> bytes \<Rightarrow> 'l::len itself \<Rightarrow> io_error + 'f::comm_ring_1 list" where
  "edabits_alpha2 fb num all_bytes1 g2_bytes T =
     (let t_bytes = size_of_ring TYPE('l); k = LENGTH('l); stride = eb_stride TYPE('l) fb
      in rbind (rmap (\<lambda>i. let base = i * stride;
               gamma = (ring_from_le_bytes (slice_at all_bytes1 base t_bytes) XOR
                        ring_from_le_bytes (slice_at g2_bytes (i * t_bytes) t_bytes) :: 'l word)
           in rmap (\<lambda>j. rbind (parse_field all_bytes1 (base + t_bytes + j * fb)) (\<lambda>alpha_1.
                let gamma_bit = (ring_shr gamma j AND 1 = 1) in Inr (of_bool gamma_bit - alpha_1))) [0..<k]) [0..<num]) (\<lambda>rows.
         Inr (concat rows)))"

definition random_edabits_lazy ::
  "('f::comm_ring_1, 'r, bytes, 'w) env \<Rightarrow> 'r seek_ops \<Rightarrow> nat \<Rightarrow> ('w, 'r, ('l::len word, 'f) LazyEdaBits) prog" where
  "random_edabits_lazy E S num =
     qbind get_id (\<lambda>i.
       if num = 0 then qret (edabits_empty (fld E) i)
       else let fb = field_bytes_of (fld E); t_bytes = size_of_ring TYPE('l)
         in qbind (with_rand (rep3_rand_fork (rngop E))) (\<lambda>eda_rand.
           let (seed1, pos1, seed2, pos2) = snapshot S eda_rand
           in qbind (if i = ID0
                then let all_bytes1 = fst (fill_bytes (rngop E) (num * eb_stride TYPE('l) fb) (rand_rng1 eda_rand));
                         g2_bytes = fst (fill_bytes (rngop E) (num * t_bytes) (rand_rng2 eda_rand))
                     in qbind (lift_result (edabits_alpha2 fb num all_bytes1 g2_bytes TYPE('l))) (\<lambda>alpha_2_all.
                        send_many (fcodec E) ID2 alpha_2_all)
                else qret ()) (\<lambda>_.
              qbind (if i = ID2 then recv_many (fcodec E) ID0 else qret []) (\<lambda>alpha2_flat.
              qret (edabits_new (fld E) seed1 pos1 seed2 pos2 num alpha2_flat i)))))"

end
