(* ===== verification/Ring_Arithmetic.thy ===== *)
theory Ring_Arithmetic
  imports Ring_Types Rep3_Arithmetic
begin

text \<open>
  Arithmetic on shared ring elements, \<open>rep3_ring/arithmetic.rs\<close> without the comparisons, which
  need the binary circuits and are in theory \<open>Ring_Compare\<close>.
\<close>

subsection \<open>Local operations\<close>

definition ring_add_public :: "'l::len ring_share \<Rightarrow> 'l word \<Rightarrow> PartyID \<Rightarrow> 'l ring_share" where
  "ring_add_public x v i =
     (case i of ID0 \<Rightarrow> Share (sh_a x + v) (sh_b x) | ID1 \<Rightarrow> Share (sh_a x) (sh_b x + v) | ID2 \<Rightarrow> x)"

definition ring_sub_shared_by_public :: "'l::len ring_share \<Rightarrow> 'l word \<Rightarrow> PartyID \<Rightarrow> 'l ring_share" where
  "ring_sub_shared_by_public x v i = ring_add_public x (- v) i"

definition ring_sub_public_by_shared :: "'l::len word \<Rightarrow> 'l ring_share \<Rightarrow> PartyID \<Rightarrow> 'l ring_share" where
  "ring_sub_public_by_shared v x i = ring_add_public (- x) v i"

definition ring_mul_public :: "'l::len ring_share \<Rightarrow> 'l word \<Rightarrow> 'l ring_share" where
  "ring_mul_public x v = share_scale x v"

definition ring_add_vec_assign :: "'l::len ring_share list \<Rightarrow> 'l ring_share list \<Rightarrow> 'l ring_share list" where
  "ring_add_vec_assign lhs rhs = zip_update (+) lhs rhs"

definition ring_sub_vec_assign :: "'l::len ring_share list \<Rightarrow> 'l ring_share list \<Rightarrow> 'l ring_share list" where
  "ring_sub_vec_assign lhs rhs = zip_update (-) lhs rhs"

definition ring_add_mul_public :: "'l::len ring_share \<Rightarrow> 'l ring_share \<Rightarrow> 'l word \<Rightarrow> 'l ring_share" where
  "ring_add_mul_public a b c = a + ring_mul_public b c"

definition ring_promote_to_trivial_share :: "PartyID \<Rightarrow> 'l::len word \<Rightarrow> 'l ring_share" where
  "ring_promote_to_trivial_share i v =
     (case i of ID0 \<Rightarrow> Share v 0 | ID1 \<Rightarrow> Share 0 v | ID2 \<Rightarrow> Share 0 0)"

text \<open>A shift by the width of the type or more panics; so does a shift that is no \<open>usize\<close>.\<close>

definition ring_pow_2_public :: "'l::len ring_share \<Rightarrow> 'l word \<Rightarrow> io_error + 'l ring_share" where
  "ring_pow_2_public x v =
     (if v = 0 then Inr x
      else if unat v \<ge> 2 ^ 64 then Inl Panic
      else if unat v \<ge> LENGTH('l) then Inl Panic
      else Inr (ring_mul_public x (ring_shl 1 (unat v))))"

subsection \<open>Interactive operations\<close>

definition ring_masked ::
  "('l::len word, 'r, 'w) ring_env \<Rightarrow> 'l word \<Rightarrow> ('w, 'r, 'l word) prog" where
  "ring_masked R v = qbind (with_rand (masking_element (rgen R))) (\<lambda>m. qret (v + m))"

definition ring_mul ::
  "('l::len word, 'r, 'w) ring_env \<Rightarrow> 'l ring_share \<Rightarrow> 'l ring_share \<Rightarrow> ('w, 'r, 'l ring_share) prog" where
  "ring_mul R a b = qbind (ring_masked R (local_mul a b)) (\<lambda>local_a.
     qbind (reshare (rcodec R) local_a) (\<lambda>local_b. qret (Share local_a local_b)))"

definition ring_local_mul_vec ::
  "('l::len word, 'r, 'w) ring_env \<Rightarrow> 'l ring_share list \<Rightarrow> 'l ring_share list \<Rightarrow> ('w, 'r, 'l word list) prog" where
  "ring_local_mul_vec R lhs rhs =
     qbind (with_rand (masking_elements_vec (rgen R) (length lhs))) (\<lambda>masking.
       if length lhs \<noteq> length rhs then qfail Panic
       else qret (map (\<lambda>((l, r), m). local_mul l r + m) (zip (zip lhs rhs) masking)))"

definition ring_reshare_vec ::
  "('l::len word, 'r, 'w) ring_env \<Rightarrow> 'l word list \<Rightarrow> ('w, 'r, 'l ring_share list) prog" where
  "ring_reshare_vec R local_a = qbind (reshare_many (rcodec R) local_a) (\<lambda>local_b.
     if length local_b \<noteq> length local_a then qfail InvalidData
     else qret (map2 Share local_a local_b))"

definition ring_mul_vec ::
  "('l::len word, 'r, 'w) ring_env \<Rightarrow> 'l ring_share list \<Rightarrow> 'l ring_share list \<Rightarrow> ('w, 'r, 'l ring_share list) prog" where
  "ring_mul_vec R lhs rhs = qbind (qmap (ring_masked R) (map2 local_mul lhs rhs)) (ring_reshare_vec R)"

definition ring_open :: "('l::len word, 'r, 'w) ring_env \<Rightarrow> 'l ring_share \<Rightarrow> ('w, 'r, 'l word) prog" where
  "ring_open R a = qbind (reshare (rcodec R) (sh_b a)) (\<lambda>c. qret (sh_a a + sh_b a + c))"

definition ring_open_bit :: "('l::len word, 'r, 'w) ring_env \<Rightarrow> 'l ring_share \<Rightarrow> ('w, 'r, 'l word) prog" where
  "ring_open_bit R a = qbind (reshare (rcodec R) (sh_b a)) (\<lambda>c. qret (sh_a a XOR sh_b a XOR c))"

definition ring_open_vec ::
  "('l::len word, 'r, 'w) ring_env \<Rightarrow> 'l ring_share list \<Rightarrow> ('w, 'r, 'l word list) prog" where
  "ring_open_vec R xs =
     (let a = map sh_a xs; b = map sh_b xs
      in qbind (reshare_many (rcodec R) b) (\<lambda>c.
         qret (map (\<lambda>(a, b, c). a + b + c) (zip a (zip b c)))))"

definition ring_cmux ::
  "('l::len word, 'r, 'w) ring_env \<Rightarrow> 'l ring_share \<Rightarrow> 'l ring_share \<Rightarrow> 'l ring_share \<Rightarrow>
   ('w, 'r, 'l ring_share) prog" where
  "ring_cmux R cond truthy falsy =
     (let b_min_a = truthy - falsy in qbind (ring_mul R cond b_min_a) (\<lambda>d. qret (falsy + d)))"

definition ring_cmux_many ::
  "('l::len word, 'r, 'w) ring_env \<Rightarrow> 'l ring_share list \<Rightarrow> 'l ring_share list \<Rightarrow> 'l ring_share list \<Rightarrow>
   ('w, 'r, 'l ring_share list) prog" where
  "ring_cmux_many R cond truthy falsy =
     (let b_min_a = map2 (-) truthy falsy
      in qbind (ring_mul_vec R cond b_min_a) (\<lambda>d. qret (map2 (+) falsy d)))"

definition ring_add_mul ::
  "('l::len word, 'r, 'w) ring_env \<Rightarrow> 'l ring_share \<Rightarrow> 'l ring_share \<Rightarrow> 'l ring_share \<Rightarrow>
   ('w, 'r, 'l ring_share) prog" where
  "ring_add_mul R a b c = qbind (ring_mul R c b) (\<lambda>m. qret (a + m))"

definition ring_mul_open ::
  "('l::len word, 'r, 'w) ring_env \<Rightarrow> 'l ring_share \<Rightarrow> 'l ring_share \<Rightarrow> ('w, 'r, 'l word) prog" where
  "ring_mul_open R a b = qbind (ring_masked R (local_mul a b)) (\<lambda>a.
     qbind (broadcast (rcodec R) a) (\<lambda>(b, c). qret (a + b + c)))"

definition ring_mul_open_vec ::
  "('l::len word, 'r, 'w) ring_env \<Rightarrow> 'l ring_share list \<Rightarrow> 'l ring_share list \<Rightarrow> ('w, 'r, 'l word list) prog" where
  "ring_mul_open_vec R a b =
     qbind (qmap (ring_masked R) (map2 local_mul a b)) (\<lambda>a.
     qbind (broadcast_many (rcodec R) a) (\<lambda>(b, c).
     qret (map (\<lambda>(a, b, c). a + (b + c)) (zip a (zip b c)) @
           drop (min (length b) (length c)) a)))"

definition ring_rand :: "('l::len word, 'r, 'w) ring_env \<Rightarrow> ('w, 'r, 'l ring_share) prog" where
  "ring_rand R = qbind (with_rand (random_elements (rgen R))) (\<lambda>(a, b). qret (Share a b))"

lemma unat_shr_1: "unat (ring_shr w 1) = unat w div 2"
  unfolding ring_shifts unat_drop_bit_eq by (simp add: drop_bit_eq_div)

function ring_pow_loop ::
  "('l::len word, 'r, 'w) ring_env \<Rightarrow> 'l word \<Rightarrow> 'l ring_share \<Rightarrow> 'l ring_share \<Rightarrow>
   ('w, 'r, 'l ring_share \<times> 'l ring_share) prog" where
  "ring_pow_loop R v res shared =
     (if v = 0 then qret (res, shared)
      else qbind (if ring_get_bit v 0 = 1 then ring_mul R res shared else qret res) (\<lambda>res.
           qbind (ring_mul R shared shared) (\<lambda>shared.
           ring_pow_loop R (ring_shr (if ring_get_bit v 0 = 1 then v - 1 else v) 1) res shared)))"
  by auto
termination
proof (relation "measure (\<lambda>(R, v, res, shared). unat v)", simp)
  fix R :: "('l::len word, 'r, 'w) ring_env" and v :: "'l word" and res shared :: "'l ring_share" and b e
  have le: "unat (if ring_get_bit v 0 = 1 then v - 1 else v) \<le> unat v" if "v \<noteq> 0"
    using that by (simp add: unat_minus_one)
  assume v: "v \<noteq> 0"
  let ?v = "if ring_get_bit v 0 = 1 then v - 1 else v"
  have "unat (ring_shr ?v 1) = unat ?v div 2" by (rule unat_shr_1)
  with le[OF v] v show "((R, ring_shr ?v 1, b, e), R, v, res, shared) \<in> measure (\<lambda>(R, v, res, shared). unat v)"
    using unat_eq_zero[of v] by auto
qed

declare ring_pow_loop.simps [simp del]

definition ring_pow_public ::
  "('l::len word, 'r, 'w) ring_env \<Rightarrow> 'l ring_share \<Rightarrow> 'l word \<Rightarrow> ('w, 'r, 'l ring_share) prog" where
  "ring_pow_public R shared v = qbind get_id (\<lambda>i.
     qbind (ring_pow_loop R v (ring_promote_to_trivial_share i 1) shared)
       (\<lambda>(res, shared). ring_mul R res shared))"

text \<open>\<open>d <<= 1\<close> on the masked product, then the difference is reshared.\<close>

definition ring_arithmetic_xor ::
  "('l::len word, 'r, 'w) ring_env \<Rightarrow> 'l ring_share \<Rightarrow> 'l ring_share \<Rightarrow> ('w, 'r, 'l ring_share) prog" where
  "ring_arithmetic_xor R x y = qbind (ring_masked R (local_mul x y)) (\<lambda>d.
     let d = ring_shl d 1; e = sh_a x + sh_a y; res_a = e - d
     in qbind (reshare (rcodec R) res_a) (\<lambda>res_b. qret (Share res_a res_b)))"

definition ring_arithmetic_xor_many ::
  "('l::len word, 'r, 'w) ring_env \<Rightarrow> 'l ring_share list \<Rightarrow> 'l ring_share list \<Rightarrow> ('w, 'r, 'l ring_share list) prog" where
  "ring_arithmetic_xor_many R x y =
     qbind (qmap (ring_masked R) (map2 local_mul x y)) (\<lambda>ds.
       let a = map (\<lambda>((x, y), d). (sh_a x + sh_a y) - ring_shl d 1) (zip (zip x y) ds)
       in qbind (reshare_many (rcodec R) a) (\<lambda>b. qret (map2 Share a b)))"

subsection \<open>Correctness of the local operations\<close>

lemma ashare_ring_add_public [ashare_intros]:
  "ashare x u \<Longrightarrow> ashare (\<lambda>i. ring_add_public (x i) v i) (u + v)" for x :: "PartyID \<Rightarrow> 'l::len word share"
  by (rule shared_by3I) (auto simp: ring_add_public_def shared_by_def sum3_def)

lemma ashare_ring_sub_shared_by_public [ashare_intros]:
  "ashare x u \<Longrightarrow> ashare (\<lambda>i. ring_sub_shared_by_public (x i) v i) (u - v)" for x :: "PartyID \<Rightarrow> 'l::len word share"
  using ashare_ring_add_public[of x u "- v"] by (simp add: ring_sub_shared_by_public_def)

lemma ashare_ring_sub_public_by_shared [ashare_intros]:
  "ashare x u \<Longrightarrow> ashare (\<lambda>i. ring_sub_public_by_shared v (x i) i) (v - u)" for x :: "PartyID \<Rightarrow> 'l::len word share"
  using ashare_ring_add_public[OF ashare_uminus, of x u v]
  by (simp add: ring_sub_public_by_shared_def add.commute)

lemma ring_promote_eq: "ring_promote_to_trivial_share i v = promote_from_trivial v i"
  by (simp add: ring_promote_to_trivial_share_def promote_from_trivial_def)

lemma ashare_ring_promote [ashare_intros]: "ashare (\<lambda>i. ring_promote_to_trivial_share i v) v"
  by (simp add: ring_promote_eq ashare_promote)

lemma bshare_ring_promote [bshare_intros]: "bshare (\<lambda>i. ring_promote_to_trivial_share i v) v"
  using bits.shared_trivial[of v] by (simp add: ring_promote_eq promote_trivial)

lemma ring_pow_2_public:
  fixes x :: "PartyID \<Rightarrow> 'l::len word share"
  assumes "ashare x u" "unat v < LENGTH('l)" "LENGTH('l) \<le> 2 ^ 64"
  shows "\<exists>z. (\<forall>i. ring_pow_2_public (x i) v = Inr (z i)) \<and> ashare z (u * 2 ^ unat v)"
proof (cases "v = 0")
  case True
  with assms(1) show ?thesis by (intro exI[of _ x]) (simp add: ring_pow_2_public_def)
next
  case False
  have "(push_bit (unat v) 1 :: 'l word) = 2 ^ unat v" by (simp add: push_bit_eq_mult)
  with False assms ashare_scale[OF assms(1), of "2 ^ unat v"] show ?thesis
    by (intro exI[of _ "\<lambda>i. share_scale (x i) (2 ^ unat v)"])
      (simp add: ring_pow_2_public_def ring_mul_public_def ring_shifts)
qed

subsection \<open>Correctness of the interactive operations\<close>

lemma mpc_ring_masked [mpc_rules]:
  fixes v :: "PartyID \<Rightarrow> 'l::len word"
  assumes "\<And>z. sum3 (+) z = sum3 (+) v \<Longrightarrow> Q z"
  shows "mpc (\<lambda>i. ring_masked R (v i)) Q"
  unfolding ring_masked_def draws_draw2
proof (intro mpc_rules assms)
  fix z :: "PartyID \<Rightarrow> 'l word"
  have "sum3 (+) (\<lambda>i. z i - z (prev_id i)) = 0" using arith.masks_cancel[of z] by simp
  then show "sum3 (+) (\<lambda>i. v i + (z i - z (prev_id i))) = sum3 (+) v"
    by (simp only: arith.sum3_add add_0_right)
qed

lemma mpc_ring_masked_many:
  fixes y :: "PartyID \<Rightarrow> 'l::len word list"
  assumes "vec_summing (+) y vs" "\<And>z. vec_summing (+) z vs \<Longrightarrow> Q z"
  shows "mpc (\<lambda>i. qmap (ring_masked R) (y i)) Q"
proof (rule mpc_qmap[where n = "length vs" and R = "\<lambda>k z. sum3 (+) z = vs ! k"])
  fix x k assume "k < length vs" "\<And>i. x i = y i ! k"
  with assms(1) show "mpc (\<lambda>i. ring_masked R (x i)) (\<lambda>z. sum3 (+) z = vs ! k)"
    by (intro mpc_ring_masked) (simp add: vec_summing_def)
qed (use assms in \<open>simp_all add: vec_summing_def\<close>)

lemma mpc_ring_mul [mpc_rules]:
  assumes "lawful_ring R" "ashare x u" "ashare y v" "\<And>z. ashare z (u * v) \<Longrightarrow> Q z"
  shows "mpc (\<lambda>i. ring_mul R (x i) (y i)) Q"
  unfolding ring_mul_def
  by (intro mpc_rules assms shared_by_reshare) (use assms in \<open>simp_all add: sum3_local_mul\<close>)

lemma mpc_ring_reshare_vec [mpc_rules]:
  assumes "lawful_ring R" "vec_summing (+) z vs" "\<And>x. ashares x vs \<Longrightarrow> Q x"
  shows "mpc (\<lambda>i. ring_reshare_vec R (z i)) Q"
  unfolding ring_reshare_vec_def
proof (intro mpc_rules)
  from assms(2) have "length (z (prev_id i)) = length (z i)" for i by (simp add: vec_summing_def)
  then show "mpc (\<lambda>i. if length (z (prev_id i)) \<noteq> length (z i) then qfail InvalidData
      else qret (map2 Share (z i) (z (prev_id i)))) Q"
    by (simp add: mpc_ret assms(3) vec_shared_by_reshare[OF assms(2)])
qed (use assms in simp)

lemma mpc_ring_mul_vec [mpc_rules]:
  assumes "lawful_ring R" "ashares x us" "ashares y vs" "length us = length vs"
    and "\<And>z. ashares z (map2 (*) us vs) \<Longrightarrow> Q z"
  shows "mpc (\<lambda>i. ring_mul_vec R (x i) (y i)) Q"
  unfolding ring_mul_vec_def
  by (rule mpc_bind, rule mpc_ring_masked_many, rule vec_summing_local_mul[OF assms(2-4)])
    (rule mpc_ring_reshare_vec[OF assms(1) _ assms(5)])

lemma mpc_ring_local_mul_vec:
  fixes x y :: "PartyID \<Rightarrow> 'l::len word share list"
  assumes "ashares x us" "ashares y vs" "length us = length vs"
    and "\<And>z. vec_summing (+) z (map2 (*) us vs) \<Longrightarrow> Q z"
  shows "mpc (\<lambda>i. ring_local_mul_vec R (x i) (y i)) Q"
  unfolding ring_local_mul_vec_def draws_draw2 vec_shared_byD(1)[OF assms(1)] vec_shared_byD(1)[OF assms(2)] assms(3)
    not_True_eq_False simp_thms(6) if_False
proof (rule mpc_bind, rule mpc_draw2, rule mpc_ret, rule assms(4))
  fix z :: "PartyID \<Rightarrow> 'l word list"
  assume z: "\<And>i. \<exists>r. z i = fst (draw_n (length vs) (rgen R) r)"
  have len: "length (z i) = length vs" for i using z[of i] by auto
  have "sum3 (+) (\<lambda>i. local_mul (x i ! k) (y i ! k) + (z i ! k - z (prev_id i) ! k)) = us ! k * vs ! k"
    if k: "k < length vs" for k
  proof -
    have "sum3 (+) (\<lambda>i. z i ! k - z (prev_id i) ! k) = 0"
      using arith.masks_cancel[of "\<lambda>i. z i ! k"] by simp
    with sum3_local_mul[OF vec_shared_byD(2)[OF assms(1), of k] vec_shared_byD(2)[OF assms(2) k]] k assms(3)
    show ?thesis by (simp only: arith.sum3_add add_0_right)
  qed
  then show "vec_summing (+) (\<lambda>i. map (\<lambda>((l, r), m). local_mul l r + m)
      (zip (zip (x i) (y i)) (map2 (-) (z i) (z (prev_id i))))) (map2 (*) us vs)"
    using len vec_shared_byD(1)[OF assms(1)] vec_shared_byD(1)[OF assms(2)] assms(3)
    by (simp add: vec_summing_def)
qed

lemma mpc_ring_open [mpc_rules]:
  fixes x :: "PartyID \<Rightarrow> 'l::len word share"
  assumes "lawful_ring R" "ashare x v" "Q (\<lambda>i. v)"
  shows "mpc (\<lambda>i. ring_open R (x i)) Q"
  unfolding ring_open_def
  by (intro mpc_rules) (use assms arith.shared_open[OF assms(2)] in simp_all)

lemma mpc_ring_open_bit [mpc_rules]:
  fixes x :: "PartyID \<Rightarrow> 'l::len word share"
  assumes "lawful_ring R" "bshare x v" "Q (\<lambda>i. v)"
  shows "mpc (\<lambda>i. ring_open_bit R (x i)) Q"
  unfolding ring_open_bit_def
  by (intro mpc_rules) (use assms bits.shared_open[OF assms(2)] in \<open>simp_all add: xor.assoc\<close>)

lemma mpc_ring_open_vec [mpc_rules]:
  fixes x :: "PartyID \<Rightarrow> 'l::len word share list"
  assumes "lawful_ring R" "ashares x vs" "Q (\<lambda>i. vs)"
  shows "mpc (\<lambda>i. ring_open_vec R (x i)) Q"
  unfolding ring_open_vec_def Let_def
  by (intro mpc_rules) (use assms ashares_open[OF assms(2)] in simp_all)

lemma mpc_ring_cmux [mpc_rules]:
  assumes "lawful_ring R" "ashare c w" "ashare t u" "ashare f v" "\<And>z. ashare z (v + w * (u - v)) \<Longrightarrow> Q z"
  shows "mpc (\<lambda>i. ring_cmux R (c i) (t i) (f i)) Q"
  unfolding ring_cmux_def Let_def
  by (intro mpc_rules) (use assms in \<open>auto intro: ashare_intros\<close>)

lemma mpc_ring_cmux_many [mpc_rules]:
  fixes c t f :: "PartyID \<Rightarrow> 'l::len word share list"
  assumes "lawful_ring R" "ashares c ws" "ashares t us" "ashares f vs"
    and "length us = length vs" "length ws = length vs"
    and "\<And>z. ashares z (map2 (+) vs (map2 (*) ws (map2 (-) us vs))) \<Longrightarrow> Q z"
  shows "mpc (\<lambda>i. ring_cmux_many R (c i) (t i) (f i)) Q"
proof -
  have d: "ashares (\<lambda>i. map2 (-) (t i) (f i)) (map2 (-) us vs)"
    by (rule vec_shared_by_map2[OF assms(3,4,5)], rule ashare_diff)
  show ?thesis
    unfolding ring_cmux_many_def Let_def
    by (rule mpc_bind, rule mpc_ring_mul_vec[OF assms(1,2) d], simp add: assms(5,6), rule mpc_ret,
        rule assms(7), rule vec_shared_by_map2[OF assms(4)])
      (simp_all add: assms(5,6) ashare_add)
qed

lemma mpc_ring_mul_open [mpc_rules]:
  assumes "lawful_ring R" "ashare x u" "ashare y v" "Q (\<lambda>i. u * v)"
  shows "mpc (\<lambda>i. ring_mul_open R (x i) (y i)) Q"
  unfolding ring_mul_open_def
proof (intro mpc_rules)
  fix z assume "sum3 (+) z = sum3 (+) (\<lambda>i. local_mul (x i) (y i))"
  then have "z i + z (prev_id i) + z (next_id i) = u * v" for i
    using arith.sum3_rotate sum3_local_mul[OF assms(2,3)] by metis
  then show "mpc (\<lambda>i. case (z (prev_id i), z (next_id i)) of (b, c) \<Rightarrow> qret (z i + b + c)) Q"
    by (simp add: mpc_ret assms(4))
qed (use assms in simp)

lemma mpc_ring_mul_open_vec [mpc_rules]:
  assumes "lawful_ring R" "ashares x us" "ashares y vs" "length us = length vs" "Q (\<lambda>i. map2 (*) us vs)"
  shows "mpc (\<lambda>i. ring_mul_open_vec R (x i) (y i)) Q"
  unfolding ring_mul_open_vec_def
proof (rule mpc_bind, rule mpc_ring_masked_many, rule vec_summing_local_mul[OF assms(2-4)],
    rule mpc_bind, rule mpc_broadcast_many)
  fix z assume z: "vec_summing (+) z (map2 (*) us vs)"
  from vec_summing_open[OF z] assms(5) show "mpc (\<lambda>i. case (z (prev_id i), z (next_id i)) of (b, c) \<Rightarrow>
      qret (map (\<lambda>(a, b, c). a + (b + c)) (zip (z i) (zip b c)) @ drop (min (length b) (length c)) (z i))) Q"
    by (simp add: mpc_ret)
qed (use assms in simp)

lemma mpc_ring_rand [mpc_rules]:
  fixes R :: "('l::len word, 'r, 'w) ring_env"
  assumes "\<And>z v. ashare z v \<Longrightarrow> Q z"
  shows "mpc (\<lambda>i. ring_rand R) Q"
  unfolding ring_rand_def draws_draw2
  by (intro mpc_rules) (auto intro!: mpc_ret assms[OF shared_by_reshare[OF refl]])

lemma ring_shl_1: "ring_shl d 1 = d + d"
  by (simp only: ring_shifts push_bit_eq_mult power_one_right mult_2_right)

lemma mpc_ring_arithmetic_xor [mpc_rules]:
  fixes x y :: "PartyID \<Rightarrow> 'l::len word share"
  assumes "lawful_ring R" "ashare x u" "ashare y v" "\<And>z. ashare z (u + v - 2 * u * v) \<Longrightarrow> Q z"
  shows "mpc (\<lambda>i. ring_arithmetic_xor R (x i) (y i)) Q"
  unfolding ring_arithmetic_xor_def Let_def ring_shl_1
proof (intro mpc_rules assms shared_by_reshare)
  fix z :: "PartyID \<Rightarrow> 'l word" assume "sum3 (+) z = sum3 (+) (\<lambda>i. local_mul (x i) (y i))"
  then show "sum3 (+) (\<lambda>i. sh_a (x i) + sh_a (y i) - (z i + z i)) = u + v - 2 * u * v"
    using sum3_local_mul[OF assms(2,3)] by (intro sum3_arithmetic_xor[OF assms(2,3)]) simp
qed (use assms in simp)

lemma mpc_ring_arithmetic_xor_many [mpc_rules]:
  fixes x y :: "PartyID \<Rightarrow> 'l::len word share list"
  assumes "lawful_ring R" "ashares x us" "ashares y vs" "length us = length vs"
    and "\<And>z. ashares z (map2 (\<lambda>u v. u + v - 2 * u * v) us vs) \<Longrightarrow> Q z"
  shows "mpc (\<lambda>i. ring_arithmetic_xor_many R (x i) (y i)) Q"
  unfolding ring_arithmetic_xor_many_def Let_def ring_shl_1
  by (rule mpc_bind, rule mpc_ring_masked_many, rule vec_summing_local_mul[OF assms(2-4)], rule mpc_bind,
      rule mpc_reshare_many, use assms(1) in simp, rule mpc_ret, rule assms(5), rule vec_shared_by_reshare,
      erule vec_summing_arithmetic_xor[OF assms(2-4)])

text \<open>As in the field, the exponentiation multiplies by the last square once more.\<close>

lemma mpc_ring_pow_loop:
  assumes "lawful_ring R" "ashare res a" "ashare x u"
    and "\<And>r y. ashare r (a * u ^ unat v) \<Longrightarrow> ashare y (u ^ 2 ^ bit_count (unat v)) \<Longrightarrow> Q (\<lambda>i. (r i, y i))"
  shows "mpc (\<lambda>i. ring_pow_loop R v (res i) (x i)) Q"
  using assms(2-4)
proof (induction "unat v" arbitrary: v res x a u rule: less_induct)
  case less
  show ?case
  proof (cases "v = 0")
    case True
    with less.prems show ?thesis
      by (subst ring_pow_loop.simps) (simp add: mpc_ret bit_count.simps[of 0])
  next
    case False
    let ?w = "ring_shr (if ring_get_bit v 0 = 1 then v - 1 else v) 1"
    have odd: "(ring_get_bit v 0 = 1) = odd (unat v)"
      using ring_get_bit[of 0 v] bit_unsigned_iff[of v 0, where 'a = nat] by (simp add: bit_0)
    have w: "unat ?w = unat v div 2"
      unfolding unat_shr_1 using False odd by (auto simp: unat_minus_one elim!: oddE)
    then have lt: "unat ?w < unat v" using False unat_eq_zero[of v] by simp
    have count: "bit_count (unat v) = Suc (bit_count (unat ?w))"
      unfolding w using False unat_eq_zero[of v] by (subst bit_count.simps) simp
    define n where "n = unat v"
    define a' where "a' = (if odd n then a * u else a)"
    have pow: "a' * (u * u) ^ (n div 2) = a * u ^ n"
      by (cases "odd n") (auto elim!: evenE oddE simp: a'_def power_mult_distrib mult_2 power_add mult.assoc)
    have step: "mpc (\<lambda>i. if ring_get_bit v 0 = 1 then ring_mul R (res i) (x i) else qret (res i)) (\<lambda>z. ashare z a')"
      unfolding odd a'_def n_def using less.prems(1,2) assms(1) by (auto intro: mpc_ret mpc_ring_mul)
    show ?thesis
      unfolding ring_pow_loop.simps[of R v] if_not_P[OF False]
    proof (rule mpc_bind, rule mpc_consequence[OF step], rule mpc_bind,
        rule mpc_ring_mul[OF assms(1) less.prems(2,2)], rule less.hyps[OF lt], assumption, assumption)
      fix r y assume r: "ashare r (a' * (u * u) ^ unat ?w)" and y: "ashare y ((u * u) ^ 2 ^ bit_count (unat ?w))"
      have "(u * u) ^ 2 ^ bit_count (unat ?w) = u ^ 2 ^ bit_count (unat v)"
        by (simp only: count power_Suc power_mult power2_eq_square)
      with y less.prems(3)[OF r[unfolded w, folded n_def, unfolded pow, unfolded n_def]]
      show "Q (\<lambda>i. (r i, y i))" by simp
    qed
  qed
qed

lemma mpc_ring_pow_public:
  assumes "lawful_ring R" "ashare x u" "\<And>z. ashare z (u ^ (unat v + 2 ^ bit_count (unat v))) \<Longrightarrow> Q z"
  shows "mpc (\<lambda>i. ring_pow_public R (x i) v) Q"
  unfolding ring_pow_public_def
  by (rule mpc_bind, rule mpc_get_id, rule mpc_bind,
      rule mpc_ring_pow_loop[OF assms(1) ashare_ring_promote assms(2)])
    (auto intro!: mpc_ring_mul[OF assms(1)] assms(3) simp: power_add)

subsection \<open>Properties\<close>

definition ex_ring :: "('l::len word, nat, wire) ring_env" where
  "ex_ring = \<lparr>rgen = \<lambda>r. (of_nat r, r + 1),
     rcodec = tag_codec (\<lambda>xs. WBig (map unat xs)) (\<lambda>w. case w of WBig ns \<Rightarrow> Some (map of_nat ns) | _ \<Rightarrow> None),
     r2codec = tag_codec (\<lambda>xs. WBig2 (map (map_prod unat unat) xs))
       (\<lambda>w. case w of WBig2 ns \<Rightarrow> Some (map (map_prod of_nat of_nat) ns) | _ \<Rightarrow> None),
     rv2codec = tag_codec (\<lambda>xs. WBigs2 (map (map_prod (map unat) (map unat)) xs))
       (\<lambda>w. case w of WBigs2 ns \<Rightarrow> Some (map (map_prod (map of_nat) (map of_nat)) ns) | _ \<Rightarrow> None)\<rparr>"

lemma ex_ring_lawful: "lawful_ring ex_ring"
  by (simp add: lawful_ring_def ex_ring_def lawful_tag_codec comp_def map_prod_def split_beta)

text \<open>
  (C19) Multiplication of shared ring elements of any width \<open>T::K\<close>, single and batched: the parties
  obtain a sharing of the product, with wrap-around modulo \<open>2 ^ K\<close>.
\<close>

theorem ring_mul_correct:
  fixes R :: "('l::len word, 'r, 'w) ring_env"
  assumes "lawful_ring R" "ashares x us" "ashares y vs" "length us = length vs" "ashare a u" "ashare b v"
  shows "mpc (\<lambda>i. ring_mul R (a i) (b i)) (\<lambda>z. ashare z (u * v)) \<and>
     mpc (\<lambda>i. ring_mul_vec R (x i) (y i)) (\<lambda>z. ashares z (map2 (*) us vs))"
  by (intro conjI) (rule mpc_ring_mul[OF assms(1,5,6)] mpc_ring_mul_vec[OF assms(1-4)], assumption)+

lemma word_numeral: "(400 :: 8 word) = 144"
  by simp

theorem ring_mul_correct_witness:
  "mpc (\<lambda>i. ring_mul ex_ring (dealt 100 50 50 i) (dealt 1 1 0 i)) (\<lambda>z. ashare z (144 :: 8 word))"
  using ring_mul_correct[OF ex_ring_lawful dealt_list(2) dealt_list(2) refl
      dealt_ashare[of 100 50 50 "200 :: 8 word"] dealt_ashare[of 1 1 0 2]] word_numeral
  by simp

text \<open>
  (C39) \<open>pow_public\<close> over the rings has the same final multiplication as over the field: for the
  exponent \<open>e\<close> it returns a sharing of \<open>x ^ (e + 2 ^ k)\<close>, \<open>k\<close> the number of binary digits
  of \<open>e\<close>.
\<close>

theorem ring_pow_public_exponent:
  fixes R :: "('l::len word, 'r, 'w) ring_env"
  assumes "lawful_ring R" "ashare x u"
  shows "mpc (\<lambda>i. ring_pow_public R (x i) v) (\<lambda>z. ashare z (u ^ (unat v + 2 ^ bit_count (unat v))))"
  using assms by (rule mpc_ring_pow_public)

theorem ring_pow_public_exponent_witness:
  "mpc (\<lambda>i. ring_pow_public ex_ring (dealt 1 1 0 i) 1) (\<lambda>z. ashare z (8 :: 8 word)) \<and> (2 :: 8 word) ^ 1 \<noteq> 8"
  using ring_pow_public_exponent[OF ex_ring_lawful dealt_ashare[of 1 1 0 "2 :: 8 word"], of 1]
  by (simp add: bit_count.simps)

end
