(* ===== verification/Ring_Binary.thy ===== *)
theory Ring_Binary
  imports Ring_Arithmetic Rep3_Binary
begin

text \<open>
  Bitwise operations on binary shared ring elements, \<open>rep3_ring/binary.rs\<close>.  The zero test halves
  the width in every round; as the code's debug assertion says, it is meant for widths that
  are powers of two.
\<close>

subsection \<open>Local operations\<close>

definition ring_share_shl :: "'l::len ring_share \<Rightarrow> nat \<Rightarrow> 'l ring_share" where
  "ring_share_shl x n = Share (ring_shl (sh_a x) n) (ring_shl (sh_b x) n)"

definition ring_share_shr :: "'l::len ring_share \<Rightarrow> nat \<Rightarrow> 'l ring_share" where
  "ring_share_shr x n = Share (ring_shr (sh_a x) n) (ring_shr (sh_b x) n)"

definition ring_xor_public :: "'l::len ring_share \<Rightarrow> 'l word \<Rightarrow> PartyID \<Rightarrow> 'l ring_share" where
  "ring_xor_public x v i =
     (case i of ID0 \<Rightarrow> Share (sh_a x XOR v) (sh_b x) | ID1 \<Rightarrow> Share (sh_a x) (sh_b x XOR v) | ID2 \<Rightarrow> x)"

definition ring_or_public :: "'l::len ring_share \<Rightarrow> 'l word \<Rightarrow> PartyID \<Rightarrow> 'l ring_share" where
  "ring_or_public x v i =
     (let tmp = bin_and_public x v; xor = ring_xor_public x v i in bin_xor xor tmp)"

definition ring_and_with_public :: "'l::len ring_share \<Rightarrow> 'l word \<Rightarrow> 'l ring_share" where
  "ring_and_with_public x v = bin_and_public x v"

definition ring_shift_r_public :: "'l::len ring_share \<Rightarrow> 'l word \<Rightarrow> io_error + 'l ring_share" where
  "ring_shift_r_public x v =
     (if v = 0 then Inr x
      else if unat v \<ge> 2 ^ 64 then Inl Panic
      else Inr (ring_share_shr x (unat v)))"

definition ring_shift_l_public :: "'l::len ring_share \<Rightarrow> 'l word \<Rightarrow> io_error + 'l ring_share" where
  "ring_shift_l_public x v =
     (if v = 0 then Inr x
      else if unat v \<ge> 2 ^ 64 then Inl Panic
      else Inr (ring_share_shl x (unat v)))"

definition ring_bin_promote_to_trivial_share :: "PartyID \<Rightarrow> 'l::len word \<Rightarrow> 'l ring_share" where
  "ring_bin_promote_to_trivial_share i v =
     (case i of ID0 \<Rightarrow> Share v 0 | ID1 \<Rightarrow> Share 0 v | ID2 \<Rightarrow> Share 0 0)"

text \<open>Packing more bits than the type has shifts a primitive integer by its width, a panic.\<close>

definition pack_bits :: "bit_share list \<Rightarrow> io_error + 'l::len ring_share" where
  "pack_bits input =
     (if length input > LENGTH('l) then Inl Panic
      else Inr (foldl (\<lambda>acc (i, b).
        Share (sh_a acc OR push_bit i (of_bool (sh_a b = 1))) (sh_b acc OR push_bit i (of_bool (sh_b b = 1))))
        (Share 0 0) (enumerate 0 input)))"

definition pack_bits_many :: "bit_share list list \<Rightarrow> (io_error + 'l::len ring_share) list" where
  "pack_bits_many inputs = map pack_bits inputs"

definition unpack_bits :: "'l::len ring_share \<Rightarrow> nat \<Rightarrow> bit_share list" where
  "unpack_bits x len = map (share_get_bit x) [0..<len]"

definition unpack_bits_many :: "'l::len word list \<Rightarrow> 'l word list \<Rightarrow> nat \<Rightarrow> bit_share list list" where
  "unpack_bits_many input_a input_b len = map2 (\<lambda>a b. unpack_bits (Share a b) len) input_a input_b"

subsection \<open>Interactive operations\<close>

definition ring_xor_masked ::
  "('l::len word, 'r, 'w) ring_env \<Rightarrow> 'l word \<Rightarrow> ('w, 'r, 'l word) prog" where
  "ring_xor_masked R v =
     qbind (with_rand (random_elements (rgen R))) (\<lambda>(m, m_b). qret (v XOR (m XOR m_b)))"

definition ring_and ::
  "('l::len word, 'r, 'w) ring_env \<Rightarrow> 'l ring_share \<Rightarrow> 'l ring_share \<Rightarrow> ('w, 'r, 'l ring_share) prog" where
  "ring_and R a b = qbind (ring_xor_masked R (local_and a b)) (\<lambda>local_a.
     qbind (reshare (rcodec R) local_a) (\<lambda>local_b. qret (Share local_a local_b)))"

definition ring_and_many ::
  "('l::len word, 'r, 'w) ring_env \<Rightarrow> 'l ring_share list \<Rightarrow> 'l ring_share list \<Rightarrow>
   ('w, 'r, 'l ring_share list) prog" where
  "ring_and_many R a b = qbind (qmap (ring_xor_masked R) (map2 local_and a b)) (\<lambda>local_a.
     qbind (reshare_many (rcodec R) local_a) (\<lambda>local_b. qret (map2 Share local_a local_b)))"

definition ring_or ::
  "('l::len word, 'r, 'w) ring_env \<Rightarrow> 'l ring_share \<Rightarrow> 'l ring_share \<Rightarrow> ('w, 'r, 'l ring_share) prog" where
  "ring_or R a b = (let xor = bin_xor a b in qbind (ring_and R a b) (\<lambda>conj. qret (bin_xor xor conj)))"

definition ring_or_many ::
  "('l::len word, 'r, 'w) ring_env \<Rightarrow> 'l ring_share list \<Rightarrow> 'l ring_share list \<Rightarrow>
   ('w, 'r, 'l ring_share list) prog" where
  "ring_or_many R a b =
     (let xor = map2 bin_xor a b
      in qbind (ring_and_many R a b) (\<lambda>conj. qret (map2 bin_xor xor conj)))"

definition ring_bin_open :: "('l::len word, 'r, 'w) ring_env \<Rightarrow> 'l ring_share \<Rightarrow> ('w, 'r, 'l word) prog" where
  "ring_bin_open R a = qbind (reshare (rcodec R) (sh_b a)) (\<lambda>c. qret (sh_a a XOR sh_b a XOR c))"

definition ring_bin_open_vec ::
  "('l::len word, 'r, 'w) ring_env \<Rightarrow> 'l ring_share list \<Rightarrow> ('w, 'r, 'l word list) prog" where
  "ring_bin_open_vec R a = qbind (reshare_many (rcodec R) (map sh_b a)) (\<lambda>c.
     qret (map2 (\<lambda>a c. sh_a a XOR sh_b a XOR c) a c))"

definition ring_bin_cmux ::
  "('l::len word, 'r, 'w) ring_env \<Rightarrow> 'l ring_share \<Rightarrow> 'l ring_share \<Rightarrow> 'l ring_share \<Rightarrow>
   ('w, 'r, 'l ring_share) prog" where
  "ring_bin_cmux R c x_t x_f =
     (let xor = bin_xor x_f x_t in qbind (ring_and R c xor) (\<lambda>conj. qret (bin_xor conj x_f)))"

definition ring_bin_cmux_many ::
  "('l::len word, 'r, 'w) ring_env \<Rightarrow> 'l ring_share list \<Rightarrow> 'l ring_share list \<Rightarrow> 'l ring_share list \<Rightarrow>
   ('w, 'r, 'l ring_share list) prog" where
  "ring_bin_cmux_many R c x_t x_f =
     (let xor = map2 bin_xor x_f x_t
      in qbind (ring_and_many R c xor) (\<lambda>conj. qret (zip_update bin_xor conj x_f)))"

definition ring_or_tree ::
  "('l::len word, 'r, 'w) ring_env \<Rightarrow> 'l ring_share list \<Rightarrow> ('w, 'r, 'l ring_share) prog" where
  "ring_or_tree R inputs = qbind (reduce_tree (ring_or R) (length inputs) inputs) (\<lambda>inputs.
     case inputs of [] \<Rightarrow> qfail Panic | x # _ \<Rightarrow> qret x)"

function ring_and_tree ::
  "('l::len word, 'r, 'w) ring_env \<Rightarrow> nat \<Rightarrow> 'l ring_share \<Rightarrow> ('w, 'r, 'l ring_share) prog" where
  "ring_and_tree R len x =
     (if len > 1 then
        let len = len div 2; m = ring_shl 1 len - 1; y = ring_share_shr x len
        in qbind (ring_and R (bin_and_public x m) (bin_and_public y m)) (ring_and_tree R len)
      else qret x)"
  by auto
termination by (relation "measure (\<lambda>(R, len, x). len)") auto

declare ring_and_tree.simps [simp del]

definition extract_lsb :: "'l::len ring_share \<Rightarrow> bit_share" where
  "extract_lsb x = Share (of_bool (sh_a x AND 1 = 1)) (of_bool (sh_b x AND 1 = 1))"

definition ring_bin_is_zero :: "('l::len word, 'r, 'w) ring_env \<Rightarrow> 'l ring_share \<Rightarrow> ('w, 'r, bit_share) prog" where
  "ring_bin_is_zero R x =
     (let x = ring_share_not x
      in qbind (ring_and_tree R LENGTH('l) x) (\<lambda>x. qret (extract_lsb x)))"

function ring_and_tree_many ::
  "('l::len word, 'r, 'w) ring_env \<Rightarrow> nat \<Rightarrow> 'l ring_share list \<Rightarrow> ('w, 'r, 'l ring_share list) prog" where
  "ring_and_tree_many R len x =
     (if len > 1 then
        let len = len div 2; m = ring_shl 1 len - 1;
            a = map (\<lambda>s. bin_and_public s m) x;
            b = map (\<lambda>s. bin_and_public (ring_share_shr s len) m) x
        in qbind (ring_and_many R a b) (ring_and_tree_many R len)
      else qret x)"
  by auto
termination by (relation "measure (\<lambda>(R, len, x). len)") auto

declare ring_and_tree_many.simps [simp del]

definition ring_bin_is_zero_many ::
  "('l::len word, 'r, 'w) ring_env \<Rightarrow> 'l ring_share list \<Rightarrow> ('w, 'r, bit_share list) prog" where
  "ring_bin_is_zero_many R x =
     (let x = map ring_share_not x
      in qbind (ring_and_tree_many R LENGTH('l) x) (\<lambda>x. qret (map extract_lsb x)))"

subsection \<open>Correctness of the local operations\<close>

lemma ring_share_shifts: "ring_share_shl x n = bin_shl x n" "ring_share_shr x n = bin_shr x n"
  by (simp_all add: ring_share_shl_def ring_share_shr_def bin_shl_def bin_shr_def ring_shifts)

lemma ring_xor_public_eq: "ring_xor_public = bin_xor_public"
  by (simp add: fun_eq_iff ring_xor_public_def bin_xor_public_def)

lemma bshare_ring_xor_public [bshare_intros]:
  "bshare x u \<Longrightarrow> bshare (\<lambda>i. ring_xor_public (x i) v i) (u XOR v)"
  by (simp add: ring_xor_public_eq bshare_xor_public)

lemma bshare_ring_or_public [bshare_intros]:
  "bshare x u \<Longrightarrow> bshare (\<lambda>i. ring_or_public (x i) v i) (u OR v)"
  using bshare_or_public[of x u v] by (simp add: ring_or_public_def bin_or_public_def ring_xor_public_eq)

lemma bshare_ring_shl [bshare_intros]: "bshare x u \<Longrightarrow> bshare (\<lambda>i. ring_share_shl (x i) n) (push_bit n u)"
  by (simp add: ring_share_shifts bshare_shl)

lemma bshare_ring_shr [bshare_intros]: "bshare x u \<Longrightarrow> bshare (\<lambda>i. ring_share_shr (x i) n) (drop_bit n u)"
  by (simp add: ring_share_shifts bshare_shr)

lemma bshare_ring_bin_promote [bshare_intros]: "bshare (\<lambda>i. ring_bin_promote_to_trivial_share i v) v"
  using bshare_ring_promote[of v]
  by (simp add: ring_bin_promote_to_trivial_share_def ring_promote_to_trivial_share_def)

lemma extract_lsb: "extract_lsb x = share_get_bit x 0"
  by (simp add: extract_lsb_def share_get_bit_def ring_get_bit_def)

text \<open>Packing and unpacking bits, on the values.\<close>

definition bits_word :: "1 word list \<Rightarrow> 'l::len word" where
  "bits_word bs = foldl (\<lambda>acc (i, b). acc OR push_bit i (of_bool (b = 1))) 0 (enumerate 0 bs)"

lemma bit_bits_word:
  "bit (bits_word bs :: 'l::len word) k \<longleftrightarrow> k < LENGTH('l) \<and> k < length bs \<and> bs ! k = 1"
proof (induction bs rule: rev_induct)
  case Nil
  then show ?case by (simp add: bits_word_def)
next
  case (snoc b bs)
  have "bits_word (bs @ [b]) = (bits_word bs OR push_bit (length bs) (of_bool (b = 1)) :: 'l word)"
    by (simp add: bits_word_def enumerate_append_eq)
  with snoc show ?case
    by (auto simp: bit_simps nth_append less_Suc_eq split: if_splits)
qed

lemma pack_bits_eq:
  assumes "length input \<le> LENGTH('l::len)"
  shows "(pack_bits input :: io_error + 'l ring_share) =
     Inr (Share (bits_word (map sh_a input)) (bits_word (map sh_b input)))"
proof -
  have "foldl (\<lambda>acc (i, b). Share (sh_a acc OR push_bit i (of_bool (sh_a b = 1))) (sh_b acc OR push_bit i (of_bool (sh_b b = 1))))
      (Share 0 0) (enumerate 0 input) = (Share (bits_word (map sh_a input)) (bits_word (map sh_b input)) :: 'l ring_share)"
    by (induction input rule: rev_induct) (simp_all add: bits_word_def enumerate_append_eq)
  with assms show ?thesis by (simp add: pack_bits_def)
qed

lemma xor_one_bit: "((a XOR b) = (1 :: 1 word)) = ((a = 1) \<noteq> (b = 1))"
  using word1_cases[of a] word1_cases[of b] by auto

lemma bshare_pack_bits:
  assumes "bshares x us" "length us \<le> LENGTH('l::len)"
  shows "\<exists>z. (\<forall>i. pack_bits (x i) = Inr (z i)) \<and> bshare z (bits_word us :: 'l word)"
proof (intro exI[of _ "\<lambda>i. Share (bits_word (map sh_a (x i))) (bits_word (map sh_b (x i)))"] conjI allI)
  note len = vec_shared_byD(1)[OF assms(1)]
  have x: "sh_b (x i ! k) = sh_a (x (prev_id i) ! k)"
    "us ! k = (sh_a (x ID0 ! k) XOR sh_a (x ID1 ! k)) XOR sh_a (x ID2 ! k)" if "k < length us" for i k
    using vec_shared_byD(2)[OF assms(1) that] by (auto simp: shared_by_def sum3_def)
  show "pack_bits (x i) = Inr (Share (bits_word (map sh_a (x i)) :: 'l word) (bits_word (map sh_b (x i))))" for i
    by (rule pack_bits_eq) (simp add: len assms(2))
  show "bshare (\<lambda>i. Share (bits_word (map sh_a (x i))) (bits_word (map sh_b (x i)))) (bits_word us :: 'l word)"
    by (rule shared_byI) (auto intro!: bit_word_eqI simp: bit_bits_word bit_xor_iff len x xor_one_bit)
qed

lemma bshares_unpack_bits:
  fixes x :: "PartyID \<Rightarrow> 'l::len ring_share"
  assumes "bshare x u" "n \<le> LENGTH('l)"
  shows "bshares (\<lambda>i. unpack_bits (x i) n) (map (\<lambda>k. of_bool (bit u k)) [0..<n])"
  using assms bshare_get_bit[OF assms(1)] by (simp add: vec_shared_by_def unpack_bits_def)

lemma unpack_pack_bits:
  assumes "pack_bits input = Inr (z :: 'l::len ring_share)"
  shows "unpack_bits z (length input) = input"
proof -
  from assms have len: "length input \<le> LENGTH('l)" by (auto simp: pack_bits_def split: if_splits)
  with assms have z: "z = Share (bits_word (map sh_a input)) (bits_word (map sh_b input))"
    by (simp add: pack_bits_eq)
  have one: "(of_bool (b = 1) :: 1 word) = b" for b using word1_cases[of b] by auto
  show ?thesis
    by (rule nth_equalityI)
      (use len in \<open>simp_all add: unpack_bits_def z share_get_bit_def ring_get_bit bit_bits_word one share_eqI\<close>)
qed

subsection \<open>Correctness of the interactive operations\<close>

lemma mpc_ring_xor_masked [mpc_rules]:
  fixes v :: "PartyID \<Rightarrow> 'l::len word"
  assumes "\<And>z. sum3 (XOR) z = sum3 (XOR) v \<Longrightarrow> Q z"
  shows "mpc (\<lambda>i. ring_xor_masked R (v i)) Q"
  unfolding ring_xor_masked_def draws_draw2
proof (intro mpc_rules)
  fix z :: "PartyID \<Rightarrow> 'l word"
  have "sum3 (XOR) (\<lambda>i. z i XOR z (prev_id i)) = 0"
    by (simp add: sum3_def ac_simps)
  then have "sum3 (XOR) (\<lambda>i. v i XOR (z i XOR z (prev_id i))) = sum3 (XOR) v"
    by (simp only: bits.sum3_add xor_zero)
  then show "mpc (\<lambda>i. case (z i, z (prev_id i)) of (m, m_b) \<Rightarrow> qret (v i XOR (m XOR m_b))) Q"
    by (simp add: mpc_ret assms)
qed

lemma mpc_ring_xor_masked_many:
  fixes y :: "PartyID \<Rightarrow> 'l::len word list"
  assumes "vec_summing (XOR) y vs" "\<And>z. vec_summing (XOR) z vs \<Longrightarrow> Q z"
  shows "mpc (\<lambda>i. qmap (ring_xor_masked R) (y i)) Q"
proof (rule mpc_qmap[where n = "length vs" and R = "\<lambda>k z. sum3 (XOR) z = vs ! k"])
  fix x k assume "k < length vs" "\<And>i. x i = y i ! k"
  with assms(1) show "mpc (\<lambda>i. ring_xor_masked R (x i)) (\<lambda>z. sum3 (XOR) z = vs ! k)"
    by (intro mpc_ring_xor_masked) (simp add: vec_summing_def)
qed (use assms in \<open>simp_all add: vec_summing_def\<close>)

lemma mpc_ring_and [mpc_rules]:
  assumes "lawful_ring R" "bshare x u" "bshare y v" "\<And>z. bshare z (u AND v) \<Longrightarrow> Q z"
  shows "mpc (\<lambda>i. ring_and R (x i) (y i)) Q"
  unfolding ring_and_def
  by (intro mpc_rules assms shared_by_reshare) (use assms in \<open>simp_all add: sum3_local_and\<close>)

lemma ring_vec_summing_local_and:
  fixes x y :: "PartyID \<Rightarrow> 'l::len word share list"
  assumes "bshares x us" "bshares y vs" "length us = length vs"
  shows "vec_summing (XOR) (\<lambda>i. map2 local_and (x i) (y i)) (map2 (AND) us vs)"
  using assms sum3_local_and by (fastforce simp: vec_summing_def vec_shared_by_def)

lemma mpc_ring_and_many [mpc_rules]:
  assumes "lawful_ring R" "bshares x us" "bshares y vs" "length us = length vs"
    and "\<And>z. bshares z (map2 (AND) us vs) \<Longrightarrow> Q z"
  shows "mpc (\<lambda>i. ring_and_many R (x i) (y i)) Q"
  unfolding ring_and_many_def
  by (rule mpc_bind, rule mpc_ring_xor_masked_many, rule ring_vec_summing_local_and[OF assms(2-4)],
      rule mpc_bind, rule mpc_reshare_many)
    (use assms in \<open>auto intro!: mpc_ret vec_shared_by_reshare\<close>)

lemma mpc_ring_or [mpc_rules]:
  assumes "lawful_ring R" "bshare x u" "bshare y v" "\<And>z. bshare z (u OR v) \<Longrightarrow> Q z"
  shows "mpc (\<lambda>i. ring_or R (x i) (y i)) Q"
  unfolding ring_or_def Let_def
  by (rule mpc_bind, rule mpc_ring_and[OF assms(1-3)], rule mpc_ret, rule assms(4))
    (use bshare_xor[OF bshare_xor[OF assms(2,3)]] in \<open>simp add: xor_or_and[symmetric]\<close>)

lemma mpc_ring_or_many [mpc_rules]:
  fixes R :: "('l::len word, 'r, 'w) ring_env"
  assumes "lawful_ring R" "bshares x us" "bshares y vs" "length us = length vs"
    and "\<And>z. bshares z (map2 (OR) us vs) \<Longrightarrow> Q z"
  shows "mpc (\<lambda>i. ring_or_many R (x i) (y i)) Q"
  unfolding ring_or_many_def Let_def
proof (rule mpc_bind, rule mpc_ring_and_many[OF assms(1-4)], rule mpc_ret, rule assms(5))
  fix z assume z: "bshares z (map2 (AND) us vs)"
  have "bshares (\<lambda>i. map2 bin_xor (map2 bin_xor (x i) (y i)) (z i))
      (map2 (XOR) (map2 (XOR) us vs) (map2 (AND) us vs))"
    by (rule vec_shared_by_map2[OF vec_shared_by_map2[OF assms(2-4)] z])
      (use assms(4) in \<open>auto intro: bshare_xor\<close>)
  moreover have "map2 (XOR) (map2 (XOR) us vs) (map2 (AND) us vs) = map2 (OR) us vs"
    using assms(4) by (auto simp: xor_or_and intro!: nth_equalityI)
  ultimately show "bshares (\<lambda>i. map2 bin_xor (map2 bin_xor (x i) (y i)) (z i)) (map2 (OR) us vs)" by simp
qed

lemma mpc_ring_bin_open [mpc_rules]:
  assumes "lawful_ring R" "bshare x v" "Q (\<lambda>i. v)"
  shows "mpc (\<lambda>i. ring_bin_open R (x i)) Q"
  unfolding ring_bin_open_def
  by (intro mpc_rules) (use assms bits.shared_open[OF assms(2)] in \<open>simp_all add: xor.assoc\<close>)

lemma mpc_ring_bin_open_vec [mpc_rules]:
  fixes R :: "('l::len word, 'r, 'w) ring_env"
  assumes "lawful_ring R" "bshares x vs" "Q (\<lambda>i. vs)"
  shows "mpc (\<lambda>i. ring_bin_open_vec R (x i)) Q"
  unfolding ring_bin_open_vec_def
proof (rule mpc_bind, rule mpc_reshare_many, use assms(1) in simp, rule mpc_ret)
  have "map2 (\<lambda>a c. sh_a a XOR sh_b a XOR c) (x i) (map sh_b (x (prev_id i))) = vs" for i
    using vec_shared_byD(1)[OF assms(2)] bits.shared_open[OF vec_shared_byD(2)[OF assms(2)]]
    by (auto simp: xor.assoc intro!: nth_equalityI)
  with assms(3) show "Q (\<lambda>i. map2 (\<lambda>a c. sh_a a XOR sh_b a XOR c) (x i) (map sh_b (x (prev_id i))))" by simp
qed

lemma mpc_ring_bin_cmux [mpc_rules]:
  assumes "lawful_ring R" "bshare c w" "bshare t u" "bshare f v"
    and "\<And>z. bshare z ((w AND (v XOR u)) XOR v) \<Longrightarrow> Q z"
  shows "mpc (\<lambda>i. ring_bin_cmux R (c i) (t i) (f i)) Q"
  unfolding ring_bin_cmux_def Let_def
  by (rule mpc_bind, rule mpc_ring_and[OF assms(1,2) bshare_xor[OF assms(4,3)]], rule mpc_ret,
      rule assms(5), rule bshare_xor[OF _ assms(4)])

lemma mpc_ring_bin_cmux_many [mpc_rules]:
  fixes R :: "('l::len word, 'r, 'w) ring_env"
  assumes "lawful_ring R" "bshares c ws" "bshares t us" "bshares f vs"
    and "length us = length vs" "length ws = length vs"
    and "\<And>z. bshares z (map2 (XOR) (map2 (AND) ws (map2 (XOR) vs us)) vs) \<Longrightarrow> Q z"
  shows "mpc (\<lambda>i. ring_bin_cmux_many R (c i) (t i) (f i)) Q"
  unfolding ring_bin_cmux_many_def Let_def
proof (rule mpc_bind, rule mpc_ring_and_many[OF assms(1,2) vec_shared_by_map2[OF assms(4,3)]])
  fix z assume z: "bshares z (map2 (AND) ws (map2 (XOR) vs us))"
  have "bshares (\<lambda>i. map2 bin_xor (z i) (f i)) (map2 (XOR) (map2 (AND) ws (map2 (XOR) vs us)) vs)"
    by (rule vec_shared_by_map2[OF z assms(4)]) (simp_all add: assms(5,6) bshare_xor)
  moreover have "length (z i) = length (f i)" for i
    using vec_shared_byD(1)[OF z, of i] vec_shared_byD(1)[OF assms(4), of i] assms(5,6) by simp
  ultimately show "mpc (\<lambda>i. qret (zip_update bin_xor (z i) (f i))) Q"
    by (simp add: mpc_ret assms(7))
qed (use assms(5,6) in \<open>simp_all add: bshare_xor\<close>)

interpretation ring_or_reduce: reduction lawful_ring ring_or "(XOR)" "(OR)" "0 :: 'l::len word"
  by unfold_locales (rule mpc_ring_or, assumption+, simp_all add: ac_simps)

lemma mpc_ring_or_tree [mpc_rules]:
  fixes R :: "('l::len word, 'r, 'w) ring_env"
  assumes "lawful_ring R" "bshares xs vs" "vs \<noteq> []" "\<And>z. bshare z (foldr (OR) vs 0) \<Longrightarrow> Q z"
  shows "mpc (\<lambda>i. ring_or_tree R (xs i)) Q"
  unfolding ring_or_tree_def
  by (rule ring_or_reduce.mpc_tree[OF assms(1-3)]) (simp add: assms(4) ring_or_reduce.joins_def)

subsubsection \<open>The zero test\<close>

lemma ring_mask: "ring_shl 1 n - 1 = (mask n :: 'l::len word)"
  unfolding ring_shifts mask_eq_exp_minus_1 push_bit_eq_mult by simp

lemma word_level_all:
  fixes u :: "'l::len word"
  shows "(\<forall>j < h. bit ((u AND mask h) AND (drop_bit h u AND mask h)) j) \<longleftrightarrow> (\<forall>j < 2 * h. bit u j)"
proof
  assume *: "\<forall>j < h. bit ((u AND mask h) AND (drop_bit h u AND mask h)) j"
  show "\<forall>j < 2 * h. bit u j"
  proof (intro allI impI)
    fix j assume "j < 2 * h"
    with *[rule_format, of j] *[rule_format, of "j - h"] show "bit u j"
      by (cases "j < h") (auto simp: bit_simps)
  qed
next
  assume *: "\<forall>j < 2 * h. bit u j"
  have "j < LENGTH('l)" if "j < h" for j
    using *[rule_format, of j] that bit_imp_le_length[of u j] by simp
  with * show "\<forall>j < h. bit ((u AND mask h) AND (drop_bit h u AND mask h)) j"
    by (auto simp: bit_simps)
qed

lemma mpc_ring_and_tree:
  fixes x :: "PartyID \<Rightarrow> 'l::len word share"
  assumes "lawful_ring R" "bshare x u"
    and "\<And>z r. bshare z r \<Longrightarrow> (bit r 0 \<longleftrightarrow> (\<forall>j < 2 ^ d. bit u j)) \<Longrightarrow> Q z"
  shows "mpc (\<lambda>i. ring_and_tree R (2 ^ d) (x i)) Q"
  using assms(2,3)
proof (induction d arbitrary: x u Q)
  case 0
  then show ?case by (simp add: ring_and_tree.simps mpc_ret)
next
  case (Suc d)
  have "mpc (\<lambda>i. qbind (ring_and R (bin_and_public (x i) (mask (2 ^ d)))
      (bin_and_public (ring_share_shr (x i) (2 ^ d)) (mask (2 ^ d)))) (ring_and_tree R (2 ^ d))) Q"
  proof (rule mpc_bind, rule mpc_ring_and[OF assms(1)])
    show "bshare (\<lambda>i. bin_and_public (x i) (mask (2 ^ d))) (u AND mask (2 ^ d))"
      by (rule bshare_and_public[OF Suc.prems(1)])
    show "bshare (\<lambda>i. bin_and_public (ring_share_shr (x i) (2 ^ d)) (mask (2 ^ d))) (drop_bit (2 ^ d) u AND mask (2 ^ d))"
      by (rule bshare_and_public[OF bshare_ring_shr[OF Suc.prems(1)]])
    fix z assume "bshare z ((u AND mask (2 ^ d)) AND (drop_bit (2 ^ d) u AND mask (2 ^ d)))"
    then show "mpc (\<lambda>i. ring_and_tree R (2 ^ d) (z i)) Q"
      by (rule Suc.IH) (use Suc.prems(2) in \<open>simp add: word_level_all\<close>)
  qed
  then show ?case
    by (rule mpc_cong) (use one_less_power[of "2 :: nat" "Suc d"] in \<open>simp add: ring_and_tree.simps[of R "2 * 2 ^ d"] Let_def ring_mask\<close>)
qed

lemma word_zero_bits: "(\<forall>j < LENGTH('l). bit (NOT u) j) \<longleftrightarrow> (u :: 'l::len word) = 0"
  by (auto simp: bit_simps intro: bit_word_eqI)

lemma bit_word_0: "bit (u :: 1 word) 0 = (u = 1)"
  using word1_cases[of u] by auto

text \<open>A sharing of one bit in the type \<open>Bit\<close>.\<close>

abbreviation rbit :: "(PartyID \<Rightarrow> bit_share) \<Rightarrow> bool \<Rightarrow> bool" where
  "rbit x b \<equiv> bshare x (of_bool b)"

lemma rbit_not: "rbit x b \<Longrightarrow> rbit (\<lambda>i. ring_share_not (x i)) (\<not> b)"
proof -
  have "NOT (of_bool b) = (of_bool (\<not> b) :: 1 word)" by (rule bit_word_eqI) (auto simp: bit_simps)
  then show "rbit x b \<Longrightarrow> rbit (\<lambda>i. ring_share_not (x i)) (\<not> b)"
    using bshare_not[of x "of_bool b"] by simp
qed

lemma mpc_ring_bin_is_zero [mpc_rules]:
  fixes x :: "PartyID \<Rightarrow> 'l::len word share"
  assumes "lawful_ring R" "bshare x u" "LENGTH('l) = 2 ^ d" "\<And>z. rbit z (u = 0) \<Longrightarrow> Q z"
  shows "mpc (\<lambda>i. ring_bin_is_zero R (x i)) Q"
  unfolding ring_bin_is_zero_def Let_def assms(3)
proof (rule mpc_bind, rule mpc_ring_and_tree[OF assms(1) bshare_not[OF assms(2)]], rule mpc_ret, rule assms(4))
  fix z :: "PartyID \<Rightarrow> 'l word share" and r
  assume z: "bshare z r" and r: "bit r 0 = (\<forall>j < 2 ^ d. bit (NOT u) j)"
  from r have "bit r 0 = (u = 0)" using word_zero_bits[of u] by (simp add: assms(3))
  with bshare_get_bit[OF z, of 0] show "rbit (\<lambda>i. extract_lsb (z i)) (u = 0)"
    by (simp add: extract_lsb)
qed

lemma mpc_ring_and_tree_many:
  fixes x :: "PartyID \<Rightarrow> 'l::len word share list"
  assumes "lawful_ring R" "bshares x us"
    and "\<And>z rs. bshares z rs \<Longrightarrow> length rs = length us \<Longrightarrow>
      (\<And>k. k < length us \<Longrightarrow> bit (rs ! k) 0 \<longleftrightarrow> (\<forall>j < 2 ^ d. bit (us ! k) j)) \<Longrightarrow> Q z"
  shows "mpc (\<lambda>i. ring_and_tree_many R (2 ^ d) (x i)) Q"
  using assms(2,3)
proof (induction d arbitrary: x us Q)
  case 0
  then show ?case by (simp add: ring_and_tree_many.simps mpc_ret)
next
  case (Suc d)
  let ?lo = "map (\<lambda>u. u AND mask (2 ^ d)) us" and ?hi = "map (\<lambda>u. drop_bit (2 ^ d) u AND mask (2 ^ d)) us"
  have "mpc (\<lambda>i. qbind (ring_and_many R (map (\<lambda>s. bin_and_public s (mask (2 ^ d))) (x i))
      (map (\<lambda>s. bin_and_public (ring_share_shr s (2 ^ d)) (mask (2 ^ d))) (x i))) (ring_and_tree_many R (2 ^ d))) Q"
  proof (rule mpc_bind, rule mpc_ring_and_many[OF assms(1)])
    show "bshares (\<lambda>i. map (\<lambda>s. bin_and_public s (mask (2 ^ d))) (x i)) ?lo"
      by (rule vec_shared_by_map[OF Suc.prems(1)], rule bshare_and_public)
    show "bshares (\<lambda>i. map (\<lambda>s. bin_and_public (ring_share_shr s (2 ^ d)) (mask (2 ^ d))) (x i)) ?hi"
      by (rule vec_shared_by_map[OF Suc.prems(1)], rule bshare_and_public, rule bshare_ring_shr)
    fix z assume z: "bshares z (map2 (AND) ?lo ?hi)"
    show "mpc (\<lambda>i. ring_and_tree_many R (2 ^ d) (z i)) Q"
      by (rule Suc.IH[OF z]) (use Suc.prems(2) in \<open>simp add: word_level_all\<close>)
  qed simp
  then show ?case
    by (rule mpc_cong) (use one_less_power[of "2 :: nat" "Suc d"] in \<open>simp add: ring_and_tree_many.simps[of R "2 * 2 ^ d"] Let_def ring_mask\<close>)
qed

abbreviation rbits :: "(PartyID \<Rightarrow> bit_share list) \<Rightarrow> bool list \<Rightarrow> bool" where
  "rbits x bs \<equiv> bshares x (map of_bool bs)"

lemma rbits_get_bit:
  fixes x :: "PartyID \<Rightarrow> 'l::len word share list"
  assumes "bshares x us" "n < LENGTH('l)" "length bs = length us"
    and "\<And>k. k < length us \<Longrightarrow> bit (us ! k) n \<longleftrightarrow> bs ! k"
  shows "rbits (\<lambda>i. map (\<lambda>s. share_get_bit s n) (x i)) bs"
  unfolding vec_shared_by_def
proof (intro conjI allI impI)
  show "length (map (\<lambda>s. share_get_bit s n) (x i)) = length (map of_bool bs)" for i
    using vec_shared_byD(1)[OF assms(1)] assms(3) by simp
  fix k assume k: "k < length (map of_bool bs)"
  with bshare_get_bit[OF vec_shared_byD(2)[OF assms(1)] assms(2), of k] assms(3,4) vec_shared_byD(1)[OF assms(1)]
  show "bshare (\<lambda>i. map (\<lambda>s. share_get_bit s n) (x i) ! k) (map of_bool bs ! k)" by simp
qed

lemma mpc_ring_bin_is_zero_many [mpc_rules]:
  fixes x :: "PartyID \<Rightarrow> 'l::len word share list"
  assumes "lawful_ring R" "bshares x us" "LENGTH('l) = 2 ^ d" "\<And>z. rbits z (map (\<lambda>u. u = 0) us) \<Longrightarrow> Q z"
  shows "mpc (\<lambda>i. ring_bin_is_zero_many R (x i)) Q"
  unfolding ring_bin_is_zero_many_def Let_def assms(3) extract_lsb
proof (rule mpc_bind, rule mpc_ring_and_tree_many[OF assms(1) vec_shared_by_map[OF assms(2)]], rule bshare_not,
    assumption, rule mpc_ret, rule assms(4), rule rbits_get_bit)
  fix z :: "PartyID \<Rightarrow> 'l word share list" and rs k
  assume r: "\<And>k. k < length (map (\<lambda>u. NOT u) us) \<Longrightarrow> bit (rs ! k) 0 = (\<forall>j < 2 ^ d. bit (map (\<lambda>u. NOT u) us ! k) j)"
    and k: "k < length rs" "length rs = length (map (\<lambda>u. NOT u) us)"
  with word_zero_bits[of "us ! k"] show "bit (rs ! k) 0 = map (\<lambda>u. u = 0) us ! k" by (simp add: assms(3))
qed (assumption | simp)+

subsection \<open>Properties\<close>


end
