(* ===== verification/Ring_Detail.thy ===== *)
theory Ring_Detail
  imports Ring_Binary
begin

text \<open>
  The binary circuits of \<open>rep3_ring/detail.rs\<close>: the Kogge-Stone adder on shared words, single
  and batched, with and without the carry out, and the subtractors and comparisons of binary
  shared words built on it.  The results are stated in terms of the plain adder on words of
  theory \<open>Kogge_Stone\<close>.  The loop runs for \<open>T::K.ilog2()\<close> rounds, so the theorems need a width
  that is a power of two, which is what the code's debug assertion says.  The comparisons of
  arithmetic shares need conversions and are in \<open>Ring_Conversion\<close>.
\<close>

subsection \<open>The adder\<close>

definition ring_and_twice ::
  "('l::len word, 'r, 'w) ring_env \<Rightarrow> 'l ring_share \<Rightarrow> 'l ring_share \<Rightarrow> 'l ring_share \<Rightarrow>
   ('w, 'r, 'l ring_share \<times> 'l ring_share) prog" where
  "ring_and_twice R a b1 b2 =
     qbind (ring_xor_masked R (local_and b1 a)) (\<lambda>local_a1.
     qbind (ring_xor_masked R (local_and a b2)) (\<lambda>local_a2.
     qbind (send_next (r2codec R) (local_a1, local_a2)) (\<lambda>_.
     qbind (recv_prev (r2codec R)) (\<lambda>(local_b1, local_b2).
     qret (Share local_a1 local_b1, Share local_a2 local_b2)))))"

definition ring_and_twice_many_iter ::
  "('l::len word, 'r, 'w) ring_env \<Rightarrow> 'l ring_share list \<Rightarrow> 'l ring_share list \<Rightarrow> 'l ring_share list \<Rightarrow>
   ('w, 'r, 'l ring_share list \<times> 'l ring_share list) prog" where
  "ring_and_twice_many_iter R a b1 b2 =
     qbind (qmap (\<lambda>(a, b1, b2).
         qbind (ring_xor_masked R (local_and b1 a)) (\<lambda>local_a1.
         qbind (ring_xor_masked R (local_and a b2)) (\<lambda>local_a2. qret (local_a1, local_a2))))
       (zip a (zip b1 b2))) (\<lambda>l.
     let local_a1 = map fst l; local_a2 = map snd l
     in qbind (send_next (rv2codec R) (local_a1, local_a2)) (\<lambda>_.
        qbind (recv_prev (rv2codec R)) (\<lambda>(local_b1, local_b2).
        let quads = zip local_a1 (zip local_a2 (zip local_b1 local_b2))
        in qret (map (\<lambda>(a1, a2, b1, b2). Share a1 b1) quads, map (\<lambda>(a1, a2, b1, b2). Share a2 b2) quads))))"

definition ring_kogge_stone_loop ::
  "('l::len word, 'r, 'w) ring_env \<Rightarrow> 'l ring_share \<Rightarrow> 'l ring_share \<Rightarrow> ('w, 'r, 'l ring_share) prog" where
  "ring_kogge_stone_loop R p g =
     (let d = ilog2 LENGTH('l)
      in qbind (qfold (\<lambda>i (p, g).
           let shift = 2 ^ i; p_sh = ring_share_shl p shift; g_sh = ring_share_shl g shift
           in qbind (ring_and_twice R p g_sh p_sh) (\<lambda>(r1, r2). qret (r2, bin_xor g r1))) [0..<d] (p, g))
         (\<lambda>(p, g). qret g))"

definition ring_kogge_stone_loop_many ::
  "('l::len word, 'r, 'w) ring_env \<Rightarrow> 'l ring_share list \<Rightarrow> 'l ring_share list \<Rightarrow>
   ('w, 'r, 'l ring_share list) prog" where
  "ring_kogge_stone_loop_many R p g =
     (let d = ilog2 LENGTH('l)
      in qbind (qfold (\<lambda>i (p, g).
           let shift = 2 ^ i;
               p_sh = map (\<lambda>x. ring_share_shl x shift) p;
               g_sh = map (\<lambda>x. ring_share_shl x shift) g
           in qbind (ring_and_twice_many_iter R p g_sh p_sh) (\<lambda>(r1, r2).
              qret (zip_update (\<lambda>_ r2. r2) p r2, zip_update bin_xor g r1))) [0..<d] (p, g))
         (\<lambda>(p, g). qret g))"

definition ring_kogge_stone_inner ::
  "('l::len word, 'r, 'w) ring_env \<Rightarrow> 'l ring_share \<Rightarrow> 'l ring_share \<Rightarrow> ('w, 'r, 'l ring_share) prog" where
  "ring_kogge_stone_inner R p g = qbind (ring_kogge_stone_loop R p g) (\<lambda>g.
     qret (bin_xor (ring_share_shl g 1) p))"

definition ring_kogge_stone_inner_many ::
  "('l::len word, 'r, 'w) ring_env \<Rightarrow> 'l ring_share list \<Rightarrow> 'l ring_share list \<Rightarrow>
   ('w, 'r, 'l ring_share list) prog" where
  "ring_kogge_stone_inner_many R p g =
     (let s = p
      in qbind (ring_kogge_stone_loop_many R p g) (\<lambda>g.
         qret (zip_update (\<lambda>g p. bin_xor (ring_share_shl g 1) p) g s)))"

definition ring_kogge_stone_inner_with_carry ::
  "('l::len word, 'r, 'w) ring_env \<Rightarrow> 'l ring_share \<Rightarrow> 'l ring_share \<Rightarrow>
   ('w, 'r, 'l ring_share \<times> bit_share) prog" where
  "ring_kogge_stone_inner_with_carry R p g = qbind (ring_kogge_stone_loop R p g) (\<lambda>g.
     let c = share_get_bit g (LENGTH('l) - 1) in qret (bin_xor (ring_share_shl g 1) p, c))"

definition ring_kogge_stone_inner_with_carry_many ::
  "('l::len word, 'r, 'w) ring_env \<Rightarrow> 'l ring_share list \<Rightarrow> 'l ring_share list \<Rightarrow>
   ('w, 'r, 'l ring_share list \<times> bit_share list) prog" where
  "ring_kogge_stone_inner_with_carry_many R p g = qbind (ring_kogge_stone_loop_many R p g) (\<lambda>g.
     let c = map (\<lambda>g. share_get_bit g (LENGTH('l) - 1)) g
     in qret (zip_update (\<lambda>g p. bin_xor (ring_share_shl g 1) p) g p, c))"

definition ring_low_depth_binary_add ::
  "('l::len word, 'r, 'w) ring_env \<Rightarrow> 'l ring_share \<Rightarrow> 'l ring_share \<Rightarrow> ('w, 'r, 'l ring_share) prog" where
  "ring_low_depth_binary_add R x1 x2 =
     (let p = bin_xor x1 x2
      in qbind (ring_and R x1 x2) (\<lambda>g. ring_kogge_stone_inner R p g))"

definition ring_low_depth_binary_add_many ::
  "('l::len word, 'r, 'w) ring_env \<Rightarrow> 'l ring_share list \<Rightarrow> 'l ring_share list \<Rightarrow>
   ('w, 'r, 'l ring_share list) prog" where
  "ring_low_depth_binary_add_many R x1 x2 =
     (let p = map2 bin_xor x1 x2
      in qbind (ring_and_many R x1 x2) (\<lambda>g. ring_kogge_stone_inner_many R p g))"

definition ring_bin_add_many ::
  "('l::len word, 'r, 'w) ring_env \<Rightarrow> 'l ring_share list \<Rightarrow> 'l ring_share list \<Rightarrow>
   ('w, 'r, 'l ring_share list) prog" where
  "ring_bin_add_many R a b = ring_low_depth_binary_add_many R a b"

subsection \<open>Subtraction\<close>

definition ring_low_depth_binary_sub_with_carry ::
  "('l::len word, 'r, 'w) ring_env \<Rightarrow> 'l ring_share \<Rightarrow> 'l ring_share \<Rightarrow>
   ('w, 'r, 'l ring_share \<times> bit_share) prog" where
  "ring_low_depth_binary_sub_with_carry R x1 x2 =
     (let x2 = ring_share_not x2; p = bin_xor x1 x2
      in qbind (ring_and R x1 x2) (\<lambda>g.
         let g = bin_xor g (bin_and_public p 1)
         in qbind (ring_kogge_stone_inner_with_carry R p g) (\<lambda>(res, c).
            qbind get_id (\<lambda>i. qret (ring_xor_public res 1 i, c)))))"

definition ring_low_depth_binary_sub_with_carry_many ::
  "('l::len word, 'r, 'w) ring_env \<Rightarrow> 'l ring_share list \<Rightarrow> 'l ring_share list \<Rightarrow>
   ('w, 'r, 'l ring_share list \<times> bit_share list) prog" where
  "ring_low_depth_binary_sub_with_carry_many R x1 x2 =
     (let x2 = map ring_share_not x2; p = map2 bin_xor x1 x2
      in qbind (ring_and_many R x1 x2) (\<lambda>g.
         let g = zip_update (\<lambda>g p. bin_xor g (bin_and_public p 1)) g p
         in qbind (ring_kogge_stone_inner_with_carry_many R p g) (\<lambda>(res, c).
            qbind get_id (\<lambda>i. qret (map (\<lambda>r. ring_xor_public r 1 i) res, c)))))"

definition ring_low_depth_binary_sub_by_const_with_carry ::
  "('l::len word, 'r, 'w) ring_env \<Rightarrow> 'l ring_share \<Rightarrow> 'l word \<Rightarrow>
   ('w, 'r, 'l ring_share \<times> bit_share) prog" where
  "ring_low_depth_binary_sub_by_const_with_carry R x1 x2 =
     (let x2_neg = NOT x2 + 1
      in qbind get_id (\<lambda>i.
         let p = ring_xor_public x1 x2_neg i; g = bin_and_public x1 x2_neg
         in qbind (ring_kogge_stone_inner_with_carry R p g) (\<lambda>(res, c).
            qret (res, if x2 = 0 then ring_share_not c else c))))"

definition ring_low_depth_binary_sub_from_const_with_carry ::
  "('l::len word, 'r, 'w) ring_env \<Rightarrow> 'l word \<Rightarrow> 'l ring_share \<Rightarrow>
   ('w, 'r, 'l ring_share \<times> bit_share) prog" where
  "ring_low_depth_binary_sub_from_const_with_carry R x1 x2 =
     (let x2 = ring_share_not x2
      in qbind get_id (\<lambda>i.
         let p = ring_xor_public x2 x1 i; g = bin_xor (bin_and_public x2 x1) (bin_and_public p 1)
         in qbind (ring_kogge_stone_inner_with_carry R p g) (\<lambda>(res, c).
            qret (ring_xor_public res 1 i, c))))"

subsection \<open>Batched comparisons of binary shares\<close>

definition ring_unsigned_ge_many ::
  "('l::len word, 'r, 'w) ring_env \<Rightarrow> 'l ring_share list \<Rightarrow> 'l ring_share list \<Rightarrow>
   ('w, 'r, bit_share list) prog" where
  "ring_unsigned_ge_many R x_bits y_bits =
     qbind (ring_low_depth_binary_sub_with_carry_many R x_bits y_bits) (\<lambda>(_, r). qret r)"

definition ring_kogge_stone_carries_many ::
  "('l::len word, 'r, 'w) ring_env \<Rightarrow> 'l ring_share list \<Rightarrow> 'l ring_share list \<Rightarrow>
   ('w, 'r, bit_share list) prog" where
  "ring_kogge_stone_carries_many R p g =
     qbind (ring_kogge_stone_inner_with_carry_many R p g) (\<lambda>(_, c). qret c)"

definition ring_unsigned_ge_const_rhs_many ::
  "('l::len word, 'r, 'w) ring_env \<Rightarrow> 'l ring_share list \<Rightarrow> 'l word list \<Rightarrow>
   ('w, 'r, bit_share list) prog" where
  "ring_unsigned_ge_const_rhs_many R x_bits y_consts =
     (let neg_ys = map (\<lambda>y. NOT y + 1) y_consts; g = map2 bin_and_public x_bits neg_ys
      in qbind get_id (\<lambda>i.
         let p = map2 (\<lambda>x ny. ring_xor_public x ny i) x_bits neg_ys
         in qbind (ring_kogge_stone_inner_with_carry_many R p g) (\<lambda>(_, carries).
            qret (map2 (\<lambda>c y. if y = 0 then ring_share_not c else c) carries y_consts))))"

definition ring_unsigned_ge_const_lhs_many ::
  "('l::len word, 'r, 'w) ring_env \<Rightarrow> 'l word list \<Rightarrow> 'l ring_share list \<Rightarrow>
   ('w, 'r, bit_share list) prog" where
  "ring_unsigned_ge_const_lhs_many R x_consts y_bits =
     (let y_neg = map ring_share_not y_bits
      in qbind get_id (\<lambda>i.
         let p = map2 (\<lambda>yn xc. ring_xor_public yn xc i) y_neg x_consts;
             g = map2 bin_and_public y_neg x_consts;
             g = zip_update (\<lambda>g p. bin_xor g (bin_and_public p 1)) g p
         in qbind (ring_kogge_stone_inner_with_carry_many R p g) (\<lambda>(_, c). qret c)))"

subsection \<open>Correctness of the adder\<close>

lemma mpc_ring_and_twice [mpc_rules]:
  assumes "lawful_ring R" "bshare a u" "bshare b1 v1" "bshare b2 v2"
    and "\<And>z1 z2. bshare z1 (v1 AND u) \<Longrightarrow> bshare z2 (u AND v2) \<Longrightarrow> Q (\<lambda>i. (z1 i, z2 i))"
  shows "mpc (\<lambda>i. ring_and_twice R (a i) (b1 i) (b2 i)) Q"
  unfolding ring_and_twice_def send_recv_reshare_one
  by (rule mpc_bind, rule mpc_ring_xor_masked, rule mpc_bind, rule mpc_ring_xor_masked, rule mpc_bind,
      rule mpc_reshare)
    (use assms in \<open>auto intro!: mpc_ret assms(5) shared_by_reshare simp: sum3_local_and\<close>)

lemma mpc_ring_kogge_stone_loop [mpc_rules]:
  fixes p g :: "PartyID \<Rightarrow> 'l::len word share"
  assumes "lawful_ring R" "bshare p u" "bshare g w"
    and "\<And>z. bshare z (ksw_carries (ilog2 LENGTH('l)) u w) \<Longrightarrow> Q z"
  shows "mpc (\<lambda>i. ring_kogge_stone_loop R (p i) (g i)) Q"
proof -
  define I where "I = (\<lambda>k (s :: PartyID \<Rightarrow> 'l word share \<times> 'l word share).
     bshare (\<lambda>i. fst (s i)) (fst (ksw_rounds k (u, w))) \<and>
     bshare (\<lambda>i. snd (s i)) (snd (ksw_rounds k (u, w))))"
  show ?thesis
    unfolding ring_kogge_stone_loop_def Let_def
  proof (rule mpc_bind, rule mpc_qfold_upt[where I = I])
    show "I 0 (\<lambda>i. (p i, g i))" using assms(2,3) by (simp add: I_def)
  next
    fix k s assume "I k s"
    then have P: "bshare (\<lambda>i. fst (s i)) (fst (ksw_rounds k (u, w)))"
      and G: "bshare (\<lambda>i. snd (s i)) (snd (ksw_rounds k (u, w)))" by (simp_all add: I_def)
    have "mpc (\<lambda>i. qbind (ring_and_twice R (fst (s i)) (ring_share_shl (snd (s i)) (2 ^ k))
          (ring_share_shl (fst (s i)) (2 ^ k))) (\<lambda>(r1, r2). qret (r2, bin_xor (snd (s i)) r1))) (I (Suc k))"
      by (rule mpc_bind, rule mpc_ring_and_twice[OF assms(1) P bshare_ring_shl[OF G] bshare_ring_shl[OF P]])
        (auto intro!: mpc_ret bshare_xor[OF G] simp: I_def ksw_round_def split_beta)
    then show "mpc (\<lambda>i. case s i of (p, g) \<Rightarrow>
        qbind (ring_and_twice R p (ring_share_shl g (2 ^ k)) (ring_share_shl p (2 ^ k)))
          (\<lambda>(r1, r2). qret (r2, bin_xor g r1))) (I (Suc k))"
      by (rule mpc_cong) (simp add: split_beta)
  next
    fix s assume "I (ilog2 LENGTH('l)) s"
    then show "mpc (\<lambda>i. case s i of (p, g) \<Rightarrow> qret g) Q"
      by (simp add: split_beta mpc_ret assms(4) I_def ksw_carries_def)
  qed
qed

lemma mpc_ring_kogge_stone_inner [mpc_rules]:
  fixes p g :: "PartyID \<Rightarrow> 'l::len word share"
  assumes "lawful_ring R" "bshare p u" "bshare g w"
    and "\<And>z. bshare z (ksw_sum (ilog2 LENGTH('l)) u w) \<Longrightarrow> Q z"
  shows "mpc (\<lambda>i. ring_kogge_stone_inner R (p i) (g i)) Q"
  unfolding ring_kogge_stone_inner_def
  by (rule mpc_bind, rule mpc_ring_kogge_stone_loop[OF assms(1-3)], rule mpc_ret, rule assms(4),
      unfold ksw_sum_def, intro bshare_xor bshare_ring_shl assms(2))

lemma mpc_ring_kogge_stone_inner_with_carry [mpc_rules]:
  fixes p g :: "PartyID \<Rightarrow> 'l::len word share"
  assumes "lawful_ring R" "bshare p u" "bshare g w"
    and "\<And>z c. bshare z (ksw_sum (ilog2 LENGTH('l)) u w) \<Longrightarrow> rbit c (ksw_carry_out (ilog2 LENGTH('l)) u w) \<Longrightarrow>
      Q (\<lambda>i. (z i, c i))"
  shows "mpc (\<lambda>i. ring_kogge_stone_inner_with_carry R (p i) (g i)) Q"
  unfolding ring_kogge_stone_inner_with_carry_def Let_def
  by (rule mpc_bind, rule mpc_ring_kogge_stone_loop[OF assms(1-3)], rule mpc_ret, rule assms(4),
      unfold ksw_sum_def ksw_carry_out_def, intro bshare_xor bshare_ring_shl assms(2), assumption,
      rule bshare_get_bit, assumption, simp)

text \<open>The width \<open>T::K\<close> is a power of two.\<close>

lemma pow2_width: "LENGTH('l::len) = 2 ^ d \<Longrightarrow> LENGTH('l) \<le> 2 ^ ilog2 LENGTH('l)"
  by (simp add: ilog2_power)

lemma mpc_ring_low_depth_binary_add [mpc_rules]:
  fixes x y :: "PartyID \<Rightarrow> 'l::len word share"
  assumes "lawful_ring R" "bshare x u" "bshare y v" "LENGTH('l) = 2 ^ d" "\<And>z. bshare z (u + v) \<Longrightarrow> Q z"
  shows "mpc (\<lambda>i. ring_low_depth_binary_add R (x i) (y i)) Q"
  unfolding ring_low_depth_binary_add_def Let_def
  by (rule mpc_bind, rule mpc_ring_and[OF assms(1-3)],
      rule mpc_ring_kogge_stone_inner[OF assms(1) bshare_xor[OF assms(2,3)]], assumption)
    (simp only: ksw_add(1)[OF pow2_width[OF assms(4)]] assms(5))

lemma mpc_ring_low_depth_binary_sub_with_carry [mpc_rules]:
  fixes x y :: "PartyID \<Rightarrow> 'l::len word share"
  assumes "lawful_ring R" "bshare x u" "bshare y v" "LENGTH('l) = 2 ^ d"
    and "\<And>z c. bshare z (u - v) \<Longrightarrow> rbit c (v \<le> u) \<Longrightarrow> Q (\<lambda>i. (z i, c i))"
  shows "mpc (\<lambda>i. ring_low_depth_binary_sub_with_carry R (x i) (y i)) Q"
  unfolding ring_low_depth_binary_sub_with_carry_def Let_def
proof (rule mpc_bind, rule mpc_ring_and[OF assms(1,2) bshare_not[OF assms(3)]], rule mpc_bind,
    rule mpc_ring_kogge_stone_inner_with_carry[OF assms(1) bshare_xor[OF assms(2) bshare_not[OF assms(3)]]
      bshare_xor[OF _ bshare_and_public[OF bshare_xor[OF assms(2) bshare_not[OF assms(3)]]]]], assumption)
  let ?p = "u XOR NOT v" and ?g = "(u AND NOT v) XOR ((u XOR NOT v) AND 1)" and ?d = "ilog2 LENGTH('l)"
  fix z :: "PartyID \<Rightarrow> 'l word share" and c
  assume z: "bshare z (ksw_sum ?d ?p ?g)" and c: "rbit c (ksw_carry_out ?d ?p ?g)"
  from bshare_ring_xor_public[OF z, of 1] c
  have "bshare (\<lambda>i. ring_xor_public (z i) 1 i) (u - v)" "rbit c (v \<le> u)"
    unfolding ksw_sub[OF pow2_width[OF assms(4)]] by simp_all
  from assms(5)[OF this]
  show "mpc (\<lambda>i. case (z i, c i) of (res, c) \<Rightarrow> qbind get_id (\<lambda>i. qret (ring_xor_public res 1 i, c))) Q"
    unfolding prod.case by (intro mpc_rules)
qed

lemma rbit_flip: "rbit x b \<Longrightarrow> rbit (\<lambda>i. if f then ring_share_not (x i) else x i) (b \<noteq> f)"
  using rbit_not[of x b] by (cases f) simp_all

lemma mpc_ring_low_depth_binary_sub_by_const_with_carry [mpc_rules]:
  fixes x :: "PartyID \<Rightarrow> 'l::len word share"
  assumes "lawful_ring R" "bshare x u" "LENGTH('l) = 2 ^ d"
    and "\<And>z c. bshare z (u - v) \<Longrightarrow> rbit c (v \<le> u) \<Longrightarrow> Q (\<lambda>i. (z i, c i))"
  shows "mpc (\<lambda>i. ring_low_depth_binary_sub_by_const_with_carry R (x i) v) Q"
proof -
  have neg: "NOT v + 1 = - v" by (simp add: not_eq_complement)
  note sub = ksw_sub_const[OF pow2_width[OF assms(3)], of u v]
  show ?thesis
    unfolding ring_low_depth_binary_sub_by_const_with_carry_def Let_def neg
  proof (rule mpc_bind, rule mpc_get_id, rule mpc_bind,
      rule mpc_ring_kogge_stone_inner_with_carry[OF assms(1) bshare_ring_xor_public[OF assms(2)] bshare_and_public[OF assms(2)]])
    fix z :: "PartyID \<Rightarrow> 'l word share" and c
    let ?c = "ksw_carry_out (ilog2 LENGTH('l)) (u XOR - v) (u AND - v)"
    assume z: "bshare z (ksw_sum (ilog2 LENGTH('l)) (u XOR - v) (u AND - v))" and c: "rbit c ?c"
    have "rbit (\<lambda>i. if v = 0 then ring_share_not (c i) else c i) (?c \<noteq> (v = 0))"
      by (rule rbit_flip[OF c])
    with z have "bshare z (u - v)" "rbit (\<lambda>i. if v = 0 then ring_share_not (c i) else c i) (v \<le> u)"
      unfolding sub .
    from assms(4)[OF this]
    show "mpc (\<lambda>i. case (z i, c i) of (res, c) \<Rightarrow> qret (res, if v = 0 then ring_share_not c else c)) Q"
      unfolding prod.case by (intro mpc_rules)
  qed
qed

lemma mpc_ring_low_depth_binary_sub_from_const_with_carry [mpc_rules]:
  fixes y :: "PartyID \<Rightarrow> 'l::len word share"
  assumes "lawful_ring R" "bshare y v" "LENGTH('l) = 2 ^ d"
    and "\<And>z c. bshare z (u - v) \<Longrightarrow> rbit c (v \<le> u) \<Longrightarrow> Q (\<lambda>i. (z i, c i))"
  shows "mpc (\<lambda>i. ring_low_depth_binary_sub_from_const_with_carry R u (y i)) Q"
  unfolding ring_low_depth_binary_sub_from_const_with_carry_def Let_def
proof (rule mpc_bind, rule mpc_get_id, rule mpc_bind,
    rule mpc_ring_kogge_stone_inner_with_carry[OF assms(1) bshare_ring_xor_public[OF bshare_not[OF assms(2)]]
      bshare_xor[OF bshare_and_public[OF bshare_not[OF assms(2)]]
        bshare_and_public[OF bshare_ring_xor_public[OF bshare_not[OF assms(2)]]]]])
  let ?p = "NOT v XOR u" and ?g = "(NOT v AND u) XOR ((NOT v XOR u) AND 1)" and ?d = "ilog2 LENGTH('l)"
  fix z :: "PartyID \<Rightarrow> 'l word share" and c
  assume z: "bshare z (ksw_sum ?d ?p ?g)" and c: "rbit c (ksw_carry_out ?d ?p ?g)"
  from bshare_ring_xor_public[OF z, of 1] c
  have "bshare (\<lambda>i. ring_xor_public (z i) 1 i) (u - v)" "rbit c (v \<le> u)"
    unfolding xor.commute[of "NOT v" u] and.commute[of "NOT v" u] ksw_sub[OF pow2_width[OF assms(3)]] by simp_all
  from assms(4)[OF this]
  show "mpc (\<lambda>i. case (z i, c i) of (res, c) \<Rightarrow> qret (ring_xor_public res 1 i, c)) Q"
    unfolding prod.case by (intro mpc_rules)
qed

subsection \<open>Correctness of the batched versions\<close>

lemma mpc_ring_and_twice_many_iter:
  fixes a b1 b2 :: "PartyID \<Rightarrow> 'l::len word share list"
  assumes "lawful_ring R" "bshares a (map u js)" "bshares b1 (map v js)" "bshares b2 (map w js)"
    and "\<And>z1 z2. bshares z1 (map (\<lambda>j. v j AND u j) js) \<Longrightarrow> bshares z2 (map (\<lambda>j. u j AND w j) js) \<Longrightarrow>
      Q (\<lambda>i. (z1 i, z2 i))"
  shows "mpc (\<lambda>i. ring_and_twice_many_iter R (a i) (b1 i) (b2 i)) Q"
  unfolding ring_and_twice_many_iter_def Let_def send_recv_reshare_one
proof (rule mpc_bind, rule mpc_qmap[where n = "length js" and
      R = "\<lambda>k z. sum3 (XOR) (\<lambda>i. fst (z i)) = v (js ! k) AND u (js ! k) \<and>
        sum3 (XOR) (\<lambda>i. snd (z i)) = u (js ! k) AND w (js ! k)"])
  note len = assms(2-4)[THEN tab_length]
  show "length (zip (a i) (zip (b1 i) (b2 i))) = length js" for i using len by simp
  fix x k assume k: "k < length js" and "\<And>i. x i = zip (a i) (zip (b1 i) (b2 i)) ! k"
  with len have x: "x = (\<lambda>i. (a i ! k, b1 i ! k, b2 i ! k))" by auto
  note el = assms(2-4)[THEN tab_nth, OF k]
  show "mpc (\<lambda>i. case x i of (a, b1, b2) \<Rightarrow>
       qbind (ring_xor_masked R (local_and b1 a)) (\<lambda>local_a1.
       qbind (ring_xor_masked R (local_and a b2)) (\<lambda>local_a2. qret (local_a1, local_a2))))
     (\<lambda>z. sum3 (XOR) (\<lambda>i. fst (z i)) = v (js ! k) AND u (js ! k) \<and>
        sum3 (XOR) (\<lambda>i. snd (z i)) = u (js ! k) AND w (js ! k))"
    unfolding x prod.case
    by (intro mpc_rules) (simp add: sum3_local_and[OF el(2,1)] sum3_local_and[OF el(1,3)])
next
  fix l :: "PartyID \<Rightarrow> ('l word \<times> 'l word) list"
  assume l: "\<And>i. length (l i) = length js"
    and sums: "\<And>k. k < length js \<Longrightarrow> sum3 (XOR) (\<lambda>i. fst (l i ! k)) = v (js ! k) AND u (js ! k) \<and>
        sum3 (XOR) (\<lambda>i. snd (l i ! k)) = u (js ! k) AND w (js ! k)"
  let ?quads = "\<lambda>i. zip (map fst (l i)) (zip (map snd (l i)) (zip (map fst (l (prev_id i))) (map snd (l (prev_id i)))))"
  have "bshares (\<lambda>i. map (\<lambda>(a1, a2, b1, b2). Share a1 b1) (?quads i)) (map (\<lambda>j. v j AND u j) js)"
    "bshares (\<lambda>i. map (\<lambda>(a1, a2, b1, b2). Share a2 b2) (?quads i)) (map (\<lambda>j. u j AND w j) js)"
    using l sums by (simp_all add: vec_shared_by_def shared_by_def split_beta)
  from mpc_ret[of Q, OF assms(5)[OF this]]
  show "mpc (\<lambda>i. qbind (reshare (rv2codec R) (map fst (l i), map snd (l i)))
      (\<lambda>(local_b1, local_b2). qret
        (map (\<lambda>(a1, a2, b1, b2). Share a1 b1) (zip (map fst (l i)) (zip (map snd (l i)) (zip local_b1 local_b2))),
         map (\<lambda>(a1, a2, b1, b2). Share a2 b2) (zip (map fst (l i)) (zip (map snd (l i)) (zip local_b1 local_b2)))))) Q"
    by (intro mpc_bind mpc_reshare) (use assms(1) in simp_all)
qed

lemma mpc_ring_kogge_stone_loop_many:
  fixes p g :: "PartyID \<Rightarrow> 'l::len word share list"
  assumes "lawful_ring R" "bshares p (map u js)" "bshares g (map w js)"
    and "\<And>z. bshares z (map (\<lambda>j. ksw_carries (ilog2 LENGTH('l)) (u j) (w j)) js) \<Longrightarrow> Q z"
  shows "mpc (\<lambda>i. ring_kogge_stone_loop_many R (p i) (g i)) Q"
proof -
  define P where "P = (\<lambda>k j. fst (ksw_rounds k (u j, w j)))"
  define G where "G = (\<lambda>k j. snd (ksw_rounds k (u j, w j)))"
  have P_Suc: "P (Suc k) j = P k j AND push_bit (2 ^ k) (P k j)"
    and G_Suc: "G (Suc k) j = G k j XOR (push_bit (2 ^ k) (G k j) AND P k j)" for k j
    by (simp_all add: P_def G_def ksw_round_def split_beta)
  define I where "I = (\<lambda>k (s :: PartyID \<Rightarrow> 'l word share list \<times> 'l word share list).
     bshares (\<lambda>i. fst (s i)) (map (P k) js) \<and> bshares (\<lambda>i. snd (s i)) (map (G k) js))"
  show ?thesis
    unfolding ring_kogge_stone_loop_many_def Let_def
  proof (rule mpc_bind, rule mpc_qfold_upt[where I = I])
    show "I 0 (\<lambda>i. (p i, g i))" using assms(2,3) by (simp add: I_def P_def G_def)
  next
    fix k s assume "I k s"
    then have p: "bshares (\<lambda>i. fst (s i)) (map (P k) js)" and g: "bshares (\<lambda>i. snd (s i)) (map (G k) js)"
      by (simp_all add: I_def)
    have "mpc (\<lambda>i. qbind (ring_and_twice_many_iter R (fst (s i)) (map (\<lambda>x. ring_share_shl x (2 ^ k)) (snd (s i)))
          (map (\<lambda>x. ring_share_shl x (2 ^ k)) (fst (s i)))) (\<lambda>(r1, r2).
        qret (zip_update (\<lambda>_ r2. r2) (fst (s i)) r2, zip_update bin_xor (snd (s i)) r1))) (I (Suc k))"
    proof (rule mpc_bind, rule mpc_ring_and_twice_many_iter[OF assms(1) p tab_map[OF g] tab_map[OF p]],
        erule bshare_ring_shl, erule bshare_ring_shl)
      fix r1 r2 :: "PartyID \<Rightarrow> 'l word share list"
      assume r1: "bshares r1 (map (\<lambda>j. push_bit (2 ^ k) (G k j) AND P k j) js)"
        and r2: "bshares r2 (map (\<lambda>j. P k j AND push_bit (2 ^ k) (P k j)) js)"
      have "bshares (\<lambda>i. zip_update (\<lambda>_ r2. r2) (fst (s i)) (r2 i)) (map (P (Suc k)) js)"
        by (rule tab_zip_update[OF p r2]) (simp add: P_Suc)
      moreover have "bshares (\<lambda>i. zip_update bin_xor (snd (s i)) (r1 i)) (map (G (Suc k)) js)"
        by (rule tab_zip_update[OF g r1]) (simp add: G_Suc bshare_xor)
      ultimately show "mpc (\<lambda>i. case (r1 i, r2 i) of (r1, r2) \<Rightarrow>
          qret (zip_update (\<lambda>_ r2. r2) (fst (s i)) r2, zip_update bin_xor (snd (s i)) r1)) (I (Suc k))"
        by (simp add: I_def mpc_ret)
    qed
    then show "mpc (\<lambda>i. case s i of (p, g) \<Rightarrow> qbind (ring_and_twice_many_iter R p
          (map (\<lambda>x. ring_share_shl x (2 ^ k)) g) (map (\<lambda>x. ring_share_shl x (2 ^ k)) p)) (\<lambda>(r1, r2).
        qret (zip_update (\<lambda>_ r2. r2) p r2, zip_update bin_xor g r1))) (I (Suc k))"
      by (rule mpc_cong) (simp add: split_beta)
  next
    fix s assume "I (ilog2 LENGTH('l)) s"
    then show "mpc (\<lambda>i. case s i of (p, g) \<Rightarrow> qret g) Q"
      by (simp add: split_beta mpc_ret assms(4) I_def G_def[abs_def] ksw_carries_def)
  qed
qed

lemma bshare_ksw_sum:
  "bshare x (ksw_carries d u w) \<Longrightarrow> bshare y u \<Longrightarrow>
   bshare (\<lambda>i. bin_xor (ring_share_shl (x i) 1) (y i)) (ksw_sum d u w)"
  unfolding ksw_sum_def by (intro bshare_xor bshare_ring_shl)

lemma rbit_ksw_carry_out:
  fixes x :: "PartyID \<Rightarrow> 'l::len word share"
  shows "bshare x (ksw_carries d u w) \<Longrightarrow>
    rbit (\<lambda>i. share_get_bit (x i) (LENGTH('l) - 1)) (ksw_carry_out d u w)"
  unfolding ksw_carry_out_def by (rule bshare_get_bit) simp_all

lemma mpc_ring_kogge_stone_inner_many:
  fixes p g :: "PartyID \<Rightarrow> 'l::len word share list"
  assumes "lawful_ring R" "bshares p (map u js)" "bshares g (map w js)"
    and "\<And>z. bshares z (map (\<lambda>j. ksw_sum (ilog2 LENGTH('l)) (u j) (w j)) js) \<Longrightarrow> Q z"
  shows "mpc (\<lambda>i. ring_kogge_stone_inner_many R (p i) (g i)) Q"
  unfolding ring_kogge_stone_inner_many_def Let_def
  by (rule mpc_bind, rule mpc_ring_kogge_stone_loop_many[OF assms(1-3)], rule mpc_ret, rule assms(4),
      rule tab_zip_update[OF _ assms(2)], assumption, rule bshare_ksw_sum)

lemma mpc_ring_kogge_stone_inner_with_carry_many:
  fixes p g :: "PartyID \<Rightarrow> 'l::len word share list"
  assumes "lawful_ring R" "bshares p (map u js)" "bshares g (map w js)"
    and "\<And>z (c :: PartyID \<Rightarrow> bit_share list). bshares z (map (\<lambda>j. ksw_sum (ilog2 LENGTH('l)) (u j) (w j)) js) \<Longrightarrow>
      bshares c (map (\<lambda>j. of_bool (ksw_carry_out (ilog2 LENGTH('l)) (u j) (w j))) js) \<Longrightarrow> Q (\<lambda>i. (z i, c i))"
  shows "mpc (\<lambda>i. ring_kogge_stone_inner_with_carry_many R (p i) (g i)) Q"
  unfolding ring_kogge_stone_inner_with_carry_many_def Let_def
  by (rule mpc_bind, rule mpc_ring_kogge_stone_loop_many[OF assms(1-3)], rule mpc_ret, rule assms(4),
      rule tab_zip_update[OF _ assms(2)], assumption, rule bshare_ksw_sum, assumption+,
      rule tab_map, assumption, rule rbit_ksw_carry_out)

lemma mpc_ring_low_depth_binary_add_many:
  fixes x y :: "PartyID \<Rightarrow> 'l::len word share list"
  assumes "lawful_ring R" "bshares x (map u js)" "bshares y (map v js)" "LENGTH('l) = 2 ^ d"
    and "\<And>z. bshares z (map (\<lambda>j. u j + v j) js) \<Longrightarrow> Q z"
  shows "mpc (\<lambda>i. ring_low_depth_binary_add_many R (x i) (y i)) Q"
  unfolding ring_low_depth_binary_add_many_def Let_def
proof (rule mpc_bind, rule mpc_ring_and_many[OF assms(1-3)], simp,
    rule mpc_ring_kogge_stone_inner_many[OF assms(1) tab_map2[OF assms(2,3)]], erule (1) bshare_xor)
  fix z assume "bshares z (map2 (AND) (map u js) (map v js))"
  then show "bshares z (map (\<lambda>j. u j AND v j) js)" by (simp add: map2_map_map)
qed (simp only: ksw_add(1)[OF pow2_width[OF assms(4)]] assms(5))

text \<open>Propagate and generate words of a subtraction with the complement and a carry in.\<close>

lemma mpc_ring_low_depth_binary_sub_with_carry_many:
  fixes x y :: "PartyID \<Rightarrow> 'l::len word share list"
  assumes "lawful_ring R" "bshares x (map u js)" "bshares y (map v js)" "LENGTH('l) = 2 ^ d"
    and "\<And>z (c :: PartyID \<Rightarrow> bit_share list). bshares z (map (\<lambda>j. u j - v j) js) \<Longrightarrow> bshares c (map (\<lambda>j. of_bool (v j \<le> u j)) js) \<Longrightarrow>
      Q (\<lambda>i. (z i, c i))"
  shows "mpc (\<lambda>i. ring_low_depth_binary_sub_with_carry_many R (x i) (y i)) Q"
proof -
  let ?p = "\<lambda>j. u j XOR NOT (v j)" and ?g = "\<lambda>j. (u j AND NOT (v j)) XOR ((u j XOR NOT (v j)) AND 1)"
  have ny: "bshares (\<lambda>i. map ring_share_not (y i)) (map (\<lambda>j. NOT (v j)) js)"
    by (rule tab_map[OF assms(3)], rule bshare_not)
  have p: "bshares (\<lambda>i. map2 bin_xor (x i) (map ring_share_not (y i))) (map ?p js)"
    by (rule tab_map2[OF assms(2) ny], rule bshare_xor)
  note sub = ksw_sub[OF pow2_width[OF assms(4)]]
  show ?thesis
    unfolding ring_low_depth_binary_sub_with_carry_many_def Let_def
  proof (rule mpc_bind, rule mpc_ring_and_many[OF assms(1,2) ny], simp, rule mpc_bind,
      rule mpc_ring_kogge_stone_inner_with_carry_many[OF assms(1) p])
    fix g assume "bshares g (map2 (AND) (map u js) (map (\<lambda>j. NOT (v j)) js))"
    then have "bshares g (map (\<lambda>j. u j AND NOT (v j)) js)" by (simp add: map2_map_map)
    from this p show "bshares (\<lambda>i. zip_update (\<lambda>g p. bin_xor g (bin_and_public p 1)) (g i)
        (map2 bin_xor (x i) (map ring_share_not (y i)))) (map ?g js)"
      by (rule tab_zip_update) (intro bshare_xor bshare_and_public)
  next
    fix z :: "PartyID \<Rightarrow> 'l word share list" and c :: "PartyID \<Rightarrow> bit_share list"
    let ?d = "ilog2 LENGTH('l)"
    assume z: "bshares z (map (\<lambda>j. ksw_sum ?d (?p j) (?g j)) js)"
      and c: "bshares c (map (\<lambda>j. of_bool (ksw_carry_out ?d (?p j) (?g j))) js)"
    have "bshares (\<lambda>i. map (\<lambda>r. ring_xor_public r 1 i) (z i)) (map (\<lambda>j. ksw_sum ?d (?p j) (?g j) XOR 1) js)"
      by (rule tab_map[OF z], rule bshare_ring_xor_public)
    with c assms(5)[of "\<lambda>i. map (\<lambda>r. ring_xor_public r 1 i) (z i)" c]
    show "mpc (\<lambda>i. case (z i, c i) of (res, c) \<Rightarrow>
        qbind get_id (\<lambda>i. qret (map (\<lambda>r. ring_xor_public r 1 i) res, c))) Q"
      unfolding sub prod.case by (intro mpc_rules)
  qed
qed

lemma mpc_ring_unsigned_ge_many:
  fixes x y :: "PartyID \<Rightarrow> 'l::len word share list"
  assumes "lawful_ring R" "bshares x (map u js)" "bshares y (map v js)" "LENGTH('l) = 2 ^ d"
    and "\<And>c :: PartyID \<Rightarrow> bit_share list. bshares c (map (\<lambda>j. of_bool (v j \<le> u j)) js) \<Longrightarrow> Q c"
  shows "mpc (\<lambda>i. ring_unsigned_ge_many R (x i) (y i)) Q"
  unfolding ring_unsigned_ge_many_def
  by (rule mpc_bind, rule mpc_ring_low_depth_binary_sub_with_carry_many[OF assms(1-4)], unfold prod.case,
      rule mpc_ret, rule assms(5))

lemma mpc_ring_kogge_stone_carries_many:
  fixes p g :: "PartyID \<Rightarrow> 'l::len word share list"
  assumes "lawful_ring R" "bshares p (map u js)" "bshares g (map w js)"
    and "\<And>c :: PartyID \<Rightarrow> bit_share list. bshares c (map (\<lambda>j. of_bool (ksw_carry_out (ilog2 LENGTH('l)) (u j) (w j))) js) \<Longrightarrow> Q c"
  shows "mpc (\<lambda>i. ring_kogge_stone_carries_many R (p i) (g i)) Q"
  unfolding ring_kogge_stone_carries_many_def
  by (rule mpc_bind, rule mpc_ring_kogge_stone_inner_with_carry_many[OF assms(1-3)], unfold prod.case,
      rule mpc_ret, rule assms(4))

lemma mpc_ring_unsigned_ge_const_rhs_many:
  fixes x :: "PartyID \<Rightarrow> 'l::len word share list"
  assumes "lawful_ring R" "bshares x (map u js)" "LENGTH('l) = 2 ^ d"
    and "\<And>c :: PartyID \<Rightarrow> bit_share list. bshares c (map (\<lambda>j. of_bool (v j \<le> u j)) js) \<Longrightarrow> Q c"
  shows "mpc (\<lambda>i. ring_unsigned_ge_const_rhs_many R (x i) (map v js)) Q"
proof -
  have neg: "NOT y + 1 = - y" for y :: "'l word" by (simp add: not_eq_complement)
  have p: "bshares (\<lambda>i. map2 (\<lambda>x ny. ring_xor_public x ny i) (x i) (map (\<lambda>j. - v j) js)) (map (\<lambda>j. u j XOR - v j) js)"
    by (rule tab_map2_public[OF assms(2)], rule bshare_ring_xor_public)
  have g: "bshares (\<lambda>i. map2 bin_and_public (x i) (map (\<lambda>j. - v j) js)) (map (\<lambda>j. u j AND - v j) js)"
    by (rule tab_map2_public[OF assms(2)], rule bshare_and_public)
  note sub = ksw_sub_const(2)[OF pow2_width[OF assms(3)]]
  show ?thesis
    unfolding ring_unsigned_ge_const_rhs_many_def Let_def neg map_map comp_def
  proof (rule mpc_bind, rule mpc_get_id, rule mpc_bind,
      rule mpc_ring_kogge_stone_inner_with_carry_many[OF assms(1) p g], unfold prod.case, rule mpc_ret, rule assms(4))
    fix c :: "PartyID \<Rightarrow> bit_share list"
    assume c: "bshares c (map (\<lambda>j. of_bool (ksw_carry_out (ilog2 LENGTH('l)) (u j XOR - v j) (u j AND - v j))) js)"
    have "bshares (\<lambda>i. map2 (\<lambda>c y. if y = 0 then ring_share_not c else c) (c i) (map v js))
        (map (\<lambda>j. of_bool (ksw_carry_out (ilog2 LENGTH('l)) (u j XOR - v j) (u j AND - v j) \<noteq> (v j = 0))) js)"
      by (rule tab_map2_public[OF c], rule rbit_flip)
    then show "bshares (\<lambda>i. map2 (\<lambda>c y. if y = 0 then ring_share_not c else c) (c i) (map v js))
        (map (\<lambda>j. of_bool (v j \<le> u j)) js)"
      unfolding sub .
  qed
qed

lemma mpc_ring_unsigned_ge_const_lhs_many:
  fixes y :: "PartyID \<Rightarrow> 'l::len word share list"
  assumes "lawful_ring R" "bshares y (map v js)" "LENGTH('l) = 2 ^ d"
    and "\<And>c :: PartyID \<Rightarrow> bit_share list. bshares c (map (\<lambda>j. of_bool (v j \<le> u j)) js) \<Longrightarrow> Q c"
  shows "mpc (\<lambda>i. ring_unsigned_ge_const_lhs_many R (map u js) (y i)) Q"
proof -
  have ny: "bshares (\<lambda>i. map ring_share_not (y i)) (map (\<lambda>j. NOT (v j)) js)"
    by (rule tab_map[OF assms(2)], rule bshare_not)
  have p: "bshares (\<lambda>i. map2 (\<lambda>yn xc. ring_xor_public yn xc i) (map ring_share_not (y i)) (map u js))
      (map (\<lambda>j. NOT (v j) XOR u j) js)"
    by (rule tab_map2_public[OF ny], rule bshare_ring_xor_public)
  have "bshares (\<lambda>i. map2 bin_and_public (map ring_share_not (y i)) (map u js)) (map (\<lambda>j. NOT (v j) AND u j) js)"
    by (rule tab_map2_public[OF ny], rule bshare_and_public)
  from this p have g: "bshares (\<lambda>i. zip_update (\<lambda>g p. bin_xor g (bin_and_public p 1))
      (map2 bin_and_public (map ring_share_not (y i)) (map u js))
      (map2 (\<lambda>yn xc. ring_xor_public yn xc i) (map ring_share_not (y i)) (map u js)))
      (map (\<lambda>j. (NOT (v j) AND u j) XOR ((NOT (v j) XOR u j) AND 1)) js)"
    by (rule tab_zip_update) (intro bshare_xor bshare_and_public)
  have sub: "ksw_carry_out (ilog2 LENGTH('l)) (NOT a XOR b) ((NOT a AND b) XOR ((NOT a XOR b) AND 1)) \<longleftrightarrow> a \<le> b"
    for a b :: "'l word"
    unfolding xor.commute[of "NOT a" b] and.commute[of "NOT a" b] by (rule ksw_sub(2)[OF pow2_width[OF assms(3)]])
  show ?thesis
    unfolding ring_unsigned_ge_const_lhs_many_def Let_def
  proof (rule mpc_bind, rule mpc_get_id, rule mpc_bind,
      rule mpc_ring_kogge_stone_inner_with_carry_many[OF assms(1) p g], unfold prod.case, rule mpc_ret, rule assms(4))
  qed (simp only: sub)
qed

subsection \<open>Properties\<close>

text \<open>
  (C22) Subtraction of binary shared ring elements with wrap-around: the circuit returns a sharing of
  the difference modulo \<open>2 ^ K\<close> together with a shared bit that is set exactly when there is no
  borrow.  The version that subtracts a public constant (two's complement, with the carry
  corrected for zero) and the one that subtracts from a public constant agree with it.
\<close>

theorem ring_subtraction_correct:
  fixes x y :: "PartyID \<Rightarrow> 'l::len word share"
  assumes "lawful_ring R" "bshare x u" "bshare y v" "LENGTH('l) = 2 ^ d"
  shows "mpc (\<lambda>i. ring_low_depth_binary_sub_with_carry R (x i) (y i))
       (\<lambda>z. bshare (\<lambda>i. fst (z i)) (u - v) \<and> bshare (\<lambda>i. snd (z i)) (of_bool (v \<le> u))) \<and>
    mpc (\<lambda>i. ring_low_depth_binary_sub_by_const_with_carry R (x i) v)
       (\<lambda>z. bshare (\<lambda>i. fst (z i)) (u - v) \<and> bshare (\<lambda>i. snd (z i)) (of_bool (v \<le> u))) \<and>
    mpc (\<lambda>i. ring_low_depth_binary_sub_from_const_with_carry R u (y i))
       (\<lambda>z. bshare (\<lambda>i. fst (z i)) (u - v) \<and> bshare (\<lambda>i. snd (z i)) (of_bool (v \<le> u)))"
  by (intro conjI mpc_ring_low_depth_binary_sub_with_carry[OF assms]
      mpc_ring_low_depth_binary_sub_by_const_with_carry[OF assms(1,2,4)]
      mpc_ring_low_depth_binary_sub_from_const_with_carry[OF assms(1,3,4)]) simp_all

theorem ring_subtraction_correct_witness:
  "mpc (\<lambda>i. ring_low_depth_binary_sub_with_carry ex_ring (dealt 5 3 7 i) (dealt (2 :: 8 word) 0 0 i))
     (\<lambda>z. bshare (\<lambda>i. fst (z i)) (- 1) \<and> bshare (\<lambda>i. snd (z i)) 0)"
  using ring_subtraction_correct[OF ex_ring_lawful dealt_bshare[of "5 :: 8 word" 3 7 1]
      dealt_bshare[of "2 :: 8 word" 0 0 2], of 3] by (simp add: word_le_nat_alt)

end
