(* ===== verification/Ring_Conversion.thy ===== *)
theory Ring_Conversion
  imports Ring_Detail Rep3_Conversion
begin

text \<open>
  Conversions between the sharings of a ring element, \<open>rep3_ring/conversion.rs\<close>: from sums to
  exclusive ors (\<open>a2b\<close>), back (\<open>b2a\<close>), and of single bits into a ring or into the field
  (\<open>bit_inject\<close>), with their batched versions; and the comparisons of arithmetic shares of
  \<open>rep3_ring/detail.rs\<close>, which convert first.
\<close>

subsection \<open>Arithmetic to binary\<close>

definition ring_a2b_input :: "PartyID \<Rightarrow> 'l::len ring_share \<Rightarrow> 'l word \<Rightarrow> 'l word \<times> 'l ring_share" where
  "ring_a2b_input i x r =
     (case i of
        ID0 \<Rightarrow> (r, Share 0 (sh_b x))
      | ID1 \<Rightarrow> ((sh_a x + sh_b x) XOR r, Share 0 0)
      | ID2 \<Rightarrow> (r, Share (sh_a x) 0))"

definition ring_a2b ::
  "('l::len word, 'r, 'w) ring_env \<Rightarrow> 'l ring_share \<Rightarrow> ('w, 'r, 'l ring_share) prog" where
  "ring_a2b R x =
     qbind (with_rand (random_elements (rgen R))) (\<lambda>(r, r2).
     qbind get_id (\<lambda>i.
       let (x01_a, x2) = ring_a2b_input i x (r XOR r2)
       in qbind (send_next (rcodec R) x01_a) (\<lambda>_.
          qbind (recv_prev (rcodec R)) (\<lambda>local_b.
          ring_low_depth_binary_add R (Share x01_a local_b) x2))))"

definition ring_a2b_many ::
  "('l::len word, 'r, 'w) ring_env \<Rightarrow> 'l ring_share list \<Rightarrow> ('w, 'r, 'l ring_share list) prog" where
  "ring_a2b_many R x =
     qbind (qmap (\<lambda>_. qbind (with_rand (random_elements (rgen R))) (\<lambda>(r, r2). qret (r XOR r2))) x) (\<lambda>r_vec.
     qbind get_id (\<lambda>i.
       let inputs = map2 (ring_a2b_input i) x r_vec;
           x01_a = map fst inputs; x2 = map snd inputs
       in qbind (reshare_many (rcodec R) x01_a) (\<lambda>x01_b.
          ring_low_depth_binary_add_many R (map2 Share x01_a x01_b) x2)))"

subsection \<open>Binary to arithmetic\<close>

definition ring_b2a_keys ::
  "('l::len word, 'r, 'w) ring_env \<Rightarrow> PartyID \<Rightarrow> 'l word \<Rightarrow> ('w, 'r, 'l word \<times> 'l ring_share) prog" where
  "ring_b2a_keys R i r =
     (case i of
        ID0 \<Rightarrow> qbind (with_bitcomp2 (random_elements_3keys (rgen R))) (\<lambda>k3.
                 qret (r, Share 0 (- sum_keys k3)))
      | ID1 \<Rightarrow> qbind (with_bitcomp1 (random_elements_3keys (rgen R))) (\<lambda>k2.
                 qret (r, Share (- sum_keys k2) 0))
      | ID2 \<Rightarrow> qbind (with_bitcomp1 (random_elements_3keys (rgen R))) (\<lambda>k2.
               qbind (with_bitcomp2 (random_elements_3keys (rgen R))) (\<lambda>k3.
                 let k2_comp = sum_keys k2; k3_comp = sum_keys k3; val = k2_comp + k3_comp
                 in qret (val XOR r, Share (- k3_comp) (- k2_comp)))))"

definition ring_b2a_open ::
  "('l::len word, 'r, 'w) ring_env \<Rightarrow> PartyID \<Rightarrow> 'l ring_share \<Rightarrow> 'l ring_share \<Rightarrow> ('w, 'r, 'l ring_share) prog" where
  "ring_b2a_open R i z res =
     (case i of
        ID0 \<Rightarrow> qbind (send_next (rcodec R) (sh_b z)) (\<lambda>_.
               qbind (recv_prev (rcodec R)) (\<lambda>rcv. qret (Share (sh_a z XOR sh_b z XOR rcv) (sh_b res))))
      | ID1 \<Rightarrow> qbind (recv_prev (rcodec R)) (\<lambda>rcv. qret (Share (sh_a res) (sh_a z XOR sh_b z XOR rcv)))
      | ID2 \<Rightarrow> qbind (send_next (rcodec R) (sh_b z)) (\<lambda>_. qret res))"

definition ring_b2a ::
  "('l::len word, 'r, 'w) ring_env \<Rightarrow> 'l ring_share \<Rightarrow> ('w, 'r, 'l ring_share) prog" where
  "ring_b2a R x =
     qbind (with_rand (random_elements (rgen R))) (\<lambda>(r, r2).
     qbind get_id (\<lambda>i.
     qbind (ring_b2a_keys R i (r XOR r2)) (\<lambda>(y_a, res).
     qbind (send_next (rcodec R) y_a) (\<lambda>_.
     qbind (recv_prev (rcodec R)) (\<lambda>local_b.
     qbind (ring_low_depth_binary_add R x (Share y_a local_b)) (\<lambda>z.
     ring_b2a_open R i z res))))))"

definition ring_b2a_open_many ::
  "('l::len word, 'r, 'w) ring_env \<Rightarrow> PartyID \<Rightarrow> 'l ring_share list \<Rightarrow> 'l ring_share list \<Rightarrow>
   ('w, 'r, 'l ring_share list) prog" where
  "ring_b2a_open_many R i z res =
     (let z_b = map sh_b z;
          set_a = (\<lambda>res (rcv, z). Share (sh_a z XOR sh_b z XOR rcv) (sh_b res));
          set_b = (\<lambda>res (rcv, z). Share (sh_a res) (sh_a z XOR sh_b z XOR rcv))
      in case i of
           ID0 \<Rightarrow> qbind (reshare_many (rcodec R) z_b) (\<lambda>rcv. qret (zip_update set_a res (zip rcv z)))
         | ID1 \<Rightarrow> qbind (recv_many (rcodec R) (prev_id i)) (\<lambda>rcv. qret (zip_update set_b res (zip rcv z)))
         | ID2 \<Rightarrow> qbind (send_many (rcodec R) (next_id i) z_b) (\<lambda>_. qret res))"

definition ring_b2a_many ::
  "('l::len word, 'r, 'w) ring_env \<Rightarrow> 'l ring_share list \<Rightarrow> ('w, 'r, 'l ring_share list) prog" where
  "ring_b2a_many R x =
     qbind (qmap (\<lambda>_. qbind (with_rand (random_elements (rgen R))) (\<lambda>(r, r2). qret (r XOR r2))) x) (\<lambda>r_vec.
     qbind get_id (\<lambda>i.
     qbind (qmap (ring_b2a_keys R i) r_vec) (\<lambda>keys.
       let y_a = map fst keys; res = map snd keys
       in qbind (reshare_many (rcodec R) y_a) (\<lambda>y_b.
          qbind (ring_low_depth_binary_add_many R x (map2 Share y_a y_b)) (\<lambda>z.
          ring_b2a_open_many R i z res)))))"

subsection \<open>Bit injection\<close>

text \<open>The three summands of the bit as sharings of their own, converted by \<open>f\<close>.\<close>

definition ring_inject_shares ::
  "('l::len word \<Rightarrow> 'e::zero) \<Rightarrow> PartyID \<Rightarrow> 'l ring_share \<Rightarrow> 'e share \<times> 'e share \<times> 'e share" where
  "ring_inject_shares f i x =
     (let a = f (sh_a x); b = f (sh_b x)
      in case i of
           ID0 \<Rightarrow> (Share a 0, Share 0 0, Share 0 b)
         | ID1 \<Rightarrow> (Share 0 b, Share a 0, Share 0 0)
         | ID2 \<Rightarrow> (Share 0 0, Share 0 b, Share a 0))"

definition ring_bit_inject ::
  "('l::len word, 'r, 'w) ring_env \<Rightarrow> 'l ring_share \<Rightarrow> ('w, 'r, 'l ring_share) prog" where
  "ring_bit_inject R x =
     (if int_ring_bits (sh_a x) > 1 then qfail Panic
      else qbind get_id (\<lambda>i.
        let (b0, b1, b2) = ring_inject_shares (\<lambda>v. v) i x
        in qbind (ring_arithmetic_xor R b0 b1) (\<lambda>d. ring_arithmetic_xor R d b2)))"

definition ring_bit_inject_many ::
  "('l::len word, 'r, 'w) ring_env \<Rightarrow> 'l ring_share list \<Rightarrow> ('w, 'r, 'l ring_share list) prog" where
  "ring_bit_inject_many R x =
     (if \<exists>s \<in> set x. int_ring_bits (sh_a s) > 1 then qfail Panic
      else qbind get_id (\<lambda>i.
        let b0 = map (\<lambda>s. fst (ring_inject_shares (\<lambda>v. v) i s)) x;
            b1 = map (\<lambda>s. fst (snd (ring_inject_shares (\<lambda>v. v) i s))) x;
            b2 = map (\<lambda>s. snd (snd (ring_inject_shares (\<lambda>v. v) i s))) x
        in qbind (ring_arithmetic_xor_many R b0 b1) (\<lambda>d. ring_arithmetic_xor_many R d b2)))"

text \<open>\<open>Bit::convert\<close> followed by \<open>T::from(bool)\<close>, or by \<open>as u64\<close> and \<open>F::from\<close>.\<close>

definition bit_to_ring :: "1 word \<Rightarrow> 'e::zero_neq_one" where
  "bit_to_ring b = of_bool (b = 1)"

definition ring_bit_inject_from_bit ::
  "('l::len word, 'r, 'w) ring_env \<Rightarrow> bit_share \<Rightarrow> ('w, 'r, 'l ring_share) prog" where
  "ring_bit_inject_from_bit R x =
     qbind get_id (\<lambda>i.
       let (b0, b1, b2) = ring_inject_shares bit_to_ring i x
       in qbind (ring_arithmetic_xor R b0 b1) (\<lambda>d. ring_arithmetic_xor R d b2))"

definition ring_bit_inject_from_bits_many ::
  "('l::len word, 'r, 'w) ring_env \<Rightarrow> bit_share list \<Rightarrow> ('w, 'r, 'l ring_share list) prog" where
  "ring_bit_inject_from_bits_many R x =
     qbind get_id (\<lambda>i.
       let b0 = map (\<lambda>s. fst (ring_inject_shares bit_to_ring i s)) x;
           b1 = map (\<lambda>s. fst (snd (ring_inject_shares bit_to_ring i s))) x;
           b2 = map (\<lambda>s. snd (snd (ring_inject_shares bit_to_ring i s))) x
       in qbind (ring_arithmetic_xor_many R b0 b1) (\<lambda>d. ring_arithmetic_xor_many R d b2))"

definition ring_bit_inject_from_bits_to_field_many ::
  "('f::comm_ring_1, 'r, 's, 'w) env \<Rightarrow> bit_share list \<Rightarrow> ('w, 'r, 'f share list) prog" where
  "ring_bit_inject_from_bits_to_field_many E x =
     qbind get_id (\<lambda>i.
       let b0 = map (\<lambda>s. fst (ring_inject_shares bit_to_ring i s)) x;
           b1 = map (\<lambda>s. fst (snd (ring_inject_shares bit_to_ring i s))) x;
           b2 = map (\<lambda>s. snd (snd (ring_inject_shares bit_to_ring i s))) x
       in qbind (rep3_arithmetic_xor_many E b0 b1) (\<lambda>d. rep3_arithmetic_xor_many E d b2))"

subsection \<open>Comparisons of arithmetic shares\<close>

definition ring_unsigned_ge ::
  "('l::len word, 'r, 'w) ring_env \<Rightarrow> 'l ring_share \<Rightarrow> 'l ring_share \<Rightarrow> ('w, 'r, bit_share) prog" where
  "ring_unsigned_ge R x y =
     qbind (ring_a2b R x) (\<lambda>a_bits.
     qbind (ring_a2b R y) (\<lambda>b_bits.
     qbind (ring_low_depth_binary_sub_with_carry R a_bits b_bits) (\<lambda>(_, r). qret r)))"

definition ring_unsigned_ge_const_lhs ::
  "('l::len word, 'r, 'w) ring_env \<Rightarrow> 'l word \<Rightarrow> 'l ring_share \<Rightarrow> ('w, 'r, bit_share) prog" where
  "ring_unsigned_ge_const_lhs R x y =
     qbind (ring_a2b R y) (\<lambda>b_bits.
     qbind (ring_low_depth_binary_sub_from_const_with_carry R x b_bits) (\<lambda>(_, r). qret r))"

definition ring_unsigned_ge_const_rhs ::
  "('l::len word, 'r, 'w) ring_env \<Rightarrow> 'l ring_share \<Rightarrow> 'l word \<Rightarrow> ('w, 'r, bit_share) prog" where
  "ring_unsigned_ge_const_rhs R x y =
     qbind (ring_a2b R x) (\<lambda>a_bits.
     qbind (ring_low_depth_binary_sub_by_const_with_carry R a_bits y) (\<lambda>(_, r). qret r))"

subsection \<open>Correctness\<close>

lemma ring_mask_sum_zero: "sum3 (XOR) (\<lambda>i. z i XOR z (prev_id i)) = (0 :: 'l::len word)"
  by (simp add: sum3_def ac_simps)

lemma mpc_ring_zero_masks:
  fixes R :: "('l::len word, 'r, 'w) ring_env"
  assumes "\<And>i. length (xs i) = n"
    and "\<And>r. (\<And>i. length (r i) = n) \<Longrightarrow> (\<And>k. k < n \<Longrightarrow> sum3 (XOR) (\<lambda>i. r i ! k) = 0) \<Longrightarrow> Q r"
  shows "mpc (\<lambda>i. qmap (\<lambda>_. qbind (with_rand (random_elements (rgen R))) (\<lambda>(r, r2). qret (r XOR r2))) (xs i)) Q"
proof (rule mpc_qmap[where n = n and R = "\<lambda>k z. sum3 (XOR) z = 0", OF _ assms])
  show "mpc (\<lambda>i. qbind (with_rand (random_elements (rgen R))) (\<lambda>(r, r2). qret (r XOR r2))) (\<lambda>z. sum3 (XOR) z = 0)"
    unfolding draws_draw2 by (rule mpc_bind, rule mpc_draw2) (simp add: mpc_ret ring_mask_sum_zero)
qed

lemma ring_a2b_input_shared:
  fixes x :: "PartyID \<Rightarrow> 'l::len word share"
  assumes "ashare x u" "sum3 (XOR) r = 0"
  shows "sum3 (XOR) (\<lambda>i. fst (ring_a2b_input i (x i) (r i))) = sh_a (x ID0) + sh_a (x ID1)"
    and "bshare (\<lambda>i. snd (ring_a2b_input i (x i) (r i))) (sh_a (x ID2))"
proof -
  have "(r ID0 XOR r ID1 XOR r ID2) XOR v = v" for v using assms(2) by (simp add: sum3_def xor.assoc)
  then have cancel: "r ID0 XOR r ID1 XOR r ID2 XOR v = v" for v by (simp only: xor.assoc)
  show "sum3 (XOR) (\<lambda>i. fst (ring_a2b_input i (x i) (r i))) = sh_a (x ID0) + sh_a (x ID1)"
    by (simp add: sum3_def ring_a2b_input_def add.commute xor.commute xor.left_commute xor.assoc
        shared_byD[OF assms(1), of ID1] cancel)
  show "bshare (\<lambda>i. snd (ring_a2b_input i (x i) (r i))) (sh_a (x ID2))"
    by (rule shared_by3I) (simp_all add: ring_a2b_input_def shared_byD[OF assms(1)])
qed

lemma mpc_ring_a2b [mpc_rules]:
  fixes x :: "PartyID \<Rightarrow> 'l::len word share"
  assumes "lawful_ring R" "ashare x u" "LENGTH('l) = 2 ^ d" "\<And>z. bshare z u \<Longrightarrow> Q z"
  shows "mpc (\<lambda>i. ring_a2b R (x i)) Q"
  unfolding ring_a2b_def Let_def draws_draw2 send_recv_reshare_one split_beta
proof (rule mpc_bind, rule mpc_draw2, rule mpc_bind, rule mpc_get_id, rule mpc_bind, rule mpc_reshare)
  fix r :: "PartyID \<Rightarrow> 'l word"
  let ?in = "\<lambda>i. ring_a2b_input i (x i) (fst (r i, r (prev_id i)) XOR snd (r i, r (prev_id i)))"
  have sum: "sum3 (XOR) (\<lambda>i. fst (?in i)) = sh_a (x ID0) + sh_a (x ID1)" and x2: "bshare (\<lambda>i. snd (?in i)) (sh_a (x ID2))"
    using ring_a2b_input_shared[OF assms(2) ring_mask_sum_zero[of r]] by simp_all
  show "mpc (\<lambda>i. ring_low_depth_binary_add R (Share (fst (?in i)) (fst (?in (prev_id i)))) (snd (?in i))) Q"
    by (rule mpc_ring_low_depth_binary_add[OF assms(1) shared_by_reshare[OF sum] x2 assms(3)])
      (use assms(4) shared_by_sum[OF assms(2)] in simp)
qed (use assms(1) in simp)

lemma mpc_ring_a2b_many [mpc_rules]:
  fixes x :: "PartyID \<Rightarrow> 'l::len word share list"
  assumes "lawful_ring R" "ashares x us" "LENGTH('l) = 2 ^ d" "\<And>z. bshares z us \<Longrightarrow> Q z"
  shows "mpc (\<lambda>i. ring_a2b_many R (x i)) Q"
  unfolding ring_a2b_many_def Let_def
proof (rule mpc_bind, rule mpc_ring_zero_masks, rule vec_shared_byD(1)[OF assms(2)], rule mpc_bind,
    rule mpc_get_id, rule mpc_bind, rule mpc_reshare_many)
  fix r :: "PartyID \<Rightarrow> 'l word list"
  assume l: "\<And>i. length (r i) = length us" and r: "\<And>k. k < length us \<Longrightarrow> sum3 (XOR) (\<lambda>i. r i ! k) = 0"
  let ?in = "\<lambda>i. map2 (ring_a2b_input i) (x i) (r i)" and ?js = "[0..<length us]"
  let ?ab = "\<lambda>k. sh_a (x ID0 ! k) + sh_a (x ID1 ! k)" and ?c = "\<lambda>k. sh_a (x ID2 ! k)"
  note lx = vec_shared_byD(1)[OF assms(2)] and xk = vec_shared_byD(2)[OF assms(2)]
  have sum: "vec_summing (XOR) (\<lambda>i. map fst (?in i)) (map ?ab ?js)"
    using l lx by (simp add: vec_summing_def ring_a2b_input_shared(1)[OF xk r])
  have x2: "bshares (\<lambda>i. map snd (?in i)) (map ?c ?js)"
    using l lx by (simp add: vec_shared_by_def ring_a2b_input_shared(2)[OF xk r])
  have "map (\<lambda>k. ?ab k + ?c k) ?js = us" using shared_by_sum[OF xk] by (auto intro!: nth_equalityI)
  then show "mpc (\<lambda>i. ring_low_depth_binary_add_many R (map2 Share (map fst (?in i)) (map fst (?in (prev_id i))))
      (map snd (?in i))) Q"
    using assms(4) by (intro mpc_ring_low_depth_binary_add_many[OF assms(1) vec_shared_by_reshare[OF sum] x2 assms(3)]) simp
qed (use assms(1) in simp)

text \<open>What the first phase of \<open>b2a\<close> leaves: an exclusive-or sharing of the random summand, and
  the parties' shares of its negation; and what the second phase makes of it.\<close>

definition ring_b2a_dealt :: "(PartyID \<Rightarrow> 'l::len word \<times> 'l ring_share) \<Rightarrow> 'l word \<times> 'l word \<Rightarrow> bool" where
  "ring_b2a_dealt z k \<longleftrightarrow> sum3 (XOR) (\<lambda>i. fst (z i)) = fst k + snd k \<and>
     snd (z ID0) = Share 0 (- snd k) \<and> snd (z ID1) = Share (- fst k) 0 \<and>
     snd (z ID2) = Share (- snd k) (- fst k)"

definition ring_b2a_opened :: "(PartyID \<Rightarrow> 'l::len ring_share) \<Rightarrow> 'l word \<Rightarrow> PartyID \<Rightarrow> 'l ring_share" where
  "ring_b2a_opened res w i = (case i of ID0 \<Rightarrow> Share w (sh_b (res i)) | ID1 \<Rightarrow> Share (sh_a (res i)) w | ID2 \<Rightarrow> res i)"

lemma ring_b2a_result:
  "ring_b2a_dealt z k \<Longrightarrow> ashare (ring_b2a_opened (\<lambda>i. snd (z i)) (u + (fst k + snd k))) u"
  by (rule shared_by3I) (simp_all add: ring_b2a_dealt_def ring_b2a_opened_def)

lemma mpc_ring_b2a_keys:
  fixes R :: "('l::len word, 'r, 'w) ring_env"
  assumes "sum3 (XOR) r = 0" "\<And>z k. ring_b2a_dealt z k \<Longrightarrow> Q z"
  shows "mpc (\<lambda>i. ring_b2a_keys R i (r i)) Q"
proof (rule mpc_cong[OF mpc_3keys[where g = "rgen R" and
      ha = "\<lambda>k3. (r ID0, Share 0 (- sum_keys k3))" and hb = "\<lambda>k2. (r ID1, Share (- sum_keys k2) 0)" and
      hc = "\<lambda>k2 k3. ((sum_keys k2 + sum_keys k3) XOR r ID2, Share (- sum_keys k3) (- sum_keys k2))"]])
  fix a b c d e f :: "'l word"
  have "(r ID0 XOR r ID1 XOR r ID2) XOR v = v" for v using assms(1) by (simp add: sum3_def xor.assoc)
  then have "r ID0 XOR r ID1 XOR (v XOR r ID2) = v" for v by (simp add: ac_simps)
  then show "Q (\<lambda>i. case i of ID0 \<Rightarrow> (r ID0, Share 0 (- sum_keys (d, e, f))) | ID1 \<Rightarrow> (r ID1, Share (- sum_keys (a, b, c)) 0)
      | ID2 \<Rightarrow> ((sum_keys (b, c, a) + sum_keys (f, d, e)) XOR r ID2, Share (- sum_keys (f, d, e)) (- sum_keys (b, c, a))))"
    by (intro assms(2)[where k = "(a + b + c, d + e + f)"])
      (simp add: ring_b2a_dealt_def sum3_def sum_keys_def xor.assoc add.commute add.left_commute)
qed (auto simp: ring_b2a_keys_def Let_def split: PartyID.split)

lemma two_open:
  fixes z :: "PartyID \<Rightarrow> 'l::len word share"
  assumes "bshare z w"
  shows "sh_a (z ID0) XOR sh_b (z ID0) XOR sh_b (z ID2) = w" "sh_a (z ID1) XOR sh_b (z ID1) XOR sh_b (z ID0) = w"
  by (simp_all add: shared_byD[OF assms] shared_by_sum[OF assms] ac_simps)

lemma mpc_ring_b2a_open:
  fixes z :: "PartyID \<Rightarrow> 'l::len word share"
  assumes "lawful_ring R" "bshare z w" "Q (ring_b2a_opened res w)"
  shows "mpc (\<lambda>i. ring_b2a_open R i (z i) (res i)) Q"
proof (rule mpc_cong[OF mpc_send_to_two[where c = "rcodec R" and v = "\<lambda>i. sh_b (z i)" and
      ha = "\<lambda>rcv. Share (sh_a (z ID0) XOR sh_b (z ID0) XOR rcv) (sh_b (res ID0))" and
      hb = "\<lambda>rcv. Share (sh_a (res ID1)) (sh_a (z ID1) XOR sh_b (z ID1) XOR rcv)" and hc = "res ID2"]])
  from assms(3) show "Q (\<lambda>i. case i of ID0 \<Rightarrow> Share (sh_a (z ID0) XOR sh_b (z ID0) XOR sh_b (z ID2)) (sh_b (res ID0))
      | ID1 \<Rightarrow> Share (sh_a (res ID1)) (sh_a (z ID1) XOR sh_b (z ID1) XOR sh_b (z ID0)) | ID2 \<Rightarrow> res ID2)"
    unfolding two_open[OF assms(2)]
    by (rule back_subst[of Q]) (auto simp: fun_eq_iff ring_b2a_opened_def split: PartyID.split)
qed (use assms(1) in \<open>auto simp: ring_b2a_open_def split: PartyID.split\<close>)

lemma mpc_ring_b2a [mpc_rules]:
  fixes x :: "PartyID \<Rightarrow> 'l::len word share"
  assumes "lawful_ring R" "bshare x u" "LENGTH('l) = 2 ^ d" "\<And>z. ashare z u \<Longrightarrow> Q z"
  shows "mpc (\<lambda>i. ring_b2a R (x i)) Q"
  unfolding ring_b2a_def draws_draw2 send_recv_reshare_one split_beta
proof (rule mpc_bind, rule mpc_draw2, rule mpc_bind, rule mpc_get_id, rule mpc_bind, rule mpc_ring_b2a_keys,
    unfold fst_conv snd_conv, rule ring_mask_sum_zero, rule mpc_bind, rule mpc_reshare, use assms(1) in simp)
  fix z :: "PartyID \<Rightarrow> 'l word \<times> 'l word share" and k
  assume z: "ring_b2a_dealt z k"
  then have sum: "sum3 (XOR) (\<lambda>i. fst (z i)) = fst k + snd k" by (simp add: ring_b2a_dealt_def)
  show "mpc (\<lambda>i. qbind (ring_low_depth_binary_add R (x i) (Share (fst (z i)) (fst (z (prev_id i)))))
      (\<lambda>y. ring_b2a_open R i y (snd (z i)))) Q"
    by (rule mpc_bind, rule mpc_ring_low_depth_binary_add[OF assms(1,2) shared_by_reshare[OF sum] assms(3)],
        rule mpc_ring_b2a_open[OF assms(1)], assumption, rule assms(4), rule ring_b2a_result[OF z])
qed

lemma mpc_ring_b2a_open_many:
  fixes z :: "PartyID \<Rightarrow> 'l::len word share list"
  assumes "lawful_ring R" "bshares z (map w [0..<n])" "\<And>i. length (res i) = n"
    and "\<And>y. (\<And>i. length (y i) = n) \<Longrightarrow>
      (\<And>k. k < n \<Longrightarrow> (\<lambda>i. y i ! k) = ring_b2a_opened (\<lambda>i. res i ! k) (w k)) \<Longrightarrow> Q y"
  shows "mpc (\<lambda>i. ring_b2a_open_many R i (z i) (res i)) Q"
proof -
  define set_a where "set_a = (\<lambda>(res :: 'l word share) (rcv, z). Share (sh_a z XOR sh_b z XOR rcv) (sh_b res))"
  define set_b where "set_b = (\<lambda>(res :: 'l word share) (rcv, z). Share (sh_a res) (sh_a z XOR sh_b z XOR rcv))"
  define y where "y = (\<lambda>i. case i of
      ID0 \<Rightarrow> zip_update set_a (res ID0) (zip (map sh_b (z ID2)) (z ID0))
    | ID1 \<Rightarrow> zip_update set_b (res ID1) (zip (map sh_b (z ID0)) (z ID1))
    | ID2 \<Rightarrow> res ID2)"
  have lz: "length (z i) = n" for i using tab_length[OF assms(2)] by simp
  have ly: "length (y i) = n" for i by (cases i) (simp_all add: y_def assms(3) lz)
  have "Q y"
  proof (rule assms(4)[OF ly], rule ext)
    fix k i assume k: "k < n"
    with tab_nth[OF assms(2), of k] have zk: "bshare (\<lambda>i. z i ! k) (w k)" by simp
    show "y i ! k = ring_b2a_opened (\<lambda>i. res i ! k) (w k) i"
      using k by (cases i) (simp_all add: y_def assms(3) lz set_a_def set_b_def two_open[OF zk] ring_b2a_opened_def)
  qed
  then show ?thesis
    unfolding y_def ring_b2a_open_many_def Let_def set_a_def[symmetric] set_b_def[symmetric]
    by (rule_tac mpc_cong[OF mpc_send_to_two_many[where c = "rcodec R" and v = "\<lambda>i. map sh_b (z i)" and
          ha = "\<lambda>rcv. zip_update set_a (res ID0) (zip rcv (z ID0))" and
          hb = "\<lambda>rcv. zip_update set_b (res ID1) (zip rcv (z ID1))" and hc = "res ID2"]])
      (use assms(1) in \<open>auto split: PartyID.split\<close>)
qed

lemma mpc_ring_b2a_many [mpc_rules]:
  fixes x :: "PartyID \<Rightarrow> 'l::len word share list"
  assumes "lawful_ring R" "bshares x us" "LENGTH('l) = 2 ^ d" "\<And>z. ashares z us \<Longrightarrow> Q z"
  shows "mpc (\<lambda>i. ring_b2a_many R (x i)) Q"
  unfolding ring_b2a_many_def Let_def
proof (rule mpc_bind, rule mpc_ring_zero_masks, rule vec_shared_byD(1)[OF assms(2)], rule mpc_bind, rule mpc_get_id,
    rule mpc_bind, rule mpc_qmap[where n = "length us" and R = "\<lambda>_ z. \<exists>k. ring_b2a_dealt z k"])
  fix r x :: "PartyID \<Rightarrow> 'l word list" and y k
  assume "\<And>k. k < length us \<Longrightarrow> sum3 (XOR) (\<lambda>i. r i ! k) = 0" "k < length us" "\<And>i. y i = r i ! k"
  then show "mpc (\<lambda>i. ring_b2a_keys R i (y i)) (\<lambda>z. \<exists>k. ring_b2a_dealt z k)"
    by (intro mpc_ring_b2a_keys) (auto simp del: split_paired_Ex)
next
  fix keys :: "PartyID \<Rightarrow> ('l word \<times> 'l word share) list"
  assume len: "\<And>i. length (keys i) = length us"
    and "\<And>k. k < length us \<Longrightarrow> \<exists>ka. ring_b2a_dealt (\<lambda>i. keys i ! k) ka"
  then obtain ks where dealt: "\<And>k. k < length us \<Longrightarrow> ring_b2a_dealt (\<lambda>i. keys i ! k) (ks k)" by metis
  let ?js = "[0..<length us]"
  have sum: "vec_summing (XOR) (\<lambda>i. map fst (keys i)) (map (\<lambda>k. fst (ks k) + snd (ks k)) ?js)"
    using len dealt by (simp add: vec_summing_def ring_b2a_dealt_def)
  have xs: "bshares x (map ((!) us) ?js)" using assms(2) by (simp add: map_nth)
  show "mpc (\<lambda>i. qbind (reshare_many (rcodec R) (map fst (keys i))) (\<lambda>y_b.
      qbind (ring_low_depth_binary_add_many R (x i) (map2 Share (map fst (keys i)) y_b))
        (\<lambda>z. ring_b2a_open_many R i z (map snd (keys i))))) Q"
  proof (rule mpc_bind, rule mpc_reshare_many, use assms(1) in simp, rule mpc_bind,
      rule mpc_ring_low_depth_binary_add_many[OF assms(1) xs vec_shared_by_reshare[OF sum] assms(3)],
      rule mpc_ring_b2a_open_many[OF assms(1)], assumption)
    fix y :: "PartyID \<Rightarrow> 'l word share list"
    assume ly: "\<And>i. length (y i) = length us" and y: "\<And>k. k < length us \<Longrightarrow>
      (\<lambda>i. y i ! k) = ring_b2a_opened (\<lambda>i. map snd (keys i) ! k) (us ! k + (fst (ks k) + snd (ks k)))"
    have "ashare (\<lambda>i. y i ! k) (us ! k)" if k: "k < length us" for k
      using ring_b2a_result[OF dealt[OF k]] k len unfolding y[OF k] by simp
    then show "Q y" using ly by (intro assms(4)) (simp add: vec_shared_by_def)
  qed (use len in simp)
qed simp

subsubsection \<open>Bit injection\<close>

lemma ring_inject_shares_shared:
  fixes f :: "'l::len word \<Rightarrow> 'e::comm_ring_1"
  assumes "bshare x u"
  shows "ashare (\<lambda>i. fst (ring_inject_shares f i (x i))) (f (sh_a (x ID0)))"
    and "ashare (\<lambda>i. fst (snd (ring_inject_shares f i (x i)))) (f (sh_a (x ID1)))"
    and "ashare (\<lambda>i. snd (snd (ring_inject_shares f i (x i)))) (f (sh_a (x ID2)))"
  by (rule shared_by3I; simp add: ring_inject_shares_def Let_def shared_byD[OF assms])+

lemma xor_of_bools:
  "of_bool a + of_bool b - 2 * of_bool a * of_bool b + of_bool c
    - 2 * (of_bool a + of_bool b - 2 * of_bool a * of_bool b) * of_bool c = (of_bool ((a \<noteq> b) \<noteq> c) :: 'e::comm_ring_1)"
  by (cases a; cases b; cases c) simp_all

text \<open>A conversion \<open>f\<close> that reads the shares of a bit as 0 or 1.\<close>

definition bit_reading :: "('l::len word \<Rightarrow> 'e::comm_ring_1) \<Rightarrow> (PartyID \<Rightarrow> 'l ring_share) \<Rightarrow> bool \<Rightarrow> bool" where
  "bit_reading f x b \<longleftrightarrow> bshare x (of_bool b) \<and>
     (\<exists>c. (\<forall>i. f (sh_a (x i)) = of_bool (c i)) \<and> b = ((c ID0 \<noteq> c ID1) \<noteq> c ID2))"

lemma bit_reading_id:
  fixes x :: "PartyID \<Rightarrow> 'l::len word share"
  assumes "bshare x (of_bool b)" "\<And>i. sh_a (x i) \<in> {0, 1}"
  shows "bit_reading (\<lambda>v. v) x b"
proof -
  define c where "c = (\<lambda>i. sh_a (x i) = 1)"
  have c: "sh_a (x i) = of_bool (c i)" for i using assms(2)[of i] by (auto simp: c_def)
  have "of_bool b = (of_bool ((c ID0 \<noteq> c ID1) \<noteq> c ID2) :: 'l word)"
    using shared_by_sum[OF assms(1)] by (cases "c ID0"; cases "c ID1"; cases "c ID2") (simp_all add: c)
  then have "b = ((c ID0 \<noteq> c ID1) \<noteq> c ID2)" by (simp only: of_bool_eq_iff)
  with c assms(1) show ?thesis unfolding bit_reading_def by (intro conjI exI[of _ c] allI)
qed

lemma bit_reading_bit: "rbit x b \<Longrightarrow> bit_reading bit_to_ring x b"
  unfolding bit_reading_def
proof (intro conjI exI[of _ "\<lambda>i. sh_a (x i) = 1"] allI)
  assume x: "rbit x b"
  have "(of_bool b = (1 :: 1 word)) = ((sh_a (x ID0) XOR sh_a (x ID1) XOR sh_a (x ID2)) = 1)"
    using shared_by_sum[OF x] by (simp add: xor.assoc)
  then show "b = (((sh_a (x ID0) = 1) \<noteq> (sh_a (x ID1) = 1)) \<noteq> (sh_a (x ID2) = 1))"
    by (auto simp: xor_one_bit)
qed (simp_all add: bit_to_ring_def)

lemma bit_reading_shared:
  fixes f :: "'l::len word \<Rightarrow> 'e::comm_ring_1"
  assumes "bit_reading f x b"
  obtains c where "ashare (\<lambda>i. fst (ring_inject_shares f i (x i))) (of_bool (c ID0))"
    "ashare (\<lambda>i. fst (snd (ring_inject_shares f i (x i)))) (of_bool (c ID1))"
    "ashare (\<lambda>i. snd (snd (ring_inject_shares f i (x i)))) (of_bool (c ID2))"
    "b = ((c ID0 \<noteq> c ID1) \<noteq> c ID2)"
proof -
  from assms obtain c where x: "bshare x (of_bool b)" and c: "\<And>i. f (sh_a (x i)) = of_bool (c i)"
    and b: "b = ((c ID0 \<noteq> c ID1) \<noteq> c ID2)" unfolding bit_reading_def by blast
  from ring_inject_shares_shared[OF x, of f] b show ?thesis unfolding c by (rule that)
qed

lemma mpc_ring_inject:
  fixes R :: "('l::len word, 'r, 'w) ring_env"
  assumes "lawful_ring R" "bit_reading f x b" "\<And>z. ashare z (of_bool b) \<Longrightarrow> Q z"
  shows "mpc (\<lambda>i. qbind get_id (\<lambda>i'. qbind (ring_arithmetic_xor R (fst (ring_inject_shares f i' (x i)))
      (fst (snd (ring_inject_shares f i' (x i))))) (\<lambda>d. ring_arithmetic_xor R d (snd (snd (ring_inject_shares f i' (x i))))))) Q"
proof -
  obtain c where c: "ashare (\<lambda>i. fst (ring_inject_shares f i (x i))) (of_bool (c ID0))"
    "ashare (\<lambda>i. fst (snd (ring_inject_shares f i (x i)))) (of_bool (c ID1))"
    "ashare (\<lambda>i. snd (snd (ring_inject_shares f i (x i)))) (of_bool (c ID2))" "b = ((c ID0 \<noteq> c ID1) \<noteq> c ID2)"
    by (rule bit_reading_shared[OF assms(2)])
  show ?thesis
    by (rule mpc_bind, rule mpc_get_id, rule mpc_bind, rule mpc_ring_arithmetic_xor[OF assms(1) c(1,2)],
        rule mpc_ring_arithmetic_xor[OF assms(1) _ c(3)], assumption, rule assms(3)) (simp only: xor_of_bools c(4))
qed

lemma mpc_ring_bit_inject [mpc_rules]:
  fixes x :: "PartyID \<Rightarrow> 'l::len word share"
  assumes "lawful_ring R" "bshare x (of_bool b)" "\<And>i. sh_a (x i) \<in> {0, 1}" "\<And>z. ashare z (of_bool b) \<Longrightarrow> Q z"
  shows "mpc (\<lambda>i. ring_bit_inject R (x i)) Q"
proof -
  have "\<not> 1 < int_ring_bits (sh_a (x i))" for i
    using assms(3)[of i] by (auto simp: int_ring_bits_def ilog2_def bit_count.simps[of "Suc 0"] bit_count.simps[of 0])
  then show ?thesis
    unfolding ring_bit_inject_def Let_def split_beta
    using mpc_ring_inject[OF assms(1) bit_reading_id[OF assms(2,3)] assms(4)] by simp
qed

lemma mpc_ring_bit_inject_from_bit [mpc_rules]:
  fixes R :: "('l::len word, 'r, 'w) ring_env"
  assumes "lawful_ring R" "rbit x b" "\<And>z. ashare z (of_bool b) \<Longrightarrow> Q z"
  shows "mpc (\<lambda>i. ring_bit_inject_from_bit R (x i)) Q"
  unfolding ring_bit_inject_from_bit_def Let_def split_beta
  by (rule mpc_ring_inject[OF assms(1) bit_reading_bit[OF assms(2)] assms(3)])

text \<open>The summands of a vector of bits, tabulated.\<close>

lemma bit_reading_vec:
  fixes f :: "'l::len word \<Rightarrow> 'e::comm_ring_1" and x :: "PartyID \<Rightarrow> 'l word share list"
  assumes "\<And>i. length (x i) = length bs" "\<And>k. k < length bs \<Longrightarrow> bit_reading f (\<lambda>i. x i ! k) (bs ! k)"
  obtains c where "ashares (\<lambda>i. map (\<lambda>s. fst (ring_inject_shares f i s)) (x i)) (map (\<lambda>k. of_bool (c k ID0)) [0..<length bs])"
    "ashares (\<lambda>i. map (\<lambda>s. fst (snd (ring_inject_shares f i s))) (x i)) (map (\<lambda>k. of_bool (c k ID1)) [0..<length bs])"
    "ashares (\<lambda>i. map (\<lambda>s. snd (snd (ring_inject_shares f i s))) (x i)) (map (\<lambda>k. of_bool (c k ID2)) [0..<length bs])"
    "bs = map (\<lambda>k. (c k ID0 \<noteq> c k ID1) \<noteq> c k ID2) [0..<length bs]"
proof -
  let ?P = "\<lambda>k c. ashare (\<lambda>i. fst (ring_inject_shares f i (x i ! k))) (of_bool (c ID0)) \<and>
      ashare (\<lambda>i. fst (snd (ring_inject_shares f i (x i ! k)))) (of_bool (c ID1)) \<and>
      ashare (\<lambda>i. snd (snd (ring_inject_shares f i (x i ! k)))) (of_bool (c ID2)) \<and>
      bs ! k = ((c ID0 \<noteq> c ID1) \<noteq> c ID2)"
  have "\<exists>c. k < length bs \<longrightarrow> ?P k c" for k
  proof (cases "k < length bs")
    case True
    obtain c where "?P k c" by (rule bit_reading_shared[OF assms(2)[OF True]]) (rule that, intro conjI)
    then show ?thesis by (intro exI[of _ c] impI)
  qed simp
  then have "\<forall>k. \<exists>c. k < length bs \<longrightarrow> ?P k c" ..
  from choice[OF this] obtain c where c: "\<forall>k. k < length bs \<longrightarrow> ?P k (c k)" ..
  show ?thesis
  proof (rule that[of c])
    show "bs = map (\<lambda>k. (c k ID0 \<noteq> c k ID1) \<noteq> c k ID2) [0..<length bs]"
      by (rule nth_equalityI) (use c in simp_all)
  qed (use c assms(1) in \<open>simp_all add: vec_shared_by_def\<close>)
qed

lemma mpc_ring_inject_many:
  fixes R :: "('l::len word, 'r, 'w) ring_env" and x :: "PartyID \<Rightarrow> 'k::len word share list"
  assumes "lawful_ring R" "\<And>i. length (x i) = length bs" "\<And>k. k < length bs \<Longrightarrow> bit_reading f (\<lambda>i. x i ! k) (bs ! k)"
    and "\<And>z. ashares z (map of_bool bs) \<Longrightarrow> Q z"
  shows "mpc (\<lambda>i. qbind get_id (\<lambda>i'. qbind (ring_arithmetic_xor_many R (map (\<lambda>s. fst (ring_inject_shares f i' s)) (x i))
      (map (\<lambda>s. fst (snd (ring_inject_shares f i' s))) (x i)))
      (\<lambda>d. ring_arithmetic_xor_many R d (map (\<lambda>s. snd (snd (ring_inject_shares f i' s))) (x i))))) Q"
proof -
  obtain c where c: "ashares (\<lambda>i. map (\<lambda>s. fst (ring_inject_shares f i s)) (x i)) (map (\<lambda>k. of_bool (c k ID0)) [0..<length bs])"
    "ashares (\<lambda>i. map (\<lambda>s. fst (snd (ring_inject_shares f i s))) (x i)) (map (\<lambda>k. of_bool (c k ID1)) [0..<length bs])"
    "ashares (\<lambda>i. map (\<lambda>s. snd (snd (ring_inject_shares f i s))) (x i)) (map (\<lambda>k. of_bool (c k ID2)) [0..<length bs])"
    "bs = map (\<lambda>k. (c k ID0 \<noteq> c k ID1) \<noteq> c k ID2) [0..<length bs]"
    by (rule bit_reading_vec[OF assms(2,3)])
  have v: "map of_bool bs = map (\<lambda>k. of_bool ((c k ID0 \<noteq> c k ID1) \<noteq> c k ID2)) [0..<length bs]"
    by (subst c(4)) simp
  show ?thesis
    by (rule mpc_bind, rule mpc_get_id, rule mpc_bind, rule mpc_ring_arithmetic_xor_many[OF assms(1) c(1,2)], simp,
        rule mpc_ring_arithmetic_xor_many[OF assms(1) _ c(3)], assumption, simp, rule assms(4),
        simp only: map2_map_map xor_of_bools v)
qed

lemma mpc_field_inject_many:
  fixes E :: "('f::comm_ring_1, 'r, 's, 'w) env" and x :: "PartyID \<Rightarrow> 'k::len word share list"
  assumes "lawful_net E" "\<And>i. length (x i) = length bs" "\<And>k. k < length bs \<Longrightarrow> bit_reading f (\<lambda>i. x i ! k) (bs ! k)"
    and "\<And>z. ashares z (map of_bool bs) \<Longrightarrow> Q z"
  shows "mpc (\<lambda>i. qbind get_id (\<lambda>i'. qbind (rep3_arithmetic_xor_many E (map (\<lambda>s. fst (ring_inject_shares f i' s)) (x i))
      (map (\<lambda>s. fst (snd (ring_inject_shares f i' s))) (x i)))
      (\<lambda>d. rep3_arithmetic_xor_many E d (map (\<lambda>s. snd (snd (ring_inject_shares f i' s))) (x i))))) Q"
proof -
  obtain c where c: "ashares (\<lambda>i. map (\<lambda>s. fst (ring_inject_shares f i s)) (x i)) (map (\<lambda>k. of_bool (c k ID0)) [0..<length bs])"
    "ashares (\<lambda>i. map (\<lambda>s. fst (snd (ring_inject_shares f i s))) (x i)) (map (\<lambda>k. of_bool (c k ID1)) [0..<length bs])"
    "ashares (\<lambda>i. map (\<lambda>s. snd (snd (ring_inject_shares f i s))) (x i)) (map (\<lambda>k. of_bool (c k ID2)) [0..<length bs])"
    "bs = map (\<lambda>k. (c k ID0 \<noteq> c k ID1) \<noteq> c k ID2) [0..<length bs]"
    by (rule bit_reading_vec[OF assms(2,3)])
  have v: "map of_bool bs = map (\<lambda>k. of_bool ((c k ID0 \<noteq> c k ID1) \<noteq> c k ID2)) [0..<length bs]"
    by (subst c(4)) simp
  show ?thesis
    by (rule mpc_bind, rule mpc_get_id, rule mpc_bind, rule mpc_rep3_arithmetic_xor_many[OF assms(1) c(1,2)], simp,
        rule mpc_rep3_arithmetic_xor_many[OF assms(1) _ c(3)], assumption, simp, rule assms(4),
        simp only: map2_map_map xor_of_bools v)
qed

lemma rbits_reading:
  assumes "rbits x bs"
  shows "length (x i) = length bs" "k < length bs \<Longrightarrow> bit_reading bit_to_ring (\<lambda>i. x i ! k) (bs ! k)"
  using vec_shared_byD[OF assms] by (auto intro!: bit_reading_bit)

lemma mpc_ring_bit_inject_from_bits_many [mpc_rules]:
  fixes R :: "('l::len word, 'r, 'w) ring_env"
  assumes "lawful_ring R" "rbits x bs" "\<And>z. ashares z (map of_bool bs) \<Longrightarrow> Q z"
  shows "mpc (\<lambda>i. ring_bit_inject_from_bits_many R (x i)) Q"
  unfolding ring_bit_inject_from_bits_many_def Let_def
  by (rule mpc_ring_inject_many[OF assms(1) rbits_reading[OF assms(2)] assms(3)])

lemma mpc_ring_bit_inject_from_bits_to_field_many [mpc_rules]:
  fixes E :: "('f::comm_ring_1, 'r, 's, 'w) env"
  assumes "lawful_net E" "rbits x bs" "\<And>z. ashares z (map of_bool bs) \<Longrightarrow> Q z"
  shows "mpc (\<lambda>i. ring_bit_inject_from_bits_to_field_many E (x i)) Q"
  unfolding ring_bit_inject_from_bits_to_field_many_def Let_def
  by (rule mpc_field_inject_many[OF assms(1) rbits_reading[OF assms(2)] assms(3)])

lemma mpc_ring_bit_inject_many [mpc_rules]:
  fixes x :: "PartyID \<Rightarrow> 'l::len word share list"
  assumes "lawful_ring R" "bshares x (map of_bool bs)" "\<And>i. sh_a ` set (x i) \<subseteq> {0, 1}"
    and "\<And>z. ashares z (map of_bool bs) \<Longrightarrow> Q z"
  shows "mpc (\<lambda>i. ring_bit_inject_many R (x i)) Q"
proof -
  have "\<not> 1 < int_ring_bits (sh_a s)" if "s \<in> set (x i)" for s i
    using assms(3)[of i] that by (auto simp: int_ring_bits_def ilog2_def bit_count.simps[of "Suc 0"] bit_count.simps[of 0])
  then have no: "\<not> (\<exists>s \<in> set (x i). 1 < int_ring_bits (sh_a s))" for i by blast
  have "bit_reading (\<lambda>v. v) (\<lambda>i. x i ! k) (bs ! k)" if "k < length bs" for k
  proof (rule bit_reading_id)
    show "bshare (\<lambda>i. x i ! k) (of_bool (bs ! k))" using vec_shared_byD(2)[OF assms(2)] that by simp
    show "sh_a (x i ! k) \<in> {0, 1}" for i
      using assms(3)[of i] nth_mem[of k "x i"] vec_shared_byD(1)[OF assms(2), of i] that by (simp add: image_subset_iff)
  qed
  with vec_shared_byD(1)[OF assms(2)] show ?thesis
    unfolding ring_bit_inject_many_def Let_def if_not_P[OF no]
    by (intro mpc_ring_inject_many[OF assms(1) _ _ assms(4)]) simp_all
qed

subsubsection \<open>Comparisons\<close>

lemma mpc_ring_unsigned_ge [mpc_rules]:
  fixes x y :: "PartyID \<Rightarrow> 'l::len word share"
  assumes "lawful_ring R" "ashare x u" "ashare y v" "LENGTH('l) = 2 ^ d" "\<And>z. rbit z (v \<le> u) \<Longrightarrow> Q z"
  shows "mpc (\<lambda>i. ring_unsigned_ge R (x i) (y i)) Q"
  unfolding ring_unsigned_ge_def
  by (rule mpc_bind, rule mpc_ring_a2b[OF assms(1,2,4)], rule mpc_bind, rule mpc_ring_a2b[OF assms(1,3,4)],
      rule mpc_bind, rule mpc_ring_low_depth_binary_sub_with_carry[OF assms(1) _ _ assms(4)], assumption, assumption,
      unfold prod.case, rule mpc_ret, rule assms(5))

lemma mpc_ring_unsigned_ge_const_lhs [mpc_rules]:
  fixes y :: "PartyID \<Rightarrow> 'l::len word share"
  assumes "lawful_ring R" "ashare y v" "LENGTH('l) = 2 ^ d" "\<And>z. rbit z (v \<le> u) \<Longrightarrow> Q z"
  shows "mpc (\<lambda>i. ring_unsigned_ge_const_lhs R u (y i)) Q"
  unfolding ring_unsigned_ge_const_lhs_def
  by (rule mpc_bind, rule mpc_ring_a2b[OF assms(1-3)],
      rule mpc_bind, rule mpc_ring_low_depth_binary_sub_from_const_with_carry[OF assms(1) _ assms(3)], assumption,
      unfold prod.case, rule mpc_ret, rule assms(4))

lemma mpc_ring_unsigned_ge_const_rhs [mpc_rules]:
  fixes x :: "PartyID \<Rightarrow> 'l::len word share"
  assumes "lawful_ring R" "ashare x u" "LENGTH('l) = 2 ^ d" "\<And>z. rbit z (v \<le> u) \<Longrightarrow> Q z"
  shows "mpc (\<lambda>i. ring_unsigned_ge_const_rhs R (x i) v) Q"
  unfolding ring_unsigned_ge_const_rhs_def
  by (rule mpc_bind, rule mpc_ring_a2b[OF assms(1-3)],
      rule mpc_bind, rule mpc_ring_low_depth_binary_sub_by_const_with_carry[OF assms(1) _ assms(3)], assumption,
      unfold prod.case, rule mpc_ret, rule assms(4))

subsection \<open>Properties\<close>

text \<open>
  (C21) Round trip in the rings: converting a vector of shared ring elements to exclusive-or sharings
  and back gives a sharing of the same vector, and so does the trip in the other direction.
\<close>

theorem ring_a2b_b2a_roundtrip:
  fixes x y :: "PartyID \<Rightarrow> 'l::len word share list"
  assumes "lawful_ring R" "ashares x us" "bshares y vs" "LENGTH('l) = 2 ^ d"
  shows "mpc (\<lambda>i. qbind (ring_a2b_many R (x i)) (ring_b2a_many R)) (\<lambda>z. ashares z us) \<and>
    mpc (\<lambda>i. qbind (ring_b2a_many R (y i)) (ring_a2b_many R)) (\<lambda>z. bshares z vs)"
proof
  show "mpc (\<lambda>i. qbind (ring_a2b_many R (x i)) (ring_b2a_many R)) (\<lambda>z. ashares z us)"
    by (rule mpc_bind, rule mpc_ring_a2b_many[OF assms(1,2,4)], rule mpc_ring_b2a_many[OF assms(1) _ assms(4)])
  show "mpc (\<lambda>i. qbind (ring_b2a_many R (y i)) (ring_a2b_many R)) (\<lambda>z. bshares z vs)"
    by (rule mpc_bind, rule mpc_ring_b2a_many[OF assms(1,3,4)], rule mpc_ring_a2b_many[OF assms(1) _ assms(4)])
qed

theorem ring_a2b_b2a_roundtrip_witness:
  "mpc (\<lambda>i. qbind (ring_a2b_many ex_ring [dealt 200 100 (7 :: 8 word) i]) (ring_b2a_many ex_ring))
     (\<lambda>z. ashares z [51])"
  using ring_a2b_b2a_roundtrip[OF ex_ring_lawful dealt_list(1)[OF dealt_ashare[of 200 100 7 "51 :: 8 word"] dealt_list(2)]
      dealt_list(2), of 3] by simp

text \<open>
  (C23) Injection of single bits: from sharings of bits in the type \<open>Bit\<close> the batched injections
  produce sums that share 0 or 1, in any ring and in the field.
\<close>

theorem ring_bit_injection_correct:
  fixes R :: "('l::len word, 'r, 'w) ring_env" and E :: "('f::comm_ring_1, 'r, 's, 'w) env"
  assumes "bshares x (map of_bool bs)"
  shows "(lawful_ring R \<longrightarrow> mpc (\<lambda>i. ring_bit_inject_from_bits_many R (x i)) (\<lambda>z. ashares z (map of_bool bs))) \<and>
    (lawful_net E \<longrightarrow> mpc (\<lambda>i. ring_bit_inject_from_bits_to_field_many E (x i)) (\<lambda>z. ashares z (map of_bool bs)))"
  by (intro conjI impI mpc_ring_bit_inject_from_bits_many[OF _ assms]
      mpc_ring_bit_inject_from_bits_to_field_many[OF _ assms])

theorem ring_bit_injection_correct_witness:
  "mpc (\<lambda>i. ring_bit_inject_from_bits_to_field_many ex_env [dealt 1 1 1 i, dealt 1 1 0 i])
     (\<lambda>z. ashares z [1 :: 5, 0])"
proof -
  have x: "bshares (\<lambda>i. [dealt 1 1 1 i, dealt 1 1 0 i]) (map of_bool [True, False] :: 1 word list)"
    using dealt_list(1)[OF dealt_bshare[of "1 :: 1 word" 1 1 1] dealt_list(1)[OF dealt_bshare[of "1 :: 1 word" 1 0 0] dealt_list(2)]]
    by simp
  from ring_bit_injection_correct[OF x, of "ex_ring :: (8 word, nat, wire) ring_env" ex_env] ex_env_lawful(1)
  show ?thesis by simp
qed

end
