(* ===== verification/Ring_Compare.thy ===== *)
theory Ring_Compare
  imports Ring_Conversion
begin

text \<open>
  Comparisons of shared ring elements, \<open>rep3_ring/arithmetic.rs\<close>: order and equality, with
  shared and with public operands, and the batched versions.  The results are shared bits in the
  type \<open>Bit\<close>.  The single comparisons and all equality tests take arithmetic shares; the batched
  order comparisons pass their arguments to the binary circuit as they are, so they take binary
  shares.
\<close>

subsection \<open>Order\<close>

definition ring_ge ::
  "('l::len word, 'r, 'w) ring_env \<Rightarrow> 'l ring_share \<Rightarrow> 'l ring_share \<Rightarrow> ('w, 'r, bit_share) prog" where
  "ring_ge R lhs rhs = ring_unsigned_ge R lhs rhs"

definition ring_ge_many ::
  "('l::len word, 'r, 'w) ring_env \<Rightarrow> 'l ring_share list \<Rightarrow> 'l ring_share list \<Rightarrow> ('w, 'r, bit_share list) prog" where
  "ring_ge_many R lhs rhs = ring_unsigned_ge_many R lhs rhs"

definition ring_ge_public ::
  "('l::len word, 'r, 'w) ring_env \<Rightarrow> 'l ring_share \<Rightarrow> 'l word \<Rightarrow> ('w, 'r, bit_share) prog" where
  "ring_ge_public R lhs rhs = ring_unsigned_ge_const_rhs R lhs rhs"

definition ring_lt ::
  "('l::len word, 'r, 'w) ring_env \<Rightarrow> 'l ring_share \<Rightarrow> 'l ring_share \<Rightarrow> ('w, 'r, bit_share) prog" where
  "ring_lt R lhs rhs = qbind (ring_ge R lhs rhs) (\<lambda>tmp.
     qbind get_id (\<lambda>i. qret (ring_sub_public_by_shared 1 tmp i)))"

definition ring_lt_many ::
  "('l::len word, 'r, 'w) ring_env \<Rightarrow> 'l ring_share list \<Rightarrow> 'l ring_share list \<Rightarrow> ('w, 'r, bit_share list) prog" where
  "ring_lt_many R lhs rhs = qbind (ring_ge_many R lhs rhs) (\<lambda>tmp. qret (map ring_share_not tmp))"

definition ring_lt_public ::
  "('l::len word, 'r, 'w) ring_env \<Rightarrow> 'l ring_share \<Rightarrow> 'l word \<Rightarrow> ('w, 'r, bit_share) prog" where
  "ring_lt_public R lhs rhs = qbind (ring_ge_public R lhs rhs) (\<lambda>tmp. qret (ring_share_not tmp))"

definition ring_le ::
  "('l::len word, 'r, 'w) ring_env \<Rightarrow> 'l ring_share \<Rightarrow> 'l ring_share \<Rightarrow> ('w, 'r, bit_share) prog" where
  "ring_le R lhs rhs = ring_ge R rhs lhs"

definition ring_le_public ::
  "('l::len word, 'r, 'w) ring_env \<Rightarrow> 'l ring_share \<Rightarrow> 'l word \<Rightarrow> ('w, 'r, bit_share) prog" where
  "ring_le_public R lhs rhs = ring_unsigned_ge_const_lhs R rhs lhs"

definition ring_gt ::
  "('l::len word, 'r, 'w) ring_env \<Rightarrow> 'l ring_share \<Rightarrow> 'l ring_share \<Rightarrow> ('w, 'r, bit_share) prog" where
  "ring_gt R lhs rhs = qbind (ring_le R lhs rhs) (\<lambda>tmp. qret (ring_share_not tmp))"

definition ring_gt_public ::
  "('l::len word, 'r, 'w) ring_env \<Rightarrow> 'l ring_share \<Rightarrow> 'l word \<Rightarrow> ('w, 'r, bit_share) prog" where
  "ring_gt_public R lhs rhs = qbind (ring_le_public R lhs rhs) (\<lambda>tmp. qret (ring_share_not tmp))"

definition ring_carries_many ::
  "('l::len word, 'r, 'w) ring_env \<Rightarrow> 'l ring_share list \<Rightarrow> 'l ring_share list \<Rightarrow> ('w, 'r, bit_share list) prog" where
  "ring_carries_many R p g = ring_kogge_stone_carries_many R p g"

definition ring_ge_const_rhs_many ::
  "('l::len word, 'r, 'w) ring_env \<Rightarrow> 'l ring_share list \<Rightarrow> 'l word list \<Rightarrow> ('w, 'r, bit_share list) prog" where
  "ring_ge_const_rhs_many R lhs rhs = ring_unsigned_ge_const_rhs_many R lhs rhs"

definition ring_ge_const_lhs_many ::
  "('l::len word, 'r, 'w) ring_env \<Rightarrow> 'l word list \<Rightarrow> 'l ring_share list \<Rightarrow> ('w, 'r, bit_share list) prog" where
  "ring_ge_const_lhs_many R lhs rhs = ring_unsigned_ge_const_lhs_many R lhs rhs"

subsection \<open>Equality\<close>

definition ring_eq ::
  "('l::len word, 'r, 'w) ring_env \<Rightarrow> 'l ring_share \<Rightarrow> 'l ring_share \<Rightarrow> ('w, 'r, bit_share) prog" where
  "ring_eq R a b = (let diff = a - b in qbind (ring_a2b R diff) (\<lambda>bits. ring_bin_is_zero R bits))"

definition ring_eq_many ::
  "('l::len word, 'r, 'w) ring_env \<Rightarrow> 'l ring_share list \<Rightarrow> 'l ring_share list \<Rightarrow> ('w, 'r, bit_share list) prog" where
  "ring_eq_many R a b =
     (let diff = map2 (-) a b in qbind (ring_a2b_many R diff) (\<lambda>bits. ring_bin_is_zero_many R bits))"

definition ring_eq_public ::
  "('l::len word, 'r, 'w) ring_env \<Rightarrow> 'l ring_share \<Rightarrow> 'l word \<Rightarrow> ('w, 'r, bit_share) prog" where
  "ring_eq_public R shared public =
     qbind get_id (\<lambda>i. ring_eq R shared (ring_promote_to_trivial_share i public))"

definition ring_neq ::
  "('l::len word, 'r, 'w) ring_env \<Rightarrow> 'l ring_share \<Rightarrow> 'l ring_share \<Rightarrow> ('w, 'r, bit_share) prog" where
  "ring_neq R a b = qbind (ring_eq R a b) (\<lambda>eq. qret (ring_share_not eq))"

definition ring_neq_many ::
  "('l::len word, 'r, 'w) ring_env \<Rightarrow> 'l ring_share list \<Rightarrow> 'l ring_share list \<Rightarrow> ('w, 'r, bit_share list) prog" where
  "ring_neq_many R a b = qbind (ring_eq_many R a b) (\<lambda>eq. qret (map ring_share_not eq))"

definition ring_neq_public ::
  "('l::len word, 'r, 'w) ring_env \<Rightarrow> 'l ring_share \<Rightarrow> 'l word \<Rightarrow> ('w, 'r, bit_share) prog" where
  "ring_neq_public R shared public =
     qbind get_id (\<lambda>i. ring_neq R shared (ring_promote_to_trivial_share i public))"

definition ring_is_zero ::
  "('l::len word, 'r, 'w) ring_env \<Rightarrow> (1 word, 'r, 'w) ring_env \<Rightarrow> 'l ring_share \<Rightarrow> ('w, 'r, bool) prog" where
  "ring_is_zero R RB a = qbind (ring_eq R (Share 0 0) a) (\<lambda>res. qbind (ring_open_bit RB res) (\<lambda>x. qret (x = 1)))"

subsection \<open>Correctness\<close>

lemma bit_add_xor: "a + b = (a XOR b :: 1 word)"
  using word1_cases[of a] word1_cases[of b] by auto

lemma ashare_bit: "ashare x u \<longleftrightarrow> bshare x (u :: 1 word)"
  by (simp add: shared_by_def sum3_def bit_add_xor)

lemma rbit_sub_one: "rbit x b \<Longrightarrow> rbit (\<lambda>i. ring_sub_public_by_shared 1 (x i) i) (\<not> b)"
  using ashare_ring_sub_public_by_shared[of x "of_bool b" 1] by (cases b) (simp_all add: ashare_bit)

lemma rbits_not: "bshares x (map (\<lambda>j. of_bool (P j)) js) \<Longrightarrow>
    bshares (\<lambda>i. map ring_share_not (x i)) (map (\<lambda>j. of_bool (\<not> P j) :: 1 word) js)"
  by (erule tab_map) (rule rbit_not)

lemmas ring_ge_unfold = ring_ge_def ring_ge_public_def ring_le_def ring_le_public_def

lemma mpc_ring_ge:
  fixes x y :: "PartyID \<Rightarrow> 'l::len word share"
  assumes "lawful_ring R" "ashare x u" "ashare y v" "LENGTH('l) = 2 ^ d"
  shows "mpc (\<lambda>i. ring_ge R (x i) (y i)) (\<lambda>z. rbit z (v \<le> u))"
    and "mpc (\<lambda>i. ring_le R (x i) (y i)) (\<lambda>z. rbit z (u \<le> v))"
    and "mpc (\<lambda>i. ring_lt R (x i) (y i)) (\<lambda>z. rbit z (u < v))"
    and "mpc (\<lambda>i. ring_gt R (x i) (y i)) (\<lambda>z. rbit z (v < u))"
proof -
  note ge = mpc_ring_unsigned_ge[OF assms] and le = mpc_ring_unsigned_ge[OF assms(1,3,2,4)]
  show "mpc (\<lambda>i. ring_ge R (x i) (y i)) (\<lambda>z. rbit z (v \<le> u))" unfolding ring_ge_unfold by (rule ge)
  show "mpc (\<lambda>i. ring_le R (x i) (y i)) (\<lambda>z. rbit z (u \<le> v))" unfolding ring_ge_unfold by (rule le)
  show "mpc (\<lambda>i. ring_lt R (x i) (y i)) (\<lambda>z. rbit z (u < v))"
    unfolding ring_lt_def ring_ge_unfold not_le[symmetric]
    by (rule mpc_bind, rule ge, rule mpc_bind, rule mpc_get_id, rule mpc_ret, rule rbit_sub_one)
  show "mpc (\<lambda>i. ring_gt R (x i) (y i)) (\<lambda>z. rbit z (v < u))"
    unfolding ring_gt_def ring_ge_unfold not_le[symmetric]
    by (rule mpc_bind, rule le, rule mpc_ret, rule rbit_not)
qed

lemma mpc_ring_ge_public:
  fixes x :: "PartyID \<Rightarrow> 'l::len word share"
  assumes "lawful_ring R" "ashare x u" "LENGTH('l) = 2 ^ d"
  shows "mpc (\<lambda>i. ring_ge_public R (x i) v) (\<lambda>z. rbit z (v \<le> u))"
    and "mpc (\<lambda>i. ring_le_public R (x i) v) (\<lambda>z. rbit z (u \<le> v))"
    and "mpc (\<lambda>i. ring_lt_public R (x i) v) (\<lambda>z. rbit z (u < v))"
    and "mpc (\<lambda>i. ring_gt_public R (x i) v) (\<lambda>z. rbit z (v < u))"
proof -
  note ge = mpc_ring_unsigned_ge_const_rhs[OF assms] and le = mpc_ring_unsigned_ge_const_lhs[OF assms]
  show "mpc (\<lambda>i. ring_ge_public R (x i) v) (\<lambda>z. rbit z (v \<le> u))" unfolding ring_ge_unfold by (rule ge)
  show "mpc (\<lambda>i. ring_le_public R (x i) v) (\<lambda>z. rbit z (u \<le> v))" unfolding ring_ge_unfold by (rule le)
  show "mpc (\<lambda>i. ring_lt_public R (x i) v) (\<lambda>z. rbit z (u < v))"
    unfolding ring_lt_public_def ring_ge_unfold not_le[symmetric] by (rule mpc_bind, rule ge, rule mpc_ret, rule rbit_not)
  show "mpc (\<lambda>i. ring_gt_public R (x i) v) (\<lambda>z. rbit z (v < u))"
    unfolding ring_gt_public_def ring_ge_unfold not_le[symmetric] by (rule mpc_bind, rule le, rule mpc_ret, rule rbit_not)
qed

lemma mpc_ring_lt_many:
  fixes x y :: "PartyID \<Rightarrow> 'l::len word share list"
  assumes "lawful_ring R" "bshares x us" "bshares y vs" "length us = length vs" "LENGTH('l) = 2 ^ d"
    and "\<And>z. rbits z (map2 (<) us vs) \<Longrightarrow> Q z"
  shows "mpc (\<lambda>i. ring_lt_many R (x i) (y i)) Q"
  unfolding ring_lt_many_def ring_ge_many_def
proof (rule mpc_bind, rule mpc_ring_unsigned_ge_many[OF assms(1) tab_zip[OF assms(2-4)] assms(5)], rule mpc_ret, rule assms(6))
  fix c :: "PartyID \<Rightarrow> bit_share list"
  assume "bshares c (map (\<lambda>j. of_bool (snd j \<le> fst j)) (zip us vs))"
  from rbits_not[OF this] show "rbits (\<lambda>i. map ring_share_not (c i)) (map2 (<) us vs)"
    by (simp add: not_le split_beta comp_def)
qed

lemma mpc_ring_eq:
  fixes x y :: "PartyID \<Rightarrow> 'l::len word share"
  assumes "lawful_ring R" "ashare x u" "ashare y v" "LENGTH('l) = 2 ^ d" "\<And>z. rbit z (u = v) \<Longrightarrow> Q z"
  shows "mpc (\<lambda>i. ring_eq R (x i) (y i)) Q"
  unfolding ring_eq_def Let_def
  by (rule mpc_bind, rule mpc_ring_a2b[OF assms(1) ashare_diff[OF assms(2,3)] assms(4)],
      rule mpc_ring_bin_is_zero[OF assms(1) _ assms(4)], assumption, rule assms(5)) simp

lemma mpc_ring_eq_many:
  fixes x y :: "PartyID \<Rightarrow> 'l::len word share list"
  assumes "lawful_ring R" "ashares x us" "ashares y vs" "length us = length vs" "LENGTH('l) = 2 ^ d"
    and "\<And>z. rbits z (map2 (=) us vs) \<Longrightarrow> Q z"
  shows "mpc (\<lambda>i. ring_eq_many R (x i) (y i)) Q"
  unfolding ring_eq_many_def Let_def
  by (rule mpc_bind, rule mpc_ring_a2b_many[OF assms(1) vec_shared_by_map2[OF assms(2-4)] assms(5)],
      erule (1) ashare_diff, rule mpc_ring_bin_is_zero_many[OF assms(1) _ assms(5)], assumption, rule assms(6))
    (simp add: split_beta comp_def)

lemma mpc_ring_neq_many:
  fixes x y :: "PartyID \<Rightarrow> 'l::len word share list"
  assumes "lawful_ring R" "ashares x us" "ashares y vs" "length us = length vs" "LENGTH('l) = 2 ^ d"
    and "\<And>z. rbits z (map2 (\<noteq>) us vs) \<Longrightarrow> Q z"
  shows "mpc (\<lambda>i. ring_neq_many R (x i) (y i)) Q"
  unfolding ring_neq_many_def
proof (rule mpc_bind, rule mpc_ring_eq_many[OF assms(1-5)], rule mpc_ret, rule assms(6))
  fix z assume "rbits z (map2 (=) us vs)"
  then have "bshares z (map (\<lambda>j. of_bool (fst j = snd j)) (zip us vs))" by (simp add: split_beta comp_def)
  from rbits_not[OF this] show "rbits (\<lambda>i. map ring_share_not (z i)) (map2 (\<noteq>) us vs)"
    by (simp add: split_beta comp_def)
qed

lemma mpc_ring_eq_public:
  fixes x :: "PartyID \<Rightarrow> 'l::len word share"
  assumes "lawful_ring R" "ashare x u" "LENGTH('l) = 2 ^ d"
  shows "mpc (\<lambda>i. ring_eq_public R (x i) v) (\<lambda>z. rbit z (u = v))"
    and "mpc (\<lambda>i. ring_neq_public R (x i) v) (\<lambda>z. rbit z (u \<noteq> v))"
proof -
  note eq = mpc_ring_eq[OF assms(1,2) ashare_ring_promote assms(3)]
  show "mpc (\<lambda>i. ring_eq_public R (x i) v) (\<lambda>z. rbit z (u = v))"
    unfolding ring_eq_public_def by (rule mpc_bind, rule mpc_get_id, rule eq)
  show "mpc (\<lambda>i. ring_neq_public R (x i) v) (\<lambda>z. rbit z (u \<noteq> v))"
    unfolding ring_neq_public_def ring_neq_def
    by (rule mpc_bind, rule mpc_get_id, rule mpc_bind, rule eq, rule mpc_ret, rule rbit_not)
qed

lemma mpc_ring_neq:
  fixes x y :: "PartyID \<Rightarrow> 'l::len word share"
  assumes "lawful_ring R" "ashare x u" "ashare y v" "LENGTH('l) = 2 ^ d"
  shows "mpc (\<lambda>i. ring_neq R (x i) (y i)) (\<lambda>z. rbit z (u \<noteq> v))"
  unfolding ring_neq_def by (rule mpc_bind, rule mpc_ring_eq[OF assms], rule mpc_ret, rule rbit_not)

lemma mpc_ring_is_zero:
  fixes x :: "PartyID \<Rightarrow> 'l::len word share"
  assumes "lawful_ring R" "lawful_ring RB" "ashare x u" "LENGTH('l) = 2 ^ d"
  shows "mpc (\<lambda>i. ring_is_zero R RB (x i)) (\<lambda>b. b = (\<lambda>i. u = 0))"
proof -
  have zero: "ashare (\<lambda>i. Share 0 0) (0 :: 'l word)" by (rule shared_by3I) simp_all
  show ?thesis
    unfolding ring_is_zero_def
    by (rule mpc_bind, rule mpc_ring_eq[OF assms(1) zero assms(3,4)], rule mpc_bind, rule mpc_ring_open_bit[OF assms(2)],
        assumption, rule mpc_ret) auto
qed

subsection \<open>Properties\<close>

text \<open>
  (C20) Order of shared ring elements as unsigned numbers: \<open>ge\<close>, \<open>le\<close>, \<open>lt\<close> and \<open>gt\<close> on two
  shared values and on a shared and a public value return a shared bit with the outcome.
\<close>

theorem ring_order_correct:
  fixes x y :: "PartyID \<Rightarrow> 'l::len word share"
  assumes "lawful_ring R" "ashare x u" "ashare y v" "LENGTH('l) = 2 ^ d"
  shows "mpc (\<lambda>i. ring_ge R (x i) (y i)) (\<lambda>z. bshare z (of_bool (v \<le> u))) \<and>
     mpc (\<lambda>i. ring_le R (x i) (y i)) (\<lambda>z. bshare z (of_bool (u \<le> v))) \<and>
     mpc (\<lambda>i. ring_lt R (x i) (y i)) (\<lambda>z. bshare z (of_bool (u < v))) \<and>
     mpc (\<lambda>i. ring_gt R (x i) (y i)) (\<lambda>z. bshare z (of_bool (v < u))) \<and>
     mpc (\<lambda>i. ring_ge_public R (x i) w) (\<lambda>z. bshare z (of_bool (w \<le> u))) \<and>
     mpc (\<lambda>i. ring_le_public R (x i) w) (\<lambda>z. bshare z (of_bool (u \<le> w))) \<and>
     mpc (\<lambda>i. ring_lt_public R (x i) w) (\<lambda>z. bshare z (of_bool (u < w))) \<and>
     mpc (\<lambda>i. ring_gt_public R (x i) w) (\<lambda>z. bshare z (of_bool (w < u)))"
  by (intro conjI mpc_ring_ge[OF assms] mpc_ring_ge_public[OF assms(1,2,4)])

theorem ring_order_correct_witness:
  "mpc (\<lambda>i. ring_lt ex_ring (dealt 200 100 (7 :: 8 word) i) (dealt 50 1 1 i)) (\<lambda>z. bshare z 1)"
  using ring_order_correct[OF ex_ring_lawful dealt_ashare[of 200 100 7 "51 :: 8 word"] dealt_ashare[of 50 1 1 52], of 3]
  by simp

text \<open>
  (C24) Equality of shared ring elements: the batched test and its negation return a shared bit for
  every pair, and the zero test opens its result to all parties.
\<close>

theorem ring_equality_correct:
  fixes x y :: "PartyID \<Rightarrow> 'l::len word share list" and a :: "PartyID \<Rightarrow> 'l word share"
  assumes "lawful_ring R" "lawful_ring RB" "LENGTH('l) = 2 ^ d"
    and "ashares x us" "ashares y vs" "length us = length vs" "ashare a w"
  shows "mpc (\<lambda>i. ring_eq_many R (x i) (y i)) (\<lambda>z. bshares z (map2 (\<lambda>u v. of_bool (u = v)) us vs)) \<and>
     mpc (\<lambda>i. ring_neq_many R (x i) (y i)) (\<lambda>z. bshares z (map2 (\<lambda>u v. of_bool (u \<noteq> v)) us vs)) \<and>
     mpc (\<lambda>i. ring_is_zero R RB (a i)) (\<lambda>b. \<forall>i. b i = (w = 0))"
proof (intro conjI)
  show "mpc (\<lambda>i. ring_eq_many R (x i) (y i)) (\<lambda>z. bshares z (map2 (\<lambda>u v. of_bool (u = v)) us vs))"
    by (rule mpc_ring_eq_many[OF assms(1,4-6,3)]) (simp add: case_prod_unfold comp_def)
  show "mpc (\<lambda>i. ring_neq_many R (x i) (y i)) (\<lambda>z. bshares z (map2 (\<lambda>u v. of_bool (u \<noteq> v)) us vs))"
    by (rule mpc_ring_neq_many[OF assms(1,4-6,3)]) (simp add: case_prod_unfold comp_def)
  show "mpc (\<lambda>i. ring_is_zero R RB (a i)) (\<lambda>b. \<forall>i. b i = (w = 0))"
    by (rule mpc_consequence[OF mpc_ring_is_zero[OF assms(1,2,7,3)]]) simp
qed

theorem ring_equality_correct_witness:
  "mpc (\<lambda>i. ring_neq_many ex_ring [dealt 200 56 (7 :: 8 word) i] [dealt 1 2 4 i]) (\<lambda>z. bshares z [0])"
  using ring_equality_correct[OF ex_ring_lawful ex_ring_lawful, of 3, OF _
      dealt_list(1)[OF dealt_ashare[of 200 56 7 "7 :: 8 word"] dealt_list(2)]
      dealt_list(1)[OF dealt_ashare[of 1 2 4 7] dealt_list(2)] _ dealt_ashare[of 0 0 0 0]] by simp

end
