(* ===== verification/Casts.thy ===== *)
theory Casts
  imports Rep3_Conversion Ring_Compare
begin

text \<open>
  Casts between the rings and between the rings and the field (\<open>rep3_ring/casts.rs\<close>): the
  conversions that go through the binary domain, and the masked opening \<open>r2f_preproc_many\<close> with
  its correlated randomness \<open>DaRing\<close> (\<open>preprocessing/edabits.rs\<close>).  The special cases of the type
  \<open>Bit\<close> are conditions on the width 1.
\<close>

subsection \<open>Operations\<close>

text \<open>\<open>as_()\<close> on both components: truncation or zero extension.\<close>

definition as_share :: "'l::len ring_share \<Rightarrow> 'k::len ring_share" where
  "as_share s = Share (ucast (sh_a s)) (ucast (sh_b s))"

definition cast_downcast :: "'l::len ring_share \<Rightarrow> io_error + 'k::len ring_share" where
  "cast_downcast s = (if LENGTH('l) \<ge> LENGTH('k) then Inr (as_share s) else Inl Panic)"

definition upcast_a2b ::
  "('l::len word, 'r, 'w) ring_env \<Rightarrow> ('k::len word, 'r, 'w) ring_env \<Rightarrow> 'l ring_share \<Rightarrow> ('w, 'r, 'k ring_share) prog" where
  "upcast_a2b T U s =
     (if \<not> LENGTH('l) < LENGTH('k) then qfail Panic
      else if LENGTH('l) = 1 then ring_bit_inject_from_bit U (as_share s)
      else qbind (ring_a2b T s) (\<lambda>binary. ring_b2a U (as_share binary)))"

definition upcast_many_from_binary ::
  "('k::len word, 'r, 'w) ring_env \<Rightarrow> 'l::len ring_share list \<Rightarrow> ('w, 'r, 'k ring_share list) prog" where
  "upcast_many_from_binary U binary =
     (if \<not> LENGTH('l) < LENGTH('k) then qfail Panic
      else if LENGTH('l) = 1 then qfail Panic
      else ring_b2a_many U (map as_share binary))"

definition cast_a2b ::
  "('l::len word, 'r, 'w) ring_env \<Rightarrow> ('k::len word, 'r, 'w) ring_env \<Rightarrow> 'l ring_share \<Rightarrow> ('w, 'r, 'k ring_share) prog" where
  "cast_a2b T U s = (if LENGTH('l) \<ge> LENGTH('k) then lift_result (cast_downcast s) else upcast_a2b T U s)"

definition field_to_ring_a2b ::
  "('f::plus, 'r, 's, 'w) env \<Rightarrow> ('l::len word, 'r, 'w) ring_env \<Rightarrow> 'f share \<Rightarrow> ('w, 'r, 'l ring_share) prog" where
  "field_to_ring_a2b E T s =
     qbind (a2b E s) (\<lambda>binary. ring_b2a T (Share (cast_from_biguint (sh_a binary)) (cast_from_biguint (sh_b binary))))"

definition biguint_share :: "'l::len ring_share \<Rightarrow> nat share" where
  "biguint_share s = Share (cast_to_biguint (sh_a s)) (cast_to_biguint (sh_b s))"

text \<open>\<open>convert()\<close> of a \<open>Bit\<close>, as a \<open>BigUint\<close>.\<close>

definition bit_biguint_share :: "bit_share \<Rightarrow> nat share" where
  "bit_biguint_share s = Share (of_bool (sh_a s = 1)) (of_bool (sh_b s = 1))"

definition ring_to_field_a2b ::
  "('f::comm_ring_1, 'r, 's, 'w) env \<Rightarrow> ('l::len word, 'r, 'w) ring_env \<Rightarrow> 'l ring_share \<Rightarrow> ('w, 'r, 'f share) prog" where
  "ring_to_field_a2b E T s =
     (if LENGTH('l) = 1 then bit_inject E (bit_biguint_share (as_share s))
      else qbind (ring_a2b T s) (\<lambda>binary. b2a E (biguint_share binary)))"

definition r2f_many ::
  "('f::comm_ring_1, 'r, 's, 'w) env \<Rightarrow> ('l::len word, 'r, 'w) ring_env \<Rightarrow> 'l ring_share list \<Rightarrow> ('w, 'r, 'f share list) prog" where
  "r2f_many E T shares =
     (if LENGTH('l) = 1 then bit_inject_many E (map (\<lambda>s. bit_biguint_share (as_share s)) shares)
      else qbind (ring_a2b_many T shares) (\<lambda>binary. b2a_many E (map biguint_share binary)))"

definition r2f_b2a_many ::
  "('f::comm_ring_1, 'r, 's, 'w) env \<Rightarrow> 'l::len ring_share list \<Rightarrow> ('w, 'r, 'f share list) prog" where
  "r2f_b2a_many E binary =
     (if LENGTH('l) = 1 then bit_inject_many E (map (\<lambda>s. bit_biguint_share (as_share s)) binary)
      else b2a_many E (map biguint_share binary))"

text \<open>A magnitude and a sign bit, which is set for the positive numbers.\<close>

datatype 'e Rep3RingSignedShare = SignedShare (ss_abs: "'e share") (ss_sign: bit_share)

definition signed_binary_ring_to_field_many ::
  "('f::comm_ring_1, 'r, 's, 'w) env \<Rightarrow> 'l::len word Rep3RingSignedShare list \<Rightarrow> ('w, 'r, 'f share list) prog" where
  "signed_binary_ring_to_field_many E singed =
     qbind (r2f_b2a_many E (map ss_abs singed)) (\<lambda>positive.
       let negative = map rep3_neg positive
       in qbind (ring_bit_inject_from_bits_to_field_many E (map ss_sign singed)) (\<lambda>signs.
          rep3_cmux_many E signs positive negative))"

text \<open>The same random number, shared over the ring and over the field.\<close>

datatype ('e, 'f) DaRing = DaRing (r_ring: "'e share") (r_fp: "'f share")

definition r2f_preproc_many ::
  "('l::len word, 'r, 'w) ring_env \<Rightarrow> 'l ring_share list \<Rightarrow> ('l word, 'f::comm_ring_1) DaRing list \<Rightarrow> ('w, 'r, 'f share list) prog" where
  "r2f_preproc_many T x eda =
     qbind (ring_open_vec T (map2 (\<lambda>x eda. x - r_ring eda) x eda)) (\<lambda>opened.
     qbind get_id (\<lambda>i.
     qret (map2 (\<lambda>c_open eda. r_fp eda + rep3_promote_to_trivial_share i (of_nat (unat c_open))) opened eda)))"

text \<open>Preprocessed mode without tuples panics.\<close>

definition r2f_many_selector ::
  "('f::comm_ring_1, 'r, 's, 'w) env \<Rightarrow> ('l::len word, 'r, 'w) ring_env \<Rightarrow> 'l ring_share list \<Rightarrow>
   ('l word, 'f) DaRing list option \<Rightarrow> ('w, 'r, 'f share list) prog" where
  "r2f_many_selector E T x eda =
     qbind get_mpc_type (\<lambda>t. case t of
        Online \<Rightarrow> r2f_many E T x
      | Preprocessed \<Rightarrow> (case eda of None \<Rightarrow> qfail Panic | Some eda \<Rightarrow> r2f_preproc_many T x eda))"

subsection \<open>Casts of shares\<close>

lemma vec_shared_by_hetero:
  assumes "vec_shared_by add xs us" "\<And>x u. shared_by add x u \<Longrightarrow> shared_by add' (\<lambda>i. f (x i)) (g u)"
  shows "vec_shared_by add' (\<lambda>i. map f (xs i)) (map g us)"
  using assms by (simp add: vec_shared_by_def)

lemma bshare_as_share: "bshare x u \<Longrightarrow> bshare (\<lambda>i. as_share (x i) :: 'k::len word share) (ucast u)"
  for x :: "PartyID \<Rightarrow> 'l::len word share"
  unfolding as_share_def by (rule bshare_ucast)

lemma ashare_as_share: "ashare x u \<Longrightarrow> LENGTH('k) \<le> LENGTH('l) \<Longrightarrow> ashare (\<lambda>i. as_share (x i) :: 'k::len word share) (ucast u)"
  for x :: "PartyID \<Rightarrow> 'l::len word share"
  unfolding as_share_def by (rule ashare_downcast)

lemma bshare_biguint: "bshare x u \<Longrightarrow> bshare (\<lambda>i. biguint_share (x i)) (unat u)"
  for x :: "PartyID \<Rightarrow> 'l::len word share"
  by (auto simp: shared_by_def sum3_def biguint_share_def cast_to_biguint_def unsigned_xor_eq)

lemma of_nat_xor_word: "of_nat (a XOR b) = (of_nat a XOR of_nat b :: 'l::len word)"
  by (rule bit_word_eqI) (simp add: bit_of_nat_iff bit_xor_iff)

lemma bshare_from_biguint:
  assumes "bshare x n" "LENGTH('l::len) \<le> 128"
  shows "bshare (\<lambda>i. Share (cast_from_biguint (sh_a (x i))) (cast_from_biguint (sh_b (x i)))) (of_nat n :: 'l word)"
  using assms(1) by (auto simp: shared_by_def sum3_def cast_from_biguint[OF assms(2)] of_nat_xor_word)

text \<open>Words of one bit: the sum is the exclusive or.\<close>

lemma word_length1:
  assumes "LENGTH('l::len) = 1" shows "a + b = (a XOR b :: 'l word)" "w = 0 \<or> w = (1 :: 'l word)"
proof -
  have w01: "w = 0 \<or> w = 1" for w :: "'l word"
  proof -
    have "unat w < 2" using unsigned_less[where ?'a = nat, of w] assms by simp
    then have "unat w = 0 \<or> unat w = 1" by auto
    then show ?thesis by (auto simp: word_unat_eq_iff)
  qed
  have "(1 :: 'l word) + 1 = 0" using assms word_exp_length_eq_0[where ?'a = 'l] by simp
  then show "a + b = a XOR b" using w01[of a] w01[of b] by auto
  show "w = 0 \<or> w = 1" by (rule w01)
qed

lemma ashare_length1: "LENGTH('l::len) = 1 \<Longrightarrow> ashare x u \<longleftrightarrow> bshare x (u :: 'l word)"
  by (simp add: shared_by_def sum3_def word_length1(1))

lemma rbit_as_share:
  fixes x :: "PartyID \<Rightarrow> 'l::len word share"
  assumes "LENGTH('l) = 1" "bshare x u"
  shows "rbit (\<lambda>i. as_share (x i)) (u = 1)"
proof -
  have "ucast u = (of_bool (u = 1) :: 1 word)" using word_length1(2)[OF assms(1), of u] by auto
  with bshare_as_share[OF assms(2), where ?'k = 1] show ?thesis by simp
qed

lemma bitshare_biguint: "rbit x b \<Longrightarrow> bitshare (\<lambda>i. bit_biguint_share (x i)) b"
proof -
  assume x: "rbit x b"
  have "of_bool (v = 1) = unat v" for v :: "1 word" using word1_cases[of v] by auto
  then have "bit_biguint_share = (biguint_share :: bit_share \<Rightarrow> nat share)"
    by (simp add: fun_eq_iff bit_biguint_share_def biguint_share_def cast_to_biguint_def)
  then have "bshare (\<lambda>i. bit_biguint_share (x i)) (unat (of_bool b :: 1 word))" using bshare_biguint[OF x] by simp
  then show "bitshare (\<lambda>i. bit_biguint_share (x i)) b" by (cases b) (simp_all add: bitshare_def bit_biguint_share_def)
qed

subsection \<open>Correctness of the conversions\<close>

lemma mpc_upcast_a2b:
  fixes T :: "('l::len word, 'r, 'w) ring_env" and U :: "('k::len word, 'r, 'w) ring_env"
  assumes "lawful_ring T" "lawful_ring U" "ashare x u" "LENGTH('l) = 2 ^ d" "LENGTH('k) = 2 ^ e" "LENGTH('l) < LENGTH('k)"
    and Q: "\<And>z. ashare z (ucast u) \<Longrightarrow> Q z"
  shows "mpc (\<lambda>i. upcast_a2b T U (x i)) Q"
proof (cases "LENGTH('l) = 1")
  case True
  have u: "ucast u = (of_bool (u = 1) :: 'k word)" using word_length1(2)[OF True, of u] by auto
  have "rbit (\<lambda>i. as_share (x i)) (u = 1)" using assms(3) True by (intro rbit_as_share) (simp_all add: ashare_length1)
  from mpc_ring_bit_inject_from_bit[OF assms(2) this Q[unfolded u]] show ?thesis
    using True assms(6) by (simp add: upcast_a2b_def)
next
  case False
  have "mpc (\<lambda>i. qbind (ring_a2b T (x i)) (\<lambda>binary. ring_b2a U (as_share binary))) Q"
    by (rule mpc_bind, rule mpc_ring_a2b[OF assms(1,3,4)], rule mpc_ring_b2a[OF assms(2) _ assms(5)])
      (rule bshare_as_share, assumption, rule Q)
  then show ?thesis using False assms(6) by (simp add: upcast_a2b_def)
qed

lemma mpc_cast_a2b:
  fixes T :: "('l::len word, 'r, 'w) ring_env" and U :: "('k::len word, 'r, 'w) ring_env"
  assumes "lawful_ring T" "lawful_ring U" "ashare x u" "LENGTH('l) = 2 ^ d" "LENGTH('k) = 2 ^ e"
    and Q: "\<And>z. ashare z (ucast u) \<Longrightarrow> Q z"
  shows "mpc (\<lambda>i. cast_a2b T U (x i)) Q"
proof (cases "LENGTH('k) \<le> LENGTH('l)")
  case True
  then have "mpc (\<lambda>i. lift_result (cast_downcast (x i) :: io_error + 'k word share)) Q"
    by (intro mpc_lift[where y = "\<lambda>i. as_share (x i)"] Q ashare_as_share assms(3)) (simp_all add: cast_downcast_def)
  with True show ?thesis by (simp add: cast_a2b_def)
next
  case False
  with mpc_upcast_a2b[OF assms(1-5) _ Q] show ?thesis by (simp add: cast_a2b_def)
qed

lemma mpc_upcast_many_from_binary:
  fixes x :: "PartyID \<Rightarrow> 'l::len word share list" and U :: "('k::len word, 'r, 'w) ring_env"
  assumes "lawful_ring U" "bshares x us" "LENGTH('k) = 2 ^ e" "LENGTH('l) < LENGTH('k)" "LENGTH('l) \<noteq> 1"
    and Q: "\<And>z. ashares z (map ucast us) \<Longrightarrow> Q z"
  shows "mpc (\<lambda>i. upcast_many_from_binary U (x i)) Q"
proof -
  have "bshares (\<lambda>i. map as_share (x i)) (map ucast us :: 'k word list)"
    using assms(2) by (intro vec_shared_by_hetero bshare_as_share)
  from mpc_ring_b2a_many[OF assms(1) this assms(3) Q] assms(4,5) show ?thesis by (simp add: upcast_many_from_binary_def)
qed

lemma mpc_field_to_ring_a2b:
  fixes T :: "('l::len word, 'r, 'w) ring_env" and x :: "PartyID \<Rightarrow> 'f::comm_ring_1 share"
  assumes "lawful_net E" "lawful_field (fld E)" "lawful_ring T" "ashare x u" "LENGTH('l) = 2 ^ d" "LENGTH('l) \<le> 128"
    and Q: "\<And>z. ashare z (of_nat (into_biguint (fld E) u)) \<Longrightarrow> Q z"
  shows "mpc (\<lambda>i. field_to_ring_a2b E T (x i)) Q"
  unfolding field_to_ring_a2b_def
  by (rule mpc_bind, rule mpc_a2b[OF assms(1,2,4)], rule mpc_ring_b2a[OF assms(3) _ assms(5)])
    (rule bshare_from_biguint, assumption, rule assms(6), rule Q)

lemma mpc_ring_to_field_a2b:
  fixes T :: "('l::len word, 'r, 'w) ring_env" and E :: "('f::comm_ring_1, 'r, 's, 'w) env"
  assumes "lawful_net E" "lawful_field (fld E)" "lawful_ring T" "ashare x u" "LENGTH('l) = 2 ^ d" "unat u < modulus (fld E)"
    and Q: "\<And>z. ashare z (of_nat (unat u)) \<Longrightarrow> Q z"
  shows "mpc (\<lambda>i. ring_to_field_a2b E T (x i)) Q"
proof (cases "LENGTH('l) = 1")
  case True
  have u: "of_nat (unat u) = (of_bool (u = 1) :: 'f)" using word_length1(2)[OF True, of u] by auto
  have "rbit (\<lambda>i. as_share (x i)) (u = 1)" using assms(4) True by (intro rbit_as_share) (simp_all add: ashare_length1)
  from mpc_bit_inject[OF assms(1,2) bitshare_biguint[OF this] Q[unfolded u]] True show ?thesis
    by (simp add: ring_to_field_a2b_def)
next
  case False
  have "mpc (\<lambda>i. qbind (ring_a2b T (x i)) (\<lambda>binary. b2a E (biguint_share binary))) Q"
    by (rule mpc_bind, rule mpc_ring_a2b[OF assms(3,4,5)], rule mpc_b2a[OF assms(1,2) _ assms(6)])
      (rule bshare_biguint, assumption, rule Q)
  then show ?thesis using False by (simp add: ring_to_field_a2b_def)
qed

text \<open>Vectors of binary shares, \<open>Bit\<close> included.\<close>

lemma bitshares_biguint:
  fixes x :: "PartyID \<Rightarrow> 'l::len word share list"
  assumes "LENGTH('l) = 1" "bshares x us"
  shows "bitshares (\<lambda>i. map (\<lambda>s. bit_biguint_share (as_share s)) (x i)) (map (\<lambda>u. u = 1) us)"
proof -
  have bits: "bitshare (\<lambda>i. bit_biguint_share (as_share (y i))) (u = 1)" if "bshare y u" for y and u :: "'l word"
    using that by (intro bitshare_biguint rbit_as_share assms(1))
  have "bshares (\<lambda>i. map (\<lambda>s. bit_biguint_share (as_share s)) (x i)) (map (\<lambda>u. of_bool (u = 1)) us)"
    using bits by (intro vec_shared_by_hetero[OF assms(2)]) (simp add: bitshare_def)
  moreover have "sh_a (bit_biguint_share s) < 2" for s by (simp add: bit_biguint_share_def)
  ultimately show ?thesis by (simp add: bitshares_def o_def)
qed

lemma mpc_r2f_b2a_many:
  fixes x :: "PartyID \<Rightarrow> 'l::len word share list" and E :: "('f::comm_ring_1, 'r, 's, 'w) env"
  assumes "lawful_net E" "lawful_field (fld E)" "bshares x us" "\<forall>u \<in> set us. unat u < modulus (fld E)"
    and Q: "\<And>z. ashares z (map (\<lambda>u. of_nat (unat u)) us) \<Longrightarrow> Q z"
  shows "mpc (\<lambda>i. r2f_b2a_many E (x i)) Q"
proof (cases "LENGTH('l) = 1")
  case True
  have "of_nat (unat u) = (of_bool (u = 1) :: 'f)" for u :: "'l word" using word_length1(2)[OF True, of u] by auto
  then have "map (\<lambda>u. of_nat (unat u)) us = (map of_bool (map (\<lambda>u. u = 1) us) :: 'f list)" by simp
  from mpc_bit_inject_many[OF assms(1,2) bitshares_biguint[OF True assms(3)] Q[unfolded this]] True show ?thesis
    by (simp add: r2f_b2a_many_def)
next
  case False
  have "bshares (\<lambda>i. map biguint_share (x i)) (map unat us)"
    by (rule vec_shared_by_hetero[OF assms(3) bshare_biguint])
  from mpc_b2a_many[OF assms(1,2) this, of Q] assms(4) Q False show ?thesis by (simp add: r2f_b2a_many_def o_def)
qed

lemma mpc_r2f_many:
  fixes T :: "('l::len word, 'r, 'w) ring_env" and E :: "('f::comm_ring_1, 'r, 's, 'w) env"
  assumes "lawful_net E" "lawful_field (fld E)" "lawful_ring T" "ashares x us" "LENGTH('l) = 2 ^ d"
    and "\<forall>u \<in> set us. unat u < modulus (fld E)" and Q: "\<And>z. ashares z (map (\<lambda>u. of_nat (unat u)) us) \<Longrightarrow> Q z"
  shows "mpc (\<lambda>i. r2f_many E T (x i)) Q"
proof (cases "LENGTH('l) = 1")
  case True
  have "bshares x us" using assms(4) by (simp add: vec_shared_by_def ashare_length1[OF True])
  from mpc_r2f_b2a_many[OF assms(1,2) this assms(6) Q] True show ?thesis by (simp add: r2f_many_def r2f_b2a_many_def)
next
  case False
  have "mpc (\<lambda>i. qbind (ring_a2b_many T (x i)) (r2f_b2a_many E)) Q"
    by (rule mpc_bind, rule mpc_ring_a2b_many[OF assms(3-5)], rule mpc_r2f_b2a_many[OF assms(1,2) _ assms(6) Q])
  with False show ?thesis by (simp add: r2f_many_def r2f_b2a_many_def[abs_def])
qed

lemma mpc_signed_binary_ring_to_field_many:
  fixes x :: "PartyID \<Rightarrow> 'l::len word Rep3RingSignedShare list" and E :: "('f::comm_ring_1, 'r, 's, 'w) env"
  assumes "lawful_net E" "lawful_field (fld E)" "bshares (\<lambda>i. map ss_abs (x i)) us" "rbits (\<lambda>i. map ss_sign (x i)) bs"
    and "\<forall>u \<in> set us. unat u < modulus (fld E)" "length us = length bs"
    and Q: "\<And>z. ashares z (map2 (\<lambda>u b. if b then of_nat (unat u) else - of_nat (unat u)) us bs) \<Longrightarrow> Q z"
  shows "mpc (\<lambda>i. signed_binary_ring_to_field_many E (x i)) Q"
  unfolding signed_binary_ring_to_field_many_def Let_def
proof (rule mpc_bind, rule mpc_r2f_b2a_many[OF assms(1-3,5)], rule mpc_bind,
    rule mpc_ring_bit_inject_from_bits_to_field_many[OF assms(1,4)])
  fix y z :: "PartyID \<Rightarrow> 'f share list"
  assume y: "ashares y (map (\<lambda>u. of_nat (unat u)) us)" and z: "ashares z (map of_bool bs)"
  have ny: "ashares (\<lambda>i. map rep3_neg (y i)) (map (\<lambda>u. - of_nat (unat u)) us)"
    using y by (rule tab_map) (simp add: rep3_neg_def ashare_uminus)
  have vals: "map (\<lambda>((u, v), w). v + w * (u - v)) (zip (zip (map (\<lambda>u. of_nat (unat u)) us) (map (\<lambda>u. - of_nat (unat u)) us)) (map of_bool bs)) =
      (map2 (\<lambda>u b. if b then of_nat (unat u) else - of_nat (unat u)) us bs :: 'f list)"
    by (rule nth_equalityI) (use assms(6) in auto)
  show "mpc (\<lambda>i. rep3_cmux_many E (z i) (y i) (map rep3_neg (y i))) Q"
    by (rule mpc_rep3_cmux_many[OF assms(1) z y ny], simp, simp add: assms(6), simp only: vals, erule Q)
qed

text \<open>
  The masked opening: the opened difference is the number \<open>u - r\<close> modulo \<open>2 ^ K\<close>, and adding \<open>r\<close>
  in the field does not undo a wrap around.
\<close>

lemma unat_diff_add: "unat (u - r) + unat r = unat u + (if r \<le> u then 0 else 2 ^ LENGTH('l))" for u r :: "'l::len word"
proof (cases "r \<le> u")
  case True
  then have "unat (u - r) = unat u - unat r" "unat r \<le> unat u" by (simp_all add: unat_sub word_le_nat_alt)
  with True show ?thesis by simp
next
  case False
  then have lt: "unat u < unat r" by (simp add: word_le_nat_alt)
  have "unat ((u - r) + r) = (unat (u - r) + unat r) mod 2 ^ LENGTH('l)" by (rule unat_word_ariths(1))
  then have "unat u = (unat (u - r) + unat r) mod 2 ^ LENGTH('l)" by simp
  moreover have "unat (u - r) < 2 ^ LENGTH('l)" "unat r < 2 ^ LENGTH('l)" by (rule unsigned_less)+
  moreover define a b m :: nat where "a = unat (u - r)" and "b = unat r" and "m = 2 ^ LENGTH('l)"
  ultimately have "unat u = (a + b) mod m" "a < m" "b < m" "unat u < b" using lt by simp_all
  moreover then have "(a + b) mod m = a + b - m" if "m \<le> a + b" using that by (simp add: le_mod_geq)
  ultimately have "a + b = unat u + m" by (cases "a + b < m") simp_all
  with False show ?thesis by (simp add: a_def b_def m_def)
qed

definition daring_shared :: "(PartyID \<Rightarrow> ('l::len word, 'f::comm_ring_1) DaRing list) \<Rightarrow> 'l word list \<Rightarrow> bool" where
  "daring_shared eda rs \<longleftrightarrow> ashares (\<lambda>i. map r_ring (eda i)) rs \<and> ashares (\<lambda>i. map r_fp (eda i)) (map (\<lambda>r. of_nat (unat r)) rs)"

lemma mpc_r2f_preproc_many:
  fixes T :: "('l::len word, 'r, 'w) ring_env" and eda :: "PartyID \<Rightarrow> ('l word, 'f::comm_ring_1) DaRing list"
  assumes "lawful_ring T" "ashares x us" "daring_shared eda rs" "length us = length rs"
    and Q: "\<And>z. ashares z (map2 (\<lambda>u r. of_nat (unat u + (if r \<le> u then 0 else 2 ^ LENGTH('l)))) us rs) \<Longrightarrow> Q z"
  shows "mpc (\<lambda>i. r2f_preproc_many T (x i) (eda i)) Q"
proof -
  have e: "ashares (\<lambda>i. map r_ring (eda i)) rs" "ashares (\<lambda>i. map r_fp (eda i)) (map (\<lambda>r. of_nat (unat r)) rs)"
    using assms(3) by (simp_all add: daring_shared_def)
  have le: "length (eda i) = length rs" for i using vec_shared_byD(1)[OF e(1), of i] by simp
  have masked: "ashares (\<lambda>i. map2 (\<lambda>x eda. x - r_ring eda) (x i) (eda i)) (map2 (-) us rs)"
    unfolding vec_shared_by_def
  proof (intro conjI allI impI)
    fix k assume "k < length (map2 (-) us rs)"
    then have k: "k < length us" "k < length rs" by simp_all
    have "ashare (\<lambda>i. r_ring (eda i ! k)) (rs ! k)" using vec_shared_byD(2)[OF e(1) k(2)] k le by simp
    from ashare_diff[OF vec_shared_byD(2)[OF assms(2) k(1)] this]
    show "ashare (\<lambda>i. map2 (\<lambda>x eda. x - r_ring eda) (x i) (eda i) ! k) (map2 (-) us rs ! k)"
      using k le vec_shared_byD(1)[OF assms(2)] by simp
  qed (use le vec_shared_byD(1)[OF assms(2)] in simp)
  have z: "ashares (\<lambda>i. map2 (\<lambda>c_open eda. r_fp eda + rep3_promote_to_trivial_share i (of_nat (unat c_open))) (map2 (-) us rs) (eda i))
      (map2 (\<lambda>u r. of_nat (unat u + (if r \<le> u then 0 else 2 ^ LENGTH('l)))) us rs)"
    unfolding vec_shared_by_def
  proof (intro conjI allI impI)
    fix k assume "k < length (map2 (\<lambda>u r. of_nat (unat u + (if r \<le> u then 0 else 2 ^ LENGTH('l)))) us rs :: 'f list)"
    then have k: "k < length us" "k < length rs" by simp_all
    have "ashare (\<lambda>i. r_fp (eda i ! k)) (of_nat (unat (rs ! k)))" using vec_shared_byD(2)[OF e(2), of k] k le by simp
    from ashare_add[OF this ashare_promote_to_trivial[of "of_nat (unat (us ! k - rs ! k))"]]
    have sum: "ashare (\<lambda>i. r_fp (eda i ! k) + rep3_promote_to_trivial_share i (of_nat (unat (us ! k - rs ! k))))
        (of_nat (unat (us ! k) + (if rs ! k \<le> us ! k then 0 else 2 ^ LENGTH('l))))"
      unfolding of_nat_add[symmetric] add.commute[of "unat (rs ! k)"] unat_diff_add .
    have "map2 (\<lambda>c_open eda. r_fp eda + rep3_promote_to_trivial_share i (of_nat (unat c_open))) (map2 (-) us rs) (eda i) ! k =
        r_fp (eda i ! k) + rep3_promote_to_trivial_share i (of_nat (unat (us ! k - rs ! k)))" for i
      using k le[of i] by simp
    with sum k show "ashare (\<lambda>i. map2 (\<lambda>c_open eda. r_fp eda + rep3_promote_to_trivial_share i (of_nat (unat c_open))) (map2 (-) us rs) (eda i) ! k)
        (map2 (\<lambda>u r. of_nat (unat u + (if r \<le> u then 0 else 2 ^ LENGTH('l)))) us rs ! k)"
      by (simp only: nth_map length_zip nth_zip min_less_iff_conj prod.case simp_thms)
  qed (use le assms(4) in simp)
  show ?thesis unfolding r2f_preproc_many_def
    by (rule mpc_bind, rule mpc_ring_open_vec[OF assms(1) masked], rule mpc_bind, rule mpc_get_id, rule mpc_ret, rule Q, rule z)
qed

subsection \<open>Properties\<close>

text \<open>(C28) A number that fits the field survives the way from a ring into the field and on into another
  ring, of which it is the residue: \<open>ring_to_field_a2b\<close> followed by \<open>field_to_ring_a2b\<close> is the cast
  of machine integers, and so is \<open>cast_a2b\<close> between the rings.\<close>

theorem casts_agree:
  fixes x :: "PartyID \<Rightarrow> 'l::len word share" and E :: "('f::comm_ring_1, 'r, 's, 'w) env" and U :: "('k::len word, 'r, 'w) ring_env"
  assumes "lawful_net E" "lawful_field (fld E)" "lawful_ring T" "lawful_ring U" and x: "ashare x u"
    and "LENGTH('l) = 2 ^ d" "LENGTH('k) = 2 ^ e" "LENGTH('k) \<le> 128" and u: "unat u < modulus (fld E)"
  shows "mpc (\<lambda>i. qbind (ring_to_field_a2b E T (x i)) (field_to_ring_a2b E U)) (\<lambda>z. ashare z (ucast u)) \<and>
    mpc (\<lambda>i. cast_a2b T U (x i)) (\<lambda>z. ashare z (ucast u))"
proof
  have "of_nat (into_biguint (fld E) (of_nat (unat u))) = (ucast u :: 'k word)"
    unfolding lawful_fieldD(7)[OF assms(2)] using u by simp
  with mpc_field_to_ring_a2b[OF assms(1,2,4) _ assms(7,8)]
  have "mpc (\<lambda>i. field_to_ring_a2b E U (f i)) (\<lambda>z. ashare z (ucast u))" if "ashare f (of_nat (unat u))" for f
    using that by fastforce
  then show "mpc (\<lambda>i. qbind (ring_to_field_a2b E T (x i)) (field_to_ring_a2b E U)) (\<lambda>z. ashare z (ucast u))"
    by (intro mpc_bind mpc_ring_to_field_a2b[OF assms(1-3) x assms(6) u]) simp
  show "mpc (\<lambda>i. cast_a2b T U (x i)) (\<lambda>z. ashare z (ucast u))" by (rule mpc_cast_a2b[OF assms(3,4) x assms(6,7)])
qed

theorem casts_agree_witness:
  "mpc (\<lambda>i. qbind (ring_to_field_a2b ex_env ex_ring (dealt 5 250 4 i :: 8 ring_share)) (field_to_ring_a2b ex_env ex_ring))
     (\<lambda>z. ashare z (3 :: 16 word)) \<and>
   mpc (\<lambda>i. cast_a2b ex_ring ex_ring (dealt 5 250 4 i :: 8 ring_share)) (\<lambda>z. ashare z (3 :: 16 word))"
proof -
  have x: "ashare (dealt 5 250 4) (3 :: 8 word)" by (rule dealt_ashare) simp
  from casts_agree[OF ex_env_lawful ex_ring_lawful ex_ring_lawful x, where ?'k = 16, of 3 4] show ?thesis by (simp add: ex_env_def ex_field_def)
qed

text \<open>(C29) The masked opening of \<open>r2f_preproc_many\<close>: with a random number \<open>r\<close> shared over the ring and over
  the field, a shared ring element \<open>u\<close> becomes the field element \<open>u\<close> only when \<open>r\<close> is at most \<open>u\<close>;
  otherwise the opened difference has wrapped around and the result is \<open>u + 2 ^ K\<close>.\<close>

theorem r2f_preproc_many_exact:
  fixes T :: "('l::len word, 'r, 'w) ring_env" and eda :: "PartyID \<Rightarrow> ('l word, 'f::comm_ring_1) DaRing list"
  assumes "lawful_ring T" "ashares x us" "daring_shared eda rs" "length us = length rs"
  shows "mpc (\<lambda>i. r2f_preproc_many T (x i) (eda i))
    (\<lambda>z. ashares z (map2 (\<lambda>u r. of_nat (unat u + (if r \<le> u then 0 else 2 ^ LENGTH('l)))) us rs))"
  by (rule mpc_r2f_preproc_many[OF assms])

theorem r2f_preproc_many_exact_witness:
  "mpc (\<lambda>i. r2f_preproc_many ex_ring [dealt 5 250 4 i :: 8 ring_share] [DaRing (dealt 1 2 4 i) (dealt 1 0 1 i)])
     (\<lambda>z. ashares z [259 :: 5])"
proof -
  have x: "ashares (\<lambda>i. [dealt 5 250 4 i]) [3 :: 8 word]" and r: "ashares (\<lambda>i. [dealt 1 2 4 i]) [7 :: 8 word]"
      and f: "ashares (\<lambda>i. [dealt 1 0 1 i]) [7 :: 5]"
    by (rule dealt_list(1)[OF dealt_ashare dealt_list(2)], simp)+
  have eda: "daring_shared (\<lambda>i. [DaRing (dealt 1 2 4 i) (dealt 1 0 1 i :: 5 share)]) [7 :: 8 word]"
    using r f by (simp add: daring_shared_def)
  from r2f_preproc_many_exact[OF ex_ring_lawful x eda] show ?thesis by (simp add: word_le_nat_alt)
qed

end
