(* ===== verification/Edabits_Pool.thy ===== *)
theory Edabits_Pool
  imports Edabits Casts
begin

text \<open>
  Correctness of the edaBit pool over the field: the tuples are read from the streams of the
  generators at fixed places, every way of obtaining a batch (regenerating, reading the cache of
  \<open>prepare_precache\<close>, the store of party 2, views of a reserved range) gives the same tuples, and
  the operations of the pool keep the invariant \<open>party_ok\<close>.
\<close>

subsection \<open>The tuples of a pool\<close>

definition eb_gamma :: "(bytes, 'r) rng_ops \<Rightarrow> nat \<Rightarrow> (PartyID \<Rightarrow> bytes) \<Rightarrow> nat \<Rightarrow> 'l::len word" where
  "eb_gamma R fb s k = kring (keystream R (s ID0)) (k * eb_stride TYPE('l) fb) XOR
     kring (keystream R (s ID2)) (k * size_of_ring TYPE('l))"

definition eb_alpha1 :: "(bytes, 'r) rng_ops \<Rightarrow> nat \<Rightarrow> 'l::len itself \<Rightarrow> (PartyID \<Rightarrow> bytes) \<Rightarrow> nat \<Rightarrow> nat \<Rightarrow> 'f::comm_ring_1" where
  "eb_alpha1 R fb T s k j = kfield (keystream R (s ID0)) (k * eb_stride TYPE('l) fb + size_of_ring TYPE('l) + j * fb)"

definition eb_alpha2 :: "(bytes, 'r) rng_ops \<Rightarrow> nat \<Rightarrow> 'l::len itself \<Rightarrow> (PartyID \<Rightarrow> bytes) \<Rightarrow> nat \<Rightarrow> nat \<Rightarrow> 'f::comm_ring_1" where
  "eb_alpha2 R fb T s k j = of_bool (bit (eb_gamma R fb s k :: 'l word) j) - eb_alpha1 R fb T s k j"

definition eb_summand ::
  "(bytes, 'r) rng_ops \<Rightarrow> nat \<Rightarrow> 'l::len itself \<Rightarrow> (PartyID \<Rightarrow> bytes) \<Rightarrow> PartyID \<Rightarrow> nat \<Rightarrow> nat \<Rightarrow> 'f::comm_ring_1" where
  "eb_summand R fb T s i = (if i = ID2 then eb_alpha2 R fb T s else eb_alpha1 R fb T s)"

text \<open>The batch of party \<open>i\<close> with the tuples \<open>c, \<dots>, c + n - 1\<close>.\<close>

definition gammas_at :: "(bytes, 'r) rng_ops \<Rightarrow> nat \<Rightarrow> (PartyID \<Rightarrow> bytes) \<Rightarrow> PartyID \<Rightarrow> nat \<Rightarrow> nat \<Rightarrow> 'l::len word list" where
  "gammas_at R fb s i c n = map (\<lambda>k. if i = ID0 then eb_gamma R fb s (c + k) else 0) [0..<n]"

definition alphas_at ::
  "(bytes, 'r) rng_ops \<Rightarrow> nat \<Rightarrow> 'l::len itself \<Rightarrow> (PartyID \<Rightarrow> bytes) \<Rightarrow> PartyID \<Rightarrow> nat \<Rightarrow> nat \<Rightarrow> 'f::comm_ring_1 list" where
  "alphas_at R fb T s i c n = map (\<lambda>idx. eb_summand R fb T s i (c + idx div LENGTH('l)) (idx mod LENGTH('l))) [0..<n * LENGTH('l)]"

definition batch_at ::
  "(bytes, 'r) rng_ops \<Rightarrow> nat \<Rightarrow> (PartyID \<Rightarrow> bytes) \<Rightarrow> PartyID \<Rightarrow> nat \<Rightarrow> nat \<Rightarrow> ('l::len word, 'f::comm_ring_1) EdaBitsBatch" where
  "batch_at R fb s i c n = \<lparr>eb_gammas = gammas_at R fb s i c n, eb_alphas_flat = alphas_at R fb TYPE('l) s i c n\<rparr>"

lemma length_at [simp]:
  "length (gammas_at R fb s i c n) = n" "length (alphas_at R fb (T :: 'l::len itself) s i c n) = n * LENGTH('l)"
  by (simp_all add: gammas_at_def alphas_at_def)

lemma gammas_at_append: "gammas_at R fb s i c m @ gammas_at R fb s i (c + m) n = gammas_at R fb s i c (m + n)"
  by (rule nth_equalityI) (auto simp: gammas_at_def nth_append add.assoc)

lemma flat_shift:
  assumes "m * K \<le> idx" "0 < (K :: nat)"
  shows "m + (idx - m * K) div K = idx div K" "(idx - m * K) mod K = idx mod K"
proof -
  obtain r where "idx = m * K + r" using assms(1) by (auto dest: le_Suc_ex)
  then show "m + (idx - m * K) div K = idx div K" "(idx - m * K) mod K = idx mod K" using assms(2) by simp_all
qed

lemma alphas_at_append: "alphas_at R fb T s i c m @ alphas_at R fb T s i (c + m) n = alphas_at R fb (T :: 'l::len itself) s i c (m + n)"
proof (rule nth_equalityI)
  fix idx assume "idx < length (alphas_at R fb T s i c m @ alphas_at R fb T s i (c + m) n)"
  then show "(alphas_at R fb T s i c m @ alphas_at R fb T s i (c + m) n) ! idx = (alphas_at R fb T s i c (m + n) :: 'a list) ! idx"
    by (auto simp: alphas_at_def nth_append add.assoc add_mult_distrib flat_shift)
qed (simp add: add_mult_distrib)

lemma alphas_at_nth:
  "k < n \<Longrightarrow> j < LENGTH('l) \<Longrightarrow> alphas_at R fb (T :: 'l::len itself) s i c n ! (k * LENGTH('l) + j) = eb_summand R fb T s i (c + k) j"
  using flat_bound[of k n j "LENGTH('l)"] by (simp add: alphas_at_def)

subsection \<open>Regenerating reads the stream\<close>

lemma eb_stride_bounds:
  assumes "i < n" "j < LENGTH('l)" "16 \<le> fb"
  shows "i * eb_stride TYPE('l::len) fb + size_of_ring TYPE('l) + j * fb + 16 \<le> n * eb_stride TYPE('l) fb"
proof -
  have "j * fb + 16 \<le> LENGTH('l) * fb" using item_fits[OF assms(2), of 16 fb] assms(3) by simp
  then have "size_of_ring TYPE('l) + j * fb + 16 \<le> eb_stride TYPE('l) fb" by (simp add: eb_stride_def)
  from item_fits[OF assms(1) this] show ?thesis by (simp add: add.assoc)
qed

lemma gamma_at_stream:
  assumes "i < n" "t = size_of_ring TYPE('l::len)" "t \<le> w"
  shows "ring_from_le_bytes (slice_at (map ks [c * w..<c * w + n * w]) (i * w) t) = (kring ks ((c + i) * w) :: 'l word)"
proof -
  have "i * w + t \<le> n * w" using item_fits[OF assms(1,3)] .
  then show ?thesis by (simp add: slice_at_stream kring_def assms(2) add_mult_distrib)
qed

lemma generate_range:
  fixes s :: "PartyID \<Rightarrow> bytes" and scratch :: "('l::len word, 'f::comm_ring_1) EdaBitsBatch"
  defines "w \<equiv> eb_stride TYPE('l)" and "t \<equiv> size_of_ring TYPE('l)"
  assumes seek: "lawful_seek R S" and fb: "16 \<le> fb" and i: "i \<noteq> ID2" and bound: "(c + n) * w fb < 2 ^ 64"
    and fits: "off + n \<le> length (eb_gammas scratch)" "(off + n) * LENGTH('l) \<le> length (eb_alphas_flat scratch)"
  shows "generate_into_from_state R S (s i, 0, s (prev_id i), 0) fb i c n scratch off = Inr
     \<lparr>eb_gammas = take off (eb_gammas scratch) @ gammas_at R fb s i c n @ drop (off + n) (eb_gammas scratch),
      eb_alphas_flat = take (off * LENGTH('l)) (eb_alphas_flat scratch) @ alphas_at R fb TYPE('l) s i c n @
        drop ((off + n) * LENGTH('l)) (eb_alphas_flat scratch)\<rparr>"
proof (cases "n = 0")
  case True
  then show ?thesis by (simp add: generate_into_from_state_def gammas_at_def alphas_at_def)
next
  case False
  let ?K = "LENGTH('l)" and ?w = "eb_stride TYPE('l) fb" and ?a = "keystream R (s ID0)" and ?g = "keystream R (s ID2)"
  have tw: "t \<le> ?w" by (simp add: t_def eb_stride_def)
  have c1: "c * ?w < 2 ^ 64" by (rule le_less_trans[OF mult_le_mono1 bound[unfolded w_def]]) simp
  have b: "c * ?w < 2 ^ 66" by (rule less_trans[OF c1]) simp
  have b2: "c * t < 2 ^ 66" by (rule le_less_trans[OF mult_le_mono2[OF tw] b])
  let ?buf = "map ?a [c * ?w..<c * ?w + n * ?w]"
  have bufs: "seek_and_generate R S (s ID0) 0 (c * ?w) (n * ?w) = ?buf"
      "seek_and_generate R S (s ID2) 0 (c * t) (n * t) = map ?g [c * t..<c * t + n * t]"
    by (rule seek_and_generate_stream[OF seek b], rule seek_and_generate_stream[OF seek b2])
  have gs: "map (\<lambda>j. ring_from_le_bytes (slice_at ?buf (j * ?w) t) XOR
        ring_from_le_bytes (slice_at (map ?g [c * t..<c * t + n * t]) (j * t) t)) [0..<n] =
      (gammas_at R fb s ID0 c n :: 'l word list)"
    unfolding gammas_at_def using gamma_at_stream[where ?'l = 'l and t = t and n = n, OF _ t_def[THEN meta_eq_to_obj_eq] tw]
      gamma_at_stream[where ?'l = 'l and t = t and n = n and w = t, OF _ t_def[THEN meta_eq_to_obj_eq]]
    by (auto simp: eb_gamma_def t_def)
  have "rmap (\<lambda>idx. parse_field ?buf (idx div ?K * ?w + t + idx mod ?K * fb)) [0..<n * ?K] =
      Inr (map (\<lambda>idx. eb_alpha1 R fb TYPE('l) s (c + idx div ?K) (idx mod ?K)) [0..<n * ?K])"
  proof (rule rmap_Inr)
    fix idx assume "idx \<in> set [0..<n * ?K]"
    then have "idx div ?K < n" "idx mod ?K < ?K" using flat_index[of idx n ?K] by simp_all
    from eb_stride_bounds[OF this fb]
    show "parse_field ?buf (idx div ?K * ?w + t + idx mod ?K * fb) = Inr (eb_alpha1 R fb TYPE('l) s (c + idx div ?K) (idx mod ?K))"
      by (simp add: parse_field_stream eb_alpha1_def t_def add_mult_distrib add.assoc)
  qed
  also have "map (\<lambda>idx. eb_alpha1 R fb TYPE('l) s (c + idx div ?K) (idx mod ?K)) [0..<n * ?K] = (alphas_at R fb TYPE('l) s i c n :: 'f list)"
    using i by (simp add: alphas_at_def eb_summand_def)
  finally have as: "rmap (\<lambda>idx. parse_field ?buf (idx div ?K * ?w + t + idx mod ?K * fb)) [0..<n * ?K] =
      Inr (alphas_at R fb TYPE('l) s i c n :: 'f list)" .
  have "gammas_at R fb s ID1 c n = (replicate n 0 :: 'l word list)" by (simp add: gammas_at_def map_replicate_const)
  with i show ?thesis using False fits gs as bufs
    by (cases i) (simp_all add: generate_into_from_state_def Let_def splice_def add_mult_distrib flip: t_def)
qed

subsection \<open>The invariant of one party\<close>

text \<open>The header and the data files of a pool are different files.\<close>

definition stores_apart :: "'e BackingStore \<Rightarrow> 'f BackingStore \<Rightarrow> bool" where
  "stores_apart s t \<longleftrightarrow> (\<forall>p n off m off'. s = FileBacked p n off \<longrightarrow> t \<noteq> FileBacked p m off')"

definition pool_files_apart :: "('e, 'f) LazyEdaBits \<Rightarrow> bool" where
  "pool_files_apart d \<longleftrightarrow> files_apart (eb_meta_path d) (eb_alphas d) \<and> files_apart (eb_meta_path d) (eb_gamma_store d) \<and>
     stores_apart (eb_alphas d) (eb_gamma_store d)"

text \<open>A list holds the summands of the tuples from \<open>c\<close> up to \<open>fin\<close>, the first of its elements belonging
  to tuple \<open>st\<close>.\<close>

definition holds_alphas ::
  "(bytes, 'r) rng_ops \<Rightarrow> nat \<Rightarrow> 'l::len itself \<Rightarrow> (PartyID \<Rightarrow> bytes) \<Rightarrow> PartyID \<Rightarrow> nat \<Rightarrow> nat \<Rightarrow> nat \<Rightarrow> 'f::comm_ring_1 list \<Rightarrow> bool" where
  "holds_alphas R fb T s i st c fin v \<longleftrightarrow> (fin - st) * LENGTH('l) \<le> length v \<and>
     (\<forall>k j. c \<le> k \<and> k < fin \<and> j < LENGTH('l) \<longrightarrow> v ! ((k - st) * LENGTH('l) + j) = eb_summand R fb T s i k j)"

definition holds_gammas ::
  "(bytes, 'r) rng_ops \<Rightarrow> nat \<Rightarrow> (PartyID \<Rightarrow> bytes) \<Rightarrow> nat \<Rightarrow> nat \<Rightarrow> nat \<Rightarrow> 'l::len word list \<Rightarrow> bool" where
  "holds_gammas R fb s st c fin v \<longleftrightarrow> fin - st \<le> length v \<and> (\<forall>k. c \<le> k \<and> k < fin \<longrightarrow> v ! (k - st) = eb_gamma R fb s k)"

definition cache_ok ::
  "(bytes, 'r) rng_ops \<Rightarrow> 'f::comm_ring_1 layout \<Rightarrow> 'l::len word layout \<Rightarrow> nat \<Rightarrow> (PartyID \<Rightarrow> bytes) \<Rightarrow> nat \<Rightarrow>
   fs \<Rightarrow> ('l word, 'f) LazyEdaBits \<Rightarrow> bool" where
  "cache_ok R L G fb s num fs d \<longleftrightarrow>
     (case eb_mode d of
        NoStorage \<Rightarrow> True
      | P2Authoritative \<Rightarrow> False
      | P01Precache st len \<Rightarrow> st \<le> eb_cursor d \<and> st + len \<le> num \<and>
          (\<exists>as. holds L fs (eb_alphas d) as \<and> length as = len * LENGTH('l) \<and>
             holds_alphas R fb TYPE('l) s (eb_party_id d) st (eb_cursor d) (st + len) as) \<and>
          (eb_party_id d = ID0 \<longrightarrow> (\<exists>gs. holds G fs (eb_gamma_store d) gs \<and> holds_gammas R fb s st (eb_cursor d) (st + len) gs)))"

definition authoritative_ok ::
  "(bytes, 'r) rng_ops \<Rightarrow> 'f::comm_ring_1 layout \<Rightarrow> nat \<Rightarrow> (PartyID \<Rightarrow> bytes) \<Rightarrow> nat \<Rightarrow> fs \<Rightarrow> ('l::len word, 'f) LazyEdaBits \<Rightarrow> bool" where
  "authoritative_ok R L fb s num fs d \<longleftrightarrow> (eb_mode d = P2Authoritative \<or> eb_mode d = NoStorage \<and> num = 0) \<and>
     store_ok L fs (eb_alphas d) \<and> length (store_elems L fs (eb_alphas d)) = num * LENGTH('l) \<and>
     holds_alphas R fb TYPE('l) s ID2 0 (eb_cursor d) num (store_elems L fs (eb_alphas d))"

definition party_ok ::
  "(bytes, 'r) rng_ops \<Rightarrow> 'f::comm_ring_1 layout \<Rightarrow> 'l::len word layout \<Rightarrow> nat \<Rightarrow> (PartyID \<Rightarrow> bytes) \<Rightarrow> nat \<Rightarrow> nat \<Rightarrow> PartyID \<Rightarrow>
   fs \<Rightarrow> ('l word, 'f) LazyEdaBits \<Rightarrow> bool" where
  "party_ok R L G fb s num c i fs d \<longleftrightarrow>
     extension_seeds d = (s i, 0, s (prev_id i), 0) \<and> eb_party_id d = i \<and> eb_total d = num \<and> eb_cursor d = c \<and>
     eb_field_bytes d = fb \<and> pool_files_apart d \<and> c \<le> num \<and> 16 \<le> fb \<and> num * eb_stride TYPE('l) fb < 2 ^ 64 \<and>
     (if i = ID2 then authoritative_ok R L fb s num fs d else cache_ok R L G fb s num fs d)"

lemma party_okD:
  assumes "party_ok R L G fb s num c i fs (d :: ('l::len word, 'f::comm_ring_1) LazyEdaBits)"
  shows "extension_seeds d = (s i, 0, s (prev_id i), 0)" "eb_party_id d = i" "eb_total d = num" "eb_cursor d = c"
    "eb_field_bytes d = fb" "pool_files_apart d" "c \<le> num" "16 \<le> fb" "num * eb_stride TYPE('l) fb < 2 ^ 64"
    "i = ID2 \<Longrightarrow> authoritative_ok R L fb s num fs d" "i \<noteq> ID2 \<Longrightarrow> cache_ok R L G fb s num fs d"
  using assms by (auto simp: party_ok_def)

lemma party_num_bound:
  fixes d :: "('l::len word, 'f::comm_ring_1) LazyEdaBits"
  assumes "party_ok R L G fb s num c i fs d" shows "num < 2 ^ 64"
proof -
  have "num * 1 \<le> num * eb_stride TYPE('l) fb" by (intro mult_le_mono2) (simp add: eb_stride_def size_of_ring_def)
  then have "num \<le> num * eb_stride TYPE('l) fb" by (simp only: mult_1_right)
  then show ?thesis using party_okD(9)[OF assms] by (rule le_less_trans)
qed

subsection \<open>Taking from a store\<close>

lemma take_store_range:
  assumes "holds L fs st v" "a \<le> b" "b \<le> length v" "n = b - a"
  shows "\<exists>fs' v'. take_store_range_into L fs st a b n = Inr (take n (drop a v), fs') \<and> holds L fs' st v' \<and>
    length v' = length v \<and> (\<forall>k. b \<le> k \<and> k < length v \<longrightarrow> v' ! k = v ! k) \<and>
    (\<forall>p. (\<forall>m off. st \<noteq> FileBacked p m off) \<longrightarrow> fs' p = fs p)"
proof -
  obtain z where z: "length z = b - a"
      "holds L (store_consume L fs st a b) st (if store_writer st = None then v else take a v @ z @ drop b v)"
    using consume_holds[OF assms(1-3)] by blast
  let ?v = "if store_writer st = None then v else take a v @ z @ drop b v"
  have "length ?v = length v" using z(1) assms(2,3) by simp
  moreover have "?v ! k = v ! k" if "b \<le> k" "k < length v" for k
    using that z(1) assms(2,3) by (auto simp: nth_append)
  ultimately show ?thesis using read_slices(1)[OF assms] z(2) consume_other[of st _ L fs a b]
    by (intro exI[of _ "store_consume L fs st a b"] exI[of _ ?v]) (auto simp: take_store_range_into_def)
qed

text \<open>Reading a range of a list that holds summands.\<close>

lemma holds_alphas_slice:
  fixes T :: "'l::len itself"
  assumes "holds_alphas R fb T s i st c fin v" "st \<le> c" "c + n \<le> fin"
  shows "(c - st) * LENGTH('l) + n * LENGTH('l) \<le> length v"
    "take (n * LENGTH('l)) (drop ((c - st) * LENGTH('l)) v) = alphas_at R fb T s i c n"
proof -
  let ?K = "LENGTH('l)"
  have v: "(fin - st) * ?K \<le> length v"
    "\<And>k j. c \<le> k \<Longrightarrow> k < fin \<Longrightarrow> j < ?K \<Longrightarrow> v ! ((k - st) * ?K + j) = eb_summand R fb T s i k j"
    using assms(1) by (simp_all add: holds_alphas_def)
  have "(c - st + n) * ?K \<le> (fin - st) * ?K" using assms(2,3) by (intro mult_le_mono1) simp
  with v(1) show le: "(c - st) * ?K + n * ?K \<le> length v" by (simp add: add_mult_distrib)
  show "take (n * ?K) (drop ((c - st) * ?K) v) = alphas_at R fb T s i c n"
  proof (rule nth_equalityI)
    fix idx assume "idx < length (take (n * ?K) (drop ((c - st) * ?K) v))"
    then have idx: "idx < n * ?K" using le by simp
    have "(c + idx div ?K) - st = (c - st) + idx div ?K" using assms(2) by simp
    then have eq: "(c - st) * ?K + idx = ((c + idx div ?K) - st) * ?K + idx mod ?K"
      by (simp only: add_mult_distrib add.assoc div_mult_mod_eq)
    have "v ! ((c - st) * ?K + idx) = eb_summand R fb T s i (c + idx div ?K) (idx mod ?K)"
      unfolding eq by (rule v(2)) (use flat_index[OF idx] assms(3) in auto)
    moreover have "(c - st) * ?K \<le> length v" using le by (rule add_leD1)
    ultimately show "take (n * ?K) (drop ((c - st) * ?K) v) ! idx = alphas_at R fb T s i c n ! idx"
      using idx by (simp only: alphas_at_def nth_take nth_drop nth_map nth_upt length_upt) simp
  qed (use le in simp)
qed

lemma holds_gammas_slice:
  assumes "holds_gammas R fb s st c fin v" "st \<le> c" "c + n \<le> fin"
  shows "c - st + n \<le> length v" "take n (drop (c - st) v) = gammas_at R fb s ID0 c n"
proof -
  have v: "fin - st \<le> length v" "\<And>k. c \<le> k \<Longrightarrow> k < fin \<Longrightarrow> v ! (k - st) = eb_gamma R fb s k"
    using assms(1) by (simp_all add: holds_gammas_def)
  show le: "c - st + n \<le> length v" using v(1) assms(2,3) by simp
  show "take n (drop (c - st) v) = gammas_at R fb s ID0 c n"
  proof (rule nth_equalityI)
    fix k assume "k < length (take n (drop (c - st) v))"
    with v(2)[of "c + k"] le assms(2,3) show "take n (drop (c - st) v) ! k = gammas_at R fb s ID0 c n ! k"
      by (simp add: gammas_at_def)
  qed (use le in simp)
qed

lemma holds_alphas_mono:
  fixes T :: "'l::len itself"
  assumes "holds_alphas R fb T s i st c fin v" "st \<le> c" "length v' = length v" "c + n \<le> fin"
    and "\<And>k. (c + n - st) * LENGTH('l) \<le> k \<Longrightarrow> k < length v \<Longrightarrow> v' ! k = v ! k"
  shows "holds_alphas R fb T s i st (c + n) fin v'"
  unfolding holds_alphas_def
proof (intro conjI allI impI)
  show "(fin - st) * LENGTH('l) \<le> length v'" using assms(1,3) by (simp add: holds_alphas_def)
  fix k j assume kj: "c + n \<le> k \<and> k < fin \<and> j < LENGTH('l)"
  then have lo: "(c + n - st) * LENGTH('l) \<le> (k - st) * LENGTH('l)" by (intro mult_le_mono1 diff_le_mono) (rule conjunct1)
  have hi: "(k - st) * LENGTH('l) + j < (fin - st) * LENGTH('l)" using kj assms(2) by (intro flat_bound) auto
  have len: "(fin - st) * LENGTH('l) \<le> length v" using assms(1) unfolding holds_alphas_def by (rule conjunct1)
  have "v' ! ((k - st) * LENGTH('l) + j) = v ! ((k - st) * LENGTH('l) + j)"
    by (rule assms(5)[OF trans_le_add1[OF lo] less_le_trans[OF hi len]])
  with assms(1) kj show "v' ! ((k - st) * LENGTH('l) + j) = eb_summand R fb T s i k j" by (simp add: holds_alphas_def)
qed

lemma holds_gammas_mono:
  assumes "holds_gammas R fb s st c fin v" "st \<le> c" "length v' = length v" "c + n \<le> fin"
    and "\<And>k. c + n - st \<le> k \<Longrightarrow> k < length v \<Longrightarrow> v' ! k = v ! k"
  shows "holds_gammas R fb s st (c + n) fin v'"
  unfolding holds_gammas_def
proof (intro conjI allI impI)
  show "fin - st \<le> length v'" using assms(1,3) by (simp add: holds_gammas_def)
  fix k assume k: "c + n \<le> k \<and> k < fin"
  then have "c + n - st \<le> k - st" "k - st < fin - st" using assms(2) by auto
  with assms(1,5) k show "v' ! (k - st) = eb_gamma R fb s k" by (simp add: holds_gammas_def)
qed

lemma at_holds:
  "holds_alphas R fb T s i c c (c + n) (alphas_at R fb T s i c n)" "holds_gammas R fb s c c (c + n) (gammas_at R fb s ID0 c n)"
  by (auto simp: holds_alphas_def holds_gammas_def alphas_at_nth gammas_at_def)

lemma holds_weaken:
  "holds_alphas R fb T s i st c fin v \<Longrightarrow> c \<le> c' \<Longrightarrow> holds_alphas R fb T s i st c' fin v"
  "holds_gammas R fb s st c fin g \<Longrightarrow> c \<le> c' \<Longrightarrow> holds_gammas R fb s st c' fin g"
  by (auto simp: holds_alphas_def holds_gammas_def)

lemma holds_restrict:
  fixes T :: "'l::len itself"
  shows "holds_alphas R fb T s i st c fin v \<Longrightarrow> c \<le> c' \<Longrightarrow> fin' \<le> fin \<Longrightarrow> holds_alphas R fb T s i st c' fin' v"
    and "holds_gammas R fb s st c fin g \<Longrightarrow> c \<le> c' \<Longrightarrow> fin' \<le> fin \<Longrightarrow> holds_gammas R fb s st c' fin' g"
proof -
  assume a: "holds_alphas R fb T s i st c fin v" "c \<le> c'" "fin' \<le> fin"
  have "(fin' - st) * LENGTH('l) \<le> (fin - st) * LENGTH('l)" using a(3) by (intro mult_le_mono1 diff_le_mono)
  also have "\<dots> \<le> length v" using a(1) by (simp add: holds_alphas_def)
  finally show "holds_alphas R fb T s i st c' fin' v" using a by (auto simp: holds_alphas_def)
qed (auto simp: holds_gammas_def)

lemma persist_holds:
  "files_apart meta st \<Longrightarrow> holds L (persist_cursor fs meta c) st v = holds L fs st v"
  by (rule holds_other_file, rule persist_cursor_other) (auto simp: files_apart_def)

text \<open>Reading the cache: its part of the batch, and the cache behind it is kept.\<close>

lemma fill_precache:
  fixes d :: "('l::len word, 'f::comm_ring_1) LazyEdaBits"
  assumes ok: "party_ok R L G fb s num c i fs d" and i: "i \<noteq> ID2" and n: "c + n \<le> num"
  shows "\<exists>m fs'. m \<le> n \<and> fill_precache_into L G fs d c n (zero_scratch n) = Inr (m,
       \<lparr>eb_gammas = gammas_at R fb s i c m @ replicate (n - m) 0,
        eb_alphas_flat = alphas_at R fb TYPE('l) s i c m @ replicate ((n - m) * LENGTH('l)) 0\<rparr>, fs') \<and>
     cache_ok R L G fb s num (persist_cursor fs' (eb_meta_path d) (c + n)) (d\<lparr>eb_cursor := c + n\<rparr>)"
proof (cases "\<exists>st len. eb_mode d = P01Precache st len")
  case False
  have "eb_mode d = NoStorage" using party_okD(11)[OF ok i] False by (auto simp: cache_ok_def split: EdaBitsStorageMode.splits)
  then show ?thesis
    by (intro exI[of _ 0] exI[of _ fs])
      (simp add: fill_precache_into_def zero_scratch_def cache_ok_def gammas_at_def alphas_at_def)
next
  case True
  then obtain st len where mode: "eb_mode d = P01Precache st len" by blast
  let ?K = "LENGTH('l)" and ?T = "TYPE('l)"
  note D = party_okD[OF ok]
  from D(11)[OF i] D(2,4) obtain as where st: "st \<le> c" "st + len \<le> num" and as: "holds L fs (eb_alphas d) as"
      "holds_alphas R fb ?T s i st c (st + len) as" "length as = len * ?K"
    and g: "i = ID0 \<Longrightarrow> \<exists>gs. holds G fs (eb_gamma_store d) gs \<and> holds_gammas R fb s st c (st + len) gs"
    by (auto simp: cache_ok_def mode)
  have apart: "files_apart (eb_meta_path d) (eb_alphas d)" "files_apart (eb_meta_path d) (eb_gamma_store d)"
      "stores_apart (eb_alphas d) (eb_gamma_store d)" using D(6) by (simp_all add: pool_files_apart_def)
  show ?thesis
  proof (cases "c < st + len")
    case False
    have "\<exists>gs. holds G fs (eb_gamma_store d) gs \<and> holds_gammas R fb s st (c + n) (st + len) gs" if "i = ID0"
      using g[OF that] holds_weaken(2)[where c = c and c' = "c + n", OF _ le_add1] by metis
    then have "cache_ok R L G fb s num (persist_cursor fs (eb_meta_path d) (c + n)) (d\<lparr>eb_cursor := c + n\<rparr>)"
      using st as(1,3) holds_weaken(1)[OF as(2), of "c + n"] D(2)
      by (auto simp: cache_ok_def mode persist_holds[OF apart(1)] persist_holds[OF apart(2)])
    with False show ?thesis
      by (intro exI[of _ 0] exI[of _ fs]) (simp add: fill_precache_into_def mode zero_scratch_def gammas_at_def alphas_at_def)
  next
    case True
    define m where "m = min (st + len - c) n"
    have m: "m \<le> n" "c + m \<le> st + len" using True by (auto simp: m_def)
    let ?a = "(c - st) * ?K"
    note sl = holds_alphas_slice[OF as(2) st(1) m(2)]
    obtain fs1 v where t1: "take_store_range_into L fs (eb_alphas d) ?a (?a + m * ?K) (m * ?K) = Inr (alphas_at R fb ?T s i c m, fs1)"
        and v: "holds L fs1 (eb_alphas d) v" "length v = length as" "\<And>k. ?a + m * ?K \<le> k \<Longrightarrow> k < length as \<Longrightarrow> v ! k = as ! k"
        and o1: "\<And>p. (\<And>k off. eb_alphas d \<noteq> FileBacked p k off) \<Longrightarrow> fs1 p = fs p"
      using take_store_range[OF as(1) le_add1 sl(1), of "m * ?K"] unfolding sl(2) by auto
    have cn: "(c + m - st) * ?K = ?a + m * ?K" using st(1) by (simp add: add_mult_distrib[symmetric])
    have v': "holds_alphas R fb ?T s i st (c + m) (st + len) v"
      by (rule holds_alphas_mono[OF as(2) st(1) v(2) m(2)]) (simp only: cn v(3))
    have hg: "holds G fs1 (eb_gamma_store d) gs = holds G fs (eb_gamma_store d) gs" for gs
      using apart(3) by (intro holds_other_file o1) (auto simp: stores_apart_def)
    show ?thesis
    proof (cases "i = ID0")
      case False
      with i have i1: "i = ID1" by (cases i) auto
      have "cache_ok R L G fb s num (persist_cursor fs1 (eb_meta_path d) (c + n)) (d\<lparr>eb_cursor := c + n\<rparr>)"
        using st v(1,2) as(3) holds_weaken(1)[OF v', of "c + n"] m(1) D(2) i1
        by (auto simp: cache_ok_def mode persist_holds[OF apart(1)])
      moreover have "gammas_at R fb s ID1 c m = (replicate m 0 :: 'l word list)" by (simp add: gammas_at_def map_replicate_const)
      ultimately show ?thesis using True st(1) m i1 t1 D(2)
        by (intro exI[of _ m] exI[of _ fs1])
          (simp add: fill_precache_into_def mode m_def[symmetric] or_panic_def Let_def splice_def zero_scratch_def diff_mult_distrib)
    next
      case i0: True
      then obtain gs where gs: "holds G fs1 (eb_gamma_store d) gs" "holds_gammas R fb s st c (st + len) gs" using g hg by blast
      note gsl = holds_gammas_slice[OF gs(2) st(1) m(2)]
      obtain fs2 w where t2: "take_store_range_into G fs1 (eb_gamma_store d) (c - st) (c - st + m) m = Inr (gammas_at R fb s ID0 c m, fs2)"
          and w: "holds G fs2 (eb_gamma_store d) w" "length w = length gs" "\<And>k. c - st + m \<le> k \<Longrightarrow> k < length gs \<Longrightarrow> w ! k = gs ! k"
          and o2: "\<And>p. (\<And>k off. eb_gamma_store d \<noteq> FileBacked p k off) \<Longrightarrow> fs2 p = fs1 p"
        using take_store_range[OF gs(1) le_add1 gsl(1), of m] unfolding gsl(2) by auto
      have w': "holds_gammas R fb s st (c + m) (st + len) w"
        by (rule holds_gammas_mono[OF gs(2) st(1) w(2) m(2)]) (use w(3) st(1) in simp)
      have "holds L fs2 (eb_alphas d) v = holds L fs1 (eb_alphas d) v"
        using apart(3) by (intro holds_other_file o2) (auto simp: stores_apart_def)
      then have "cache_ok R L G fb s num (persist_cursor fs2 (eb_meta_path d) (c + n)) (d\<lparr>eb_cursor := c + n\<rparr>)"
        using st v(1,2) as(3) w(1) holds_weaken(1)[OF v', of "c + n"] holds_weaken(2)[OF w', of "c + n"] m(1) D(2) i0
        by (auto simp: cache_ok_def mode persist_holds[OF apart(1)] persist_holds[OF apart(2)])
      then show ?thesis using True st(1) m i0 t1 t2 D(2)
        by (intro exI[of _ m] exI[of _ fs2])
          (simp add: fill_precache_into_def mode m_def[symmetric] or_panic_def Let_def splice_def zero_scratch_def diff_mult_distrib)
    qed
  qed
qed

lemma take_batch_party:
  fixes d :: "('l::len word, 'f::comm_ring_1) LazyEdaBits"
  assumes seek: "lawful_seek R S" and ok: "party_ok R L G fb s num c i fs d" and n: "c + n \<le> num"
  shows "\<exists>fs'. edabits_take_batch R S L G fs d n = Inr (batch_at R fb s i c n, d\<lparr>eb_cursor := c + n\<rparr>, fs') \<and>
    party_ok R L G fb s num (c + n) i fs' (d\<lparr>eb_cursor := c + n\<rparr>)"
proof -
  let ?K = "LENGTH('l)" and ?T = "TYPE('l)"
  note D = party_okD[OF ok]
  let ?d = "d\<lparr>eb_cursor := c + n\<rparr>"
  have frame: "party_ok R L G fb s num (c + n) i fs' ?d \<longleftrightarrow>
      (if i = ID2 then authoritative_ok R L fb s num fs' ?d else cache_ok R L G fb s num fs' ?d)" for fs'
    using D n by (simp add: party_ok_def pool_files_apart_def extension_seeds_def)
  show ?thesis
  proof (cases "n = 0")
    case True
    then have eq: "?d = d" using D(4) by (cases d) simp
    show ?thesis unfolding eq using True ok D(3,4,7)
      by (intro exI[of _ fs]) (simp add: edabits_take_batch_def batch_at_def gammas_at_def alphas_at_def)
  next
    case False
    show ?thesis
    proof (cases "i = ID2")
      case True
      let ?st = "eb_alphas d" and ?a = "c * ?K"
      let ?fs = "persist_cursor (store_consume L fs ?st ?a (?a + n * ?K)) (eb_meta_path d) (c + n)"
      have A: "eb_mode d = P2Authoritative \<or> eb_mode d = NoStorage \<and> num = 0" "store_ok L fs ?st" "length (store_elems L fs ?st) = num * ?K"
          "holds_alphas R fb ?T s ID2 0 c num (store_elems L fs ?st)"
        using D(10)[OF True] D(4) by (simp_all add: authoritative_ok_def)
      note sl = holds_alphas_slice[OF A(4) le0 n, unfolded diff_zero]
      note con = store_consume_outside[OF A(2) le_add1 sl(1)]
      have same: "store_ok L ?fs ?st = store_ok L (store_consume L fs ?st ?a (?a + n * ?K)) ?st"
          "store_elems L ?fs ?st = store_elems L (store_consume L fs ?st ?a (?a + n * ?K)) ?st"
        using D(6) by (intro store_other_file persist_cursor_other; auto simp: pool_files_apart_def files_apart_def)+
      have "holds_alphas R fb ?T s ID2 0 (c + n) num (store_elems L ?fs ?st)"
      proof (rule holds_alphas_mono[OF A(4) le0 _ n])
        fix k assume k: "(c + n - 0) * ?K \<le> k" "k < length (store_elems L fs ?st)"
        then have "?a + n * ?K \<le> k" by (simp add: add_mult_distrib)
        with k(2) arg_cong[OF con(3), of "\<lambda>xs. xs ! (k - (?a + n * ?K))"] con(2) sl(1)
        show "store_elems L ?fs ?st ! k = store_elems L fs ?st ! k" unfolding same by simp
      qed (simp only: same con(2))
      with con(1,2) A same have "authoritative_ok R L fb s num ?fs ?d" by (simp add: authoritative_ok_def)
      moreover have "take_store_range_into L fs ?st ?a (?a + n * ?K) (n * ?K) =
          Inr (alphas_at R fb ?T s ID2 c n, store_consume L fs ?st ?a (?a + n * ?K))"
        using read_slices(1)[OF store_ok_holds[OF A(2)] le_add1 sl(1), of "n * ?K"] by (simp add: take_store_range_into_def sl(2))
      moreover have "gammas_at R fb s ID2 c n = (replicate n 0 :: 'l word list)" by (simp add: gammas_at_def map_replicate_const)
      ultimately show ?thesis using True False D(2-4) n
        by (intro exI[of _ ?fs]) (simp add: frame[unfolded True] edabits_take_batch_def fill_p2_store_into_def or_panic_def splice_def Let_def
            zero_scratch_def batch_at_def edabits_persist_cursor_def)
    next
      case i: False
      obtain m fs' where m: "m \<le> n" and f: "fill_precache_into L G fs d c n (zero_scratch n) = Inr (m,
         \<lparr>eb_gammas = gammas_at R fb s i c m @ replicate (n - m) 0,
          eb_alphas_flat = alphas_at R fb ?T s i c m @ replicate ((n - m) * ?K) 0\<rparr>, fs')"
        and c': "cache_ok R L G fb s num (persist_cursor fs' (eb_meta_path d) (c + n)) ?d"
        using fill_precache[OF ok i n] by blast
      let ?s = "\<lparr>eb_gammas = gammas_at R fb s i c m @ replicate (n - m) 0,
          eb_alphas_flat = alphas_at R fb ?T s i c m @ replicate ((n - m) * ?K) 0\<rparr> :: ('l word, 'f) EdaBitsBatch"
      have "(c + m + (n - m)) * eb_stride ?T fb < 2 ^ 64"
        by (rule le_less_trans[OF mult_le_mono1 D(9)]) (use n m in simp)
      note gen = generate_range[OF seek D(8) i this, of m ?s s]
      have "(m + (n - m)) * ?K \<le> length (eb_alphas_flat ?s)" by (simp add: add_mult_distrib)
      with gen m have gen': "generate_into_from_state R S (s i, 0, s (prev_id i), 0) fb i (c + m) (n - m) ?s m = Inr (batch_at R fb s i c n)"
        using gammas_at_append[of R fb s i c m "n - m"] alphas_at_append[of R fb ?T s i c m "n - m"]
        by (simp add: batch_at_def diff_mult_distrib)
      have "m = n \<Longrightarrow> ?s = batch_at R fb s i c n" by (simp add: batch_at_def)
      with gen' i f c' m False D(1-5) n show ?thesis
        by (intro exI[of _ "persist_cursor fs' (eb_meta_path d) (c + n)"])
          (auto simp: frame edabits_take_batch_def Let_def edabits_generate_into_def edabits_persist_cursor_def)
    qed
  qed
qed

subsection \<open>Filling the cache\<close>

text \<open>A writer that has filled a list up to some position.\<close>

lemma writer_appends:
  assumes "holds L fs s v" "store_writer s = Some w" "take a v = xs" "a + length d \<le> length v"
  shows "\<exists>fs' v'. writer_write_at L fs w a d = Inr fs' \<and> holds L fs' s v' \<and> length v' = length v \<and>
    take (a + length d) v' = xs @ d \<and> (\<forall>q. q \<noteq> writer_file w \<longrightarrow> fs' q = fs q)"
proof -
  obtain fs' where "writer_write_at L fs w a d = Inr fs'" "holds L fs' s (take a v @ d @ drop (a + length d) v)"
      "\<forall>q. q \<noteq> writer_file w \<longrightarrow> fs' q = fs q"
    using writer_writes[OF assms(1,2,4)] by blast
  with assms(3,4) show ?thesis by (intro exI[of _ fs'] exI[of _ "take a v @ d @ drop (a + length d) v"]) auto
qed

text \<open>The state of the cache files when the first \<open>q\<close> tuples are written.\<close>

definition cache_filled ::
  "(bytes, 'r) rng_ops \<Rightarrow> 'f::comm_ring_1 layout \<Rightarrow> 'l::len word layout \<Rightarrow> nat \<Rightarrow> (PartyID \<Rightarrow> bytes) \<Rightarrow> PartyID \<Rightarrow> nat \<Rightarrow> nat \<Rightarrow>
   'f BackingStore \<Rightarrow> 'l word BackingStore \<Rightarrow> nat \<Rightarrow> fs \<Rightarrow> bool" where
  "cache_filled R L G fb s i c req A B q fs \<longleftrightarrow>
     (\<exists>v. holds L fs A v \<and> length v = req * LENGTH('l) \<and> take (q * LENGTH('l)) v = alphas_at R fb TYPE('l) s i c q) \<and>
     (i = ID0 \<longrightarrow> (\<exists>g. holds G fs B g \<and> length g = req \<and> take q g = gammas_at R fb s ID0 c q))"

lemma write_chunk:
  fixes d :: "('l::len word, 'f::comm_ring_1) LazyEdaBits"
  assumes seek: "lawful_seek R S" and ok: "party_ok R L G fb s num c i fs0 d" and i: "i \<noteq> ID2" and req: "c + req \<le> num"
    and A: "store_writer A = Some wa" and B: "i = ID0 \<Longrightarrow> store_writer B = Some wb" "i = ID1 \<Longrightarrow> store_writer B = None"
    and apart: "stores_apart A B" and off: "off + len \<le> req" "len = min (req - off) chunk"
    and filled: "cache_filled R L G fb s i c req A B off fs"
  shows "\<exists>fs'. precache_write_chunk R S L G d wa (store_writer B) req chunk off fs = Inr fs' \<and>
    cache_filled R L G fb s i c req A B (off + len) fs' \<and>
    (\<forall>p. p \<noteq> writer_file wa \<longrightarrow> (i = ID0 \<longrightarrow> p \<noteq> writer_file wb) \<longrightarrow> fs' p = fs p)"
proof -
  let ?K = "LENGTH('l)" and ?T = "TYPE('l)"
  note D = party_okD[OF ok]
  have "(c + off + len) * eb_stride ?T fb < 2 ^ 64" by (rule le_less_trans[OF mult_le_mono1 D(9)]) (use req off in simp)
  from generate_range[OF seek D(8) i this, of 0 "zero_scratch len" s]
  have gen: "edabits_generate_into R S d (eb_cursor d + off) len (zero_scratch len) 0 =
      Inr \<lparr>eb_gammas = gammas_at R fb s i (c + off) len, eb_alphas_flat = alphas_at R fb ?T s i (c + off) len\<rparr>"
    by (simp add: edabits_generate_into_def D zero_scratch_def)
  obtain v where v: "holds L fs A v" "length v = req * ?K" "take (off * ?K) v = alphas_at R fb ?T s i c off"
    using filled by (auto simp: cache_filled_def)
  have "off * ?K + length (alphas_at R fb ?T s i (c + off) len :: 'f list) \<le> length v"
    using mult_le_mono1[OF off(1), of ?K] v(2) by (simp add: add_mult_distrib)
  from writer_appends[OF v(1) A v(3) this]
  obtain fs1 v1 where w1: "writer_write_at L fs wa (off * ?K) (alphas_at R fb ?T s i (c + off) len) = Inr fs1"
      and v1: "holds L fs1 A v1" "length v1 = req * ?K" "take ((off + len) * ?K) v1 = alphas_at R fb ?T s i c (off + len)"
      and o1: "\<And>q. q \<noteq> writer_file wa \<Longrightarrow> fs1 q = fs q"
    by (auto simp: v(2) alphas_at_append add_mult_distrib)
  show ?thesis
  proof (cases "i = ID0")
    case False
    then have "store_writer B = None" using B(2) i by (cases i) auto
    with False v1 o1 show ?thesis
      by (intro exI[of _ fs1]) (auto simp: precache_write_chunk_def Let_def gen w1 cache_filled_def off(2)[symmetric])
  next
    case True
    note wb = B(1)[OF True]
    obtain g where g: "holds G fs B g" "length g = req" "take off g = gammas_at R fb s ID0 c off"
      using filled True by (auto simp: cache_filled_def)
    obtain p n o' p' n' o'' where AB: "A = FileBacked p n o'" "B = FileBacked p' n' o''" "wa = FileBackedWriter p n" "wb = FileBackedWriter p' n'"
      using A wb by (auto simp: store_writer_def split: BackingStore.splits)
    have pp: "p \<noteq> p'" using apart by (auto simp: stores_apart_def AB)
    have g1: "holds G fs1 B g" using g(1) o1[of p'] pp by (simp add: holds_def AB)
    have "off + length (gammas_at R fb s ID0 (c + off) len :: 'l word list) \<le> length g" using off(1) g(2) by simp
    from writer_appends[OF g1 wb g(3) this]
    obtain fs2 g2 where w2: "writer_write_at G fs1 wb off (gammas_at R fb s ID0 (c + off) len) = Inr fs2"
        and g2: "holds G fs2 B g2" "length g2 = req" "take (off + len) g2 = gammas_at R fb s ID0 c (off + len)"
        and o2: "\<And>q. q \<noteq> writer_file wb \<Longrightarrow> fs2 q = fs1 q"
      by (auto simp: g(2) gammas_at_append)
    have "holds L fs2 A v1" using v1(1) o2[of p] pp by (simp add: holds_def AB)
    with v1 g2 True o1 o2 show ?thesis
      by (intro exI[of _ fs2]) (auto simp: precache_write_chunk_def Let_def gen w1[unfolded True] w2 wb cache_filled_def off(2)[symmetric])
  qed
qed

lemma write_chunks:
  fixes d :: "('l::len word, 'f::comm_ring_1) LazyEdaBits"
  assumes seek: "lawful_seek R S" and ok: "party_ok R L G fb s num c i fs0 d" and i: "i \<noteq> ID2" and req: "c + req \<le> num"
    and A: "store_writer A = Some wa" and B: "i = ID0 \<Longrightarrow> store_writer B = Some wb" "i = ID1 \<Longrightarrow> store_writer B = None"
    and apart: "stores_apart A B" and chunk: "0 < chunk"
    and filled: "cache_filled R L G fb s i c req A B 0 fs"
  shows "\<exists>fs'. rfold (precache_write_chunk R S L G d wa (store_writer B) req chunk) (step_by req chunk) fs = Inr fs' \<and>
    cache_filled R L G fb s i c req A B req fs' \<and>
    (\<forall>p. p \<noteq> writer_file wa \<longrightarrow> (i = ID0 \<longrightarrow> p \<noteq> writer_file wb) \<longrightarrow> fs' p = fs p)"
proof -
  let ?m = "(req + chunk - 1) div chunk"
  have below: "j * chunk < req" if "j < ?m" for j
  proof -
    have "Suc j * chunk \<le> ?m * chunk" using that by (intro mult_le_mono1) simp
    also have "\<dots> \<le> req + chunk - 1" by (rule div_times_less_eq_dividend)
    finally show ?thesis using chunk by simp
  qed
  have above: "req \<le> ?m * chunk"
  proof -
    have "req + chunk - 1 < (?m + 1) * chunk" using chunk dividend_less_div_times[of chunk "req + chunk - 1"] by simp
    then show ?thesis using chunk by simp
  qed
  have "\<exists>fs'. rfold (precache_write_chunk R S L G d wa (store_writer B) req chunk) (map (\<lambda>j. j * chunk) [0..<n]) fs = Inr fs' \<and>
    cache_filled R L G fb s i c req A B (min (n * chunk) req) fs' \<and>
    (\<forall>p. p \<noteq> writer_file wa \<longrightarrow> (i = ID0 \<longrightarrow> p \<noteq> writer_file wb) \<longrightarrow> fs' p = fs p)" if "n \<le> ?m" for n
    using that
  proof (induction n)
    case 0
    then show ?case using filled by simp
  next
    case (Suc n)
    then obtain fs1 where fs1: "rfold (precache_write_chunk R S L G d wa (store_writer B) req chunk) (map (\<lambda>j. j * chunk) [0..<n]) fs = Inr fs1"
        "cache_filled R L G fb s i c req A B (n * chunk) fs1"
        "\<And>p. p \<noteq> writer_file wa \<Longrightarrow> (i = ID0 \<longrightarrow> p \<noteq> writer_file wb) \<Longrightarrow> fs1 p = fs p"
      using below[of n] by (auto simp: min_def)
    have lt: "n * chunk < req" using below[of n] Suc.prems by simp
    then have len: "n * chunk + min (req - n * chunk) chunk \<le> req" "n * chunk + min (req - n * chunk) chunk = min (Suc n * chunk) req"
      by auto
    from write_chunk[OF seek ok i req A B apart len(1) refl fs1(2)]
    obtain fs2 where "precache_write_chunk R S L G d wa (store_writer B) req chunk (n * chunk) fs1 = Inr fs2"
        "cache_filled R L G fb s i c req A B (min (Suc n * chunk) req) fs2"
        "\<And>p. p \<noteq> writer_file wa \<Longrightarrow> (i = ID0 \<longrightarrow> p \<noteq> writer_file wb) \<Longrightarrow> fs2 p = fs1 p"
      unfolding len(2) by auto
    with fs1 show ?case by (intro exI[of _ fs2]) (simp add: rfold_snoc del: upt_Suc mult_Suc add: upt_Suc_append)
  qed
  from this[OF le_refl] above show ?thesis by (simp add: step_by_def min_absorb2)
qed

text \<open>The paths of a pool in one directory differ.\<close>

lemma edabits_paths:
  "edabits_path (T :: 'l::len itself) dir a = edabits_path T dir b \<longleftrightarrow> a = b"
  by (simp add: edabits_path_def)

lemmas precache_paths = precache_alpha_path_def precache_gamma_path_def precache_meta_path_def authoritative_alpha_path_def edabits_paths

definition meta_in :: "'l::len itself \<Rightarrow> string \<Rightarrow> string option \<Rightarrow> bool" where
  "meta_in T dir meta \<longleftrightarrow> (case meta of None \<Rightarrow> True | Some p \<Rightarrow> p = edabits_path T dir ''.meta'')"

definition in_dir :: "string \<Rightarrow> ('l::len word, 'f) LazyEdaBits \<Rightarrow> bool" where
  "in_dir dir d \<longleftrightarrow> (\<forall>p n off. (eb_alphas d = FileBacked p n off \<longrightarrow> p = precache_alpha_path TYPE('l) dir) \<and>
     (eb_gamma_store d = FileBacked p n off \<longrightarrow> p = precache_gamma_path TYPE('l) dir))"

text \<open>The header of the cache round-trips.\<close>

lemma read_precache_meta_bytes:
  assumes "length (pm_seed1 m) = SEED_SIZE" "length (pm_seed2 m) = SEED_SIZE"
    and "pm_field_bytes m < 2 ^ 64" "pm_total m < 2 ^ 64" "pm_start_cursor m < 2 ^ 64" "pm_len m < 2 ^ 64"
    and "fs path = Some (precache_meta_bytes m)"
  shows "read_precache_meta fs path = Inr m"
proof -
  have u: "unat (of_nat n :: 64 word) = n" if "n < 2 ^ 64" for n
    using that by (simp add: unat_of_nat take_bit_nat_eq_self unsigned_of_nat)
  have "read_exact (Suc 0) [b] = Inr ([b], [])" for b by (simp add: read_exact_def)
  then show ?thesis
    unfolding read_precache_meta_def assms(7) precache_meta_bytes_def
    by (simp add: read_exact_append[OF assms(1)] read_exact_append[OF assms(2)] ring_read_write u[OF assms(3)] u[OF assms(4)]
        u[OF assms(5)] u[OF assms(6)])
qed

text \<open>A cache on disk that belongs to the pool starts at or before the cursor; if it starts at the
  cursor it holds the tuples from there on.\<close>

definition disk_cache_ok ::
  "(bytes, 'r) rng_ops \<Rightarrow> 'f::comm_ring_1 layout \<Rightarrow> 'l::len word layout \<Rightarrow> nat \<Rightarrow> (PartyID \<Rightarrow> bytes) \<Rightarrow> nat \<Rightarrow> string \<Rightarrow> fs \<Rightarrow>
   ('l word, 'f) LazyEdaBits \<Rightarrow> bool" where
  "disk_cache_ok R L G fb s num dir fs d \<longleftrightarrow>
     (\<forall>m. read_precache_meta fs (precache_meta_path TYPE('l) dir) = Inr m \<and> precache_meta_matches d m (pm_len m) (pm_start_cursor m) \<longrightarrow>
        pm_start_cursor m \<le> eb_cursor d \<and> (pm_start_cursor m = eb_cursor d \<longrightarrow>
        eb_cursor d + pm_len m \<le> num \<and>
        (\<exists>as. fs (precache_alpha_path TYPE('l) dir) = Some (raw_vec L as) \<and> length as = pm_len m * LENGTH('l) \<and>
          holds_alphas R fb TYPE('l) s (eb_party_id d) (eb_cursor d) (eb_cursor d) (eb_cursor d + pm_len m) as) \<and>
        (eb_party_id d = ID0 \<longrightarrow> (\<exists>gs. fs (precache_gamma_path TYPE('l) dir) = Some (raw_vec G gs) \<and>
          holds_gammas R fb s (eb_cursor d) (eb_cursor d) (eb_cursor d + pm_len m) gs))))"

text \<open>The invariant of a pool that is kept in the directory \<open>dir\<close>.\<close>

definition pool_ok ::
  "(bytes, 'r) rng_ops \<Rightarrow> 'f::comm_ring_1 layout \<Rightarrow> 'l::len word layout \<Rightarrow> nat \<Rightarrow> (PartyID \<Rightarrow> bytes) \<Rightarrow> nat \<Rightarrow> string \<Rightarrow> nat \<Rightarrow> PartyID \<Rightarrow>
   fs \<Rightarrow> ('l word, 'f) LazyEdaBits \<Rightarrow> bool" where
  "pool_ok R L G fb s num dir c i fs d \<longleftrightarrow> party_ok R L G fb s num c i fs d \<and> meta_in TYPE('l) dir (eb_meta_path d) \<and>
     (i \<noteq> ID2 \<longrightarrow> in_dir dir d \<and> disk_cache_ok R L G fb s num dir fs d)"

lemma disk_cache_removed: "fs (precache_meta_path TYPE('l) dir) = None \<Longrightarrow>
    disk_cache_ok R L G fb s num dir fs (d :: ('l::len word, 'f::comm_ring_1) LazyEdaBits)"
  by (simp add: disk_cache_ok_def read_precache_meta_def)

lemma clear_precache_ok:
  fixes d :: "('l::len word, 'f::comm_ring_1) LazyEdaBits"
  assumes "pool_ok R L G fb s num dir c i fs d"
  shows "\<exists>d' fs'. clear_precache_files fs d dir = (d', fs') \<and> pool_ok R L G fb s num dir c i fs' d'"
proof (cases "i = ID2")
  case True
  then show ?thesis using assms party_okD(2) unfolding pool_ok_def by (fastforce simp: clear_precache_files_def)
next
  case False
  let ?d = "clear_precache_runtime d"
  have ok: "party_ok R L G fb s num c i fs d" and meta: "meta_in TYPE('l) dir (eb_meta_path d)" using assms by (simp_all add: pool_ok_def)
  from ok False have "party_ok R L G fb s num c i fs' ?d" for fs'
    by (simp add: party_ok_def clear_precache_runtime_def extension_seeds_def pool_files_apart_def files_apart_def stores_apart_def cache_ok_def)
  moreover have "meta_in TYPE('l) dir (eb_meta_path ?d)" "in_dir dir ?d"
    using meta False party_okD(2)[OF ok] by (simp_all add: clear_precache_runtime_def in_dir_def)
  ultimately show ?thesis using False party_okD(2)[OF ok]
    by (auto simp: clear_precache_files_def Let_def pool_ok_def remove_file_if_exists_def intro!: disk_cache_removed)
qed

lemma cache_ok_fresh:
  fixes d :: "('l::len word, 'f::comm_ring_1) LazyEdaBits"
  assumes "eb_mode d = P01Precache (eb_cursor d) n" "eb_cursor d + n \<le> num"
    and "holds L fs (eb_alphas d) (alphas_at R fb TYPE('l) s (eb_party_id d) (eb_cursor d) n)"
    and "eb_party_id d = ID0 \<Longrightarrow> holds G fs (eb_gamma_store d) (gammas_at R fb s ID0 (eb_cursor d) n)"
  shows "cache_ok R L G fb s num fs d"
  using assms at_holds by (fastforce simp: cache_ok_def)

text \<open>Writing the cache: the files hold the next \<open>req\<close> tuples, the header describes them.\<close>

lemma prepare_precache_fresh:
  fixes d :: "('l::len word, 'f::comm_ring_1) LazyEdaBits"
  defines "A \<equiv> precache_alpha_path TYPE('l)" and "B \<equiv> precache_gamma_path TYPE('l)" and "M \<equiv> precache_meta_path TYPE('l)"
  assumes seek: "lawful_seek R S" and L: "lawful_layout L" and G: "lawful_layout G" and ok: "party_ok R L G fb s num c i fs d"
    and req: "c + req \<le> num" "0 < req" and i: "i \<noteq> ID2" and fresh: "\<not> has_matching_precache d req"
  shows "\<exists>fs'. prepare_precache R S L G fs d dir req = Inr (d\<lparr>eb_alphas := FileBacked (A dir) (req * LENGTH('l)) 0,
        eb_gamma_store := (if i = ID0 then FileBacked (B dir) req 0 else Empty), eb_mode := P01Precache c req\<rparr>, fs') \<and>
      fs' (M dir) = Some (precache_meta_bytes (current_precache_meta d c req)) \<and>
      fs' (A dir) = Some (raw_vec L (alphas_at R fb TYPE('l) s i c req)) \<and>
      (i = ID0 \<longrightarrow> fs' (B dir) = Some (raw_vec G (gammas_at R fb s ID0 c req)))"
proof -
  let ?T = "TYPE('l)" and ?K = "LENGTH('l)" and ?A = "A dir" and ?B = "B dir" and ?M = "M dir"
  note D = party_okD[OF ok]
  let ?st1 = "FileBacked ?A (req * ?K) 0 :: 'f BackingStore" and ?st2 = "if i = ID0 then FileBacked ?B req 0 else Empty :: 'l word BackingStore"
  define fs1 where "fs1 = fst (create_file_backed_sized L fs ?A (req * ?K))"
  define fs2 where "fs2 = (if i = ID0 then fst (create_file_backed_sized G fs1 ?B req) else remove_file_if_exists fs1 ?B)"
  define chunk where "chunk = precache_chunk_len L ?T req"
  have chunk: "0 < chunk" using req by (simp add: chunk_def precache_chunk_len_def)
  have AB: "?A \<noteq> ?B" "?M \<noteq> ?A" "?M \<noteq> ?B" by (simp_all add: A_def B_def M_def precache_paths)
  have cr1: "create_file_backed_sized L fs ?A (req * ?K) = (fs1, ?st1)" by (simp add: fs1_def create_file_backed_sized_def)
  have cr2: "(if i = ID0 then create_file_backed_sized G fs1 ?B req else (remove_file_if_exists fs1 ?B, Empty)) = (fs2, ?st2)"
    by (simp add: fs2_def create_file_backed_sized_def)
  obtain v where v: "length v = req * ?K" "holds L fs1 ?st1 v" using create_sized_holds[OF L] cr1 by (metis fst_conv snd_conv)
  have v2: "holds L fs2 ?st1 v" using v(2) AB(1) by (simp add: holds_def fs2_def remove_file_if_exists_def create_file_backed_sized_def)
  have g: "\<exists>g. holds G fs2 ?st2 g \<and> length g = req" if "i = ID0"
    using create_sized_holds[OF G, of req fs1 ?B] that by (auto simp: fs2_def create_file_backed_sized_def)
  have "cache_filled R L G fb s i c req ?st1 ?st2 0 fs2"
    using v(1) v2 g by (auto simp: cache_filled_def alphas_at_def gammas_at_def)
  moreover have wr1: "store_writer ?st1 = Some (FileBackedWriter ?A (req * ?K))" by (simp add: store_writer_def)
  moreover have "i = ID0 \<Longrightarrow> store_writer ?st2 = Some (FileBackedWriter ?B req)" "i = ID1 \<Longrightarrow> store_writer ?st2 = None" "stores_apart ?st1 ?st2"
    using AB(1) by (simp_all add: store_writer_def stores_apart_def)
  ultimately obtain fs3 where fs3: "rfold (precache_write_chunk R S L G d (FileBackedWriter ?A (req * ?K)) (store_writer ?st2) req chunk) (step_by req chunk) fs2 = Inr fs3"
      "cache_filled R L G fb s i c req ?st1 ?st2 req fs3"
    using write_chunks[OF seek ok i req(1) _ _ _ _ chunk] by blast
  let ?fs = "write_precache_meta fs3 ?M (current_precache_meta d c req)"
  have rem: "\<not> num - c < req" "num - c \<noteq> 0" "edabits_remaining d = num - c" using req D by (simp_all add: edabits_remaining_def)
  with i req(2) fresh D(2,4) fs3(1) have run: "prepare_precache R S L G fs d dir req = Inr (d\<lparr>eb_alphas := ?st1, eb_gamma_store := ?st2, eb_mode := P01Precache c req\<rparr>, ?fs)"
    by (simp add: prepare_precache_def rem Let_def A_def[symmetric] B_def[symmetric] M_def[symmetric] chunk_def[symmetric] cr1 cr2 wr1)
  have "fs3 ?A = Some (raw_vec L (alphas_at R fb ?T s i c req))" "i = ID0 \<Longrightarrow> fs3 ?B = Some (raw_vec G (gammas_at R fb s ID0 c req))"
    using fs3(2) by (auto simp: cache_filled_def holds_def)
  with run AB show ?thesis by (simp add: write_precache_meta_def)
qed

lemma current_meta_read:
  fixes d :: "('l::len word, 'f::comm_ring_1) LazyEdaBits"
  assumes "party_ok R L G fb s num c i fs d" "\<And>i. length (s i) = SEED_SIZE" "fb < 2 ^ 32" "c' < 2 ^ 64" "n < 2 ^ 64" "num < 2 ^ 64"
    and "fs' p = Some (precache_meta_bytes (current_precache_meta d c' n))"
  shows "read_precache_meta fs' p = Inr (current_precache_meta d c' n)"
  by (rule read_precache_meta_bytes[where fs = fs', OF _ _ _ _ _ _ assms(7)])
    (use party_okD(1-5)[OF assms(1)] assms(2-6) in \<open>simp_all add: current_precache_meta_def extension_seeds_def\<close>)

lemma prepare_precache_ok:
  fixes d :: "('l::len word, 'f::comm_ring_1) LazyEdaBits"
  assumes seek: "lawful_seek R S" and L: "lawful_layout L" and G: "lawful_layout G" and seeds: "\<And>i. length (s i) = SEED_SIZE"
    and fb: "fb < 2 ^ 32" and pool: "pool_ok R L G fb s num dir c i fs d" and req: "i = ID2 \<or> c = num \<or> req = 0 \<or> c + req \<le> num"
  shows "\<exists>d' fs'. prepare_precache R S L G fs d dir req = Inr (d', fs') \<and> pool_ok R L G fb s num dir c i fs' d'"
proof -
  let ?T = "TYPE('l)" and ?K = "LENGTH('l)"
  have ok: "party_ok R L G fb s num c i fs d" and meta: "meta_in ?T dir (eb_meta_path d)" using pool by (simp_all add: pool_ok_def)
  note D = party_okD[OF ok]
  have rem: "edabits_remaining d = num - c" by (simp add: edabits_remaining_def D)
  have nb: "num < 2 ^ 64" by (rule party_num_bound[OF ok])
  consider "i = ID2 \<or> req = 0 \<or> c = num" | "i \<noteq> ID2" "0 < req" "c + req \<le> num" "has_matching_precache d req"
    | "i \<noteq> ID2" "0 < req" "c + req \<le> num" "\<not> has_matching_precache d req"
    using req by blast
  then show ?thesis
  proof cases
    case 1
    then have "prepare_precache R S L G fs d dir req = Inr (clear_precache_files fs d dir)" using D(2) rem by (auto simp: prepare_precache_def)
    then show ?thesis using clear_precache_ok[OF pool] by auto
  next
    case 2
    with pool D(2) show ?thesis by (intro exI[of _ d] exI[of _ fs]) (auto simp: prepare_precache_def rem)
  next
    case 3
    let ?d = "d\<lparr>eb_alphas := FileBacked (precache_alpha_path ?T dir) (req * ?K) 0,
        eb_gamma_store := (if i = ID0 then FileBacked (precache_gamma_path ?T dir) req 0 else Empty), eb_mode := P01Precache c req\<rparr>"
    from prepare_precache_fresh[OF seek L G ok 3(3,2,1,4)]
    obtain fs' where run: "prepare_precache R S L G fs d dir req = Inr (?d, fs')"
        "fs' (precache_meta_path ?T dir) = Some (precache_meta_bytes (current_precache_meta d c req))"
        "fs' (precache_alpha_path ?T dir) = Some (raw_vec L (alphas_at R fb ?T s i c req))"
        "i = ID0 \<Longrightarrow> fs' (precache_gamma_path ?T dir) = Some (raw_vec G (gammas_at R fb s ID0 c req))" by blast
    have "cache_ok R L G fb s num fs' ?d"
      using run(3,4) L G 3(3) D(2,4) by (intro cache_ok_fresh) (auto simp: holds_def)
    moreover have "pool_files_apart ?d"
      using meta by (auto simp: pool_files_apart_def files_apart_def stores_apart_def precache_paths meta_in_def)
    ultimately have "party_ok R L G fb s num c i fs' ?d" using D 3(1) by (simp add: party_ok_def extension_seeds_def)
    moreover have "read_precache_meta fs' (precache_meta_path ?T dir) = Inr (current_precache_meta d c req)"
      by (rule current_meta_read[where fs' = fs', OF ok seeds fb _ _ nb run(2)]) (use 3(3) nb in simp_all)
    then have "disk_cache_ok R L G fb s num dir fs' ?d"
      using run(3,4) at_holds(1)[of R fb ?T s i c req] at_holds(2)[of R fb s c req] 3(3) D(2,4)
      by (auto simp: disk_cache_ok_def current_precache_meta_def)
    ultimately have "pool_ok R L G fb s num dir c i fs' ?d" using meta by (simp add: pool_ok_def in_dir_def)
    with run(1) show ?thesis by blast
  qed
qed

subsection \<open>Views of a reserved range\<close>

lemma usize_sub_le: "b \<le> a \<Longrightarrow> a < 2 ^ 64 \<Longrightarrow> usize_sub a b = a - b"
proof -
  assume ba: "b \<le> a" "a < 2 ^ 64"
  have "unat (of_nat a :: 64 word) = a" "unat (of_nat b :: 64 word) = b" using ba by (simp_all add: unat_of_nat take_bit_nat_eq_self unsigned_of_nat)
  then show ?thesis using ba by (simp add: usize_sub_def unat_sub word_le_nat_alt)
qed

lemma usize_sub_wraps:
  assumes "a < b" "b < 2 ^ 64"
  shows "usize_sub a b = 2 ^ 64 - (b - a)"
proof -
  let ?a = "of_nat a :: 64 word" and ?b = "of_nat b :: 64 word"
  have u: "unat ?a = a" "unat ?b = b" using assms by (simp_all add: unat_of_nat take_bit_nat_eq_self unsigned_of_nat)
  have "unat (?a - ?b) + unat ?b = unat ?a + (if ?b \<le> ?a then 0 else 2 ^ LENGTH(64))" by (rule unat_diff_add)
  then have "unat (?a - ?b) + b = a + 2 ^ 64" using assms by (simp add: u word_le_nat_alt)
  then show ?thesis using assms by (simp add: usize_sub_def)
qed

text \<open>Filling from a cache that covers the first \<open>m\<close> tuples of the view.\<close>

lemma fill_view_cached:
  fixes v :: "('l::len word, 'f::comm_ring_1) EdaBitsRangeView"
  assumes seek: "lawful_seek R S" and fb: "16 \<le> fb" and bound: "(b + n) * eb_stride TYPE('l) fb < 2 ^ 64"
    and v: "rv_start_cursor v = b" "rv_len v = n" "rv_party_id v = i" "rv_field_bytes v = fb"
      "rv_seeds v = (s i, 0, s (prev_id i), 0)" "rv_store_start_cursor v = st" "st \<le> b"
    and m: "cached_items v = m" "m \<le> n" "i = ID2 \<Longrightarrow> m = n"
    and alphas: "0 < m \<Longrightarrow> \<exists>w as. rv_alpha_view v = Some (read_view w) \<and> holds L fs w as \<and> holds_alphas R fb TYPE('l) s i st b (b + m) as"
    and gammas: "0 < m \<Longrightarrow> i = ID0 \<Longrightarrow> \<exists>w gs. rv_gamma_view v = Some (read_view w) \<and> holds G fs w gs \<and> holds_gammas R fb s st b (b + m) gs"
  shows "fill_into_par_safe R S L G fs v = Inr (batch_at R fb s i b n)"
proof -
  let ?K = "LENGTH('l)" and ?T = "TYPE('l)"
  let ?s = "\<lparr>eb_gammas = gammas_at R fb s i b m @ replicate (n - m) 0,
      eb_alphas_flat = alphas_at R fb ?T s i b m @ replicate ((n - m) * ?K) 0\<rparr> :: ('l word, 'f) EdaBitsBatch"
  have cached: "(if m > 0 then fill_from_cache L G fs v m (zero_scratch n) else Inr (zero_scratch n)) = Inr ?s"
  proof (cases "m = 0")
    case True
    then show ?thesis by (simp add: zero_scratch_def gammas_at_def alphas_at_def)
  next
    case False
    then obtain w as where w: "rv_alpha_view v = Some (read_view w)" "holds L fs w as" "holds_alphas R fb ?T s i st b (b + m) as"
      using alphas by blast
    note sl = holds_alphas_slice[OF w(3) v(7) le_refl]
    have ra: "read_into_slice L fs (read_view w) ((b - st) * ?K) ((b - st) * ?K + m * ?K) (m * ?K) = Inr (alphas_at R fb ?T s i b m)"
      using read_slices(2)[OF w(2) le_add1 sl(1), of "m * ?K"] sl(2) by simp
    have "(if i = ID0 then (case rv_gamma_view v of None \<Rightarrow> Inl UnexpectedEof
          | Some w \<Rightarrow> read_into_slice G fs w (b - st) (b - st + m) m) else Inr (replicate m 0)) = Inr (gammas_at R fb s i b m :: 'l word list)"
    proof (cases "i = ID0")
      case True
      then obtain w gs where g: "rv_gamma_view v = Some (read_view w)" "holds G fs w gs" "holds_gammas R fb s st b (b + m) gs"
        using gammas False by blast
      note gsl = holds_gammas_slice[OF g(3) v(7) le_refl]
      show ?thesis using read_slices(2)[OF g(2) le_add1 gsl(1), of m] gsl(2) True g(1) by simp
    qed (simp add: gammas_at_def map_replicate_const)
    with False m(2) show ?thesis
      by (simp add: fill_from_cache_def v w(1) ra Let_def splice_def zero_scratch_def diff_mult_distrib[symmetric])
  qed
  have "(b + m + (n - m)) * eb_stride ?T fb < 2 ^ 64" using bound m(2) by simp
  from generate_range[OF seek fb _ this, of i m ?s s]
  have "i \<noteq> ID2 \<Longrightarrow> generate_into_from_state R S (s i, 0, s (prev_id i), 0) fb i (b + m) (n - m) ?s m = Inr (batch_at R fb s i b n)"
    using m(2) gammas_at_append[of R fb s i b m "n - m"] alphas_at_append[of R fb ?T s i b m "n - m"]
    by (simp add: batch_at_def diff_mult_distrib add_mult_distrib)
  moreover have "m = n \<Longrightarrow> ?s = batch_at R fb s i b n" by (simp add: batch_at_def)
  moreover have "n = 0 \<Longrightarrow> zero_scratch n = batch_at R fb s i b n" by (simp add: batch_at_def zero_scratch_def gammas_at_def alphas_at_def)
  ultimately show ?thesis using cached m v
    by (auto simp: fill_into_par_safe_def Let_def)
qed

text \<open>Where the cache of parties 0 and 1 ends.\<close>

definition cache_end :: "('e, 'f) LazyEdaBits \<Rightarrow> nat option" where
  "cache_end d = (case eb_mode d of P01Precache st len \<Rightarrow> if len = 0 then None else Some (st + len) | _ \<Rightarrow> None)"

lemma reserve_fill:
  fixes d :: "('l::len word, 'f::comm_ring_1) LazyEdaBits"
  assumes seek: "lawful_seek R S" and ok: "party_ok R L G fb s num c i fs d" and n: "c + n \<le> num"
    and sub: "start + len \<le> n" and cend: "\<And>e. cache_end d = Some e \<Longrightarrow> c + start \<le> e"
  shows "\<exists>r. reserve_range d n = Inr r \<and> fill_into_par_safe R S L G fs (range_view r start len) = Inr (batch_at R fb s i (c + start) len)"
proof -
  note D = party_okD[OF ok]
  let ?T = "TYPE('l)" and ?K = "LENGTH('l)"
  have nb: "num < 2 ^ 64" by (rule party_num_bound[OF ok])
  have bound: "(c + start + len) * eb_stride ?T fb < 2 ^ 64" by (rule le_less_trans[OF mult_le_mono1 D(9)]) (use n sub in simp)
  obtain r where r: "reserve_range d n = Inr r" using D(3,4) n by (simp add: reserve_range_def Let_def split_beta)
  let ?v = "range_view r start len"
  have base: "rv_start_cursor ?v = c + start" "rv_len ?v = len" "rv_party_id ?v = i" "rv_field_bytes ?v = fb"
      "rv_seeds ?v = (s i, 0, s (prev_id i), 0)"
    using r D(1-5) n by (auto simp: reserve_range_def Let_def split_beta range_view_def)
  have "fill_into_par_safe R S L G fs ?v = Inr (batch_at R fb s i (c + start) len)"
  proof (cases "len = 0")
    case True
    then show ?thesis using base(2)
      by (simp add: fill_into_par_safe_def batch_at_def zero_scratch_def gammas_at_def alphas_at_def)
  next
    case False
    then have pos: "0 < num" using sub n by simp
    show ?thesis
    proof (cases "eb_mode d")
      case NoStorage
      then have "i \<noteq> ID2" using D(10) pos by (auto simp: authoritative_ok_def)
      moreover have "cached_items ?v = 0" "rv_store_start_cursor ?v = 0"
        using r D(3,4) n NoStorage by (auto simp: reserve_range_def range_view_def cached_items_def Let_def)
      ultimately show ?thesis by (intro fill_view_cached[OF seek D(8) bound base, of 0 0]) simp_all
    next
      case P2Authoritative
      then have i: "i = ID2" using D(11) by (auto simp: cache_ok_def)
      have A: "store_ok L fs (eb_alphas d)" "holds_alphas R fb ?T s ID2 0 c num (store_elems L fs (eb_alphas d))"
        using D(10)[OF i] D(4) by (simp_all add: authoritative_ok_def)
      have v: "rv_store_start_cursor ?v = 0" "rv_alpha_view ?v = Some (read_view (eb_alphas d))"
          "rv_cached_start_cursor ?v = c" "rv_cached_len ?v = n"
        using r D(3,4) n P2Authoritative by (auto simp: reserve_range_def range_view_def Let_def)
      have "usize_sub (c + n) (c + start) = n - start" using nb n sub by (simp add: usize_sub_le)
      then have m: "cached_items ?v = len" using sub False base by (auto simp: cached_items_def v)
      have "holds_alphas R fb ?T s ID2 0 (c + start) (c + start + len) (store_elems L fs (eb_alphas d))"
        by (rule holds_restrict(1)[OF A(2)]) (use n sub in auto)
      with store_ok_holds[OF A(1)] i v show ?thesis
        by (intro fill_view_cached[OF seek D(8) bound base v(1) _ m]) auto
    next
      case (P01Precache st ln)
      then have i: "i \<noteq> ID2" using D(10) pos by (auto simp: authoritative_ok_def)
      from D(11)[OF i] D(2,4) obtain as where st: "st \<le> c" "st + ln \<le> num" and as: "holds L fs (eb_alphas d) as"
          "holds_alphas R fb ?T s i st c (st + ln) as" "length as = ln * ?K"
        and g: "i = ID0 \<Longrightarrow> \<exists>gs. holds G fs (eb_gamma_store d) gs \<and> holds_gammas R fb s st c (st + ln) gs"
        by (auto simp: cache_ok_def P01Precache)
      define cached where "cached = (if c < st \<or> c \<ge> st + ln then 0 else min (st + ln - c) n)"
      have v: "rv_store_start_cursor ?v = st" "rv_cached_start_cursor ?v = st" "rv_cached_len ?v = ln"
          "rv_alpha_view ?v = (if cached > 0 then Some (read_view (eb_alphas d)) else None)"
          "rv_gamma_view ?v = (if cached > 0 \<and> i = ID0 then Some (read_view (eb_gamma_store d)) else None)"
        using r D(2,3,4) n P01Precache by (auto simp: reserve_range_def range_view_def Let_def cached_def)
      have "ln \<noteq> 0 \<Longrightarrow> c + start \<le> st + ln" using cend P01Precache by (simp add: cache_end_def)
      then have "ln \<noteq> 0 \<Longrightarrow> usize_sub (st + ln) (c + start) = st + ln - (c + start)" using nb st(2) by (intro usize_sub_le) auto
      then have m: "cached_items ?v = (if ln = 0 then 0 else min (st + ln - (c + start)) len)"
        using st(1) base by (simp add: cached_items_def v)
      let ?m = "if ln = 0 then 0 else min (st + ln - (c + start)) len"
      have mpos: "0 < cached" "c + start + ?m \<le> st + ln" if "0 < ?m" using that st(1) sub by (auto simp: cached_def split: if_splits)
      have al: "\<exists>w as. rv_alpha_view ?v = Some (read_view w) \<and> holds L fs w as \<and> holds_alphas R fb ?T s i st (c + start) (c + start + ?m) as" if "0 < ?m"
      proof -
        have "holds_alphas R fb ?T s i st (c + start) (c + start + ?m) as"
          by (rule holds_restrict(1)[OF as(2) le_add1 mpos(2)[OF that]])
        then show ?thesis using mpos(1)[OF that] as(1) by (intro exI[of _ "eb_alphas d"] exI[of _ as]) (simp add: v)
      qed
      have ga: "\<exists>w gs. rv_gamma_view ?v = Some (read_view w) \<and> holds G fs w gs \<and> holds_gammas R fb s st (c + start) (c + start + ?m) gs"
        if m0: "0 < ?m" "i = ID0"
      proof -
        obtain gs where gs: "holds G fs (eb_gamma_store d) gs" "holds_gammas R fb s st c (st + ln) gs" using g m0(2) by blast
        have "holds_gammas R fb s st (c + start) (c + start + ?m) gs"
          by (rule holds_restrict(2)[OF gs(2) le_add1 mpos(2)[OF m0(1)]])
        then show ?thesis using mpos(1)[OF m0(1)] gs(1) m0(2)
          by (intro exI[of _ "eb_gamma_store d"] exI[of _ gs]) (simp add: v)
      qed
      show ?thesis using st(1) i by (intro fill_view_cached[OF seek D(8) bound base v(1) _ m _ _ al ga]) auto
    qed
  qed
  with r show ?thesis by blast
qed

text \<open>A view that starts behind the end of the cache: the remaining length wraps around.\<close>

lemma fill_behind_cache:
  fixes d :: "('l::len word, 'f::comm_ring_1) LazyEdaBits"
  assumes ok: "party_ok R L G fb s num c i fs d" and i: "i \<noteq> ID2" and n: "c + n \<le> num"
    and sub: "start + len \<le> n" "0 < len" and mode: "eb_mode d = P01Precache st ln" "0 < ln" "st + ln < c + start"
  shows "\<exists>r x. reserve_range d n = Inr r \<and> fill_into_par_safe R S L G fs (range_view r start len) = Inl x"
proof -
  note D = party_okD[OF ok]
  let ?K = "LENGTH('l)"
  have nb: "num < 2 ^ 64" by (rule party_num_bound[OF ok])
  have st: "st \<le> c" "st + ln \<le> num" and exact: "store_len (eb_alphas d) = ln * ?K"
    using D(11)[OF i] D(4) holds_len[of L fs "eb_alphas d"] by (auto simp: cache_ok_def mode)
  obtain r where r: "reserve_range d n = Inr r" using D(3,4) n by (simp add: reserve_range_def Let_def split_beta)
  let ?v = "range_view r start len"
  define cached where "cached = (if c < st \<or> c \<ge> st + ln then 0 else min (st + ln - c) n)"
  have v: "rv_start_cursor ?v = c + start" "rv_len ?v = len" "rv_party_id ?v = i"
      "rv_store_start_cursor ?v = st" "rv_cached_start_cursor ?v = st" "rv_cached_len ?v = ln"
      "rv_alpha_view ?v = (if cached > 0 then Some (read_view (eb_alphas d)) else None)"
    using r D(2,3,4) n mode by (auto simp: reserve_range_def range_view_def Let_def cached_def)
  have "usize_sub (st + ln) (c + start) = 2 ^ 64 - (c + start - (st + ln))"
    using mode(3) nb n sub by (intro usize_sub_wraps) auto
  moreover have "len \<le> 2 ^ 64 - (c + start - (st + ln))" using nb n sub by auto
  ultimately have m: "cached_items ?v = len" using mode(2) st(1) by (simp add: cached_items_def v)
  have "\<exists>x. (case rv_alpha_view ?v of None \<Rightarrow> Inl UnexpectedEof
      | Some w \<Rightarrow> read_into_slice L fs w ((c + start - st) * ?K) ((c + start - st) * ?K + len * ?K) (len * ?K)) = Inl x"
  proof -
    have "ln * ?K < (ln + 1) * ?K" by simp
    also have "\<dots> \<le> (c + start - st + len) * ?K" using mode(3) sub(2) by (intro mult_le_mono1) simp
    finally have "store_len (eb_alphas d) < (c + start - st) * ?K + len * ?K" by (simp only: exact add_mult_distrib)
    then show ?thesis using sub(2)
      by (cases "eb_alphas d") (auto simp: v read_view_def read_into_slice_def view_validate_range_def store_len_def Let_def)
  qed
  then show ?thesis using r m sub(2)
    by (intro exI[of _ r]) (auto simp: fill_into_par_safe_def Let_def fill_from_cache_def v)
qed

text \<open>Finalising a reservation consumes what its views read.\<close>

lemma consume_keeps_alphas:
  fixes T :: "'l::len itself"
  assumes "holds L fs A as" "holds_alphas R fb T s i st c fin as" "st \<le> c" "c + m \<le> fin"
    and "a = (c - st) * LENGTH('l)" "b = a + m * LENGTH('l)"
  shows "\<exists>v. holds L (store_consume L fs A a b) A v \<and> length v = length as \<and> holds_alphas R fb T s i st (c + m) fin v"
proof -
  note sl = holds_alphas_slice[OF assms(2-4)]
  obtain fs' v where v: "take_store_range_into L fs A a b (m * LENGTH('l)) = Inr (take (m * LENGTH('l)) (drop a as), fs')"
      "holds L fs' A v" "length v = length as" "\<And>k. b \<le> k \<Longrightarrow> k < length as \<Longrightarrow> v ! k = as ! k"
    using take_store_range[OF assms(1) le_add1 sl(1), of "m * LENGTH('l)"] assms(5,6) by auto
  have "fs' = store_consume L fs A a b"
    using v(1) by (auto simp: take_store_range_into_def rbind_def split: sum.splits)
  moreover have "(c + m - st) * LENGTH('l) = b" using assms(3,5,6) by (simp add: add_mult_distrib[symmetric])
  then have "holds_alphas R fb T s i st (c + m) fin v"
    by (intro holds_alphas_mono[OF assms(2,3) v(3) assms(4)]) (simp only: v(4))
  ultimately show ?thesis using v(2,3) by blast
qed

lemma consume_keeps_gammas:
  assumes "holds G fs B gs" "holds_gammas R fb s st c fin gs" "st \<le> c" "c + m \<le> fin"
  shows "\<exists>v. holds G (store_consume G fs B (c - st) (c - st + m)) B v \<and> holds_gammas R fb s st (c + m) fin v"
proof -
  note sl = holds_gammas_slice[OF assms(2-4)]
  obtain fs' v where v: "take_store_range_into G fs B (c - st) (c - st + m) m = Inr (take m (drop (c - st) gs), fs')"
      "holds G fs' B v" "length v = length gs" "\<And>k. c - st + m \<le> k \<Longrightarrow> k < length gs \<Longrightarrow> v ! k = gs ! k"
    using take_store_range[OF assms(1) le_add1 sl(1), of m] by auto
  have "fs' = store_consume G fs B (c - st) (c - st + m)"
    using v(1) by (auto simp: take_store_range_into_def rbind_def split: sum.splits)
  moreover have "holds_gammas R fb s st (c + m) fin v"
    by (rule holds_gammas_mono[OF assms(2,3) v(3) assms(4)]) (use v(4) assms(3) in simp)
  ultimately show ?thesis using v(2) by blast
qed

lemma finalize_ok:
  fixes d :: "('l::len word, 'f::comm_ring_1) LazyEdaBits"
  assumes ok: "party_ok R L G fb s num c i fs d" and n: "c + n \<le> num" and r: "reserve_range d n = Inr r"
  shows "\<exists>fs'. finalize_reserved_range L G fs d (resv_range r) = (d\<lparr>eb_cursor := c + n\<rparr>, fs') \<and>
    party_ok R L G fb s num (c + n) i fs' (d\<lparr>eb_cursor := c + n\<rparr>)"
proof -
  note D = party_okD[OF ok]
  let ?T = "TYPE('l)" and ?K = "LENGTH('l)" and ?d = "d\<lparr>eb_cursor := c + n\<rparr>"
  have apart: "files_apart (eb_meta_path d) (eb_alphas d)" "files_apart (eb_meta_path d) (eb_gamma_store d)"
      "stores_apart (eb_alphas d) (eb_gamma_store d)" using D(6) by (simp_all add: pool_files_apart_def)
  have frame: "party_ok R L G fb s num (c + n) i fs' ?d \<longleftrightarrow>
      (if i = ID2 then authoritative_ok R L fb s num fs' ?d else cache_ok R L G fb s num fs' ?d)" for fs'
    using D n by (simp add: party_ok_def pool_files_apart_def extension_seeds_def)
  show ?thesis
  proof (cases "eb_mode d")
    case NoStorage
    then have "finalize_reserved_range L G fs d (resv_range r) = (?d, persist_cursor fs (eb_meta_path d) (c + n))"
      using r D(3,4) n by (auto simp: reserve_range_def finalize_reserved_range_def edabits_persist_cursor_def Let_def)
    moreover have "cache_ok R L G fb s num fs' ?d" for fs' using NoStorage by (simp add: cache_ok_def)
    moreover have "authoritative_ok R L fb s num (persist_cursor fs (eb_meta_path d) (c + n)) ?d" if "i = ID2"
    proof -
      have "store_ok L (persist_cursor fs (eb_meta_path d) (c + n)) (eb_alphas d) = store_ok L fs (eb_alphas d)"
          "store_elems L (persist_cursor fs (eb_meta_path d) (c + n)) (eb_alphas d) = store_elems L fs (eb_alphas d)"
        using apart(1) by (intro store_other_file persist_cursor_other; auto simp: files_apart_def)+
      then show ?thesis using D(10)[OF that] NoStorage D(4) holds_weaken(1)[of R fb ?T s ID2 0 c num _ "c + n"]
        by (auto simp: authoritative_ok_def)
    qed
    ultimately show ?thesis using frame by auto
  next
    case P2Authoritative
    then have i: "i = ID2" using D(11) by (auto simp: cache_ok_def)
    let ?st = "eb_alphas d" and ?a = "c * ?K"
    let ?fs1 = "store_consume L fs ?st ?a (?a + n * ?K)"
    let ?fs = "persist_cursor ?fs1 (eb_meta_path d) (c + n)"
    have run: "finalize_reserved_range L G fs d (resv_range r) = (?d, ?fs)"
      using r D(3,4) n P2Authoritative by (auto simp: reserve_range_def finalize_reserved_range_def edabits_persist_cursor_def Let_def)
    have A: "store_ok L fs ?st" "length (store_elems L fs ?st) = num * ?K" "holds_alphas R fb ?T s ID2 0 c num (store_elems L fs ?st)"
      using D(10)[OF i] D(4) by (simp_all add: authoritative_ok_def)
    note sl = holds_alphas_slice[OF A(3) le0 n, unfolded diff_zero]
    note con = store_consume_outside[OF A(1) le_add1 sl(1)]
    have same: "store_ok L ?fs ?st = store_ok L ?fs1 ?st" "store_elems L ?fs ?st = store_elems L ?fs1 ?st"
      using apart(1) by (intro store_other_file persist_cursor_other; auto simp: files_apart_def)+
    obtain v where v: "holds L ?fs1 ?st v" "holds_alphas R fb ?T s ID2 0 (c + n) num v"
      using consume_keeps_alphas[OF store_ok_holds[OF A(1)] A(3) le0 n, of ?a "?a + n * ?K"] by auto
    have "v = store_elems L ?fs1 ?st"
      using v(1) chunks_raw_vec[of L v] by (cases ?st) (auto simp: holds_def store_elems_def)
    with v(2) con(1,2) A(2) P2Authoritative have "authoritative_ok R L fb s num ?fs ?d"
      by (simp add: authoritative_ok_def same)
    with run i show ?thesis using frame by (intro exI[of _ ?fs]) simp
  next
    case (P01Precache st ln)
    then have i: "i \<noteq> ID2" using D(10) by (auto simp: authoritative_ok_def)
    from D(11)[OF i] D(2,4) obtain as where st: "st \<le> c" "st + ln \<le> num" and as: "holds L fs (eb_alphas d) as"
        "holds_alphas R fb ?T s i st c (st + ln) as" "length as = ln * ?K"
      and g: "i = ID0 \<Longrightarrow> \<exists>gs. holds G fs (eb_gamma_store d) gs \<and> holds_gammas R fb s st c (st + ln) gs"
      by (auto simp: cache_ok_def P01Precache)
    define m where "m = (if c \<ge> st + ln then 0 else min (st + ln - c) n)"
    let ?a = "(c - st) * ?K" and ?g = "c - st"
    define fs1 where "fs1 = (if m > 0 then store_consume L fs (eb_alphas d) ?a (?a + m * ?K) else fs)"
    define fs2 where "fs2 = (if m > 0 then store_consume G fs1 (eb_gamma_store d) ?g (?g + m) else fs1)"
    let ?fs = "persist_cursor fs2 (eb_meta_path d) (c + n)"
    have run: "finalize_reserved_range L G fs d (resv_range r) = (?d, ?fs)"
      using r D(3,4) n P01Precache st(1)
      by (auto simp: reserve_range_def finalize_reserved_range_def edabits_persist_cursor_def Let_def m_def fs1_def fs2_def)
    have hold: "\<exists>v. holds L fs1 (eb_alphas d) v \<and> length v = ln * ?K \<and> holds_alphas R fb ?T s i st (c + n) (st + ln) v"
    proof (cases "m > 0")
      case True
      then have m: "c + m \<le> st + ln" "m \<le> n" by (auto simp: m_def split: if_splits)
      obtain v where v: "holds L fs1 (eb_alphas d) v" "holds_alphas R fb ?T s i st (c + m) (st + ln) v" "length v = ln * ?K"
        using consume_keeps_alphas[OF as(1,2) st(1) m(1) refl refl] as(3) True by (auto simp: fs1_def)
      from holds_weaken(1)[OF v(2), of "c + n"] v(1,3) m(2) show ?thesis by auto
    next
      case False
      then show ?thesis using as(1,3) holds_weaken(1)[OF as(2), of "c + n"] by (auto simp: fs1_def)
    qed
    have keep1: "holds G fs1 (eb_gamma_store d) y = holds G fs (eb_gamma_store d) y" for y
      using apart(3) by (intro holds_other_file) (auto simp: fs1_def stores_apart_def intro!: consume_other)
    have keep2: "holds L fs2 (eb_alphas d) y = holds L fs1 (eb_alphas d) y" for y
      using apart(3) by (intro holds_other_file) (auto simp: fs2_def stores_apart_def intro!: consume_other)
    have holdg: "\<exists>v. holds G fs2 (eb_gamma_store d) v \<and> holds_gammas R fb s st (c + n) (st + ln) v" if "i = ID0"
    proof -
      obtain gs where gs: "holds G fs1 (eb_gamma_store d) gs" "holds_gammas R fb s st c (st + ln) gs" using g \<open>i = ID0\<close> keep1 by auto
      show ?thesis
      proof (cases "m > 0")
        case True
        then have m: "c + m \<le> st + ln" "m \<le> n" by (auto simp: m_def split: if_splits)
        obtain v where v: "holds G fs2 (eb_gamma_store d) v" "holds_gammas R fb s st (c + m) (st + ln) v"
          using consume_keeps_gammas[OF gs st(1) m(1)] True by (auto simp: fs2_def)
        from holds_weaken(2)[OF v(2), of "c + n"] v(1) m(2) show ?thesis by auto
      next
        case False
        then show ?thesis using gs(1) holds_weaken(2)[OF gs(2), of "c + n"] by (auto simp: fs2_def)
      qed
    qed
    have "cache_ok R L G fb s num ?fs ?d"
      using st hold holdg D(2) by (auto simp: cache_ok_def P01Precache persist_holds[OF apart(1)] persist_holds[OF apart(2)] keep2)
    with run i show ?thesis using frame by (intro exI[of _ ?fs]) simp
  qed
qed

subsection \<open>Saving and loading\<close>

lemma load_precache_ok:
  fixes d :: "('l::len word, 'f::comm_ring_1) LazyEdaBits"
  assumes L: "lawful_layout L" and G: "lawful_layout G" and pool: "pool_ok R L G fb s num dir c i fs d"
  shows "\<exists>d' fs'. load_precache L G fs d dir = Inr (d', fs') \<and> pool_ok R L G fb s num dir c i fs' d'"
proof -
  let ?T = "TYPE('l)" and ?K = "LENGTH('l)"
  have ok: "party_ok R L G fb s num c i fs d" and meta: "meta_in ?T dir (eb_meta_path d)"
      and disk: "i \<noteq> ID2 \<Longrightarrow> disk_cache_ok R L G fb s num dir fs d" using pool by (simp_all add: pool_ok_def)
  note D = party_okD[OF ok]
  have clear: ?thesis if "load_precache L G fs d dir = Inr (clear_precache_files fs d dir)"
    using that clear_precache_ok[OF pool] by auto
  have keep: ?thesis if "load_precache L G fs d dir = Inr (d, fs)" using that pool by blast
  show ?thesis
  proof (cases "i = ID2 \<or> fs (precache_meta_path ?T dir) = None")
    case True
    then show ?thesis using D(2) by (intro keep) (auto simp: load_precache_def)
  next
    case i: False
    show ?thesis
    proof (cases "\<exists>m. read_precache_meta fs (precache_meta_path ?T dir) = Inr m \<and> precache_meta_matches d m (pm_len m) (eb_cursor d)")
      case False
      then show ?thesis using i D(2) by (intro clear) (auto simp: load_precache_def split: sum.splits)
    next
      case True
      then obtain m where m: "read_precache_meta fs (precache_meta_path ?T dir) = Inr m" "precache_meta_matches d m (pm_len m) (eb_cursor d)"
        by blast
      then have start: "pm_start_cursor m = c" using D(4) by (simp add: precache_meta_matches_def)
      let ?l = "pm_len m"
      have "precache_meta_matches d m ?l (pm_start_cursor m)" using m(2) start D(4) by simp
      then obtain as where as: "fs (precache_alpha_path ?T dir) = Some (raw_vec L as)" "holds_alphas R fb ?T s i c c (c + ?l) as"
          "length as = ?l * ?K" and le: "c + ?l \<le> num" and g: "i = ID0 \<Longrightarrow> \<exists>gs. fs (precache_gamma_path ?T dir) = Some (raw_vec G gs) \<and>
            holds_gammas R fb s c c (c + ?l) gs"
        using disk i m(1) start D(2,4) unfolding disk_cache_ok_def by auto
      obtain sa where sa: "load_from_file L fs (precache_alpha_path ?T dir) = Inr sa" "holds L fs sa as"
          "\<And>q n off. sa = FileBacked q n off \<Longrightarrow> q = precache_alpha_path ?T dir"
        using load_holds[where fs = fs, OF L as(1)] by blast
      have la: "\<not> store_len sa < expected_precache_alpha_len ?T ?l"
        using as(2) holds_len[OF sa(2)] by (simp add: holds_alphas_def expected_precache_alpha_len_def)
      have paths: "eb_meta_path d \<noteq> Some (precache_alpha_path ?T dir)" "eb_meta_path d \<noteq> Some (precache_gamma_path ?T dir)"
          "precache_alpha_path ?T dir \<noteq> precache_gamma_path ?T dir"
        using meta by (auto simp: precache_paths meta_in_def)
      have fin: "pool_ok R L G fb s num dir c i fs (d\<lparr>eb_alphas := sa, eb_gamma_store := sb, eb_mode := P01Precache c ?l\<rparr>)"
        if "\<And>q n off. sb = FileBacked q n off \<Longrightarrow> q = precache_gamma_path ?T dir"
          "i = ID0 \<Longrightarrow> \<exists>gs. holds G fs sb gs \<and> holds_gammas R fb s c c (c + ?l) gs" for sb
      proof -
        have "pool_files_apart (d\<lparr>eb_alphas := sa, eb_gamma_store := sb, eb_mode := P01Precache c ?l\<rparr>)"
          using sa(3) that(1) paths by (auto simp: pool_files_apart_def files_apart_def stores_apart_def split: BackingStore.splits)
        then have "party_ok R L G fb s num c i fs (d\<lparr>eb_alphas := sa, eb_gamma_store := sb, eb_mode := P01Precache c ?l\<rparr>)"
          using D i le sa(2) as(2,3) that(2) by (auto simp: party_ok_def extension_seeds_def cache_ok_def)
        then show ?thesis using meta disk i sa(3) that(1) by (simp add: pool_ok_def in_dir_def disk_cache_ok_def precache_meta_matches_def)
      qed
      show ?thesis
      proof (cases "i = ID0")
        case False
        have "load_precache L G fs d dir = Inr (d\<lparr>eb_alphas := sa, eb_gamma_store := Empty, eb_mode := P01Precache c ?l\<rparr>, fs)"
          using i False m as(1) sa(1) la start D(2) by (auto simp: load_precache_def Let_def)
        with fin[of Empty] False show ?thesis by auto
      next
        case i0: True
        then obtain gs where gs: "fs (precache_gamma_path ?T dir) = Some (raw_vec G gs)" "holds_gammas R fb s c c (c + ?l) gs"
          using g by blast
        obtain sb where sb: "load_from_file G fs (precache_gamma_path ?T dir) = Inr sb" "holds G fs sb gs"
            "\<And>q n off. sb = FileBacked q n off \<Longrightarrow> q = precache_gamma_path ?T dir"
          using load_holds[where fs = fs, OF G gs(1)] by blast
        have lb: "\<not> store_len sb < ?l" using gs(2) holds_len[OF sb(2)] by (simp add: holds_gammas_def)
        have "load_precache L G fs d dir = Inr (d\<lparr>eb_alphas := sa, eb_gamma_store := sb, eb_mode := P01Precache c ?l\<rparr>, fs)"
          using i i0 m as(1) sa(1) la lb gs(1) sb(1) start D(2) by (auto simp: load_precache_def Let_def)
        with fin[of sb] sb(2,3) gs(2) show ?thesis by auto
      qed
    qed
  qed
qed

lemma edabits_reload_ok:
  fixes d :: "('l::len word, 'f::comm_ring_1) LazyEdaBits"
  assumes L: "lawful_layout L" and G: "lawful_layout G" and pool: "pool_ok R L G fb s num dir c i fs d" and seeds: "\<And>i. length (s i) = SEED_SIZE"
    and fb: "fb < 2 ^ 32"
  shows "\<exists>d1 fs1 d2 fs2. edabits_save L fs d dir = Inr (d1, fs1) \<and> edabits_load L G fs1 dir i = Inr (d2, fs2) \<and>
    pool_ok R L G fb s num dir c i fs2 d2"
proof -
  let ?T = "TYPE('l)" and ?K = "LENGTH('l)"
  have ok: "party_ok R L G fb s num c i fs d" and disk: "i \<noteq> ID2 \<Longrightarrow> disk_cache_ok R L G fb s num dir fs d"
    using pool by (simp_all add: pool_ok_def)
  note D = party_okD[OF ok]
  let ?mp = "edabits_path ?T dir ''.meta''" and ?ap = "authoritative_alpha_path ?T dir"
  have nb: "num < 2 ^ 64" by (rule party_num_bound[OF ok])
  have seed: "eb_seed1 d = s i" "eb_pos1 d = 0" "eb_seed2 d = s (prev_id i)" "eb_pos2 d = 0" using D(1) by (simp_all add: extension_seeds_def)
  have u: "unat (of_nat n :: 64 word) = n" if "n < 2 ^ 64" for n using that by (simp add: unat_of_nat take_bit_nat_eq_self unsigned_of_nat)
  have meta: "read_meta fs' ?mp = Inr (edabits_meta d)" if "fs' ?mp = Some (meta_bytes (edabits_meta d))" for fs'
    by (rule read_meta_bytes[where fs = fs', OF _ _ _ that]) (use fb in \<open>simp_all add: edabits_meta_def seed seeds D(5) u\<close>)
  define base where "base = (\<lambda>A M. d\<lparr>eb_alphas := A, eb_mode := M, eb_gamma_store := Empty, eb_meta_path := Some ?mp\<rparr>)"
  have load: "edabits_load L G fs' dir i = load_precache L G fs' (base A M) dir"
    if "fs' ?mp = Some (meta_bytes (edabits_meta d))"
      "(if i = ID2 \<and> 0 < num then rbind (load_from_file L fs' ?ap) (\<lambda>st. if store_len st < num * ?K then Inl UnexpectedEof
          else Inr (st, P2Authoritative)) else Inr (Empty, NoStorage)) = Inr (A, M)" for fs' A M
  proof -
    have "(0 < (of_nat num :: 64 word)) = (0 < num)" using u[OF nb] by (simp add: word_less_nat_alt)
    with that(2) D(2-5,7) nb fb have "edabits_load L G fs' dir i = load_precache L G fs'
        \<lparr>eb_seed1 = eb_seed1 d, eb_pos1 = eb_pos1 d, eb_seed2 = eb_seed2 d, eb_pos2 = eb_pos2 d, eb_total = num, eb_field_bytes = fb,
         eb_cursor = c, eb_alphas = A, eb_mode = M, eb_gamma_store = Empty, eb_party_id = i, eb_meta_path = Some ?mp\<rparr> dir"
      by (simp add: edabits_load_def Let_def meta[of fs', OF that(1)] edabits_meta_def u expected_authoritative_alpha_len_def cong: if_cong)
    then show ?thesis using D(2-5) by (cases d) (simp add: base_def)
  qed
  have apart: "pool_files_apart (base A M)" if "\<And>p n off. A = FileBacked p n off \<Longrightarrow> p = ?ap" for A M
    using that by (auto simp: base_def pool_files_apart_def files_apart_def stores_apart_def precache_paths split: BackingStore.splits)
  have party: "party_ok R L G fb s num c i fs' (base A M) \<longleftrightarrow> (if i = ID2 then authoritative_ok R L fb s num fs' (base A M) else cache_ok R L G fb s num fs' (base A M))"
    if "\<And>p n off. A = FileBacked p n off \<Longrightarrow> p = ?ap" for A M fs'
    using apart[OF that] D(1-9) by (simp add: party_ok_def base_def extension_seeds_def)
  let ?fs1 = "\<lambda>fs'. write_meta fs' ?mp (edabits_meta d)"
  show ?thesis
  proof (cases "i = ID2 \<and> 0 < num")
    case False
    have save: "edabits_save L fs d dir = Inr (d\<lparr>eb_meta_path := Some ?mp\<rparr>, ?fs1 fs)"
    proof -
      have "\<not> (eb_mode d = P2Authoritative \<and> \<not> store_is_empty (eb_alphas d))"
      proof (cases "i = ID2")
        case True
        then have "store_ok L fs (eb_alphas d)" "length (store_elems L fs (eb_alphas d)) = 0"
          using D(10) False by (simp_all add: authoritative_ok_def)
        then show ?thesis using store_len_elems[of L fs "eb_alphas d"] by (simp add: store_is_empty_def)
      next
        case False
        then show ?thesis using D(11) by (auto simp: cache_ok_def)
      qed
      then show ?thesis unfolding edabits_save_def by (simp only: if_False rbind_simps Let_def)
    qed
    have "party_ok R L G fb s num c i (?fs1 fs) (base Empty NoStorage)"
    proof -
      have "authoritative_ok R L fb s num (?fs1 fs) (base Empty NoStorage)" if "i = ID2"
        using False that L by (simp add: authoritative_ok_def base_def store_ok_def store_elems_def holds_alphas_def)
      moreover have "cache_ok R L G fb s num (?fs1 fs) (base Empty NoStorage)" by (simp add: cache_ok_def base_def)
      ultimately show ?thesis by (subst party) auto
    qed
    moreover have "i \<noteq> ID2 \<Longrightarrow> disk_cache_ok R L G fb s num dir (?fs1 fs) (base Empty NoStorage)"
      using disk by (simp add: disk_cache_ok_def base_def write_meta_def precache_paths read_precache_meta_def precache_meta_matches_def)
    ultimately have "pool_ok R L G fb s num dir c i (?fs1 fs) (base Empty NoStorage)"
      by (simp add: pool_ok_def base_def meta_in_def in_dir_def)
    from load_precache_ok[OF L G this] load[of "?fs1 fs" Empty NoStorage] False
    show ?thesis using save by (auto simp: write_meta_def)
  next
    case True
    then have i: "i = ID2" and pos: "0 < num" by simp_all
    have A: "eb_mode d = P2Authoritative" "store_ok L fs (eb_alphas d)" "length (store_elems L fs (eb_alphas d)) = num * ?K"
        "holds_alphas R fb ?T s ID2 0 c num (store_elems L fs (eb_alphas d))"
      using D(10)[OF i] D(4) pos by (simp_all add: authoritative_ok_def)
    have ne: "\<not> store_is_empty (eb_alphas d)" "eb_alphas d \<noteq> Empty"
      using store_len_elems[OF A(2)] A(3) pos by (auto simp: store_is_empty_def store_elems_def)
    obtain fs' where fs': "save_to_file L fs (eb_alphas d) ?ap = Inr fs'" using save_to_file_total[OF A(2)] by blast
    obtain st where st: "load_from_file L fs' ?ap = Inr st" "store_ok L fs' st" "store_elems L fs' st = store_elems L fs (eb_alphas d)"
      using load_save_elems[OF A(2) fs' ne(2)] by blast
    have path: "p = ?ap" if "st = FileBacked p n off" for p n off
      using st(1) that by (auto simp: load_from_file_def split: option.splits if_splits)
    have same: "store_ok L (?fs1 fs') st = store_ok L fs' st" "store_elems L (?fs1 fs') st = store_elems L fs' st"
      by (rule store_other_file, drule path, simp add: write_meta_def precache_paths)+
    have "load_from_file L (?fs1 fs') ?ap = Inr st" using st(1) by (simp add: load_from_file_def write_meta_def precache_paths)
    moreover have "store_len st = num * ?K" using store_len_elems[OF st(2)] st(3) A(3) by simp
    ultimately have "edabits_load L G (?fs1 fs') dir i = load_precache L G (?fs1 fs') (base st P2Authoritative) dir"
      using i pos by (intro load) (simp_all add: write_meta_def)
    moreover have "load_precache L G (?fs1 fs') (base st P2Authoritative) dir = Inr (base st P2Authoritative, ?fs1 fs')"
      using D(2) i by (simp add: load_precache_def base_def)
    moreover have "authoritative_ok R L fb s num (?fs1 fs') (base st P2Authoritative)"
      using same st A D(4) by (simp add: authoritative_ok_def base_def)
    then have "party_ok R L G fb s num c i (?fs1 fs') (base st P2Authoritative)" using i path by (subst party) auto
    then have "pool_ok R L G fb s num dir c i (?fs1 fs') (base st P2Authoritative)" using i by (simp add: pool_ok_def base_def meta_in_def)
    moreover have "edabits_save L fs d dir = Inr (d\<lparr>eb_meta_path := Some ?mp\<rparr>, ?fs1 fs')"
      using A(1) ne(1) fs' by (simp add: edabits_save_def Let_def)
    ultimately show ?thesis by auto
  qed
qed

end
