(* ===== verification/Preproc_Conversion.thy ===== *)
theory Preproc_Conversion
  imports Dabits Edabits_Ring Ring_Compare
begin

text \<open>
  The conversions that use preprocessed material (\<open>rep3_ring/conversion.rs\<close>):
  \<open>bit_inject_field_preproc_many\<close> turns shared bits into field elements with daBits,
  \<open>b2a_preproc_many\<close> turns exclusive-or shares of ring elements into sums with edaBits, and
  \<open>b2a_many_selector\<close> chooses between the online and the preprocessed conversion.  The theory ends
  with the composition of pool and conversion.
\<close>

subsection \<open>Bit injection\<close>

text \<open>\<open>convert\<close> of a \<open>Bit\<close>; exclusive or of booleans is inequality.  The messages are vectors of
  bytes; \<open>cb\<close> serialises them.\<close>

abbreviation bconv :: "1 word \<Rightarrow> bool" where
  "bconv b \<equiv> b = 1"

definition inject_round1 ::
  "(8 word, 'w) codec \<Rightarrow> PartyID \<Rightarrow> bit_share list \<Rightarrow> 'f DaBitBatch \<Rightarrow> ('w, 'r, 8 word list \<times> 8 word list) prog" where
  "inject_round1 cb i x batch =
     (case i of
        ID0 \<Rightarrow>
          let m0s = map2 (\<lambda>xi gamma. of_bool ((bconv (sh_a xi) \<noteq> bconv (sh_b xi)) \<noteq> gamma)) x (gammas batch)
          in qbind (send_many cb ID1 m0s) (\<lambda>_. qbind (send_many cb ID2 m0s) (\<lambda>_.
             qbind (recv_many cb ID1) (\<lambda>m1s. qret (m0s, m1s))))
      | ID1 \<Rightarrow>
          qbind (recv_many cb ID0) (\<lambda>m0s.
            let m1s = map2 (\<lambda>xi theta. of_bool (bconv (sh_a xi) \<noteq> theta)) x (thetas batch)
            in qbind (send_many cb ID0 m1s) (\<lambda>_. qret (m0s, m1s)))
      | ID2 \<Rightarrow> qbind (recv_many cb ID0) (\<lambda>m0s. qret (m0s, [])))"

definition inject_local ::
  "PartyID \<Rightarrow> bit_share list \<Rightarrow> 'f::comm_ring_1 DaBitBatch \<Rightarrow> 8 word list \<Rightarrow> 8 word list \<Rightarrow> 'f share list" where
  "inject_local i x batch m0s m1s =
     (case i of
        ID0 \<Rightarrow> map (\<lambda>((((xi, m0), m1), gamma), v).
            let sigma = (((m1 \<noteq> 0) \<noteq> bconv (sh_a xi)) \<noteq> bconv (sh_b xi)) \<noteq> gamma
            in Share (sh_a v * neg1_pow sigma) (sh_b v * neg1_pow sigma))
          (zip (zip (zip (zip x m0s) m1s) (gammas batch)) (v_shares batch))
      | ID1 \<Rightarrow> map (\<lambda>(((m0, xi), theta), v).
            let beta = (m0 \<noteq> 0) \<noteq> bconv (sh_a xi); sigma = beta \<noteq> theta
            in Share (sh_a v * neg1_pow sigma + of_bool beta) (sh_b v * neg1_pow sigma))
          (zip (zip (zip m0s x) (thetas batch)) (v_shares batch))
      | ID2 \<Rightarrow> map (\<lambda>(((m0, xi), theta), v).
            let beta = (m0 \<noteq> 0) \<noteq> bconv (sh_b xi); sigma = beta \<noteq> theta
            in Share (sh_a v * neg1_pow sigma) (sh_b v * neg1_pow sigma + of_bool beta))
          (zip (zip (zip m0s x) (thetas batch)) (v_shares batch)))"

definition bit_inject_field_preproc_many ::
  "(8 word, 'w) codec \<Rightarrow> bit_share list \<Rightarrow> 'f::comm_ring_1 DaBitBatch \<Rightarrow> ('w, 'r, 'f share list) prog" where
  "bit_inject_field_preproc_many cb x batch =
     (if x = [] then qret []
      else qbind get_id (\<lambda>i. qbind (inject_round1 cb i x batch) (\<lambda>(m0s, m1s). qret (inject_local i x batch m0s m1s))))"

subsection \<open>Binary to arithmetic over the rings\<close>

definition ring_pow2s :: "nat \<Rightarrow> 'a::comm_ring_1 list" where
  "ring_pow2s k = fst (fold (\<lambda>_ (pow2, cur). (pow2 @ [cur], cur + cur)) [0..<k] ([], 1))"

text \<open>The summand of one element, before resharing: an index into \<open>alphas_flat\<close> that is out of
  range panics.  The conversions into the ring and into the field (\<open>rep3_ring/casts.rs\<close>) differ in
  how they read the masked value, \<open>emb\<close>.\<close>

definition preproc_s_self ::
  "('l::len word \<Rightarrow> 'a::comm_ring_1) \<Rightarrow> 'a list \<Rightarrow> PartyID \<Rightarrow> 'a list \<Rightarrow> nat \<Rightarrow> 'l word \<Rightarrow> 'l ring_share \<Rightarrow> 'a \<Rightarrow> io_error + 'a" where
  "preproc_s_self emb pow2 i alphas_flat idx m x z =
     (if i = ID0 then Inr z
      else let k = LENGTH('l); beta = (if i = ID1 then m XOR sh_a x else m XOR sh_b x)
      in rbind (rmap (\<lambda>j. index_list alphas_flat (idx * k + j)) [0..<k]) (\<lambda>alphas.
         let v = foldl (\<lambda>v j. let beta_bit = (ring_shr beta j AND 1 = 1);
                               signed_alpha = (if beta_bit then - (alphas ! j) else alphas ! j)
                           in v + pow2 ! j * signed_alpha) 0 [0..<k];
             v = (if i = ID1 then v + emb beta else v)
         in Inr (v + z)))"

definition ring_b2a_preproc_many ::
  "('l::len word, 'r, 'w) ring_env \<Rightarrow> 'l ring_share list \<Rightarrow> 'l word EdaBitsRingBatch \<Rightarrow> ('w, 'r, 'l ring_share list) prog" where
  "ring_b2a_preproc_many T x batch =
     (if x = [] then qret []
      else qbind get_id (\<lambda>i.
        qbind (if i = ID0
          then let ms = map2 (\<lambda>x gamma. sh_a x XOR sh_b x XOR gamma) x (er_gammas batch)
               in qbind (send_many (rcodec T) ID1 ms) (\<lambda>_. qbind (send_many (rcodec T) ID2 ms) (\<lambda>_. qret ms))
          else recv_many (rcodec T) ID0) (\<lambda>ms.
        qbind (qmap (\<lambda>_. with_rand (masking_element (rgen T))) [0..<length x]) (\<lambda>maskings.
        qbind (lift_result (rmap (\<lambda>(idx, (m, x), z). preproc_s_self (\<lambda>b. b) (ring_pow2s LENGTH('l)) i (er_alphas_flat batch) idx m x z)
                 (enumerate 0 (zip (zip ms x) maskings)))) (\<lambda>s_selfs.
        qbind (reshare_many (rcodec T) s_selfs) (\<lambda>s_prevs.
        qret (map2 ring_share_new s_selfs s_prevs)))))))"

text \<open>Preprocessed mode without a batch panics.\<close>

definition ring_b2a_many_selector ::
  "('l::len word, 'r, 'w) ring_env \<Rightarrow> 'l ring_share list \<Rightarrow> 'l word EdaBitsRingBatch option \<Rightarrow> ('w, 'r, 'l ring_share list) prog" where
  "ring_b2a_many_selector T x batch =
     qbind get_mpc_type (\<lambda>t. case t of
        Online \<Rightarrow> ring_b2a_many T x
      | Preprocessed \<Rightarrow> (case batch of None \<Rightarrow> qfail Panic | Some b \<Rightarrow> ring_b2a_preproc_many T x b))"

subsection \<open>Correctness of the injection\<close>

lemma mpc_inject_round1:
  assumes "lawful_codec cb" "Q (\<lambda>i. (m0, if i = ID2 then [] else m1))"
    and "m0 = map2 (\<lambda>xi gamma. of_bool ((bconv (sh_a xi) \<noteq> bconv (sh_b xi)) \<noteq> gamma)) (x ID0) (gammas (B ID0))"
    and "m1 = map2 (\<lambda>xi theta. of_bool (bconv (sh_a xi) \<noteq> theta)) (x ID1) (thetas (B ID1))"
  shows "mpc (\<lambda>i. inject_round1 cb i (x i) (B i)) Q"
proof -
  from lawful_codec_wires[OF assms(1)]
  obtain w where w: "\<And>xs. ser cb xs = Some (w xs)" "\<And>xs. deser cb (w xs) = Some xs" by blast
  from _ assms(2) show ?thesis
    by (rule mpc_messages, intro runs_session[where n = 6])
      (simp add: session_simps qret_def inject_round1_def Let_def w assms(3,4))
qed

lemma inject_value:
  fixes v :: "PartyID \<Rightarrow> 'f::comm_ring_1 share"
  assumes v: "ashare v (neg1_pow \<theta> * of_bool \<gamma>)" and "\<sigma> = (\<beta> \<noteq> \<theta>)" "b = (\<beta> \<noteq> \<gamma>)"
  shows "ashare (\<lambda>i. case i of ID0 \<Rightarrow> Share (sh_a (v i) * neg1_pow \<sigma>) (sh_b (v i) * neg1_pow \<sigma>)
    | ID1 \<Rightarrow> Share (sh_a (v i) * neg1_pow \<sigma> + of_bool \<beta>) (sh_b (v i) * neg1_pow \<sigma>)
    | ID2 \<Rightarrow> Share (sh_a (v i) * neg1_pow \<sigma>) (sh_b (v i) * neg1_pow \<sigma> + of_bool \<beta>)) (of_bool b)"
proof (rule shared_by3I)
  have "(sh_a (v ID0) + sh_a (v ID1) + sh_a (v ID2)) * neg1_pow \<sigma> + of_bool \<beta> = of_bool b"
    using shared_by_sum[OF v, symmetric] assms(2,3) by (cases \<beta>; cases \<theta>; cases \<gamma>) (simp_all add: neg1_pow_def)
  then show "sh_a (case ID0 of ID0 \<Rightarrow> Share (sh_a (v ID0) * neg1_pow \<sigma>) (sh_b (v ID0) * neg1_pow \<sigma>)
    | ID1 \<Rightarrow> Share (sh_a (v ID0) * neg1_pow \<sigma> + of_bool \<beta>) (sh_b (v ID0) * neg1_pow \<sigma>)
    | ID2 \<Rightarrow> Share (sh_a (v ID0) * neg1_pow \<sigma>) (sh_b (v ID0) * neg1_pow \<sigma> + of_bool \<beta>)) +
    sh_a (case ID1 of ID0 \<Rightarrow> Share (sh_a (v ID1) * neg1_pow \<sigma>) (sh_b (v ID1) * neg1_pow \<sigma>)
    | ID1 \<Rightarrow> Share (sh_a (v ID1) * neg1_pow \<sigma> + of_bool \<beta>) (sh_b (v ID1) * neg1_pow \<sigma>)
    | ID2 \<Rightarrow> Share (sh_a (v ID1) * neg1_pow \<sigma>) (sh_b (v ID1) * neg1_pow \<sigma> + of_bool \<beta>)) +
    sh_a (case ID2 of ID0 \<Rightarrow> Share (sh_a (v ID2) * neg1_pow \<sigma>) (sh_b (v ID2) * neg1_pow \<sigma>)
    | ID1 \<Rightarrow> Share (sh_a (v ID2) * neg1_pow \<sigma> + of_bool \<beta>) (sh_b (v ID2) * neg1_pow \<sigma>)
    | ID2 \<Rightarrow> Share (sh_a (v ID2) * neg1_pow \<sigma>) (sh_b (v ID2) * neg1_pow \<sigma> + of_bool \<beta>)) = of_bool b"
    by (simp add: algebra_simps)
qed (use shared_byD[OF v] in auto)

lemma rbit_bools:
  assumes "rbit x b"
  shows "b = ((bconv (sh_a (x ID0)) \<noteq> bconv (sh_a (x ID1))) \<noteq> bconv (sh_a (x ID2)))"
  using shared_by_sum[OF assms] word1_cases[of "sh_a (x ID0)"] word1_cases[of "sh_a (x ID1)"] word1_cases[of "sh_a (x ID2)"]
  by (cases b) auto

lemma mpc_bit_inject_field_preproc_many:
  fixes B :: "PartyID \<Rightarrow> 'f::comm_ring_1 DaBitBatch"
  assumes cb: "lawful_codec cb" and x: "rbits x bs" and B: "dabit_batch (length bs) B" and Q: "\<And>z. ashares z (map of_bool bs) \<Longrightarrow> Q z"
  shows "mpc (\<lambda>i. bit_inject_field_preproc_many cb (x i) (B i)) Q"
proof (cases "bs = []")
  case True
  then have "x i = []" for i using vec_shared_byD(1)[OF x, of i] by simp
  with True Q[of "\<lambda>i. []"] show ?thesis by (simp add: bit_inject_field_preproc_many_def mpc_ret)
next
  case False
  have len: "length (x i) = length bs" for i using vec_shared_byD(1)[OF x, of i] by simp
  then have ne: "x i \<noteq> []" for i using False by (metis length_0_conv)
  define m0 m1 :: "8 word list" where
    "m0 = map2 (\<lambda>xi gamma. of_bool ((bconv (sh_a xi) \<noteq> bconv (sh_b xi)) \<noteq> gamma)) (x ID0) (gammas (B ID0))" and
    "m1 = map2 (\<lambda>xi theta. of_bool (bconv (sh_a xi) \<noteq> theta)) (x ID1) (thetas (B ID1))"
  have B': "length (gammas (B ID0)) = length bs" "length (thetas (B ID1)) = length bs" "thetas (B ID2) = thetas (B ID1)"
      "ashares (\<lambda>i. v_shares (B i)) (map2 (\<lambda>\<gamma> \<theta>. neg1_pow \<theta> * of_bool \<gamma>) (gammas (B ID0)) (thetas (B ID1)))"
    using B by (simp_all add: dabit_batch_def)
  have lv: "length (v_shares (B i)) = length bs" for i using vec_shared_byD(1)[OF B'(4), of i] B' by simp
  have "ashares (\<lambda>i. inject_local i (x i) (B i) m0 (if i = ID2 then [] else m1)) (map of_bool bs)"
    unfolding vec_shared_by_def
  proof (intro conjI allI impI)
    show "length (inject_local i (x i) (B i) m0 (if i = ID2 then [] else m1)) = length (map of_bool bs :: 'f list)" for i
      using len lv B' by (cases i) (simp_all add: inject_local_def m0_def m1_def)
    fix k assume "k < length (map of_bool bs :: 'f list)"
    then have k: "k < length bs" by simp
    let ?\<gamma> = "gammas (B ID0) ! k" and ?\<theta> = "thetas (B ID1) ! k"
    let ?\<beta> = "bs ! k \<noteq> ?\<gamma>"
    have xk: "rbit (\<lambda>i. x i ! k) (bs ! k)" using vec_shared_byD(2)[OF x] k by simp
    have vk: "ashare (\<lambda>i. v_shares (B i) ! k) (neg1_pow ?\<theta> * of_bool ?\<gamma>)"
      using vec_shared_byD(2)[OF B'(4), of k] k B' by simp
    show "ashare (\<lambda>i. inject_local i (x i) (B i) m0 (if i = ID2 then [] else m1) ! k) (map of_bool bs ! k)"
    proof -
      have xb: "sh_b (x ID0 ! k) = sh_a (x ID2 ! k)" "sh_b (x ID2 ! k) = sh_a (x ID1 ! k)"
        using shared_byD[OF xk, of ID0] shared_byD[OF xk, of ID2] by simp_all
      let ?a0 = "bconv (sh_a (x ID0 ! k))" and ?a1 = "bconv (sh_a (x ID1 ! k))" and ?a2 = "bconv (sh_a (x ID2 ! k))"
        and ?v = "\<lambda>i. v_shares (B i) ! k"
      have m: "(m0 ! k \<noteq> 0) = ((?a0 \<noteq> ?a2) \<noteq> ?\<gamma>)" "(m1 ! k \<noteq> 0) = (?a1 \<noteq> ?\<theta>)"
        and lm: "length m0 = length bs" "length m1 = length bs"
        using k len B' xb by (simp_all add: m0_def m1_def)
      have bools: "((((?a1 \<noteq> ?\<theta>) \<noteq> ?a0) \<noteq> ?a2) \<noteq> ?\<gamma>) = (?\<beta> \<noteq> ?\<theta>)" "(((?a0 \<noteq> ?a2) \<noteq> ?\<gamma>) \<noteq> ?a1) = ?\<beta>"
        unfolding rbit_bools[OF xk] by argo+
      have nths: "inject_local ID0 (x ID0) (B ID0) m0 m1 ! k =
            (let sigma = ((((m1 ! k \<noteq> 0) \<noteq> ?a0) \<noteq> bconv (sh_b (x ID0 ! k))) \<noteq> ?\<gamma>)
             in Share (sh_a (?v ID0) * neg1_pow sigma) (sh_b (?v ID0) * neg1_pow sigma))"
          "inject_local ID1 (x ID1) (B ID1) m0 m1 ! k =
            (let beta = (m0 ! k \<noteq> 0) \<noteq> ?a1; sigma = beta \<noteq> ?\<theta>
             in Share (sh_a (?v ID1) * neg1_pow sigma + of_bool beta) (sh_b (?v ID1) * neg1_pow sigma))"
          "inject_local ID2 (x ID2) (B ID2) m0 [] ! k =
            (let beta = (m0 ! k \<noteq> 0) \<noteq> bconv (sh_b (x ID2 ! k)); sigma = beta \<noteq> ?\<theta>
             in Share (sh_a (?v ID2) * neg1_pow sigma) (sh_b (?v ID2) * neg1_pow sigma + of_bool beta))"
        using k len lv B'(1-3) lm by (simp_all only: inject_local_def PartyID.case) simp_all
      have fam: "(\<lambda>i. inject_local i (x i) (B i) m0 (if i = ID2 then [] else m1) ! k) = (\<lambda>i. case i of
          ID0 \<Rightarrow> Share (sh_a (?v i) * neg1_pow (?\<beta> \<noteq> ?\<theta>)) (sh_b (?v i) * neg1_pow (?\<beta> \<noteq> ?\<theta>))
        | ID1 \<Rightarrow> Share (sh_a (?v i) * neg1_pow (?\<beta> \<noteq> ?\<theta>) + of_bool ?\<beta>) (sh_b (?v i) * neg1_pow (?\<beta> \<noteq> ?\<theta>))
        | ID2 \<Rightarrow> Share (sh_a (?v i) * neg1_pow (?\<beta> \<noteq> ?\<theta>)) (sh_b (?v i) * neg1_pow (?\<beta> \<noteq> ?\<theta>) + of_bool ?\<beta>))"
        by (rule party_fun_eqI) (simp_all only: simp_thms(6) if_True if_False PartyID.distinct PartyID.case nths m xb bools Let_def)
      have val: "map of_bool bs ! k = of_bool (bs ! k)" using k by simp
      have "bs ! k = (?\<beta> \<noteq> ?\<gamma>)" by blast
      from inject_value[OF vk refl this] show ?thesis unfolding fam val .
    qed
  qed
  then show ?thesis
    unfolding bit_inject_field_preproc_many_def using ne
    by (simp, intro mpc_bind mpc_get_id mpc_inject_round1[OF cb _ m0_def m1_def]) (simp add: mpc_ret Q)
qed

subsection \<open>Correctness of the conversion over the rings\<close>

lemma ring_pow2s: "ring_pow2s k = map (\<lambda>j. 2 ^ j) [0..<k]"
proof -
  have "fold (\<lambda>_ (pow2, cur). (pow2 @ [cur], cur + cur)) [0..<k] ([], 1) = (map (\<lambda>j. 2 ^ j) [0..<k], 2 ^ k :: 'a)"
    by (induction k) (simp_all add: mult_2[symmetric])
  then show ?thesis by (simp add: ring_pow2s_def)
qed

lemma foldl_sum: "foldl (\<lambda>v j. v + f j) (0 :: 'a::comm_monoid_add) [0..<k] = (\<Sum>j<k. f j)"
  by (induction k) simp_all

lemma word_bit_sum: "(\<Sum>j<LENGTH('l). 2 ^ j * of_bool (bit w j)) = (of_nat (unat (w :: 'l::len word)) :: 'a::comm_ring_1)"
proof -
  have nats: "(\<Sum>j<n. 2 ^ j * of_bool (bit k j)) = take_bit n k" for n and k :: nat
  proof (induction n)
    case (Suc n)
    then show ?case by (simp only: sum.lessThan_Suc take_bit_Suc_from_most add.commute)
  qed simp
  have "unat w = (\<Sum>j<LENGTH('l). 2 ^ j * of_bool (bit (unat w) j))"
    unfolding nats by (simp add: take_bit_nat_eq_self)
  then have "(of_nat (unat w) :: 'a) = of_nat (\<Sum>j<LENGTH('l). 2 ^ j * of_bool (bit (unat w) j))" by (rule arg_cong)
  also have "\<dots> = (\<Sum>j<LENGTH('l). 2 ^ j * of_bool (bit w j))"
    unfolding of_nat_sum by (intro sum.cong refl) (simp add: bit_unsigned_iff)
  finally show ?thesis by (rule sym)
qed

text \<open>The bits of an exclusive or, as an arithmetic expression in the bits of the operands.\<close>

lemma signed_sum_xor:
  fixes b g :: "'l::len word"
  shows "(\<Sum>j<LENGTH('l). 2 ^ j * (if bit b j then - of_bool (bit g j) else of_bool (bit g j))) + of_nat (unat b) =
    (of_nat (unat (b XOR g)) :: 'a::comm_ring_1)"
proof -
  have "(\<Sum>j<LENGTH('l). 2 ^ j * (if bit b j then - of_bool (bit g j) else of_bool (bit g j))) + (of_nat (unat b) :: 'a) =
      (\<Sum>j<LENGTH('l). 2 ^ j * (if bit b j then - of_bool (bit g j) else of_bool (bit g j)) + 2 ^ j * of_bool (bit b j))"
    by (simp only: sum.distrib word_bit_sum)
  also have "\<dots> = (\<Sum>j<LENGTH('l). 2 ^ j * of_bool (bit (b XOR g) j))"
    by (intro sum.cong refl) (auto simp: bit_xor_iff)
  finally show ?thesis by (simp only: word_bit_sum)
qed

lemma preproc_s_self_value:
  fixes m :: "'l::len word" and alphas :: "'a::comm_ring_1 list"
  assumes "(idx + 1) * LENGTH('l) \<le> length alphas"
  defines "row \<equiv> \<lambda>b j. if bit b j then - (alphas ! (idx * LENGTH('l) + j)) else alphas ! (idx * LENGTH('l) + j)"
  shows "preproc_s_self emb (ring_pow2s LENGTH('l)) i alphas idx m x z = Inr (case i of ID0 \<Rightarrow> z
    | ID1 \<Rightarrow> (\<Sum>j<LENGTH('l). 2 ^ j * row (m XOR sh_a x) j) + emb (m XOR sh_a x) + z
    | ID2 \<Rightarrow> (\<Sum>j<LENGTH('l). 2 ^ j * row (m XOR sh_b x) j) + z)"
proof -
  let ?k = "LENGTH('l)" and ?row = "\<lambda>j. alphas ! (idx * LENGTH('l) + j)"
  have read: "rmap (\<lambda>j. index_list alphas (idx * ?k + j)) [0..<?k] = Inr (map ?row [0..<?k])"
    using assms(1) by (intro rmap_Inr) (simp add: index_list_def)
  have shr: "(ring_shr w j AND 1 = 1) = bit w j" for w :: "'l word" and j
    by (simp add: ring_shifts and_one_eq mod2_eq_if bit_iff_odd_drop_bit)
  have loop: "foldl (\<lambda>v j. v + ring_pow2s ?k ! j * (if bit b j then - (map ?row [0..<?k] ! j) else map ?row [0..<?k] ! j)) 0 [0..<?k] =
      (\<Sum>j<?k. 2 ^ j * row b j)" for b :: "'l word"
    unfolding foldl_sum row_def by (intro sum.cong refl) (simp add: ring_pow2s)
  show ?thesis
    using loop[of "m XOR sh_a x"] loop[of "m XOR sh_b x"]
    by (cases i) (simp_all add: preproc_s_self_def Let_def read shr)
qed

lemma mpc_from_zero:
  assumes "lawful_codec c" "Q (\<lambda>i. u)"
  shows "mpc (\<lambda>i. if i = ID0 then qbind (send_many c ID1 u) (\<lambda>_. qbind (send_many c ID2 u) (\<lambda>_. qret u)) else recv_many c ID0) Q"
proof -
  from lawful_codec_wires[OF assms(1)]
  obtain w where w: "\<And>xs. ser c xs = Some (w xs)" "\<And>xs. deser c (w xs) = Some xs" by blast
  from _ assms(2) show ?thesis
    by (rule mpc_messages, intro runs_session[where n = 5]) (simp add: session_simps qret_def w)
qed

lemma mpc_maskings:
  fixes g :: "'r \<Rightarrow> 'a::comm_ring_1 \<times> 'r"
  assumes "\<And>z. (\<And>i. length (z i) = n) \<Longrightarrow> (\<And>k. k < n \<Longrightarrow> sum3 (+) (\<lambda>i. z i ! k) = 0) \<Longrightarrow> Q z"
  shows "mpc (\<lambda>i. qmap (\<lambda>_. with_rand (draw2 (-) g)) [0..<n]) Q"
proof (rule mpc_qmap[where n = n and R = "\<lambda>k z. sum3 (+) z = 0", OF _ _ assms])
  show "mpc (\<lambda>i. with_rand (draw2 (-) g)) (\<lambda>z. sum3 (+) z = 0)"
    by (rule mpc_draw2) (simp add: sum3_def)
qed simp_all

lemma rmap_map: "rmap f (map g xs) = rmap (\<lambda>x. f (g x)) xs"
  by (induction xs) simp_all

lemma enumerate_zip3:
  "length ms = n \<Longrightarrow> length xs = n \<Longrightarrow> length zs = n \<Longrightarrow>
   enumerate 0 (zip (zip ms xs) zs) = map (\<lambda>k. (k, (ms ! k, xs ! k), zs ! k)) [0..<n]"
  by (rule nth_equalityI) (simp_all add: nth_enumerate_eq)

text \<open>The three summands of one element add up to the exclusive or of the shares.\<close>

lemma preproc_summands:
  fixes x :: "PartyID \<Rightarrow> 'l::len word share" and a1 :: "nat \<Rightarrow> 'a::comm_ring_1"
  assumes x: "bshare x u" and m: "m = sh_a (x ID0) XOR sh_b (x ID0) XOR g" and z: "sum3 (+) z = 0"
    and al: "\<And>j. j < LENGTH('l) \<Longrightarrow> a1 j + a2 j = of_bool (bit g j)"
  shows "z ID0 + ((\<Sum>j<LENGTH('l). 2 ^ j * (if bit (m XOR sh_a (x ID1)) j then - a1 j else a1 j)) + of_nat (unat (m XOR sh_a (x ID1))) + z ID1) +
     ((\<Sum>j<LENGTH('l). 2 ^ j * (if bit (m XOR sh_b (x ID2)) j then - a2 j else a2 j)) + z ID2) = of_nat (unat u)"
proof -
  define b where "b = m XOR sh_a (x ID1)"
  have beta: "m XOR sh_b (x ID2) = b" using shared_byD[OF x, of ID2] by (simp add: b_def)
  have bg: "b XOR g = u"
    using shared_by_sum[OF x] shared_byD[OF x, of ID0] by (simp add: b_def m ac_simps)
  have "(\<Sum>j<LENGTH('l). 2 ^ j * (if bit b j then - a1 j else a1 j)) + (\<Sum>j<LENGTH('l). 2 ^ j * (if bit b j then - a2 j else a2 j)) =
      (\<Sum>j<LENGTH('l). 2 ^ j * (if bit b j then - of_bool (bit g j) else of_bool (bit g j)))"
    unfolding sum.distrib[symmetric]
  proof (intro sum.cong refl)
    fix j assume "j \<in> {..<LENGTH('l)}"
    then have "of_bool (bit g j) = a1 j + a2 j" using al by simp
    then show "2 ^ j * (if bit b j then - a1 j else a1 j) + 2 ^ j * (if bit b j then - a2 j else a2 j) =
        2 ^ j * (if bit b j then - of_bool (bit g j) else of_bool (bit g j))"
      by (simp only: distrib_left[symmetric] split: if_split) simp
  qed
  note sums = this
  let ?S1 = "\<Sum>j<LENGTH('l). 2 ^ j * (if bit b j then - a1 j else a1 j)"
    and ?S2 = "\<Sum>j<LENGTH('l). 2 ^ j * (if bit b j then - a2 j else a2 j)"
  have "z ID0 + (?S1 + of_nat (unat b) + z ID1) + (?S2 + z ID2) = sum3 (+) z + (?S1 + ?S2 + of_nat (unat b))"
    by (simp only: sum3_def ac_simps)
  also have "\<dots> = of_nat (unat u)" unfolding sums signed_sum_xor z bg by (rule add_0)
  finally show ?thesis unfolding beta b_def[symmetric] .
qed

text \<open>The protocol of both conversions: party 0 opens the masked values, the summands are reshared.\<close>

lemma mpc_preproc_rounds:
  fixes x :: "PartyID \<Rightarrow> 'l::len word share list" and al :: "PartyID \<Rightarrow> 'a::comm_ring_1 list" and gen :: "'r \<Rightarrow> 'a \<times> 'r"
  defines "K \<equiv> LENGTH('l)"
  assumes codecs: "lawful_codec cr" "lawful_codec cs" and x: "bshares x us" and n: "n = length us"
    and gl: "length (g ID0) = n" and al: "\<And>i. length (al i) = n * K"
      "\<And>k j. k < n \<Longrightarrow> j < K \<Longrightarrow> al ID1 ! (k * K + j) + al ID2 ! (k * K + j) = of_bool (bit (g ID0 ! k) j)"
    and emb: "\<And>b. emb b = of_nat (unat b)" and Q: "\<And>z. ashares z (map (\<lambda>u. of_nat (unat u)) us) \<Longrightarrow> mpc (\<lambda>i. cont i (z i)) Q"
  shows "mpc (\<lambda>i. qbind (if i = ID0 then qbind (send_many cr ID1 (map2 (\<lambda>x gamma. sh_a x XOR sh_b x XOR gamma) (x i) (g i)))
        (\<lambda>_. qbind (send_many cr ID2 (map2 (\<lambda>x gamma. sh_a x XOR sh_b x XOR gamma) (x i) (g i)))
        (\<lambda>_. qret (map2 (\<lambda>x gamma. sh_a x XOR sh_b x XOR gamma) (x i) (g i)))) else recv_many cr ID0) (\<lambda>ms.
      qbind (qmap (\<lambda>_. with_rand (draw2 (-) gen)) [0..<n]) (\<lambda>maskings.
      qbind (lift_result (rmap (\<lambda>(idx, (m, x), z). preproc_s_self emb (ring_pow2s K) i (al i) idx m x z)
                 (enumerate 0 (zip (zip ms (x i)) maskings)))) (\<lambda>s_selfs.
      qbind (reshare_many cs s_selfs) (\<lambda>s_prevs. cont i (map2 Share s_selfs s_prevs)))))) Q"
proof -
  have len: "length (x i) = n" for i using vec_shared_byD(1)[OF x, of i] n by simp
  define ms where "ms = map2 (\<lambda>x gamma. sh_a x XOR sh_b x XOR gamma) (x ID0) (g ID0)"
  have lms: "length ms = n" using len gl by (simp add: ms_def)
  have step: "mpc (\<lambda>i. qbind (lift_result (rmap (\<lambda>(idx, (m, x), z). preproc_s_self emb (ring_pow2s K) i (al i) idx m x z)
        (enumerate 0 (zip (zip ms (x i)) (z i))))) (\<lambda>s_selfs. qbind (reshare_many cs s_selfs) (\<lambda>s_prevs.
        cont i (map2 Share s_selfs s_prevs)))) Q"
    if z: "\<And>i. length (z i) = n" "\<And>k. k < n \<Longrightarrow> sum3 (+) (\<lambda>i. z i ! k) = 0" for z
  proof -
    let ?row = "\<lambda>i k b j. if bit b j then - (al i ! (k * K + j)) else al i ! (k * K + j)"
    define v where "v = (\<lambda>i k. case i of ID0 \<Rightarrow> z i ! k
      | ID1 \<Rightarrow> (\<Sum>j<K. 2 ^ j * ?row i k (ms ! k XOR sh_a (x i ! k)) j) + emb (ms ! k XOR sh_a (x i ! k)) + z i ! k
      | ID2 \<Rightarrow> (\<Sum>j<K. 2 ^ j * ?row i k (ms ! k XOR sh_b (x i ! k)) j) + z i ! k)"
    have s: "rmap (\<lambda>(idx, (m, x), z). preproc_s_self emb (ring_pow2s K) i (al i) idx m x z)
        (enumerate 0 (zip (zip ms (x i)) (z i))) = Inr (map (v i) [0..<n])" for i
    proof -
      have "preproc_s_self emb (ring_pow2s K) i (al i) k (ms ! k) (x i ! k) (z i ! k) = Inr (v i k)" if "k < n" for k
      proof -
        have "(k + 1) * K \<le> length (al i)" unfolding al(1) using that by (intro mult_le_mono1) simp
        from preproc_s_self_value[where ?'l = 'l, OF this[unfolded K_def]] show ?thesis unfolding v_def K_def .
      qed
      then show ?thesis unfolding enumerate_zip3[OF lms len z(1)] rmap_map by (intro rmap_Inr) simp
    qed
    have "vec_summing (+) (\<lambda>i. map (v i) [0..<n]) (map (\<lambda>u. of_nat (unat u)) us)"
      unfolding vec_summing_def
    proof (intro conjI allI impI)
      fix k assume "k < length (map (\<lambda>u. of_nat (unat u)) us :: 'a list)"
      then have k: "k < n" and k': "k < length us" using n by simp_all
      have "ms ! k = sh_a (x ID0 ! k) XOR sh_b (x ID0 ! k) XOR g ID0 ! k" using k len gl by (simp add: ms_def)
      from preproc_summands[OF vec_shared_byD(2)[OF x k'] this z(2)[OF k] al(2)[OF k, unfolded K_def]] k n
      show "sum3 (+) (\<lambda>i. map (v i) [0..<n] ! k) = map (\<lambda>u. of_nat (unat u)) us ! k" by (simp add: sum3_def v_def K_def emb cong: if_cong)
    qed (simp add: n)
    from vec_shared_by_reshare[OF this] Q show ?thesis
      unfolding s qbind_lift_Inr using codecs by (intro mpc_bind mpc_reshare_many) simp_all
  qed
  have "mpc (\<lambda>i. qbind (if i = ID0 then qbind (send_many cr ID1 ms) (\<lambda>_. qbind (send_many cr ID2 ms) (\<lambda>_. qret ms))
      else recv_many cr ID0) (\<lambda>ms. qbind (qmap (\<lambda>_. with_rand (draw2 (-) gen)) [0..<n]) (\<lambda>maskings.
        qbind (lift_result (rmap (\<lambda>(idx, (m, x), z). preproc_s_self emb (ring_pow2s K) i (al i) idx m x z)
                 (enumerate 0 (zip (zip ms (x i)) maskings)))) (\<lambda>s_selfs.
        qbind (reshare_many cs s_selfs) (\<lambda>s_prevs. cont i (map2 Share s_selfs s_prevs)))))) Q"
    using codecs by (intro mpc_bind mpc_from_zero mpc_maskings step) simp_all
  then show ?thesis by (rule mpc_cong) (simp add: ms_def)
qed

lemma mpc_ring_b2a_preproc_many:
  fixes x :: "PartyID \<Rightarrow> 'l::len word share list"
  assumes T: "lawful_ring T" and x: "bshares x us" and B: "edabits_ring_batch (length us) B" and Q: "\<And>z. ashares z us \<Longrightarrow> Q z"
  shows "mpc (\<lambda>i. ring_b2a_preproc_many T (x i) (B i)) Q"
proof (cases "us = []")
  case True
  then have "x i = []" for i using vec_shared_byD(1)[OF x, of i] by simp
  with True Q[of "\<lambda>i. []"] show ?thesis by (simp add: ring_b2a_preproc_many_def mpc_ret)
next
  case False
  have len: "length (x i) = length us" for i using vec_shared_byD(1)[OF x, of i] by simp
  then have ne: "x i \<noteq> []" for i using False by (metis length_0_conv)
  have self: "map (\<lambda>u. of_nat (unat u)) us = us" by (simp add: map_idI)
  show ?thesis
    unfolding ring_b2a_preproc_many_def if_not_P[OF ne] len draws_draw2 Let_def ring_share_new_def[abs_def]
    using T B Q by (intro mpc_bind mpc_get_id mpc_preproc_rounds[OF _ _ x refl, unfolded self]) (simp_all add: edabits_ring_batch_def mpc_ret)
qed

lemma mpc_ring_b2a_many_selector:
  fixes x :: "PartyID \<Rightarrow> 'l::len word share list"
  assumes "lawful_ring T" "bshares x us" "LENGTH('l) = 2 ^ d" "edabits_ring_batch (length us) B" "\<And>z. ashares z us \<Longrightarrow> Q z"
  shows "mpc (\<lambda>i. ring_b2a_many_selector T (x i) (Some (B i))) Q"
  unfolding ring_b2a_many_selector_def
proof (intro mpc_bind mpc_get_mpc_type)
  show "mpc (\<lambda>i. case t of Online \<Rightarrow> ring_b2a_many T (x i)
      | Preprocessed \<Rightarrow> (case Some (B i) of None \<Rightarrow> qfail Panic | Some b \<Rightarrow> ring_b2a_preproc_many T (x i) b)) Q" for t
    using mpc_ring_b2a_many[OF assms(1,2,3,5)] mpc_ring_b2a_preproc_many[OF assms(1,2,4,5)] by (cases t) simp_all
qed

subsection \<open>A concrete generator and field\<close>

text \<open>A generator whose state is a seed and a position, and the integers modulo the prime
  \<open>2 ^ 127 - 1\<close>.\<close>

definition ex_ks :: "bytes \<Rightarrow> nat \<Rightarrow> 8 word" where
  "ex_ks s k = of_nat (sum_list (map unat s) + k * k)"

definition ex_seek_rng :: "(bytes, bytes \<times> nat) rng_ops" where
  "ex_seek_rng = \<lparr>from_seed = \<lambda>s. (s, 0),
     gen_seed = \<lambda>(s, p). (map (ex_ks s) [4 * p..<4 * p + 32], (s, p + 8)),
     gen_u32 = \<lambda>(s, p). (ucast (ex_ks s (4 * p)), (s, p + 1)),
     fill_bytes = \<lambda>n (s, p). (map (ex_ks s) [4 * p..<4 * p + n], (s, p + (n + 3) div 4))\<rparr>"

definition ex_seek :: "(bytes \<times> nat) seek_ops" where
  "ex_seek = \<lparr>get_seed = fst, get_word_pos = \<lambda>(s, p). of_nat p, set_word_pos = \<lambda>w (s, p). (s, unat w)\<rparr>"

lemma ex_seek_lawful: "lawful_seek ex_seek_rng ex_seek"
proof -
  have "keystream ex_seek_rng s k = ex_ks s k" for s k
    by (simp add: keystream_def ex_seek_rng_def nth_append del: upt_Suc)
  then have ks: "keystream ex_seek_rng s = ex_ks s" for s by blast
  have "unat (of_nat k :: 128 word) = k" if "k < 2 ^ 64" for k
    using that by (simp add: unat_of_nat take_bit_nat_eq_self unsigned_of_nat)
  then show ?thesis unfolding lawful_seek_def ks by (auto simp: ex_seek_rng_def ex_seek_def SEED_SIZE_def)
qed

type_synonym mersenne = "170141183460469231731687303715884105727"

definition ex_mersenne :: "(mersenne, bytes \<times> nat) field_ops" where
  "ex_mersenne = \<lparr>f_rand = \<lambda>r. let (bs, r) = fill_bytes ex_seek_rng 16 r in (of_nat (bytes_le bs), r),
     from_be_bytes_mod_order = \<lambda>bs. of_nat (bytes_le (rev bs)),
     modulus = 2 ^ 127 - 1, modulus_bit_size = 127, into_biguint = \<lambda>x. nat (Rep_bit1 x), from_biguint = of_nat,
     f_inverse = \<lambda>x. if x = 0 then None else Some (x ^ (2 ^ 127 - 3)),
     f_sqrt = \<lambda>x. let y = x ^ (2 ^ 125) in if y * y = x then Some y else None,
     two_inv = 2 ^ 126\<rparr>"

datatype pwire =
    PField "mersenne list" | PBig "nat list" | PBigs "nat list list" | PBig2 "(nat \<times> nat) list"
  | PBigs2 "(nat list \<times> nat list) list" | PBytes "8 word list"

definition ex_preproc_env :: "(mersenne, bytes \<times> nat, bytes, pwire) env" where
  "ex_preproc_env = \<lparr>fld = ex_mersenne, rngop = ex_seek_rng,
     fcodec = tag_codec PField (\<lambda>w. case w of PField xs \<Rightarrow> Some xs | _ \<Rightarrow> None),
     bcodec = tag_codec PBig (\<lambda>w. case w of PBig xs \<Rightarrow> Some xs | _ \<Rightarrow> None),
     bvcodec = tag_codec PBigs (\<lambda>w. case w of PBigs xs \<Rightarrow> Some xs | _ \<Rightarrow> None),
     b2codec = tag_codec PBig2 (\<lambda>w. case w of PBig2 xs \<Rightarrow> Some xs | _ \<Rightarrow> None),
     bv2codec = tag_codec PBigs2 (\<lambda>w. case w of PBigs2 xs \<Rightarrow> Some xs | _ \<Rightarrow> None)\<rparr>"

definition ex_byte_codec :: "(8 word, pwire) codec" where
  "ex_byte_codec = tag_codec PBytes (\<lambda>w. case w of PBytes xs \<Rightarrow> Some xs | _ \<Rightarrow> None)"

lemma ex_preproc_lawful: "lawful_net ex_preproc_env" "lawful_codec ex_byte_codec"
  by (simp_all add: lawful_net_def ex_preproc_env_def ex_byte_codec_def lawful_tag_codec)

lemma bit1_of_nat_Rep: "of_nat (nat (Rep_bit1 x)) = (x :: 'a::finite bit1)"
  using bit1.of_int_eq[of "Rep_bit1 x", where ?'a = 'a] bit1.Rep_mod[of x] Rep_bit1[of x]
  by (simp add: bit1.Rep_inverse)

lemma bytes_le_ring_write: "bytes_le (ring_write w) = unat (w :: 'l::len word)"
proof -
  have "ring_from_reader (ring_write w) = Inr (w, [])" using ring_read_write[of w "[]"] by simp
  moreover have "bytes_le (ring_write w) = take_bit (8 * ring_bytes TYPE('l)) (unat w)"
    using bytes_le_bytes[of 0 w "ring_bytes TYPE('l)"] by (simp add: ring_write_def)
  moreover have "LENGTH('l) \<le> 8 * ring_bytes TYPE('l)" by (simp add: ring_bytes_def)
  ultimately show ?thesis
    by (simp add: take_bit_nat_eq_self_iff order_less_le_trans[OF unsigned_less])
qed

definition ex_field_layout :: "mersenne layout" where
  "ex_field_layout = \<lparr>elem_size = 16, to_raw = \<lambda>x. ring_write (of_nat (nat (Rep_bit1 x)) :: 128 word),
     from_raw = \<lambda>bs. of_nat (bytes_le bs)\<rparr>"

lemma ex_field_layout_lawful: "lawful_layout ex_field_layout"
proof -
  have "nat (Rep_bit1 x) < 2 ^ 128" for x :: mersenne
    using bit1.Rep_less_n[of x] Rep_bit1[of x] by simp
  then have "unat (of_nat (nat (Rep_bit1 x)) :: 128 word) = nat (Rep_bit1 x)" for x :: mersenne
    by (simp add: unat_of_nat take_bit_nat_eq_self unsigned_of_nat)
  moreover have "ring_write (0 :: 128 word) = replicate 16 0"
    by (simp add: ring_write_def ring_bytes_def map_replicate_const)
  moreover have "Rep_bit1 (0 :: mersenne) = 0" by (rule bit1.Rep_0)
  ultimately show ?thesis
    by (auto simp: lawful_layout_def ex_field_layout_def bytes_le_ring_write bit1_of_nat_Rep length_ring_write ring_bytes_def
        intro!: exI[of _ 0])
qed

definition ex_byte_layout :: "8 word layout" where
  "ex_byte_layout = \<lparr>elem_size = 1, to_raw = \<lambda>w. [w], from_raw = hd\<rparr>"

lemma ex_byte_layout_lawful: "lawful_layout ex_byte_layout"
  by (simp add: lawful_layout_def ex_byte_layout_def)

definition ex_seek_ring :: "('l::len word, bytes \<times> nat, wire) ring_env" where
  "ex_seek_ring = \<lparr>rgen = \<lambda>r. let (bs, r) = fill_bytes ex_seek_rng 16 r in (of_nat (bytes_le bs), r),
     rcodec = rcodec ex_ring, r2codec = r2codec ex_ring, rv2codec = rv2codec ex_ring\<rparr>"

lemma ex_seek_ring_lawful: "lawful_ring ex_seek_ring"
  unfolding lawful_ring_def[of ex_seek_ring] by (simp add: ex_seek_ring_def lawful_ringD[OF ex_ring_lawful])

subsection \<open>Properties\<close>

text \<open>
  (C30) From preprocessing to injection: the three parties generate a pool of \<open>num\<close> daBits, take
  \<open>m\<close> of them, save the pool to disk and load it again, take one daBit per bit to convert, and
  convert with \<open>bit_inject_field_preproc_many\<close>.  As long as the pool is large enough this
  succeeds and gives sharings of the bits as field elements.  The field must be at least 121 bits wide
  (the code reads 16 bytes per element), and the streams shorter than \<open>2 ^ 64\<close> bytes.
\<close>

theorem dabit_pool_injects_bits:
  fixes E :: "('f::comm_ring_1, 'r, bytes, 'w) env"
  assumes "lawful_net E" "lawful_seek (rngop E) S" "lawful_layout L" "lawful_codec cb"
    and "121 \<le> modulus_bit_size (fld E)" "modulus_bit_size (fld E) < 2 ^ 32" "num * (1 + 2 * field_bytes_of (fld E)) < 2 ^ 64"
    and "rbits x bs" "m + length bs \<le> num"
  shows "mpc (\<lambda>i. qbind (random_dabits_lazy E S num) (\<lambda>d.
      qbind (lift_result (dabits_take_batch (rngop E) S L (fs i) d m)) (\<lambda>(_, d, fs).
      qbind (lift_result (dabits_save L fs d (dir i))) (\<lambda>(_, fs).
      qbind (lift_result (dabits_load L fs (dir i) i)) (\<lambda>d.
      qbind (lift_result (dabits_take_batch (rngop E) S L fs d (length bs))) (\<lambda>(batch, _, _).
      bit_inject_field_preproc_many cb (x i) batch)))))) (\<lambda>z. ashares z (map of_bool bs))"
proof (rule mpc_bind, rule mpc_random_dabits_lazy[OF assms(1-3) _ assms(7)])
  show fb: "16 \<le> field_bytes_of (fld E)" using assms(5) by (simp add: field_bytes_of_def)
  fix s :: "PartyID \<Rightarrow> bytes" and D :: "PartyID \<Rightarrow> 'f LazyDaBits"
  assume seeds: "\<And>i. length (s i) = SEED_SIZE"
    and inv: "\<And>fs. dabits_inv (rngop E) L s (field_bytes_of (fld E)) num 0 fs D"
  have "0 + m \<le> num" using assms(9) by simp
  from dabits_take_batch_inv[OF assms(2) inv this] obtain B1 D1 fs1 where
    1: "\<And>i. dabits_take_batch (rngop E) S L (fs i) (D i) m = Inr (B1 i, D1 i, fs1 i)"
      "dabits_inv (rngop E) L s (field_bytes_of (fld E)) num (0 + m) fs1 D1" by blast
  have "field_bytes_of (fld E) < 2 ^ 32" using assms(6) by (simp add: field_bytes_of_def)
  from dabits_reload_inv[OF 1(2) seeds this] obtain fs2 D2 D3 where
    2: "\<And>i. dabits_save L (fs1 i) (D1 i) (dir i) = Inr (D2 i, fs2 i)" "\<And>i. dabits_load L (fs2 i) (dir i) i = Inr (D3 i)"
      "dabits_inv (rngop E) L s (field_bytes_of (fld E)) num (0 + m) fs2 D3" by blast
  have "0 + m + length bs \<le> num" using assms(9) by simp
  from dabits_take_batch_inv[OF assms(2) 2(3) this] obtain B4 D4 fs4 where
    4: "\<And>i. dabits_take_batch (rngop E) S L (fs2 i) (D3 i) (length bs) = Inr (B4 i, D4 i, fs4 i)" "dabit_batch (length bs) B4" by blast
  show "mpc (\<lambda>i. qbind (lift_result (dabits_take_batch (rngop E) S L (fs i) (D i) m)) (\<lambda>(_, d, fs).
      qbind (lift_result (dabits_save L fs d (dir i))) (\<lambda>(_, fs).
      qbind (lift_result (dabits_load L fs (dir i) i)) (\<lambda>d.
      qbind (lift_result (dabits_take_batch (rngop E) S L fs d (length bs))) (\<lambda>(batch, _, _).
      bit_inject_field_preproc_many cb (x i) batch))))) (\<lambda>z. ashares z (map of_bool bs))"
    by (simp add: 1(1) 2(1,2) 4(1)) (rule mpc_bit_inject_field_preproc_many[OF assms(4,8) 4(2)])
qed

theorem dabit_pool_injects_bits_witness:
  "mpc (\<lambda>i. qbind (random_dabits_lazy ex_preproc_env ex_seek 5) (\<lambda>d.
      qbind (lift_result (dabits_take_batch ex_seek_rng ex_seek ex_field_layout (\<lambda>_. None) d 3)) (\<lambda>(_, d, fs).
      qbind (lift_result (dabits_save ex_field_layout fs d ''dir'')) (\<lambda>(_, fs).
      qbind (lift_result (dabits_load ex_field_layout fs ''dir'' i)) (\<lambda>d.
      qbind (lift_result (dabits_take_batch ex_seek_rng ex_seek ex_field_layout fs d 2)) (\<lambda>(batch, _, _).
      bit_inject_field_preproc_many ex_byte_codec [dealt 1 1 1 i, dealt 1 1 0 i] batch)))))) (\<lambda>z. ashares z [1, 0])"
proof -
  have x: "bshares (\<lambda>i. [dealt 1 1 1 i, dealt 1 1 0 i]) (map of_bool [True, False] :: 1 word list)"
    using dealt_list(1)[OF dealt_bshare[of "1 :: 1 word" 1 1 1] dealt_list(1)[OF dealt_bshare[of "1 :: 1 word" 1 0 0] dealt_list(2)]]
    by simp
  have E: "rngop ex_preproc_env = ex_seek_rng" "modulus_bit_size (fld ex_preproc_env) = 127" "field_bytes_of (fld ex_preproc_env) = 16"
    by (simp_all add: ex_preproc_env_def ex_mersenne_def field_bytes_of_def)
  from dabit_pool_injects_bits[OF ex_preproc_lawful(1) _ ex_field_layout_lawful ex_preproc_lawful(2) _ _ _ x,
      of ex_seek 5 3 "\<lambda>_ _. None" "\<lambda>_. ''dir''"] ex_seek_lawful
  show ?thesis by (simp add: E flip: numeral_2_eq_2)
qed

text \<open>
  (C31) The same for the rings: the parties generate a pool of \<open>num\<close> edaBits, take \<open>m\<close> of them and
  then one per element, and \<open>b2a_many_selector\<close> turns exclusive-or shares into sums, in preprocessed
  mode with the batch and in online mode with the Kogge-Stone circuit.
\<close>

theorem edabit_pool_converts:
  fixes x :: "PartyID \<Rightarrow> 'l::len word share list"
  assumes "lawful_ring T" "lawful_seek R S" "lawful_layout L" "num * ring_stride TYPE('l) < 2 ^ 64"
    and "bshares x us" "LENGTH('l) = 2 ^ d" "m + length us \<le> num"
  shows "mpc (\<lambda>i. qbind (random_edabits_ring_lazy T R S num) (\<lambda>p.
      qbind (lift_result (edabits_ring_take_batch R S L (fs i) p m)) (\<lambda>(_, p, fs).
      qbind (lift_result (edabits_ring_take_batch R S L fs p (length us))) (\<lambda>(batch, _, _).
      ring_b2a_many_selector T (x i) (Some batch))))) (\<lambda>z. ashares z us)"
proof (rule mpc_bind, rule mpc_random_edabits_ring_lazy[OF assms(1-4)])
  fix s :: "PartyID \<Rightarrow> bytes" and D :: "PartyID \<Rightarrow> 'l word LazyEdaBitsRing"
  assume inv: "\<And>fs. edabits_ring_inv R L s num 0 fs D"
  have "0 + m \<le> num" using assms(7) by simp
  from edabits_ring_take_batch_inv[OF assms(2) inv this] obtain B1 D1 fs1 where
    1: "\<And>i. edabits_ring_take_batch R S L (fs i) (D i) m = Inr (B1 i, D1 i, fs1 i)"
      "edabits_ring_inv R L s num (0 + m) fs1 D1" by blast
  have "0 + m + length us \<le> num" using assms(7) by simp
  from edabits_ring_take_batch_inv[OF assms(2) 1(2) this] obtain B2 D2 fs2 where
    2: "\<And>i. edabits_ring_take_batch R S L (fs1 i) (D1 i) (length us) = Inr (B2 i, D2 i, fs2 i)"
      "edabits_ring_batch (length us) B2" by blast
  show "mpc (\<lambda>i. qbind (lift_result (edabits_ring_take_batch R S L (fs i) (D i) m)) (\<lambda>(_, p, fs).
      qbind (lift_result (edabits_ring_take_batch R S L fs p (length us))) (\<lambda>(batch, _, _).
      ring_b2a_many_selector T (x i) (Some batch)))) (\<lambda>z. ashares z us)"
    by (simp add: 1(1) 2(1)) (rule mpc_ring_b2a_many_selector[OF assms(1,5,6) 2(2)])
qed

theorem edabit_pool_converts_witness:
  "mpc (\<lambda>i. qbind (random_edabits_ring_lazy ex_seek_ring ex_seek_rng ex_seek 4) (\<lambda>p.
      qbind (lift_result (edabits_ring_take_batch ex_seek_rng ex_seek ex_byte_layout (\<lambda>_. None) p 2)) (\<lambda>(_, p, fs).
      qbind (lift_result (edabits_ring_take_batch ex_seek_rng ex_seek ex_byte_layout fs p 1)) (\<lambda>(batch, _, _).
      ring_b2a_many_selector ex_seek_ring [dealt 5 3 1 i] (Some batch))))) (\<lambda>z. ashares z [7 :: 8 word])"
proof -
  have x: "bshares (\<lambda>i. [dealt 5 3 1 i]) [7 :: 8 word]"
    using dealt_list(1)[OF dealt_bshare[of 5 3 1 "7 :: 8 word"] dealt_list(2)] by simp
  from edabit_pool_converts[OF ex_seek_ring_lawful ex_seek_lawful ex_byte_layout_lawful _ x, of 4 3 2 "\<lambda>_ _. None"]
  show ?thesis by (simp add: ring_stride_def size_of_ring_def)
qed

end
