(* ===== verification/Edabits_Runs.thy ===== *)
theory Edabits_Runs
  imports Edabits_Pool Preproc_Conversion
begin

text \<open>
  The life of an edaBit pool over the field: \<open>random_edabits_lazy\<close> starts three pools that satisfy
  the invariant, the batches of the three parties at one place are edaBits, and every run of a
  pool, made of batches, reserved ranges, caches and restarts, hands out the tuples of the streams
  one after the other.
\<close>

subsection \<open>Generation\<close>

lemma edabits_alpha2_stream:
  assumes fb: "16 \<le> fb"
  shows "edabits_alpha2 fb num (map (keystream R (s ID0)) [0..<num * eb_stride TYPE('l) fb])
     (map (keystream R (s ID2)) [0..<num * size_of_ring TYPE('l)]) TYPE('l::len) =
   Inr (concat (map (\<lambda>k. map (\<lambda>j. eb_alpha2 R fb TYPE('l) s k j :: 'f::comm_ring_1) [0..<LENGTH('l)]) [0..<num]))"
proof -
  let ?w = "eb_stride TYPE('l) fb" and ?t = "size_of_ring TYPE('l)"
  have tw: "?t \<le> ?w" by (simp add: eb_stride_def)
  have gamma: "ring_from_le_bytes (slice_at (map (keystream R (s ID0)) [0..<num * ?w]) (i * ?w) ?t) XOR
      ring_from_le_bytes (slice_at (map (keystream R (s ID2)) [0..<num * ?t]) (i * ?t) ?t) = (eb_gamma R fb s i :: 'l word)"
    if "i < num" for i
    using gamma_at_stream[where ?'l = 'l and c = 0, OF that refl tw] gamma_at_stream[where ?'l = 'l and c = 0, OF that refl le_refl]
    by (simp add: eb_gamma_def)
  have alpha: "parse_field (map (keystream R (s ID0)) [0..<num * ?w]) (i * ?w + ?t + j * fb) = Inr (eb_alpha1 R fb TYPE('l) s i j :: 'f)"
    if "i < num" "j < LENGTH('l)" for i j
    using eb_stride_bounds[OF that fb] parse_field_stream[where off = 0] by (simp add: eb_alpha1_def)
  have bit: "(ring_shr x j AND 1 = 1) = bit x j" for x :: "'l word" and j
    by (simp add: ring_shifts and_one_eq mod2_eq_if bit_iff_odd_drop_bit)
  have "rmap (\<lambda>i. let base = i * ?w;
        gamma = (ring_from_le_bytes (slice_at (map (keystream R (s ID0)) [0..<num * ?w]) base ?t) XOR
                 ring_from_le_bytes (slice_at (map (keystream R (s ID2)) [0..<num * ?t]) (i * ?t) ?t) :: 'l word)
      in rmap (\<lambda>j. rbind (parse_field (map (keystream R (s ID0)) [0..<num * ?w]) (base + ?t + j * fb)) (\<lambda>alpha_1.
           let gamma_bit = (ring_shr gamma j AND 1 = 1) in Inr (of_bool gamma_bit - alpha_1))) [0..<LENGTH('l)]) [0..<num] =
    Inr (map (\<lambda>k. map (\<lambda>j. eb_alpha2 R fb TYPE('l) s k j :: 'f) [0..<LENGTH('l)]) [0..<num])"
    unfolding Let_def by (intro rmap_Inr) (simp add: gamma alpha bit eb_alpha2_def rmap_Inr)
  then show ?thesis by (simp add: edabits_alpha2_def Let_def)
qed

text \<open>Generation gives every party a pool that satisfies the invariant.\<close>

lemma mpc_random_edabits_lazy:
  fixes E :: "('f::comm_ring_1, 'r, bytes, 'w) env"
  assumes net: "lawful_net E" and seek: "lawful_seek (rngop E) S" and L: "lawful_layout L"
    and fb: "fb = field_bytes_of (fld E)" "16 \<le> fb" and fits: "num * eb_stride TYPE('l) fb < 2 ^ 64"
    and Q: "\<And>s D. (\<And>i. length (s i) = SEED_SIZE) \<Longrightarrow>
      (\<And>i fs dir. fs (precache_meta_path TYPE('l) dir) = None \<Longrightarrow> pool_ok (rngop E) L G fb s num dir 0 i fs (D i)) \<Longrightarrow> Q D"
  shows "mpc (\<lambda>i. random_edabits_lazy E S num :: ('w, 'r, ('l::len word, 'f) LazyEdaBits) prog) Q"
proof (cases "num = 0")
  case True
  have "Q (edabits_empty (fld E))"
  proof (rule Q[of "\<lambda>i. replicate SEED_SIZE 0"])
    show "pool_ok (rngop E) L G fb (\<lambda>i. replicate SEED_SIZE 0) num dir 0 i fs (edabits_empty (fld E) i)"
      if "fs (precache_meta_path TYPE('l) dir) = None" for fs i dir
      using True L fb that by (simp add: pool_ok_def party_ok_def edabits_empty_def edabits_new_with_store_def pool_files_apart_def files_apart_def
          stores_apart_def extension_seeds_def authoritative_ok_def cache_ok_def store_ok_def store_elems_def holds_alphas_def
          disk_cache_removed in_dir_def meta_in_def)
  qed simp
  with True show ?thesis unfolding random_edabits_lazy_def by (intro mpc_bind mpc_get_id) (simp add: mpc_ret)
next
  case False
  let ?R = "rngop E"
  have fill: "fst (fill_bytes ?R n (rand_rng1 (rep3_rand_new ?R x y))) = map (keystream ?R x) [0..<n]"
      "fst (fill_bytes ?R n (rand_rng2 (rep3_rand_new ?R x y))) = map (keystream ?R y) [0..<n]" for n x y
    using lawful_seekD(4)[OF seek] by (simp_all add: rep3_rand_new_def)
  let ?alpha2 = "\<lambda>s. concat (map (\<lambda>k. map (\<lambda>j. eb_alpha2 ?R fb TYPE('l) s k j :: 'f) [0..<LENGTH('l)]) [0..<num])"
  let ?new = "\<lambda>s i. edabits_new (fld E) (s i) 0 (s (prev_id i)) 0 num (if i = ID2 then ?alpha2 s else []) i :: ('l word, 'f) LazyEdaBits"
  have generated: "Q (?new s)" if "\<And>i. \<exists>r. s i = fst (gen_seed ?R r)" for s
  proof (rule Q[of s])
    show "length (s i) = SEED_SIZE" for i using that[of i] lawful_seekD(1)[OF seek] by auto
    have "party_ok ?R L G fb s num 0 i fs (?new s i)" for fs i
      using fits L fb False
      by (simp add: party_ok_def edabits_new_def edabits_new_with_store_def pool_files_apart_def files_apart_def stores_apart_def
          extension_seeds_def authoritative_ok_def cache_ok_def store_from_vec_def store_ok_def store_elems_def store_is_empty_def
          store_len_def holds_alphas_def nth_concat_rows eb_summand_def) auto
    then show "pool_ok ?R L G fb s num dir 0 i fs (?new s i)" if "fs (precache_meta_path TYPE('l) dir) = None" for fs i dir
      using that by (simp add: pool_ok_def disk_cache_removed in_dir_def meta_in_def edabits_new_def edabits_new_with_store_def store_from_vec_def)
  qed
  have body: "mpc (\<lambda>i. qbind (if i = ID0 then send_many (fcodec E) ID2 (?alpha2 s) else qret ()) (\<lambda>_.
      qbind (if i = ID2 then recv_many (fcodec E) ID0 else qret []) (\<lambda>alpha2_flat.
      qret (edabits_new (fld E) (s i) 0 (s (prev_id i)) 0 num alpha2_flat i)))) Q" if "\<And>i. \<exists>r. s i = fst (gen_seed ?R r)" for s
    using net by (intro mpc_one_to_one mpc_ret generated that) simp
  show ?thesis unfolding random_edabits_lazy_def if_not_P[OF False] Let_def
  proof (intro mpc_bind mpc_get_id mpc_rand_fork, goal_cases)
    case (1 s)
    show ?case
      by (rule mpc_cong[OF body[of s, OF 1]]) (simp add: snapshot_new[OF seek] fill edabits_alpha2_stream fb(2) flip: fb(1))
  qed
qed

subsection \<open>Batches are edaBits\<close>

text \<open>The summands of parties 1 and 2 add up to the bits of the number of party 0.\<close>

definition edabit_batch :: "nat \<Rightarrow> (PartyID \<Rightarrow> ('l::len word, 'f::comm_ring_1) EdaBitsBatch) \<Rightarrow> bool" where
  "edabit_batch n B \<longleftrightarrow> length (eb_gammas (B ID0)) = n \<and> (\<forall>i. length (eb_alphas_flat (B i)) = n * LENGTH('l)) \<and>
     (\<forall>k j. k < n \<longrightarrow> j < LENGTH('l) \<longrightarrow>
        eb_alphas_flat (B ID1) ! (k * LENGTH('l) + j) + eb_alphas_flat (B ID2) ! (k * LENGTH('l) + j) =
        of_bool (bit (eb_gammas (B ID0) ! k) j))"

lemma batch_at_edabits: "edabit_batch n (\<lambda>i. batch_at R fb s i c n)"
  by (simp add: edabit_batch_def batch_at_def alphas_at_nth eb_summand_def eb_alpha2_def gammas_at_def)

subsection \<open>Runs of a pool\<close>

text \<open>The consecutive views of a reserved range, as the workers read them.\<close>

primrec fill_views ::
  "(bytes, 'r) rng_ops \<Rightarrow> 'r seek_ops \<Rightarrow> 'f::comm_ring_1 layout \<Rightarrow> 'l::len word layout \<Rightarrow> fs \<Rightarrow>
   ('l word, 'f) EdaBitsReservation \<Rightarrow> nat \<Rightarrow> nat list \<Rightarrow> io_error + ('l word, 'f) EdaBitsBatch list" where
  "fill_views R S L G fs r start [] = Inr []"
| "fill_views R S L G fs r start (len # lens) =
     rbind (fill_into_par_safe R S L G fs (range_view r start len)) (\<lambda>B.
     rbind (fill_views R S L G fs r (start + len) lens) (\<lambda>Bs. Inr (B # Bs)))"

text \<open>One operation on the pool of a party, with the batches it hands out: a batch, a reserved range
  that is read through views and then finalised, a cache, a restart of the process.\<close>

inductive pool_step ::
  "(bytes, 'r) rng_ops \<Rightarrow> 'r seek_ops \<Rightarrow> 'f::comm_ring_1 layout \<Rightarrow> 'l::len word layout \<Rightarrow> string \<Rightarrow>
   fs \<times> ('l word, 'f) LazyEdaBits \<Rightarrow> ('l word, 'f) EdaBitsBatch list \<Rightarrow> fs \<times> ('l word, 'f) LazyEdaBits \<Rightarrow> bool"
  for R S L G dir where
  step_take: "edabits_take_batch R S L G fs d n = Inr (B, d', fs') \<Longrightarrow> pool_step R S L G dir (fs, d) [B] (fs', d')"
| step_reserve: "reserve_range d (sum_list lens) = Inr r \<Longrightarrow> fill_views R S L G fs r 0 lens = Inr Bs \<Longrightarrow>
    finalize_reserved_range L G fs d (resv_range r) = (d', fs') \<Longrightarrow> pool_step R S L G dir (fs, d) Bs (fs', d')"
| step_cache: "prepare_precache R S L G fs d dir n = Inr (d', fs') \<Longrightarrow> pool_step R S L G dir (fs, d) [] (fs', d')"
| step_restart: "edabits_save L fs d dir = Inr (d1, fs1) \<Longrightarrow> edabits_load L G fs1 dir (eb_party_id d) = Inr (d', fs') \<Longrightarrow>
    pool_step R S L G dir (fs, d) [] (fs', d')"

inductive pool_runs ::
  "(bytes, 'r) rng_ops \<Rightarrow> 'r seek_ops \<Rightarrow> 'f::comm_ring_1 layout \<Rightarrow> 'l::len word layout \<Rightarrow> string \<Rightarrow>
   fs \<times> ('l word, 'f) LazyEdaBits \<Rightarrow> ('l word, 'f) EdaBitsBatch list \<Rightarrow> fs \<times> ('l word, 'f) LazyEdaBits \<Rightarrow> bool"
  for R S L G dir where
  run_nil: "pool_runs R S L G dir \<sigma> [] \<sigma>"
| run_step: "pool_runs R S L G dir \<sigma> Bs \<sigma>' \<Longrightarrow> pool_step R S L G dir \<sigma>' Bs' \<sigma>'' \<Longrightarrow> pool_runs R S L G dir \<sigma> (Bs @ Bs') \<sigma>''"

text \<open>The batches are the tuples from \<open>c\<close> up to \<open>c'\<close>, each of them once.\<close>

definition hands_out ::
  "(bytes, 'r) rng_ops \<Rightarrow> nat \<Rightarrow> (PartyID \<Rightarrow> bytes) \<Rightarrow> PartyID \<Rightarrow> nat \<Rightarrow> nat \<Rightarrow> ('l::len word, 'f::comm_ring_1) EdaBitsBatch list \<Rightarrow> bool" where
  "hands_out R fb s i c c' Bs \<longleftrightarrow> c \<le> c' \<and> concat (map eb_gammas Bs) = gammas_at R fb s i c (c' - c) \<and>
     concat (map eb_alphas_flat Bs) = alphas_at R fb TYPE('l) s i c (c' - c)"

lemma hands_out_simps [simp]:
  "hands_out R fb s i c c ([] :: ('l::len word, 'f::comm_ring_1) EdaBitsBatch list)"
  "hands_out R fb s i c (c + n) [batch_at R fb s i c n :: ('l word, 'f) EdaBitsBatch]"
  by (simp_all add: hands_out_def batch_at_def gammas_at_def alphas_at_def)

lemma hands_out_append:
  assumes "hands_out R fb s i c c' Bs" "hands_out R fb s i c' c'' (Bs' :: ('l::len word, 'f::comm_ring_1) EdaBitsBatch list)"
  shows "hands_out R fb s i c c'' (Bs @ Bs')"
proof -
  obtain m n where "c' = c + m" "c'' = c + m + n" using assms le_Suc_ex unfolding hands_out_def by metis
  with assms show ?thesis by (simp add: hands_out_def add.assoc gammas_at_append alphas_at_append)
qed

subsection \<open>Every operation keeps the invariant\<close>

text \<open>The files an operation may write: the header and the stores.\<close>

definition pool_file :: "('e, 'f) LazyEdaBits \<Rightarrow> string \<Rightarrow> bool" where
  "pool_file d p \<longleftrightarrow> eb_meta_path d = Some p \<or> (\<exists>n off. eb_alphas d = FileBacked p n off) \<or> (\<exists>n off. eb_gamma_store d = FileBacked p n off)"

lemma persist_other: "eb_meta_path d \<noteq> Some p \<Longrightarrow> edabits_persist_cursor fs d p = fs p"
  by (auto simp: edabits_persist_cursor_def persist_cursor_def update_cursor_def file_write_all_at_def split: option.splits sum.splits)

lemma take_store_other:
  assumes "take_store_range_into L fs st a b n = Inr (xs, fs')" "\<And>m off. st \<noteq> FileBacked p m off"
  shows "fs' p = fs p"
  using assms consume_other[of st p L fs a b] by (auto simp: take_store_range_into_def rbind_def split: sum.splits)

lemma or_panic_Inr [simp]: "or_panic r = Inr x \<longleftrightarrow> r = Inr x"
  by (simp add: or_panic_def split: sum.splits)

lemma rbind_InrE:
  assumes "rbind r f = Inr y" obtains x where "r = Inr x" "f x = Inr y"
  using assms by (cases r) auto

lemma take_batch_other:
  assumes "edabits_take_batch R S L G fs d n = Inr (B, d', fs')" "\<not> pool_file d p"
  shows "fs' p = fs p"
proof -
  have no: "eb_meta_path d \<noteq> Some p" "\<And>n off. eb_alphas d \<noteq> FileBacked p n off" "\<And>n off. eb_gamma_store d \<noteq> FileBacked p n off"
    using assms(2) by (auto simp: pool_file_def)
  have A: "fs2 p = fs1 p" if "take_store_range_into L fs1 (eb_alphas d) x y m = Inr (xs, fs2)" for fs1 fs2 x y m xs
    using take_store_other[OF that] no(2) by blast
  have G: "fs2 p = fs1 p" if "take_store_range_into G fs1 (eb_gamma_store d) x y m = Inr (xs, fs2)" for fs1 fs2 x y m xs
    using take_store_other[OF that] no(3) by blast
  have cache: "fs1 p = fs p" if "fill_precache_into L G fs d c n sc = Inr (k, sc', fs1)" for c sc k sc' fs1
    using that unfolding fill_precache_into_def
    by (auto simp: Let_def split: EdaBitsStorageMode.splits if_splits PartyID.splits elim!: rbind_InrE dest!: A G)
  have auth: "fs1 p = fs p" if "fill_p2_store_into L fs d c n sc = Inr (sc', fs1)" for c sc sc' fs1
    using that unfolding fill_p2_store_into_def by (auto simp: Let_def elim!: rbind_InrE dest!: A)
  show ?thesis
    using assms(1) no(1) unfolding edabits_take_batch_def
    by (auto simp: Let_def persist_other cache auth split: if_splits elim!: rbind_InrE)
qed

lemma finalize_other:
  assumes "finalize_reserved_range L G fs d rr = (d', fs')" "\<not> pool_file d p"
  shows "fs' p = fs p"
  using assms by (auto simp: finalize_reserved_range_def Let_def pool_file_def persist_other consume_other split: option.splits)

lemma pool_ok_advance:
  fixes d :: "('l::len word, 'f::comm_ring_1) LazyEdaBits"
  assumes pool: "pool_ok R L G fb s num dir c i fs d" and ok: "party_ok R L G fb s num (c + n) i fs' (d\<lparr>eb_cursor := c + n\<rparr>)"
    and frame: "\<And>p. \<not> pool_file d p \<Longrightarrow> fs' p = fs p" and zero: "\<And>p. n = 0 \<Longrightarrow> i \<noteq> ID2 \<Longrightarrow> eb_meta_path d \<noteq> Some p \<Longrightarrow> fs' p = fs p"
  shows "pool_ok R L G fb s num dir (c + n) i fs' (d\<lparr>eb_cursor := c + n\<rparr>)"
proof (cases "i = ID2")
  case True
  then show ?thesis using pool ok by (simp add: pool_ok_def)
next
  case False
  let ?d = "d\<lparr>eb_cursor := c + n\<rparr>" and ?M = "precache_meta_path TYPE('l) dir"
  have c: "eb_cursor d = c" and meta: "meta_in TYPE('l) dir (eb_meta_path d)" and dir: "in_dir dir d"
      and disk: "disk_cache_ok R L G fb s num dir fs d"
    using pool False party_okD(4) by (auto simp: pool_ok_def)
  have matches: "precache_meta_matches ?d m a b = precache_meta_matches d m a b" for m a b by (simp add: precache_meta_matches_def)
  have "p = edabits_path TYPE('l) dir ''.meta'' \<or> p = precache_alpha_path TYPE('l) dir \<or> p = precache_gamma_path TYPE('l) dir"
    if "pool_file d p" for p
    using that meta dir by (auto simp: pool_file_def meta_in_def in_dir_def)
  from this[of ?M] have "\<not> pool_file d ?M" by (auto simp: precache_paths)
  then have read: "read_precache_meta fs' ?M = read_precache_meta fs ?M" using frame by (simp add: read_precache_meta_def)
  have "disk_cache_ok R L G fb s num dir fs' ?d"
  proof (cases "n = 0")
    case True
    have "fs' p = fs p" if "p = precache_alpha_path TYPE('l) dir \<or> p = precache_gamma_path TYPE('l) dir" for p
      using that meta by (intro zero[OF True False]) (auto simp: meta_in_def precache_paths)
    then show ?thesis using disk True c unfolding disk_cache_ok_def read matches by (simp, blast)
  next
    case False
    then show ?thesis using disk c unfolding disk_cache_ok_def read matches by fastforce
  qed
  then show ?thesis using ok meta dir by (simp add: pool_ok_def in_dir_def)
qed

text \<open>A view that succeeds gives the tuples of its range.\<close>

lemma view_correct:
  fixes d :: "('l::len word, 'f::comm_ring_1) LazyEdaBits"
  assumes seek: "lawful_seek R S" and ok: "party_ok R L G fb s num c i fs d" and r: "reserve_range d n = Inr r"
    and sub: "start + len \<le> n" and fill: "fill_into_par_safe R S L G fs (range_view r start len) = Inr B"
  shows "B = batch_at R fb s i (c + start) len"
proof -
  have n: "c + n \<le> num" using r party_okD(3,4)[OF ok] by (auto simp: reserve_range_def split: if_splits)
  consider "len = 0" | "\<And>e. cache_end d = Some e \<Longrightarrow> c + start \<le> e" | e where "cache_end d = Some e" "e < c + start" "0 < len"
    by (meson not_less zero_less_iff_neq_zero)
  then show ?thesis
  proof cases
    case 1
    then show ?thesis using fill by (simp add: fill_into_par_safe_def range_view_def zero_scratch_def batch_at_def gammas_at_def alphas_at_def)
  next
    case 2
    then show ?thesis using reserve_fill[OF seek ok n sub] r fill by fastforce
  next
    case 3
    then obtain st ln where mode: "eb_mode d = P01Precache st ln" "0 < ln" "st + ln < c + start"
      by (auto simp: cache_end_def split: EdaBitsStorageMode.splits if_splits)
    have "i \<noteq> ID2" using party_okD(10)[OF ok] mode(1) by (auto simp: authoritative_ok_def)
    from fill_behind_cache[OF ok this n sub 3(3) mode, of S] r fill show ?thesis by auto
  qed
qed

lemma views_correct:
  fixes d :: "('l::len word, 'f::comm_ring_1) LazyEdaBits"
  assumes seek: "lawful_seek R S" and ok: "party_ok R L G fb s num c i fs d" and r: "reserve_range d n = Inr r"
  shows "start + sum_list lens \<le> n \<Longrightarrow> fill_views R S L G fs r start lens = Inr Bs \<Longrightarrow>
    hands_out R fb s i (c + start) (c + start + sum_list lens) Bs"
proof (induction lens arbitrary: start Bs)
  case (Cons len lens)
  from Cons.prems(2) obtain B Bs' where Bs: "fill_into_par_safe R S L G fs (range_view r start len) = Inr B"
      "fill_views R S L G fs r (start + len) lens = Inr Bs'" "Bs = B # Bs'"
    by (auto elim!: rbind_InrE)
  have "B = batch_at R fb s i (c + start) len" using view_correct[OF seek ok r _ Bs(1)] Cons.prems(1) by simp
  then have "hands_out R fb s i (c + start) (c + start + len) [B]" by simp
  moreover have "hands_out R fb s i (c + start + len) (c + start + len + sum_list lens) Bs'"
    using Cons.IH[OF _ Bs(2)] Cons.prems(1) by (simp add: add.assoc)
  ultimately show ?case using hands_out_append[of R fb s i "c + start" "c + start + len" "[B]"] by (simp add: Bs(3) add.assoc)
qed simp

lemma reserve_none:
  assumes "cache_ok R L G fb s num fs0 d" "reserve_range d 0 = Inr r" "finalize_reserved_range L G fs d (resv_range r) = (d', fs')"
    and "eb_meta_path d \<noteq> Some p"
  shows "fs' p = fs p"
proof -
  have "rr_alpha_consume (resv_range r) = None" "rr_gamma_consume (resv_range r) = None"
    using assms(1,2) by (auto simp: reserve_range_def cache_ok_def Let_def split: if_splits EdaBitsStorageMode.splits)
  with assms(3,4) show ?thesis by (auto simp: finalize_reserved_range_def Let_def persist_other)
qed

lemma pool_ok_cursor: "pool_ok R L G fb s num dir c i fs d \<Longrightarrow> eb_cursor d = c"
  unfolding pool_ok_def by (blast dest: party_okD(4))

lemma pool_step_ok:
  fixes d :: "('l::len word, 'f::comm_ring_1) LazyEdaBits"
  assumes env: "lawful_seek R S" "lawful_layout L" "lawful_layout G" "\<And>i. length (s i) = SEED_SIZE" "fb < 2 ^ 32"
    and pool: "pool_ok R L G fb s num dir c i fs d" and step: "pool_step R S L G dir (fs, d) Bs (fs', d')"
  shows "\<exists>c'. pool_ok R L G fb s num dir c' i fs' d' \<and> hands_out R fb s i c c' Bs"
proof -
  have ok: "party_ok R L G fb s num c i fs d" using pool by (simp add: pool_ok_def)
  note D = party_okD[OF ok]
  from step show ?thesis
  proof cases
    case (step_take n B)
    then have n: "c + n \<le> num" using D(3,4) by (auto simp: edabits_take_batch_def split: if_splits)
    from take_batch_party[OF env(1) ok n] step_take
    have B: "B = batch_at R fb s i c n" "d' = d\<lparr>eb_cursor := c + n\<rparr>" "party_ok R L G fb s num (c + n) i fs' d'" by auto
    have "fs' p = fs p" if "n = 0" for p using step_take that n D(3,4) by (simp add: edabits_take_batch_def)
    with pool_ok_advance[OF pool B(3)[unfolded B(2)]] take_batch_other[OF step_take(2)]
    have "pool_ok R L G fb s num dir (c + n) i fs' d'" unfolding B(2) by blast
    with B(1) step_take(1) show ?thesis by auto
  next
    case (step_reserve lens r)
    then have n: "c + sum_list lens \<le> num" using D(3,4) by (auto simp: reserve_range_def split: if_splits)
    from finalize_ok[OF ok n step_reserve(1)] step_reserve(3)
    have B: "d' = d\<lparr>eb_cursor := c + sum_list lens\<rparr>" "party_ok R L G fb s num (c + sum_list lens) i fs' d'" by auto
    have "fs' p = fs p" if "sum_list lens = 0" "i \<noteq> ID2" "eb_meta_path d \<noteq> Some p" for p
      by (rule reserve_none[OF D(11)[OF that(2)] step_reserve(1)[unfolded that(1)] step_reserve(3) that(3)])
    with pool_ok_advance[OF pool B(2)[unfolded B(1)]] finalize_other[OF step_reserve(3)]
    have "pool_ok R L G fb s num dir (c + sum_list lens) i fs' d'" unfolding B(1) by blast
    with views_correct[OF env(1) ok step_reserve(1) _ step_reserve(2)] show ?thesis by auto
  next
    case (step_cache n)
    then have "i = ID2 \<or> c = num \<or> n = 0 \<or> c + n \<le> num"
      using D(2-4,7) by (auto simp: prepare_precache_def edabits_remaining_def split: if_splits)
    with step_cache prepare_precache_ok[OF env pool this] show ?thesis by auto
  next
    case (step_restart d1 fs1)
    with edabits_reload_ok[OF env(2,3) pool env(4,5)] D(2) show ?thesis by auto
  qed
qed

subsection \<open>Properties\<close>

text \<open>(C26) Whatever a party does with its edaBit pool over the field, batches, reserved ranges read
  through any views, caches written to disk and restarts from disk in any order, the batches it is
  handed are, one after the other, the tuples of the generator's streams from the cursor on: none
  is given out twice, none is skipped, and whether a tuple was regenerated, read from the cache or
  from the store of party 2 makes no difference.\<close>

theorem edabit_pool_runs_correct:
  fixes d :: "('l::len word, 'f::comm_ring_1) LazyEdaBits"
  assumes "lawful_seek R S" "lawful_layout L" "lawful_layout G" "\<And>i. length (s i) = SEED_SIZE" "fb < 2 ^ 32"
    and "pool_ok R L G fb s num dir c i fs d" and "pool_runs R S L G dir (fs, d) Bs (fs', d')"
  shows "pool_ok R L G fb s num dir (eb_cursor d') i fs' d' \<and> hands_out R fb s i c (eb_cursor d') Bs"
proof -
  have "pool_ok R L G fb s num dir (eb_cursor d') i fs' d' \<and> hands_out R fb s i c (eb_cursor d') Bs"
    if "pool_runs R S L G dir \<sigma> Bs \<sigma>'" "\<sigma> = (fs, d)" "\<sigma>' = (fs', d')" for \<sigma> \<sigma>' Bs fs' and d' :: "('l word, 'f) LazyEdaBits"
    using that
  proof (induction arbitrary: fs' d')
    case (run_nil \<sigma>)
    then show ?case using assms(6) pool_ok_cursor[OF assms(6)] by simp
  next
    case (run_step \<sigma> Bs \<sigma>' Bs' \<sigma>'')
    obtain fs1 d1 where \<sigma>': "\<sigma>' = (fs1, d1)" by (cases \<sigma>')
    from run_step.IH[OF run_step.prems(1) \<sigma>']
    have IH: "pool_ok R L G fb s num dir (eb_cursor d1) i fs1 d1" "hands_out R fb s i c (eb_cursor d1) Bs" by auto
    from pool_step_ok[OF assms(1-5) IH(1), of Bs' fs' d'] run_step.hyps(2) \<sigma>' run_step.prems(2)
    obtain c' where c': "pool_ok R L G fb s num dir c' i fs' d'" "hands_out R fb s i (eb_cursor d1) c' Bs'" by blast
    then have "c' = eb_cursor d'" using pool_ok_cursor[OF c'(1)] by simp
    then show ?case using c' hands_out_append[OF IH(2)] by blast
  qed
  then show ?thesis using assms(7) by blast
qed

text \<open>A pool of party 1 over the ring of bytes: a cache of one tuple, then a batch of two.\<close>

definition ex_edabits :: "nat \<Rightarrow> PartyID \<Rightarrow> (8 word, mersenne) LazyEdaBits" where
  "ex_edabits num i = edabits_new ex_mersenne (replicate SEED_SIZE 0) 0 (replicate SEED_SIZE 0) 0 num [] i"

lemma ex_edabits_ok:
  "i \<noteq> ID2 \<Longrightarrow> num < 100 \<Longrightarrow>
     pool_ok ex_seek_rng ex_field_layout ex_byte_layout 16 (\<lambda>i. replicate SEED_SIZE 0) num dir 0 i Map.empty (ex_edabits num i)"
  by (simp add: pool_ok_def party_ok_def ex_edabits_def edabits_new_def edabits_new_with_store_def extension_seeds_def field_bytes_of_def
      ex_mersenne_def pool_files_apart_def files_apart_def stores_apart_def cache_ok_def meta_in_def in_dir_def store_from_vec_def
      eb_stride_def size_of_ring_def disk_cache_removed split: PartyID.splits)

theorem edabit_pool_runs_correct_witness:
  "\<exists>Bs fs' d'. pool_runs ex_seek_rng ex_seek ex_field_layout ex_byte_layout ''d'' (Map.empty, ex_edabits 2 ID1) Bs (fs', d') \<and>
     eb_cursor d' = 2 \<and> hands_out ex_seek_rng 16 (\<lambda>i. replicate SEED_SIZE 0) ID1 0 2 Bs"
proof -
  let ?s = "\<lambda>i::PartyID. replicate SEED_SIZE (0 :: 8 word)"
  note env = ex_seek_lawful ex_field_layout_lawful ex_byte_layout_lawful
  have seeds: "length (?s i) = SEED_SIZE" for i by simp
  have fb: "(16 :: nat) < 2 ^ 32" by simp
  from prepare_precache_ok[OF env seeds fb ex_edabits_ok[of ID1 2 "''d''"], of 1]
  obtain d1 fs1 where one: "prepare_precache ex_seek_rng ex_seek ex_field_layout ex_byte_layout Map.empty (ex_edabits 2 ID1) ''d'' 1 = Inr (d1, fs1)"
      "pool_ok ex_seek_rng ex_field_layout ex_byte_layout 16 ?s 2 ''d'' 0 ID1 fs1 d1" by auto
  from take_batch_party[OF env(1), of ex_field_layout ex_byte_layout 16 ?s 2 0 ID1 fs1 d1 2] one(2)
  obtain fs2 where two: "edabits_take_batch ex_seek_rng ex_seek ex_field_layout ex_byte_layout fs1 d1 2 =
      Inr (batch_at ex_seek_rng 16 ?s ID1 0 2, d1\<lparr>eb_cursor := 2\<rparr>, fs2)" by (auto simp: pool_ok_def)
  from run_step[OF run_step[OF run_nil step_cache[OF one(1)]] step_take[OF two]]
  have run: "pool_runs ex_seek_rng ex_seek ex_field_layout ex_byte_layout ''d'' (Map.empty, ex_edabits 2 ID1)
      [batch_at ex_seek_rng 16 ?s ID1 0 2] (fs2, d1\<lparr>eb_cursor := 2\<rparr>)" by simp
  have "hands_out ex_seek_rng 16 ?s ID1 0 (eb_cursor (d1\<lparr>eb_cursor := 2\<rparr>)) [batch_at ex_seek_rng 16 ?s ID1 0 2 :: (8 word, mersenne) EdaBitsBatch]"
    by (rule conjunct2[OF edabit_pool_runs_correct[OF env seeds fb ex_edabits_ok run]]) simp_all
  then show ?thesis
    by (intro exI[of _ "[batch_at ex_seek_rng 16 ?s ID1 0 2]"] exI[of _ fs2] exI[of _ "d1\<lparr>eb_cursor := 2\<rparr>"] conjI run) simp_all
qed

text \<open>(C27) A view of a reserved range gives the tuples of its range, unless it starts behind the end
  of the cache of parties 0 and 1: then the length of the cached part wraps around and the read
  fails, although the tuples could be regenerated.\<close>

theorem reserved_view_exact:
  fixes d :: "('l::len word, 'f::comm_ring_1) LazyEdaBits"
  assumes "lawful_seek R S" and ok: "party_ok R L G fb s num c i fs d" and n: "c + n \<le> num" and sub: "start + len \<le> n" "0 < len"
  shows "\<exists>r. reserve_range d n = Inr r \<and>
    (if \<exists>e. cache_end d = Some e \<and> e < c + start
     then \<exists>x. fill_into_par_safe R S L G fs (range_view r start len) = Inl x
     else fill_into_par_safe R S L G fs (range_view r start len) = Inr (batch_at R fb s i (c + start) len))"
proof (cases "\<exists>e. cache_end d = Some e \<and> e < c + start")
  case True
  then obtain st ln where mode: "eb_mode d = P01Precache st ln" "0 < ln" "st + ln < c + start"
    by (auto simp: cache_end_def split: EdaBitsStorageMode.splits if_splits)
  have "i \<noteq> ID2" using party_okD(10)[OF ok] mode(1) by (auto simp: authoritative_ok_def)
  from fill_behind_cache[OF ok this n sub mode, of S] True show ?thesis by auto
next
  case False
  then have "\<And>e. cache_end d = Some e \<Longrightarrow> c + start \<le> e" by (simp add: not_less)
  from reserve_fill[OF assms(1) ok n sub(1) this] show ?thesis unfolding if_not_P[OF False] by blast
qed

text \<open>Three tuples are reserved, one of them is cached: the view of the last one fails.\<close>

theorem reserved_view_exact_witness:
  "\<exists>d fs r x. prepare_precache ex_seek_rng ex_seek ex_field_layout ex_byte_layout Map.empty (ex_edabits 3 ID1) ''d'' 1 = Inr (d, fs) \<and>
     reserve_range d 3 = Inr r \<and> fill_into_par_safe ex_seek_rng ex_seek ex_field_layout ex_byte_layout fs (range_view r 2 1) = Inl x"
proof -
  let ?s = "\<lambda>i::PartyID. replicate SEED_SIZE (0 :: 8 word)" and ?d = "ex_edabits 3 ID1"
  note env = ex_seek_lawful ex_field_layout_lawful ex_byte_layout_lawful
  have seeds: "length (?s i) = SEED_SIZE" for i by simp
  have fb: "(16 :: nat) < 2 ^ 32" by simp
  have pool: "pool_ok ex_seek_rng ex_field_layout ex_byte_layout 16 ?s 3 ''d'' 0 ID1 Map.empty ?d" by (rule ex_edabits_ok) simp_all
  then have ok: "party_ok ex_seek_rng ex_field_layout ex_byte_layout 16 ?s 3 0 ID1 Map.empty ?d" by (simp add: pool_ok_def)
  have "\<not> has_matching_precache ?d 1"
    by (simp add: has_matching_precache_def ex_edabits_def edabits_new_def edabits_new_with_store_def edabits_remaining_def)
  from prepare_precache_fresh[OF env ok _ _ _ this, of "''d''"]
  obtain d fs where run: "prepare_precache ex_seek_rng ex_seek ex_field_layout ex_byte_layout Map.empty ?d ''d'' 1 = Inr (d, fs)"
      "eb_mode d = P01Precache 0 1" by auto
  from prepare_precache_ok[OF env seeds fb pool, of 1] run(1)
  have "party_ok ex_seek_rng ex_field_layout ex_byte_layout 16 ?s 3 0 ID1 fs d" by (auto simp: pool_ok_def)
  from reserved_view_exact[OF env(1) this, of 3 2 1] run show ?thesis by (auto simp: cache_end_def)
qed

end
