(* ===== verification/Preproc_Casts.thy ===== *)
theory Preproc_Casts
  imports Edabits_Runs
begin

text \<open>
  The conversion of exclusive-or shares over a ring into field elements with edaBits
  (\<open>r2f_b2a_preproc_many\<close> and its variants, \<open>rep3_ring/casts.rs\<close>), and its composition with the pool.
\<close>

subsection \<open>Operations\<close>

text \<open>The scratch buffers that survive a call: the result and the powers of two.\<close>

record 'f R2fB2aScratch =
  sc_out :: "'f share list"
  sc_pow2 :: "'f list"

definition ensure_pow2 :: "nat \<Rightarrow> 'f::comm_ring_1 R2fB2aScratch \<Rightarrow> 'f R2fB2aScratch" where
  "ensure_pow2 k scratch = (if length (sc_pow2 scratch) = k then scratch else scratch\<lparr>sc_pow2 := ring_pow2s k\<rparr>)"

definition r2f_b2a_preproc_many_into ::
  "('f::comm_ring_1, 'r, 's, 'w) env \<Rightarrow> ('l::len word, 'r, 'w) ring_env \<Rightarrow> 'l ring_share list \<Rightarrow> ('l word, 'f) EdaBitsBatch \<Rightarrow>
   'f R2fB2aScratch \<Rightarrow> ('w, 'r, 'f R2fB2aScratch) prog" where
  "r2f_b2a_preproc_many_into E T x_binary batch scratch =
     (let n = length x_binary; scratch = scratch\<lparr>sc_out := []\<rparr>
      in if n = 0 then qret scratch
      else let scratch = ensure_pow2 LENGTH('l) scratch
      in qbind get_id (\<lambda>i.
        qbind (if i = ID0
          then let ms = map2 (\<lambda>x gamma. sh_a x XOR sh_b x XOR gamma) x_binary (eb_gammas batch)
               in qbind (send_many (rcodec T) ID1 ms) (\<lambda>_. qbind (send_many (rcodec T) ID2 ms) (\<lambda>_. qret ms))
          else recv_many (rcodec T) ID0) (\<lambda>ms.
        qbind (qmap (\<lambda>_. with_rand (masking_field_element (fld E))) [0..<n]) (\<lambda>maskings.
        qbind (lift_result (rmap (\<lambda>(idx, (m, x), z). preproc_s_self (\<lambda>b. of_nat (unat b)) (sc_pow2 scratch) i (eb_alphas_flat batch) idx m x z)
                 (enumerate 0 (zip (zip ms x_binary) maskings)))) (\<lambda>s_selfs.
        qbind (reshare_many (fcodec E) s_selfs) (\<lambda>s_prevs.
        qret (scratch\<lparr>sc_out := map2 Share s_selfs s_prevs\<rparr>)))))))"

definition r2f_b2a_preproc_many ::
  "('f::comm_ring_1, 'r, 's, 'w) env \<Rightarrow> ('l::len word, 'r, 'w) ring_env \<Rightarrow> 'l ring_share list \<Rightarrow> ('l word, 'f) EdaBitsBatch \<Rightarrow>
   ('w, 'r, 'f share list) prog" where
  "r2f_b2a_preproc_many E T x_binary batch =
     qbind (r2f_b2a_preproc_many_into E T x_binary batch \<lparr>sc_out = [], sc_pow2 = []\<rparr>) (\<lambda>scratch. qret (sc_out scratch))"

datatype ('e, 'f) EdaBits = EdaBits (gamma: 'e) (alphas: "'f list")

text \<open>\<open>remove(0)\<close> panics on an empty vector.\<close>

definition r2f_b2a_preproc ::
  "('f::comm_ring_1, 'r, 's, 'w) env \<Rightarrow> ('l::len word, 'r, 'w) ring_env \<Rightarrow> 'l ring_share \<Rightarrow> ('l word, 'f) EdaBits \<Rightarrow>
   ('w, 'r, 'f share) prog" where
  "r2f_b2a_preproc E T x_binary eda =
     qbind (r2f_b2a_preproc_many E T [x_binary] \<lparr>eb_gammas = [gamma eda], eb_alphas_flat = alphas eda\<rparr>) (\<lambda>out.
       case out of [] \<Rightarrow> qfail Panic | s # _ \<Rightarrow> qret s)"

definition r2f_b2a_many_selector ::
  "('f::comm_ring_1, 'r, 's, 'w) env \<Rightarrow> ('l::len word, 'r, 'w) ring_env \<Rightarrow> 'l ring_share list \<Rightarrow> ('l word, 'f) EdaBitsBatch option \<Rightarrow>
   ('w, 'r, 'f share list) prog" where
  "r2f_b2a_many_selector E T x_binary batch =
     qbind get_mpc_type (\<lambda>t. case t of
        Online \<Rightarrow> r2f_b2a_many E x_binary
      | Preprocessed \<Rightarrow> (case batch of None \<Rightarrow> qfail Panic | Some b \<Rightarrow> r2f_b2a_preproc_many E T x_binary b))"

subsection \<open>Correctness\<close>

text \<open>A scratch buffer may be reused: its powers of two are absent or those of the width.\<close>

definition scratch_ok :: "nat \<Rightarrow> 'f::comm_ring_1 R2fB2aScratch \<Rightarrow> bool" where
  "scratch_ok k scratch \<longleftrightarrow> sc_pow2 scratch = [] \<or> sc_pow2 scratch = ring_pow2s k"

lemma ensure_pow2_ok:
  assumes "scratch_ok k scratch" "0 < k"
  shows "ensure_pow2 k scratch = scratch\<lparr>sc_pow2 := ring_pow2s k\<rparr>"
  using assms by (auto simp: ensure_pow2_def scratch_ok_def ring_pow2s)

lemma mpc_r2f_b2a_preproc_many_into:
  fixes x :: "PartyID \<Rightarrow> 'l::len word share list" and E :: "('f::comm_ring_1, 'r, 's, 'w) env"
  assumes E: "lawful_net E" and T: "lawful_ring T" and x: "bshares x us" and B: "edabit_batch (length us) B"
    and sc: "\<And>i. scratch_ok LENGTH('l) (sc i)"
    and Q: "\<And>z. ashares (\<lambda>i. sc_out (z i)) (map (\<lambda>u. of_nat (unat u)) us) \<Longrightarrow> (\<And>i. scratch_ok LENGTH('l) (z i)) \<Longrightarrow> Q z"
  shows "mpc (\<lambda>i. r2f_b2a_preproc_many_into E T (x i) (B i) (sc i)) Q"
proof (cases "us = []")
  case True
  then have "x i = []" for i using vec_shared_byD(1)[OF x, of i] by simp
  with True sc Q[of "\<lambda>i. (sc i)\<lparr>sc_out := []\<rparr>"] show ?thesis
    by (simp add: r2f_b2a_preproc_many_into_def mpc_ret scratch_ok_def)
next
  case False
  have len: "length (x i) = length us" for i using vec_shared_byD(1)[OF x, of i] by simp
  have ne: "length us \<noteq> 0" using False by simp
  have pow2: "ensure_pow2 LENGTH('l) (sc i\<lparr>sc_out := []\<rparr>) = sc i\<lparr>sc_out := [], sc_pow2 := ring_pow2s LENGTH('l)\<rparr>" for i
    using ensure_pow2_ok[of "LENGTH('l)" "sc i\<lparr>sc_out := []\<rparr>"] sc[of i] by (simp add: scratch_ok_def)
  have B': "length (eb_gammas (B ID0)) = length us" "\<And>i. length (eb_alphas_flat (B i)) = length us * LENGTH('l)"
      "\<And>k j. k < length us \<Longrightarrow> j < LENGTH('l) \<Longrightarrow> eb_alphas_flat (B ID1) ! (k * LENGTH('l) + j) + eb_alphas_flat (B ID2) ! (k * LENGTH('l) + j) =
        of_bool (bit (eb_gammas (B ID0) ! k) j)"
    using B by (simp_all add: edabit_batch_def)
  have codecs: "lawful_codec (rcodec T)" "lawful_codec (fcodec E)" using E T by simp_all
  have fin: "mpc (\<lambda>i. qret (sc i\<lparr>sc_out := z i, sc_pow2 := ring_pow2s LENGTH('l)\<rparr>)) Q"
    if "ashares z (map (\<lambda>u. of_nat (unat u)) us)" for z
    using that Q by (simp add: mpc_ret scratch_ok_def)
  note body = mpc_preproc_rounds[where g = "\<lambda>i. eb_gammas (B i)" and al = "\<lambda>i. eb_alphas_flat (B i)" and emb = "\<lambda>b. of_nat (unat b)"
      and gen = "f_rand (fld E)" and cont = "\<lambda>i out. qret (sc i\<lparr>sc_out := out, sc_pow2 := ring_pow2s LENGTH('l)\<rparr>)",
      OF codecs x refl B' refl fin]
  have upd: "sc_pow2 (sc i\<lparr>sc_out := [], sc_pow2 := p\<rparr>) = p" "sc i\<lparr>sc_out := [], sc_pow2 := p, sc_out := z\<rparr> = sc i\<lparr>sc_out := z, sc_pow2 := p\<rparr>" for i p z
    by simp_all
  show ?thesis
    unfolding r2f_b2a_preproc_many_into_def len Let_def if_not_P[OF ne] draws_draw2 pow2 upd
    by (rule mpc_bind, rule mpc_get_id, rule mpc_cong[OF body]) simp_all
qed

lemma mpc_r2f_b2a_preproc_many:
  fixes x :: "PartyID \<Rightarrow> 'l::len word share list" and E :: "('f::comm_ring_1, 'r, 's, 'w) env"
  assumes "lawful_net E" "lawful_ring T" "bshares x us" "edabit_batch (length us) B"
    and Q: "\<And>z. ashares z (map (\<lambda>u. of_nat (unat u)) us) \<Longrightarrow> Q z"
  shows "mpc (\<lambda>i. r2f_b2a_preproc_many E T (x i) (B i)) Q"
  unfolding r2f_b2a_preproc_many_def
  by (rule mpc_bind, rule mpc_r2f_b2a_preproc_many_into[OF assms(1-4)]) (simp_all add: scratch_ok_def mpc_ret Q)

lemma mpc_r2f_b2a_preproc:
  fixes x :: "PartyID \<Rightarrow> 'l::len word share" and E :: "('f::comm_ring_1, 'r, 's, 'w) env"
  assumes "lawful_net E" "lawful_ring T" and x: "bshare x u"
    and B: "edabit_batch 1 (\<lambda>i. \<lparr>eb_gammas = [gamma (e i)], eb_alphas_flat = alphas (e i)\<rparr>)"
    and Q: "\<And>z. ashare z (of_nat (unat u)) \<Longrightarrow> Q z"
  shows "mpc (\<lambda>i. r2f_b2a_preproc E T (x i) (e i)) Q"
  unfolding r2f_b2a_preproc_def
proof (rule mpc_bind, rule mpc_r2f_b2a_preproc_many[OF assms(1,2)])
  show "bshares (\<lambda>i. [x i]) [u]" using x by (simp add: vec_shared_by_def)
  show "edabit_batch (length [u]) (\<lambda>i. \<lparr>eb_gammas = [gamma (e i)], eb_alphas_flat = alphas (e i)\<rparr>)" using B by simp
  fix z :: "PartyID \<Rightarrow> 'f share list" assume z: "ashares z (map (\<lambda>u. of_nat (unat u)) [u])"
  then have hd: "z i = [z i ! 0]" for i using vec_shared_byD(1)[OF z, of i] by (auto simp: length_Suc_conv)
  have "ashare (\<lambda>i. z i ! 0) (of_nat (unat u))" using vec_shared_byD(2)[OF z, of 0] by simp
  from Q[OF this] show "mpc (\<lambda>i. case z i of [] \<Rightarrow> qfail Panic | s # _ \<Rightarrow> qret s) Q"
    by (subst hd) (simp add: mpc_ret)
qed

lemma mpc_r2f_b2a_many_selector:
  fixes x :: "PartyID \<Rightarrow> 'l::len word share list" and E :: "('f::comm_ring_1, 'r, 's, 'w) env"
  assumes "lawful_net E" "lawful_field (fld E)" "lawful_ring T" "bshares x us" "\<forall>u \<in> set us. unat u < modulus (fld E)"
    and "edabit_batch (length us) B" and Q: "\<And>z. ashares z (map (\<lambda>u. of_nat (unat u)) us) \<Longrightarrow> Q z"
  shows "mpc (\<lambda>i. r2f_b2a_many_selector E T (x i) (Some (B i))) Q"
  unfolding r2f_b2a_many_selector_def
proof (intro mpc_bind mpc_get_mpc_type)
  show "mpc (\<lambda>i. case t of Online \<Rightarrow> r2f_b2a_many E (x i)
      | Preprocessed \<Rightarrow> (case Some (B i) of None \<Rightarrow> qfail Panic | Some b \<Rightarrow> r2f_b2a_preproc_many E T (x i) b)) Q" for t
    using mpc_r2f_b2a_many[OF assms(1,2,4,5) Q] mpc_r2f_b2a_preproc_many[OF assms(1,3,4,6) Q] by (cases t) simp_all
qed

subsection \<open>Pool and conversion\<close>

text \<open>Two codecs over one wire.\<close>

definition left_codec :: "('a, 'v) codec \<Rightarrow> ('a, 'v + 'w) codec" where
  "left_codec c = \<lparr>ser = \<lambda>xs. map_option Inl (ser c xs), deser = \<lambda>w. case w of Inl v \<Rightarrow> deser c v | Inr _ \<Rightarrow> None\<rparr>"

definition right_codec :: "('a, 'w) codec \<Rightarrow> ('a, 'v + 'w) codec" where
  "right_codec c = \<lparr>ser = \<lambda>xs. map_option Inr (ser c xs), deser = \<lambda>w. case w of Inr v \<Rightarrow> deser c v | Inl _ \<Rightarrow> None\<rparr>"

lemma sum_codecs_lawful:
  assumes "lawful_codec c"
  shows "lawful_codec (left_codec c)" "lawful_codec (right_codec c)"
proof -
  from lawful_codec_wires[OF assms] obtain w where "\<And>xs. ser c xs = Some (w xs)" "\<And>xs. deser c (w xs) = Some xs" by blast
  then show "lawful_codec (left_codec c)" "lawful_codec (right_codec c)"
    by (simp_all add: lawful_codec_def left_codec_def right_codec_def)
qed

definition ex_both_env :: "(mersenne, bytes \<times> nat, bytes, pwire + wire) env" where
  "ex_both_env = \<lparr>fld = ex_mersenne, rngop = ex_seek_rng, fcodec = left_codec (fcodec ex_preproc_env),
     bcodec = left_codec (bcodec ex_preproc_env), bvcodec = left_codec (bvcodec ex_preproc_env),
     b2codec = left_codec (b2codec ex_preproc_env), bv2codec = left_codec (bv2codec ex_preproc_env)\<rparr>"

definition ex_both_ring :: "('l::len word, bytes \<times> nat, pwire + wire) ring_env" where
  "ex_both_ring = \<lparr>rgen = rgen ex_seek_ring, rcodec = right_codec (rcodec ex_seek_ring),
     r2codec = right_codec (r2codec ex_seek_ring), rv2codec = right_codec (rv2codec ex_seek_ring)\<rparr>"

lemma ex_both_lawful: "lawful_net ex_both_env" "lawful_ring ex_both_ring"
  unfolding lawful_net_def[of ex_both_env] lawful_ring_def[of ex_both_ring]
  by (simp_all add: ex_both_env_def ex_both_ring_def sum_codecs_lawful lawful_netD[OF ex_preproc_lawful(1)] lawful_ringD[OF ex_seek_ring_lawful])

text \<open>What one party does with its pool before the conversion.\<close>

lemma pool_prepared:
  fixes d :: "('l::len word, 'f::comm_ring_1) LazyEdaBits"
  assumes env: "lawful_seek R S" "lawful_layout L" "lawful_layout G" "\<And>i. length (s i) = SEED_SIZE" "fb < 2 ^ 32"
    and pool: "pool_ok R L G fb s num dir 0 i fs d" and req: "req \<le> num" "m + n \<le> num"
  shows "\<exists>d1 fs1 d2 fs2 d3 fs3 B d4 fs4 d5 fs5. prepare_precache R S L G fs d dir req = Inr (d1, fs1) \<and>
    edabits_save L fs1 d1 dir = Inr (d2, fs2) \<and> edabits_load L G fs2 dir i = Inr (d3, fs3) \<and>
    edabits_take_batch R S L G fs3 d3 m = Inr (B, d4, fs4) \<and>
    edabits_take_batch R S L G fs4 d4 n = Inr (batch_at R fb s i m n, d5, fs5)"
proof -
  obtain d1 fs1 where 1: "prepare_precache R S L G fs d dir req = Inr (d1, fs1)" "pool_ok R L G fb s num dir 0 i fs1 d1"
    using prepare_precache_ok[OF env pool, of req] req by auto
  obtain d2 fs2 d3 fs3 where 2: "edabits_save L fs1 d1 dir = Inr (d2, fs2)" "edabits_load L G fs2 dir i = Inr (d3, fs3)"
      "party_ok R L G fb s num 0 i fs3 d3"
    using edabits_reload_ok[OF env(2,3) 1(2) env(4,5)] by (auto simp: pool_ok_def)
  obtain fs4 where 3: "edabits_take_batch R S L G fs3 d3 m = Inr (batch_at R fb s i 0 m, d3\<lparr>eb_cursor := 0 + m\<rparr>, fs4)"
      "party_ok R L G fb s num (0 + m) i fs4 (d3\<lparr>eb_cursor := 0 + m\<rparr>)"
    using take_batch_party[OF env(1) 2(3), of m] req by auto
  have "0 + m + n \<le> num" using req by simp
  from take_batch_party[OF env(1) 3(2) this] 1 2 3 show ?thesis by auto
qed

text \<open>
  (C25) The parties generate a pool of \<open>num\<close> edaBits over the field, parties 0 and 1 cache any number of
  tuples on disk, every party restarts from disk, they skip \<open>m\<close> tuples and take one per element:
  \<open>r2f_b2a_preproc_many\<close> then turns exclusive-or shares of ring elements into replicated shares of
  the same numbers over the field.
\<close>

theorem edabit_pool_to_field:
  fixes x :: "PartyID \<Rightarrow> 'l::len word share list" and E :: "('f::comm_ring_1, 'r, bytes, 'w) env"
  assumes env: "lawful_net E" "lawful_ring T" "lawful_seek (rngop E) S" "lawful_layout L" "lawful_layout G"
    and fb: "fb = field_bytes_of (fld E)" "16 \<le> fb" "fb < 2 ^ 32" "num * eb_stride TYPE('l) fb < 2 ^ 64"
    and fresh: "\<And>i. fs i (precache_meta_path TYPE('l) dir) = None" and req: "\<And>i. req i \<le> num"
    and x: "bshares x us" "m + length us \<le> num"
  shows "mpc (\<lambda>i. qbind (random_edabits_lazy E S num) (\<lambda>p.
      qbind (lift_result (prepare_precache (rngop E) S L G (fs i) p dir (req i))) (\<lambda>(p, fs).
      qbind (lift_result (edabits_save L fs p dir)) (\<lambda>(p, fs).
      qbind (lift_result (edabits_load L G fs dir i)) (\<lambda>(p, fs).
      qbind (lift_result (edabits_take_batch (rngop E) S L G fs p m)) (\<lambda>(_, p, fs).
      qbind (lift_result (edabits_take_batch (rngop E) S L G fs p (length us))) (\<lambda>(batch, _, _).
      r2f_b2a_preproc_many E T (x i) batch)))))))
    (\<lambda>z. ashares z (map (\<lambda>u. of_nat (unat u)) us))"
proof (rule mpc_bind, rule mpc_random_edabits_lazy[OF env(1,3,4) fb(1,2,4)])
  fix s :: "PartyID \<Rightarrow> bytes" and D :: "PartyID \<Rightarrow> ('l word, 'f) LazyEdaBits"
  assume seeds: "\<And>i. length (s i) = SEED_SIZE"
    and pool: "\<And>i fs dir. fs (precache_meta_path TYPE('l) dir) = None \<Longrightarrow> pool_ok (rngop E) L G fb s num dir 0 i fs (D i)"
  show "mpc (\<lambda>i. qbind (lift_result (prepare_precache (rngop E) S L G (fs i) (D i) dir (req i))) (\<lambda>(p, fs).
      qbind (lift_result (edabits_save L fs p dir)) (\<lambda>(p, fs).
      qbind (lift_result (edabits_load L G fs dir i)) (\<lambda>(p, fs).
      qbind (lift_result (edabits_take_batch (rngop E) S L G fs p m)) (\<lambda>(_, p, fs).
      qbind (lift_result (edabits_take_batch (rngop E) S L G fs p (length us))) (\<lambda>(batch, _, _).
      r2f_b2a_preproc_many E T (x i) batch)))))) (\<lambda>z. ashares z (map (\<lambda>u. of_nat (unat u)) us))"
  proof (rule mpc_cong[OF mpc_r2f_b2a_preproc_many[OF env(1,2) x(1) batch_at_edabits[of _ "rngop E" fb s m]]])
    fix i
    from pool_prepared[OF env(3-5) seeds fb(3) pool[of "fs i" dir i, OF fresh] req[of i] x(2)]
    show "qbind (lift_result (prepare_precache (rngop E) S L G (fs i) (D i) dir (req i))) (\<lambda>(p, fs).
      qbind (lift_result (edabits_save L fs p dir)) (\<lambda>(p, fs).
      qbind (lift_result (edabits_load L G fs dir i)) (\<lambda>(p, fs).
      qbind (lift_result (edabits_take_batch (rngop E) S L G fs p m)) (\<lambda>(_, p, fs).
      qbind (lift_result (edabits_take_batch (rngop E) S L G fs p (length us))) (\<lambda>(batch, _, _).
      r2f_b2a_preproc_many E T (x i) batch))))) = r2f_b2a_preproc_many E T (x i) (batch_at (rngop E) fb s i m (length us))"
      by (elim exE conjE) simp
  qed
qed

theorem edabit_pool_to_field_witness:
  "mpc (\<lambda>i. qbind (random_edabits_lazy ex_both_env ex_seek 4) (\<lambda>p.
      qbind (lift_result (prepare_precache ex_seek_rng ex_seek ex_field_layout ex_byte_layout Map.empty p ''d'' 3)) (\<lambda>(p, fs).
      qbind (lift_result (edabits_save ex_field_layout fs p ''d'')) (\<lambda>(p, fs).
      qbind (lift_result (edabits_load ex_field_layout ex_byte_layout fs ''d'' i)) (\<lambda>(p, fs).
      qbind (lift_result (edabits_take_batch ex_seek_rng ex_seek ex_field_layout ex_byte_layout fs p 2)) (\<lambda>(_, p, fs).
      qbind (lift_result (edabits_take_batch ex_seek_rng ex_seek ex_field_layout ex_byte_layout fs p 1)) (\<lambda>(batch, _, _).
      r2f_b2a_preproc_many ex_both_env ex_both_ring [dealt 5 3 1 i :: 8 ring_share] batch))))))) (\<lambda>z. ashares z [7])"
proof -
  have x: "bshares (\<lambda>i. [dealt 5 3 1 i]) [7 :: 8 word]"
    using dealt_list(1)[OF dealt_bshare[of 5 3 1 "7 :: 8 word"] dealt_list(2)] by simp
  have fb: "16 = field_bytes_of (fld ex_both_env)" by (simp add: ex_both_env_def ex_mersenne_def field_bytes_of_def)
  have R: "rngop ex_both_env = ex_seek_rng" by (simp add: ex_both_env_def)
  have fits: "4 * eb_stride TYPE(8) 16 < 2 ^ 64" by (simp add: eb_stride_def size_of_ring_def)
  have seven: "map (\<lambda>u. of_nat (unat u)) [7 :: 8 word] = [7 :: mersenne]" by simp
  show ?thesis
    by (rule edabit_pool_to_field[OF ex_both_lawful ex_seek_lawful[folded R] ex_field_layout_lawful ex_byte_layout_lawful fb _ _ fits _ _ x,
      of "\<lambda>_. Map.empty" "''d''" "\<lambda>_. 3" 2, unfolded R seven list.size One_nat_def[symmetric] add_0]) simp_all
qed

end
