(* ===== verification/Rv_Cpu.thy ===== *)
theory Rv_Cpu
  imports Prelude
begin

text \<open>
  The processor of the tracer, \<open>jolt-tracer/src/emulator/cpu.rs\<close>, as far as the register
  instructions see it, and the instructions that execute in one step: the native RISC-V
  instructions and the virtual instructions that the inline sequences are made of
  (\<open>jolt-tracer/src/instruction/*.rs\<close>, one definition \<open><name>_exec\<close> per file, the method
  \<open>exec\<close>).

  An \<open>i64\<close> or \<open>u64\<close> is a \<^typ>\<open>64 word\<close>; a cast is \<open>ucast\<close> (truncation, zero extension) or
  \<open>scast\<close> (sign extension).  The register file is an array of 128 entries whose indices come
  from five-bit instruction fields (below 32) and from the virtual register allocator (32 and
  above); it is a total function here, and \<open>sequence_registers\<close> (theory
  \<open>Rv_Refinement\<close>) shows that no sequence names a register outside the array.  A failed
  \<open>assert!\<close> or \<open>panic!\<close> is \<open>Inl Panic\<close>.  Arithmetic wraps, as it does in a release build.
\<close>

type_synonym reg = nat
type_synonym i64 = "64 word"

subsection \<open>The processor\<close>

datatype Xlen = Bit32 | Bit64

record Cpu =
  cpu_xlen :: Xlen
  cpu_x :: "reg \<Rightarrow> i64"
  unsigned_data_mask :: i64
  vr_allocator :: "bool list"

definition REGISTER_COUNT :: nat where
  "REGISTER_COUNT = 128"

definition RISCV_REGISTER_COUNT :: nat where
  "RISCV_REGISTER_COUNT = 32"

definition NUM_VIRTUAL_REGISTERS :: nat where
  "NUM_VIRTUAL_REGISTERS = 96"

definition NUM_VIRTUAL_INSTRUCTION_REGISTERS :: nat where
  "NUM_VIRTUAL_INSTRUCTION_REGISTERS = 16"

definition Cpu_new :: Cpu where
  "Cpu_new = \<lparr>cpu_xlen = Bit64, cpu_x = (\<lambda>_. 0), unsigned_data_mask = 0xffffffffffffffff,
     vr_allocator = replicate NUM_VIRTUAL_REGISTERS False\<rparr>"

definition update_xlen :: "Xlen \<Rightarrow> Cpu \<Rightarrow> Cpu" where
  "update_xlen xlen c = c\<lparr>cpu_xlen := xlen,
     unsigned_data_mask := (case xlen of Bit32 \<Rightarrow> 0xffffffff | Bit64 \<Rightarrow> 0xffffffffffffffff)\<rparr>"

text \<open>The cast \<open>as i32 as i64\<close>: keep the low half and extend its sign.\<close>

definition as_i32_as_i64 :: "i64 \<Rightarrow> i64" where
  "as_i32_as_i64 v = scast (ucast v :: 32 word)"

definition sign_extend :: "Cpu \<Rightarrow> i64 \<Rightarrow> i64" where
  "sign_extend c v = (case cpu_xlen c of Bit32 \<Rightarrow> as_i32_as_i64 v | Bit64 \<Rightarrow> v)"

definition unsigned_data :: "Cpu \<Rightarrow> i64 \<Rightarrow> i64" where
  "unsigned_data c v = v AND unsigned_data_mask c"

text \<open>\<open>i32::MIN\<close> and \<open>i64::MIN\<close>: only the top bit is set.\<close>

definition int_min :: "'a::len word" where
  "int_min = push_bit (LENGTH('a) - 1) 1"

definition most_negative :: "Cpu \<Rightarrow> i64" where
  "most_negative c = (case cpu_xlen c of Bit32 \<Rightarrow> scast (int_min :: 32 word) | Bit64 \<Rightarrow> int_min)"

definition normalize_imm :: "i64 \<Rightarrow> Xlen \<Rightarrow> i64" where
  "normalize_imm imm xlen = (case xlen of Bit32 \<Rightarrow> as_i32_as_i64 imm | Bit64 \<Rightarrow> imm)"

definition set_x :: "reg \<Rightarrow> i64 \<Rightarrow> Cpu \<Rightarrow> Cpu" where
  "set_x rd v c = c\<lparr>cpu_x := (cpu_x c)(rd := v)\<rparr>"

subsection \<open>Virtual registers\<close>

text \<open>
  \<open>VirtualRegisterAllocator::allocate\<close>: the first free entry of the part reserved for
  instruction sequences.  The guard it returns frees the entry when the function that builds a
  sequence returns, so the builders below pass the grown table on and drop it at their end.
\<close>

definition allocate :: "bool list \<Rightarrow> io_error + reg \<times> bool list" where
  "allocate allocated =
     (case filter (\<lambda>i. \<not> allocated ! i) [0..<min NUM_VIRTUAL_INSTRUCTION_REGISTERS (length allocated)] of
        [] \<Rightarrow> Inl Panic
      | i # _ \<Rightarrow> Inr (i + RISCV_REGISTER_COUNT, allocated[i := True]))"

subsection \<open>Shifts\<close>

text \<open>\<open>trailing_zeros\<close> (64 for zero) and the shifts that take the amount modulo 64.\<close>

definition trailing_zeros :: "i64 \<Rightarrow> nat" where
  "trailing_zeros v = length (takeWhile (\<lambda>i. \<not> bit v i) [0..<64])"

definition i64_wrapping_shr :: "i64 \<Rightarrow> nat \<Rightarrow> i64" where
  "i64_wrapping_shr v n = signed_drop_bit (n mod 64) v"

definition u64_wrapping_shr :: "i64 \<Rightarrow> nat \<Rightarrow> i64" where
  "u64_wrapping_shr v n = drop_bit (n mod 64) v"

definition i64_wrapping_shl :: "i64 \<Rightarrow> nat \<Rightarrow> i64" where
  "i64_wrapping_shl v n = push_bit (n mod 64) v"

subsection \<open>Native instructions\<close>

definition ADD_exec :: "reg \<Rightarrow> reg \<Rightarrow> reg \<Rightarrow> Cpu \<Rightarrow> Cpu" where
  "ADD_exec rd rs1 rs2 c = set_x rd (sign_extend c (cpu_x c rs1 + cpu_x c rs2)) c"

definition ADDI_exec :: "reg \<Rightarrow> reg \<Rightarrow> i64 \<Rightarrow> Cpu \<Rightarrow> Cpu" where
  "ADDI_exec rd rs1 imm c = set_x rd (sign_extend c (cpu_x c rs1 + normalize_imm imm (cpu_xlen c))) c"

definition SUB_exec :: "reg \<Rightarrow> reg \<Rightarrow> reg \<Rightarrow> Cpu \<Rightarrow> Cpu" where
  "SUB_exec rd rs1 rs2 c = set_x rd (sign_extend c (cpu_x c rs1 - cpu_x c rs2)) c"

definition XOR_exec :: "reg \<Rightarrow> reg \<Rightarrow> reg \<Rightarrow> Cpu \<Rightarrow> Cpu" where
  "XOR_exec rd rs1 rs2 c = set_x rd (sign_extend c (cpu_x c rs1 XOR cpu_x c rs2)) c"

definition ANDI_exec :: "reg \<Rightarrow> reg \<Rightarrow> i64 \<Rightarrow> Cpu \<Rightarrow> Cpu" where
  "ANDI_exec rd rs1 imm c = set_x rd (sign_extend c (cpu_x c rs1 AND normalize_imm imm (cpu_xlen c))) c"

definition ORI_exec :: "reg \<Rightarrow> reg \<Rightarrow> i64 \<Rightarrow> Cpu \<Rightarrow> Cpu" where
  "ORI_exec rd rs1 imm c = set_x rd (sign_extend c (cpu_x c rs1 OR normalize_imm imm (cpu_xlen c))) c"

definition SLTU_exec :: "reg \<Rightarrow> reg \<Rightarrow> reg \<Rightarrow> Cpu \<Rightarrow> Cpu" where
  "SLTU_exec rd rs1 rs2 c =
     set_x rd (if unsigned_data c (cpu_x c rs1) < unsigned_data c (cpu_x c rs2) then 1 else 0) c"

definition MUL_exec :: "reg \<Rightarrow> reg \<Rightarrow> reg \<Rightarrow> Cpu \<Rightarrow> Cpu" where
  "MUL_exec rd rs1 rs2 c = set_x rd (sign_extend c (cpu_x c rs1 * cpu_x c rs2)) c"

definition MULHU_exec :: "reg \<Rightarrow> reg \<Rightarrow> reg \<Rightarrow> Cpu \<Rightarrow> Cpu" where
  "MULHU_exec rd rs1 rs2 c = set_x rd
     (case cpu_xlen c of
        Bit32 \<Rightarrow> sign_extend c
          (drop_bit 32 (ucast (ucast (cpu_x c rs1) :: 32 word) * ucast (ucast (cpu_x c rs2) :: 32 word)))
      | Bit64 \<Rightarrow> ucast (drop_bit 64 (ucast (cpu_x c rs1) * ucast (cpu_x c rs2) :: 128 word))) c"

subsection \<open>Virtual instructions\<close>

definition VirtualMULI_exec :: "reg \<Rightarrow> reg \<Rightarrow> i64 \<Rightarrow> Cpu \<Rightarrow> Cpu" where
  "VirtualMULI_exec rd rs1 imm c = set_x rd (sign_extend c (cpu_x c rs1 * imm)) c"

definition VirtualPow2_exec :: "reg \<Rightarrow> reg \<Rightarrow> Cpu \<Rightarrow> Cpu" where
  "VirtualPow2_exec rd rs1 c = set_x rd
     (case cpu_xlen c of
        Bit32 \<Rightarrow> push_bit (unat (cpu_x c rs1) mod 32) 1
      | Bit64 \<Rightarrow> push_bit (unat (cpu_x c rs1) mod 64) 1) c"

definition VirtualPow2W_exec :: "reg \<Rightarrow> reg \<Rightarrow> Cpu \<Rightarrow> io_error + Cpu" where
  "VirtualPow2W_exec rd rs1 c =
     (case cpu_xlen c of
        Bit32 \<Rightarrow> Inl Panic
      | Bit64 \<Rightarrow> Inr (set_x rd (push_bit (unat (cpu_x c rs1) mod 32) 1) c))"

definition VirtualShiftRightBitmask_exec :: "reg \<Rightarrow> reg \<Rightarrow> Cpu \<Rightarrow> Cpu" where
  "VirtualShiftRightBitmask_exec rd rs1 c = set_x rd
     (case cpu_xlen c of
        Bit32 \<Rightarrow> let shift = unat (cpu_x c rs1 AND 0x1F); ones = push_bit (32 - shift) 1 - 1
                 in push_bit shift ones
      | Bit64 \<Rightarrow> let shift = unat (cpu_x c rs1 AND 0x3F); ones = push_bit (64 - shift) 1 - 1
                 in ucast (push_bit shift ones :: 128 word)) c"

definition VirtualSRL_exec :: "reg \<Rightarrow> reg \<Rightarrow> reg \<Rightarrow> Cpu \<Rightarrow> Cpu" where
  "VirtualSRL_exec rd rs1 rs2 c =
     (let shift = trailing_zeros (cpu_x c rs2)
      in set_x rd (sign_extend c (u64_wrapping_shr (unsigned_data c (cpu_x c rs1)) shift)) c)"

definition VirtualSRLI_exec :: "reg \<Rightarrow> reg \<Rightarrow> i64 \<Rightarrow> Cpu \<Rightarrow> Cpu" where
  "VirtualSRLI_exec rd rs1 imm c =
     (let shift = trailing_zeros imm
      in set_x rd (sign_extend c (u64_wrapping_shr (unsigned_data c (cpu_x c rs1)) shift)) c)"

definition VirtualSRA_exec :: "reg \<Rightarrow> reg \<Rightarrow> reg \<Rightarrow> Cpu \<Rightarrow> Cpu" where
  "VirtualSRA_exec rd rs1 rs2 c =
     (let shift = trailing_zeros (cpu_x c rs2)
      in set_x rd (sign_extend c (i64_wrapping_shr (cpu_x c rs1) shift)) c)"

definition VirtualSRAI_exec :: "reg \<Rightarrow> reg \<Rightarrow> i64 \<Rightarrow> Cpu \<Rightarrow> Cpu" where
  "VirtualSRAI_exec rd rs1 imm c =
     (let shift = trailing_zeros imm
      in set_x rd (sign_extend c (i64_wrapping_shr (cpu_x c rs1) shift)) c)"

definition VirtualMovsign_exec :: "reg \<Rightarrow> reg \<Rightarrow> Cpu \<Rightarrow> Cpu" where
  "VirtualMovsign_exec rd rs1 c =
     (let val = cpu_x c rs1
      in set_x rd
        (case cpu_xlen c of
           Bit32 \<Rightarrow> if val AND 0x80000000 \<noteq> 0 then 0xFFFFFFFF else 0
         | Bit64 \<Rightarrow> if val AND 0x8000000000000000 \<noteq> 0 then 0xFFFFFFFFFFFFFFFF else 0) c)"

definition VirtualSignExtendWord_exec :: "reg \<Rightarrow> reg \<Rightarrow> Cpu \<Rightarrow> io_error + Cpu" where
  "VirtualSignExtendWord_exec rd rs1 c =
     (case cpu_xlen c of
        Bit32 \<Rightarrow> Inl Panic
      | Bit64 \<Rightarrow> Inr (set_x rd (signed_drop_bit 32 (push_bit 32 (cpu_x c rs1))) c))"

definition VirtualZeroExtendWord_exec :: "reg \<Rightarrow> reg \<Rightarrow> Cpu \<Rightarrow> io_error + Cpu" where
  "VirtualZeroExtendWord_exec rd rs1 c =
     (case cpu_xlen c of
        Bit32 \<Rightarrow> Inl Panic
      | Bit64 \<Rightarrow> Inr (set_x rd (cpu_x c rs1 AND 0xFFFFFFFF) c))"

definition VirtualMove_exec :: "reg \<Rightarrow> reg \<Rightarrow> Cpu \<Rightarrow> Cpu" where
  "VirtualMove_exec rd rs1 c = set_x rd (cpu_x c rs1) c"

text \<open>
  The advice of a \<open>VirtualAdvice\<close> instruction is absent until the tracer fills it in; executing
  it without advice is the panic of \<open>advice_value\<close>.
\<close>

definition VirtualAdvice_exec :: "reg \<Rightarrow> i64 option \<Rightarrow> Cpu \<Rightarrow> io_error + Cpu" where
  "VirtualAdvice_exec rd advice c =
     (case advice of None \<Rightarrow> Inl Panic | Some a \<Rightarrow> Inr (set_x rd a c))"

text \<open>An assertion of the virtual machine: nothing changes when it holds.\<close>

definition assert_that :: "bool \<Rightarrow> Cpu \<Rightarrow> io_error + Cpu" where
  "assert_that b c = (if b then Inr c else Inl Panic)"

definition VirtualAssertEQ_exec :: "reg \<Rightarrow> reg \<Rightarrow> Cpu \<Rightarrow> io_error + Cpu" where
  "VirtualAssertEQ_exec rs1 rs2 c = assert_that (cpu_x c rs1 = cpu_x c rs2) c"

definition VirtualAssertMulUNoOverflow_exec :: "reg \<Rightarrow> reg \<Rightarrow> Cpu \<Rightarrow> io_error + Cpu" where
  "VirtualAssertMulUNoOverflow_exec rs1 rs2 c =
     assert_that (unat (cpu_x c rs1) * unat (cpu_x c rs2) < 2 ^ 64) c"

definition VirtualAssertValidDiv0_exec :: "reg \<Rightarrow> reg \<Rightarrow> Cpu \<Rightarrow> io_error + Cpu" where
  "VirtualAssertValidDiv0_exec rs1 rs2 c =
     (let divisor = cpu_x c rs1; quotient = cpu_x c rs2
      in case cpu_xlen c of
           Bit32 \<Rightarrow> assert_that (divisor = 0 \<longrightarrow> (ucast quotient :: 32 word) = 0xFFFFFFFF) c
         | Bit64 \<Rightarrow> assert_that (divisor = 0 \<longrightarrow> quotient = 0xFFFFFFFFFFFFFFFF) c)"

definition VirtualAssertValidUnsignedRemainder_exec :: "reg \<Rightarrow> reg \<Rightarrow> Cpu \<Rightarrow> io_error + Cpu" where
  "VirtualAssertValidUnsignedRemainder_exec rs1 rs2 c =
     (case cpu_xlen c of
        Bit32 \<Rightarrow> let remainder = ucast (cpu_x c rs1) :: 32 word; divisor = ucast (cpu_x c rs2)
                 in assert_that (divisor = 0 \<or> remainder < divisor) c
      | Bit64 \<Rightarrow> let remainder = cpu_x c rs1; divisor = cpu_x c rs2
                 in assert_that (divisor = 0 \<or> remainder < divisor) c)"

definition VirtualChangeDivisor_exec :: "reg \<Rightarrow> reg \<Rightarrow> reg \<Rightarrow> Cpu \<Rightarrow> Cpu" where
  "VirtualChangeDivisor_exec rd rs1 rs2 c = set_x rd
     (case cpu_xlen c of
        Bit32 \<Rightarrow> let remainder = ucast (cpu_x c rs1) :: 32 word; divisor = ucast (cpu_x c rs2) :: 32 word
                 in if remainder = int_min \<and> divisor = -1 then 1 else scast divisor
      | Bit64 \<Rightarrow> let remainder = cpu_x c rs1; divisor = cpu_x c rs2
                 in if remainder = int_min \<and> divisor = -1 then 1 else divisor) c"

definition VirtualChangeDivisorW_exec :: "reg \<Rightarrow> reg \<Rightarrow> reg \<Rightarrow> Cpu \<Rightarrow> io_error + Cpu" where
  "VirtualChangeDivisorW_exec rd rs1 rs2 c =
     (case cpu_xlen c of
        Bit32 \<Rightarrow> Inl Panic
      | Bit64 \<Rightarrow> let remainder = ucast (cpu_x c rs1) :: 32 word; divisor = ucast (cpu_x c rs2) :: 32 word
                 in Inr (set_x rd (if remainder = int_min \<and> divisor = -1 then 1 else scast divisor) c))"

subsection \<open>The instructions of a sequence\<close>

text \<open>
  The variants of \<open>Instruction\<close> that keep the default methods of \<open>RISCVTrace\<close>: their inline
  sequence is the instruction itself and tracing one executes it.  Every instruction an
  assembler emits is expanded (\<open>add_to_sequence\<close>), so a finished sequence holds only these.
  The operand fields are the ones \<open>exec\<close> reads.
\<close>

datatype native =
    ADD reg reg reg | ADDI reg reg i64 | SUB reg reg reg | XOR_r reg reg reg
  | ANDI reg reg i64 | ORI reg reg i64 | SLTU reg reg reg | MUL reg reg reg | MULHU reg reg reg
  | VirtualMULI reg reg i64 | VirtualPow2 reg reg | VirtualPow2W reg reg
  | VirtualShiftRightBitmask reg reg | VirtualSRL reg reg reg | VirtualSRLI reg reg i64
  | VirtualSRA reg reg reg | VirtualSRAI reg reg i64 | VirtualMovsign reg reg
  | VirtualSignExtendWord reg reg | VirtualZeroExtendWord reg reg | VirtualMove reg reg
  | VirtualAdvice reg "i64 option" | VirtualAssertEQ reg reg | VirtualAssertMulUNoOverflow reg reg
  | VirtualAssertValidDiv0 reg reg | VirtualAssertValidUnsignedRemainder reg reg
  | VirtualChangeDivisor reg reg reg | VirtualChangeDivisorW reg reg reg

fun execute_native :: "native \<Rightarrow> Cpu \<Rightarrow> io_error + Cpu" where
  "execute_native (ADD rd rs1 rs2) c = Inr (ADD_exec rd rs1 rs2 c)"
| "execute_native (ADDI rd rs1 imm) c = Inr (ADDI_exec rd rs1 imm c)"
| "execute_native (SUB rd rs1 rs2) c = Inr (SUB_exec rd rs1 rs2 c)"
| "execute_native (XOR_r rd rs1 rs2) c = Inr (XOR_exec rd rs1 rs2 c)"
| "execute_native (ANDI rd rs1 imm) c = Inr (ANDI_exec rd rs1 imm c)"
| "execute_native (ORI rd rs1 imm) c = Inr (ORI_exec rd rs1 imm c)"
| "execute_native (SLTU rd rs1 rs2) c = Inr (SLTU_exec rd rs1 rs2 c)"
| "execute_native (MUL rd rs1 rs2) c = Inr (MUL_exec rd rs1 rs2 c)"
| "execute_native (MULHU rd rs1 rs2) c = Inr (MULHU_exec rd rs1 rs2 c)"
| "execute_native (VirtualMULI rd rs1 imm) c = Inr (VirtualMULI_exec rd rs1 imm c)"
| "execute_native (VirtualPow2 rd rs1) c = Inr (VirtualPow2_exec rd rs1 c)"
| "execute_native (VirtualPow2W rd rs1) c = VirtualPow2W_exec rd rs1 c"
| "execute_native (VirtualShiftRightBitmask rd rs1) c = Inr (VirtualShiftRightBitmask_exec rd rs1 c)"
| "execute_native (VirtualSRL rd rs1 rs2) c = Inr (VirtualSRL_exec rd rs1 rs2 c)"
| "execute_native (VirtualSRLI rd rs1 imm) c = Inr (VirtualSRLI_exec rd rs1 imm c)"
| "execute_native (VirtualSRA rd rs1 rs2) c = Inr (VirtualSRA_exec rd rs1 rs2 c)"
| "execute_native (VirtualSRAI rd rs1 imm) c = Inr (VirtualSRAI_exec rd rs1 imm c)"
| "execute_native (VirtualMovsign rd rs1) c = Inr (VirtualMovsign_exec rd rs1 c)"
| "execute_native (VirtualSignExtendWord rd rs1) c = VirtualSignExtendWord_exec rd rs1 c"
| "execute_native (VirtualZeroExtendWord rd rs1) c = VirtualZeroExtendWord_exec rd rs1 c"
| "execute_native (VirtualMove rd rs1) c = Inr (VirtualMove_exec rd rs1 c)"
| "execute_native (VirtualAdvice rd advice) c = VirtualAdvice_exec rd advice c"
| "execute_native (VirtualAssertEQ rs1 rs2) c = VirtualAssertEQ_exec rs1 rs2 c"
| "execute_native (VirtualAssertMulUNoOverflow rs1 rs2) c = VirtualAssertMulUNoOverflow_exec rs1 rs2 c"
| "execute_native (VirtualAssertValidDiv0 rs1 rs2) c = VirtualAssertValidDiv0_exec rs1 rs2 c"
| "execute_native (VirtualAssertValidUnsignedRemainder rs1 rs2) c =
     VirtualAssertValidUnsignedRemainder_exec rs1 rs2 c"
| "execute_native (VirtualChangeDivisor rd rs1 rs2) c = Inr (VirtualChangeDivisor_exec rd rs1 rs2 c)"
| "execute_native (VirtualChangeDivisorW rd rs1 rs2) c = VirtualChangeDivisorW_exec rd rs1 rs2 c"

text \<open>The loop \<open>for instr in inline_sequence { instr.trace(cpu, ..) }\<close>.\<close>

definition trace_sequence :: "native list \<Rightarrow> Cpu \<Rightarrow> io_error + Cpu" where
  "trace_sequence seq = rfold execute_native seq"

end
