(* ===== verification/Rv_Sequences.thy ===== *)
theory Rv_Sequences
  imports Rv_Cpu "HOL-Library.Signed_Division"
begin

text \<open>
  The instructions that the tracer replaces by an inline sequence: the word forms, shifts, high
  products, divisions and remainders of \<open>jolt-tracer/src/instruction/\<close>.  A file implements
  the traits \<open>RISCVInstruction\<close> and \<open>RISCVTrace\<close> for its instruction; \<open><name>_impl\<close> is that
  implementation as a dictionary with the direct semantics \<open>exec\<close>, the builder
  \<open>inline_sequence\<close> and the method \<open>trace\<close> that runs the built sequence.
\<close>

subsection \<open>Implementations of the traits\<close>

record RISCVTrace =
  exec :: "Cpu \<Rightarrow> io_error + Cpu"
  inline_sequence :: "bool list \<Rightarrow> Xlen \<Rightarrow> io_error + native list"
  trace :: "Cpu \<Rightarrow> io_error + Cpu"

text \<open>The method \<open>trace\<close> that only runs the inline sequence.\<close>

definition sequence_trace :: "(bool list \<Rightarrow> Xlen \<Rightarrow> io_error + native list) \<Rightarrow> Cpu \<Rightarrow> io_error + Cpu" where
  "sequence_trace sequence c =
     rbind (sequence (vr_allocator c) (cpu_xlen c)) (\<lambda>s. trace_sequence s c)"

definition sequence_impl ::
  "(Cpu \<Rightarrow> Cpu) \<Rightarrow> (bool list \<Rightarrow> Xlen \<Rightarrow> io_error + native list) \<Rightarrow> RISCVTrace" where
  "sequence_impl ex sequence =
     \<lparr>exec = (\<lambda>c. Inr (ex c)), inline_sequence = sequence, trace = sequence_trace sequence\<rparr>"

text \<open>
  \<open>InstrAssembler\<close>: a buffer of emitted instructions, each expanded when it is emitted.
  \<open>emit\<close> is the emission of an instruction whose expansion is itself, \<open>emit_impl\<close> the emission of
  one that has a sequence of its own.
\<close>

definition emit :: "native \<Rightarrow> io_error + native list" where
  "emit i = Inr [i]"

definition emit_impl :: "RISCVTrace \<Rightarrow> bool list \<Rightarrow> Xlen \<Rightarrow> io_error + native list" where
  "emit_impl i allocator xlen = inline_sequence i allocator xlen"

definition assemble :: "(io_error + native list) list \<Rightarrow> io_error + native list" where
  "assemble emitted = rbind (rmap (\<lambda>e. e) emitted) (\<lambda>parts. Inr (concat parts))"

text \<open>The bit mask of the immediate right shifts: \<open>((1u128 << (len - shift)) - 1) << shift\<close>.\<close>

definition shift_bitmask :: "nat \<Rightarrow> nat \<Rightarrow> i64" where
  "shift_bitmask len shift = ucast (push_bit shift (push_bit (len - shift) 1 - 1) :: 128 word)"

definition shift_mask :: "Xlen \<Rightarrow> i64" where
  "shift_mask xlen = (case xlen of Bit32 \<Rightarrow> 0x1f | Bit64 \<Rightarrow> 0x3f)"

subsection \<open>Word arithmetic\<close>

definition ADDIW_impl :: "reg \<Rightarrow> reg \<Rightarrow> i64 \<Rightarrow> RISCVTrace" where
  "ADDIW_impl rd rs1 imm = sequence_impl
     (\<lambda>c. set_x rd (as_i32_as_i64 (cpu_x c rs1 + normalize_imm imm (cpu_xlen c))) c)
     (\<lambda>allocator xlen. assemble [emit (ADDI rd rs1 imm), emit (VirtualSignExtendWord rd rd)])"

definition ADDW_impl :: "reg \<Rightarrow> reg \<Rightarrow> reg \<Rightarrow> RISCVTrace" where
  "ADDW_impl rd rs1 rs2 = sequence_impl
     (\<lambda>c. set_x rd (as_i32_as_i64 (cpu_x c rs1 + cpu_x c rs2)) c)
     (\<lambda>allocator xlen. assemble [emit (ADD rd rs1 rs2), emit (VirtualSignExtendWord rd rd)])"

definition SUBW_impl :: "reg \<Rightarrow> reg \<Rightarrow> reg \<Rightarrow> RISCVTrace" where
  "SUBW_impl rd rs1 rs2 = sequence_impl
     (\<lambda>c. set_x rd (as_i32_as_i64 (cpu_x c rs1 - cpu_x c rs2)) c)
     (\<lambda>allocator xlen. assemble [emit (SUB rd rs1 rs2), emit (VirtualSignExtendWord rd rd)])"

definition MULW_impl :: "reg \<Rightarrow> reg \<Rightarrow> reg \<Rightarrow> RISCVTrace" where
  "MULW_impl rd rs1 rs2 = sequence_impl
     (\<lambda>c. let a = ucast (cpu_x c rs1) :: 32 word; b = ucast (cpu_x c rs2)
          in set_x rd (scast (a * b)) c)
     (\<lambda>allocator xlen. assemble [emit (MUL rd rs1 rs2), emit (VirtualSignExtendWord rd rd)])"

subsection \<open>Shifts\<close>

definition SLL_impl :: "reg \<Rightarrow> reg \<Rightarrow> reg \<Rightarrow> RISCVTrace" where
  "SLL_impl rd rs1 rs2 = sequence_impl
     (\<lambda>c. set_x rd (sign_extend c
            (i64_wrapping_shl (cpu_x c rs1) (unat (cpu_x c rs2 AND shift_mask (cpu_xlen c))))) c)
     (\<lambda>allocator xlen. rbind (allocate allocator) (\<lambda>(v_pow2, allocator).
        assemble [emit (VirtualPow2 v_pow2 rs2), emit (MUL rd rs1 v_pow2)]))"

definition SLLI_impl :: "reg \<Rightarrow> reg \<Rightarrow> i64 \<Rightarrow> RISCVTrace" where
  "SLLI_impl rd rs1 imm = sequence_impl
     (\<lambda>c. set_x rd (sign_extend c
            (i64_wrapping_shl (cpu_x c rs1) (unat (imm AND shift_mask (cpu_xlen c))))) c)
     (\<lambda>allocator xlen.
        let shift = unat (imm AND shift_mask xlen)
        in assemble [emit (VirtualMULI rd rs1 (push_bit shift 1))])"

definition SLLW_impl :: "reg \<Rightarrow> reg \<Rightarrow> reg \<Rightarrow> RISCVTrace" where
  "SLLW_impl rd rs1 rs2 = sequence_impl
     (\<lambda>c. let shamt = unat (cpu_x c rs2 AND 0x1f)
          in set_x rd (scast (push_bit shamt (ucast (cpu_x c rs1) :: 32 word))) c)
     (\<lambda>allocator xlen. rbind (allocate allocator) (\<lambda>(v_pow2, allocator).
        assemble [emit (VirtualPow2W v_pow2 rs2), emit (MUL rd rs1 v_pow2),
          emit (VirtualSignExtendWord rd rd)]))"

definition SLLIW_impl :: "reg \<Rightarrow> reg \<Rightarrow> i64 \<Rightarrow> RISCVTrace" where
  "SLLIW_impl rd rs1 imm = sequence_impl
     (\<lambda>c. let shamt = unat (imm AND 0x1f)
          in set_x rd (scast (push_bit shamt (ucast (cpu_x c rs1) :: 32 word))) c)
     (\<lambda>allocator xlen. case xlen of
        Bit32 \<Rightarrow> Inl Panic
      | Bit64 \<Rightarrow> let shift = unat (imm AND 0x1f)
          in assemble [emit (VirtualMULI rd rs1 (push_bit shift 1)), emit (VirtualSignExtendWord rd rd)])"

definition SRL_impl :: "reg \<Rightarrow> reg \<Rightarrow> reg \<Rightarrow> RISCVTrace" where
  "SRL_impl rd rs1 rs2 = sequence_impl
     (\<lambda>c. set_x rd (sign_extend c (u64_wrapping_shr (unsigned_data c (cpu_x c rs1))
            (unat (cpu_x c rs2 AND shift_mask (cpu_xlen c))))) c)
     (\<lambda>allocator xlen. rbind (allocate allocator) (\<lambda>(v_bitmask, allocator).
        assemble [emit (VirtualShiftRightBitmask v_bitmask rs2), emit (VirtualSRL rd rs1 v_bitmask)]))"

definition SRLI_impl :: "reg \<Rightarrow> reg \<Rightarrow> i64 \<Rightarrow> RISCVTrace" where
  "SRLI_impl rd rs1 imm = sequence_impl
     (\<lambda>c. set_x rd (sign_extend c (u64_wrapping_shr (unsigned_data c (cpu_x c rs1))
            (unat (imm AND shift_mask (cpu_xlen c))))) c)
     (\<lambda>allocator xlen.
        let (shift, len) = (case xlen of Bit32 \<Rightarrow> (unat (imm AND 0x1f), 32) | Bit64 \<Rightarrow> (unat (imm AND 0x3f), 64))
        in assemble [emit (VirtualSRLI rd rs1 (shift_bitmask len shift))])"

definition SRLW_impl :: "reg \<Rightarrow> reg \<Rightarrow> reg \<Rightarrow> RISCVTrace" where
  "SRLW_impl rd rs1 rs2 = sequence_impl
     (\<lambda>c. let shamt = unat (cpu_x c rs2 AND 0x1f)
          in set_x rd (scast (drop_bit shamt (ucast (cpu_x c rs1) :: 32 word))) c)
     (\<lambda>allocator xlen. rbind (allocate allocator) (\<lambda>(v_bitmask, allocator).
        rbind (allocate allocator) (\<lambda>(v_rs1, allocator).
        assemble [emit_impl (SLLI_impl v_rs1 rs1 32) allocator xlen,
          emit (ORI v_bitmask rs2 32),
          emit (VirtualShiftRightBitmask v_bitmask v_bitmask),
          emit (VirtualSRL rd v_rs1 v_bitmask),
          emit (VirtualSignExtendWord rd rd)])))"

definition SRLIW_impl :: "reg \<Rightarrow> reg \<Rightarrow> i64 \<Rightarrow> RISCVTrace" where
  "SRLIW_impl rd rs1 imm = sequence_impl
     (\<lambda>c. let shamt = unat (imm AND 0x1f)
          in set_x rd (scast (drop_bit shamt (ucast (cpu_x c rs1) :: 32 word))) c)
     (\<lambda>allocator xlen. rbind (allocate allocator) (\<lambda>(v_rs1, allocator).
        case xlen of
          Bit32 \<Rightarrow> Inl Panic
        | Bit64 \<Rightarrow> let shift = unat (imm AND 0x1f) + 32
            in assemble [emit_impl (SLLI_impl v_rs1 rs1 32) allocator xlen,
              emit (VirtualSRLI rd v_rs1 (shift_bitmask 64 shift)),
              emit (VirtualSignExtendWord rd rd)]))"

definition SRA_impl :: "reg \<Rightarrow> reg \<Rightarrow> reg \<Rightarrow> RISCVTrace" where
  "SRA_impl rd rs1 rs2 = sequence_impl
     (\<lambda>c. set_x rd (sign_extend c
            (i64_wrapping_shr (cpu_x c rs1) (unat (cpu_x c rs2 AND shift_mask (cpu_xlen c))))) c)
     (\<lambda>allocator xlen. rbind (allocate allocator) (\<lambda>(v_bitmask, allocator).
        assemble [emit (VirtualShiftRightBitmask v_bitmask rs2), emit (VirtualSRA rd rs1 v_bitmask)]))"

definition SRAI_impl :: "reg \<Rightarrow> reg \<Rightarrow> i64 \<Rightarrow> RISCVTrace" where
  "SRAI_impl rd rs1 imm = sequence_impl
     (\<lambda>c. set_x rd (sign_extend c
            (i64_wrapping_shr (cpu_x c rs1) (unat (imm AND shift_mask (cpu_xlen c))))) c)
     (\<lambda>allocator xlen.
        let (shift, len) = (case xlen of Bit32 \<Rightarrow> (unat (imm AND 0x1f), 32) | Bit64 \<Rightarrow> (unat (imm AND 0x3f), 64))
        in assemble [emit (VirtualSRAI rd rs1 (shift_bitmask len shift))])"

definition SRAW_impl :: "reg \<Rightarrow> reg \<Rightarrow> reg \<Rightarrow> RISCVTrace" where
  "SRAW_impl rd rs1 rs2 = sequence_impl
     (\<lambda>c. let shamt = unat (cpu_x c rs2 AND 0x1f)
          in set_x rd (scast (signed_drop_bit shamt (ucast (cpu_x c rs1) :: 32 word))) c)
     (\<lambda>allocator xlen. rbind (allocate allocator) (\<lambda>(v_rs1, allocator).
        rbind (allocate allocator) (\<lambda>(v_bitmask, allocator).
        assemble [emit (VirtualSignExtendWord v_rs1 rs1),
          emit (ANDI v_bitmask rs2 0x1f),
          emit (VirtualShiftRightBitmask v_bitmask v_bitmask),
          emit (VirtualSRA rd v_rs1 v_bitmask),
          emit (VirtualSignExtendWord rd rd)])))"

definition SRAIW_impl :: "reg \<Rightarrow> reg \<Rightarrow> i64 \<Rightarrow> RISCVTrace" where
  "SRAIW_impl rd rs1 imm = sequence_impl
     (\<lambda>c. let shamt = unat (imm AND 0x1f)
          in set_x rd (scast (signed_drop_bit shamt (ucast (cpu_x c rs1) :: 32 word))) c)
     (\<lambda>allocator xlen. rbind (allocate allocator) (\<lambda>(v_rs1, allocator).
        let shift = unat (imm AND 0x1f)
        in case xlen of
             Bit32 \<Rightarrow> Inl Panic
           | Bit64 \<Rightarrow> assemble [emit (VirtualSignExtendWord v_rs1 rs1),
               emit (VirtualSRAI rd v_rs1 (shift_bitmask 64 shift)),
               emit (VirtualSignExtendWord rd rd)]))"

subsection \<open>High halves of products\<close>

definition MULH_impl :: "reg \<Rightarrow> reg \<Rightarrow> reg \<Rightarrow> RISCVTrace" where
  "MULH_impl rd rs1 rs2 = sequence_impl
     (\<lambda>c. set_x rd
        (case cpu_xlen c of
           Bit32 \<Rightarrow> sign_extend c (signed_drop_bit 32 (cpu_x c rs1 * cpu_x c rs2))
         | Bit64 \<Rightarrow> ucast (signed_drop_bit 64 (scast (cpu_x c rs1) * scast (cpu_x c rs2) :: 128 word))) c)
     (\<lambda>allocator xlen. rbind (allocate allocator) (\<lambda>(v_sx, allocator).
        rbind (allocate allocator) (\<lambda>(v_sy, allocator).
        rbind (allocate allocator) (\<lambda>(v_0, allocator).
        assemble [emit (VirtualMovsign v_sx rs1),
          emit (VirtualMovsign v_sy rs2),
          emit (MULHU v_0 rs1 rs2),
          emit (MUL v_sx v_sx rs2),
          emit (MUL v_sy v_sy rs1),
          emit (ADD v_0 v_0 v_sx),
          emit (ADD rd v_0 v_sy)]))))"

definition MULHSU_impl :: "reg \<Rightarrow> reg \<Rightarrow> reg \<Rightarrow> RISCVTrace" where
  "MULHSU_impl rd rs1 rs2 = sequence_impl
     (\<lambda>c. set_x rd
        (case cpu_xlen c of
           Bit32 \<Rightarrow> sign_extend c (signed_drop_bit 32 (cpu_x c rs1 * ucast (ucast (cpu_x c rs2) :: 32 word)))
         | Bit64 \<Rightarrow> ucast (drop_bit 64 (scast (cpu_x c rs1) * ucast (cpu_x c rs2) :: 128 word))) c)
     (\<lambda>allocator xlen. rbind (allocate allocator) (\<lambda>(v_sx, allocator).
        rbind (allocate allocator) (\<lambda>(v_sx_0, allocator).
        rbind (allocate allocator) (\<lambda>(v_rs1, allocator).
        rbind (allocate allocator) (\<lambda>(v_hi, allocator).
        rbind (allocate allocator) (\<lambda>(v_lo, allocator).
        rbind (allocate allocator) (\<lambda>(v_tmp, allocator).
        rbind (allocate allocator) (\<lambda>(v_carry, allocator).
        assemble [emit (VirtualMovsign v_sx rs1),
          emit (ANDI v_sx_0 v_sx 1),
          emit (XOR_r v_rs1 rs1 v_sx),
          emit (ADD v_rs1 v_rs1 v_sx_0),
          emit (MULHU v_hi v_rs1 rs2),
          emit (MUL v_lo v_rs1 rs2),
          emit (XOR_r v_hi v_hi v_sx),
          emit (XOR_r v_lo v_lo v_sx),
          emit (ADD v_tmp v_lo v_sx_0),
          emit (SLTU v_carry v_tmp v_lo),
          emit (ADD rd v_hi v_carry)]))))))))"

end
