(* ===== verification/Rv_Division.thy ===== *)
theory Rv_Division
  imports Rv_Sequences
begin

text \<open>
  The division and remainder instructions, \<open>div.rs\<close>, \<open>divu.rs\<close>, \<open>rem.rs\<close>, \<open>remu.rs\<close> and their word
  forms.  Their sequences start with two \<open>VirtualAdvice\<close> instructions, for the quotient and
  for the remainder (its absolute value in the signed forms); \<open>trace\<close> computes honest advice
  and fills it in, and the rest of the sequence checks it.  \<open>inline_sequence\<close> alone leaves the
  advice open, so a prover is free in it.

  The parameter \<open>build\<close> is the register width of the compiled tracer (the feature \<open>rv64\<close>): advice
  has the type \<open>XlenInt\<close>, \<open>u64\<close> with the feature and \<open>u32\<close> without it.
\<close>

subsection \<open>Signed and unsigned division of machine integers\<close>

definition xlen_int :: "Xlen \<Rightarrow> i64 \<Rightarrow> i64" where
  "xlen_int build v = (case build of Bit32 \<Rightarrow> ucast (ucast v :: 32 word) | Bit64 \<Rightarrow> v)"

text \<open>
  \<open>wrapping_div\<close> and \<open>wrapping_rem\<close> round towards zero; \<open>/\<close> and \<open>%\<close> panic where the quotient is not
  representable.
\<close>

definition wrapping_div :: "'a::len word \<Rightarrow> 'a word \<Rightarrow> 'a word" where
  "wrapping_div x y = word_of_int (sint x sdiv sint y)"

definition wrapping_rem :: "'a::len word \<Rightarrow> 'a word \<Rightarrow> 'a word" where
  "wrapping_rem x y = word_of_int (sint x smod sint y)"

definition div_rem :: "'a::len word \<Rightarrow> 'a word \<Rightarrow> io_error + 'a word \<times> 'a word" where
  "div_rem x y =
     (if y = 0 \<or> x = int_min \<and> y = -1 then Inl Panic else Inr (wrapping_div x y, wrapping_rem x y))"

definition unsigned_abs :: "'a::len word \<Rightarrow> 'a word" where
  "unsigned_abs x = (if sint x < 0 then - x else x)"

text \<open>\<open>if let VirtualAdvice(instr) = &mut inline_sequence[i] { instr.advice = Some(..) } else { panic! }\<close>\<close>

definition set_advice :: "nat \<Rightarrow> i64 \<Rightarrow> native list \<Rightarrow> io_error + native list" where
  "set_advice i advice seq =
     (if i < length seq
      then case seq ! i of VirtualAdvice rd _ \<Rightarrow> Inr (seq[i := VirtualAdvice rd (Some advice)]) | _ \<Rightarrow> Inl Panic
      else Inl Panic)"

definition set_advices :: "i64 \<Rightarrow> i64 \<Rightarrow> native list \<Rightarrow> io_error + native list" where
  "set_advices quot remainder seq =
     rbind (set_advice 0 quot seq) (set_advice 1 remainder)"

text \<open>
  The method \<open>trace\<close> of the eight instructions: the advice computed from the operands, the
  sequence with the advice filled in, and its run.
\<close>

definition advice_impl ::
  "Xlen \<Rightarrow> (Cpu \<Rightarrow> Cpu) \<Rightarrow> (bool list \<Rightarrow> Xlen \<Rightarrow> io_error + native list) \<Rightarrow> (Cpu \<Rightarrow> io_error + i64 \<times> i64) \<Rightarrow> RISCVTrace" where
  "advice_impl build ex sequence advice =
     \<lparr>exec = (\<lambda>c. Inr (ex c)), inline_sequence = sequence,
      trace = (\<lambda>c. rbind (advice c) (\<lambda>(quot, remainder).
        rbind (sequence (vr_allocator c) (cpu_xlen c)) (\<lambda>s.
        rbind (set_advices (xlen_int build quot) (xlen_int build remainder) s) (\<lambda>s.
        trace_sequence s c))))\<rparr>"

subsection \<open>Signed division and remainder\<close>

definition signed_advice :: "reg \<Rightarrow> reg \<Rightarrow> Cpu \<Rightarrow> io_error + i64 \<times> i64" where
  "signed_advice rs1 rs2 c =
     (let x = cpu_x c rs1; y = cpu_x c rs2
      in case cpu_xlen c of
           Bit32 \<Rightarrow>
             if y = 0 then Inr (0xFFFFFFFF, ucast (unsigned_abs (ucast x :: 32 word)))
             else if x = most_negative c \<and> y = -1 then Inr (ucast (ucast x :: 32 word), 0)
             else rbind (div_rem (ucast x :: 32 word) (ucast y)) (\<lambda>(quot, remainder).
                    Inr (ucast quot, ucast (unsigned_abs remainder)))
         | Bit64 \<Rightarrow>
             if y = 0 then Inr (0xFFFFFFFFFFFFFFFF, unsigned_abs x)
             else if x = most_negative c \<and> y = -1 then Inr (x, 0)
             else rbind (div_rem x y) (\<lambda>(quot, remainder). Inr (quot, unsigned_abs remainder)))"

definition DIV_impl :: "Xlen \<Rightarrow> reg \<Rightarrow> reg \<Rightarrow> reg \<Rightarrow> RISCVTrace" where
  "DIV_impl build rd rs1 rs2 = advice_impl build
     (\<lambda>c. let dividend = cpu_x c rs1; divisor = cpu_x c rs2
          in if divisor = 0 then set_x rd (-1) c
             else if dividend = most_negative c \<and> divisor = -1 then set_x rd dividend c
             else set_x rd (sign_extend c (wrapping_div dividend divisor)) c)
     (\<lambda>allocator xlen. rbind (allocate allocator) (\<lambda>(a2, allocator).
        rbind (allocate allocator) (\<lambda>(a3, allocator).
        rbind (allocate allocator) (\<lambda>(t0, allocator).
        rbind (allocate allocator) (\<lambda>(t1, allocator).
        let shmat = (case xlen of Bit32 \<Rightarrow> 31 | Bit64 \<Rightarrow> 63);
            mulh = emit_impl (MULH_impl t1 a2 t0) allocator xlen
        in rbind (allocate allocator) (\<lambda>(t2, allocator).
        rbind (allocate allocator) (\<lambda>(t3, allocator).
        assemble [emit (VirtualAdvice a2 None),
          emit (VirtualAdvice a3 None),
          emit (VirtualAssertValidDiv0 rs2 a2),
          emit (VirtualChangeDivisor t0 rs1 rs2),
          mulh,
          emit (MUL t2 a2 t0),
          emit_impl (SRAI_impl t3 t2 shmat) allocator xlen,
          emit (VirtualAssertEQ t1 t3),
          emit_impl (SRAI_impl t1 rs1 shmat) allocator xlen,
          emit (XOR_r t3 a3 t1),
          emit (SUB t3 t3 t1),
          emit (ADD t2 t2 t3),
          emit (VirtualAssertEQ t2 rs1),
          emit_impl (SRAI_impl t1 t0 shmat) allocator xlen,
          emit (XOR_r t3 t0 t1),
          emit (SUB t3 t3 t1),
          emit (VirtualAssertValidUnsignedRemainder a3 t3),
          emit (VirtualMove rd a2)])))))))
     (signed_advice rs1 rs2)"

definition REM_impl :: "Xlen \<Rightarrow> reg \<Rightarrow> reg \<Rightarrow> reg \<Rightarrow> RISCVTrace" where
  "REM_impl build rd rs1 rs2 = advice_impl build
     (\<lambda>c. let dividend = cpu_x c rs1; divisor = cpu_x c rs2
          in if divisor = 0 then set_x rd dividend c
             else if dividend = most_negative c \<and> divisor = -1 then set_x rd 0 c
             else set_x rd (sign_extend c (wrapping_rem (cpu_x c rs1) (cpu_x c rs2))) c)
     (\<lambda>allocator xlen. rbind (allocate allocator) (\<lambda>(a2, allocator).
        rbind (allocate allocator) (\<lambda>(a3, allocator).
        rbind (allocate allocator) (\<lambda>(t0, allocator).
        rbind (allocate allocator) (\<lambda>(t1, allocator).
        rbind (allocate allocator) (\<lambda>(t2, allocator).
        rbind (allocate allocator) (\<lambda>(t3, allocator).
        let shmat = (case xlen of Bit32 \<Rightarrow> 31 | Bit64 \<Rightarrow> 63)
        in assemble [emit (VirtualAdvice a2 None),
          emit (VirtualAdvice a3 None),
          emit (VirtualAssertValidDiv0 rs2 a2),
          emit (VirtualChangeDivisor t0 rs1 rs2),
          emit (MUL t1 a2 t0),
          emit_impl (SRAI_impl t2 rs1 shmat) allocator xlen,
          emit (XOR_r t3 a3 t2),
          emit (SUB t3 t3 t2),
          emit (ADD t1 t1 t3),
          emit (VirtualAssertEQ t1 rs1),
          emit_impl (SRAI_impl t2 t0 shmat) allocator xlen,
          emit (XOR_r t1 t0 t2),
          emit (SUB t1 t1 t2),
          emit (VirtualAssertValidUnsignedRemainder a3 t1),
          emit (VirtualMove rd t3)])))))))
     (signed_advice rs1 rs2)"

subsection \<open>Unsigned division and remainder\<close>

definition DIVU_impl :: "Xlen \<Rightarrow> reg \<Rightarrow> reg \<Rightarrow> reg \<Rightarrow> RISCVTrace" where
  "DIVU_impl build rd rs1 rs2 = advice_impl build
     (\<lambda>c. let dividend = unsigned_data c (cpu_x c rs1); divisor = unsigned_data c (cpu_x c rs2)
          in if divisor = 0 then set_x rd (-1) c
             else set_x rd (sign_extend c (dividend div divisor)) c)
     (\<lambda>allocator xlen. rbind (allocate allocator) (\<lambda>(a2, allocator).
        rbind (allocate allocator) (\<lambda>(a3, allocator).
        rbind (allocate allocator) (\<lambda>(t0, allocator).
        assemble [emit (VirtualAdvice a2 None),
          emit (VirtualAdvice a3 None),
          emit (VirtualAssertValidDiv0 rs2 a2),
          emit (VirtualAssertMulUNoOverflow a2 rs2),
          emit (MUL t0 a2 rs2),
          emit (ADD t0 t0 a3),
          emit (VirtualAssertEQ t0 rs1),
          emit (VirtualAssertValidUnsignedRemainder a3 rs2),
          emit (VirtualMove rd a2)]))))
     (\<lambda>c. let x = cpu_x c rs1; y = cpu_x c rs2
          in rbind (if y = 0 then Inr (case cpu_xlen c of Bit32 \<Rightarrow> 0xFFFFFFFF | Bit64 \<Rightarrow> 0xFFFFFFFFFFFFFFFF)
               else case cpu_xlen c of
                 Bit32 \<Rightarrow> if (ucast y :: 32 word) = 0 then Inl Panic
                          else Inr (ucast ((ucast x :: 32 word) div ucast y))
               | Bit64 \<Rightarrow> Inr (x div y)) (\<lambda>quot.
             Inr (quot, if y = 0 then x else x - quot * y)))"

definition REMU_impl :: "Xlen \<Rightarrow> reg \<Rightarrow> reg \<Rightarrow> reg \<Rightarrow> RISCVTrace" where
  "REMU_impl build rd rs1 rs2 = advice_impl build
     (\<lambda>c. let dividend = unsigned_data c (cpu_x c rs1); divisor = unsigned_data c (cpu_x c rs2)
          in set_x rd (if divisor = 0 then sign_extend c dividend else sign_extend c (dividend mod divisor)) c)
     (\<lambda>allocator xlen. rbind (allocate allocator) (\<lambda>(a2, allocator).
        rbind (allocate allocator) (\<lambda>(a3, allocator).
        rbind (allocate allocator) (\<lambda>(t0, allocator).
        assemble [emit (VirtualAdvice a2 None),
          emit (VirtualAdvice a3 None),
          emit (MUL t0 a2 rs2),
          emit (ADD t0 t0 a3),
          emit (VirtualAssertEQ t0 rs1),
          emit (VirtualAssertValidUnsignedRemainder a3 rs2),
          emit (VirtualMove rd a3)]))))
     (\<lambda>c. let dividend = unsigned_data c (cpu_x c rs1); divisor = unsigned_data c (cpu_x c rs2)
          in if divisor = 0
             then Inr (case cpu_xlen c of Bit32 \<Rightarrow> 0xFFFFFFFF | Bit64 \<Rightarrow> 0xFFFFFFFFFFFFFFFF, dividend)
             else let quot = dividend div divisor in Inr (quot, dividend - quot * divisor))"

subsection \<open>Word forms\<close>

definition word_advice :: "reg \<Rightarrow> reg \<Rightarrow> Cpu \<Rightarrow> io_error + i64 \<times> i64" where
  "word_advice rs1 rs2 c =
     (let x = ucast (cpu_x c rs1) :: 32 word; y = ucast (cpu_x c rs2) :: 32 word
      in case cpu_xlen c of
           Bit32 \<Rightarrow> Inl Panic
         | Bit64 \<Rightarrow>
             if y = 0 then Inr (scast (-1 :: 32 word), ucast (unsigned_abs x))
             else if y = -1 \<and> x = int_min then Inr (scast (int_min :: 32 word), 0)
             else rbind (div_rem x y) (\<lambda>(quot, remainder). Inr (scast quot, ucast (unsigned_abs remainder))))"

definition unsigned_word_advice :: "reg \<Rightarrow> reg \<Rightarrow> Cpu \<Rightarrow> io_error + i64 \<times> i64" where
  "unsigned_word_advice rs1 rs2 c =
     (let x = ucast (cpu_x c rs1) :: 32 word; y = ucast (cpu_x c rs2) :: 32 word
      in case cpu_xlen c of
           Bit32 \<Rightarrow> Inl Panic
         | Bit64 \<Rightarrow>
             if y = 0 then Inr (0xFFFFFFFFFFFFFFFF, ucast x)
             else Inr (ucast (x div y), ucast (x mod y)))"

definition DIVW_impl :: "Xlen \<Rightarrow> reg \<Rightarrow> reg \<Rightarrow> reg \<Rightarrow> RISCVTrace" where
  "DIVW_impl build rd rs1 rs2 = advice_impl build
     (\<lambda>c. let dividend = ucast (cpu_x c rs1) :: 32 word; divisor = ucast (cpu_x c rs2)
          in set_x rd (scast (if divisor = 0 then -1
               else if dividend = int_min \<and> divisor = -1 then dividend
               else wrapping_div dividend divisor)) c)
     (\<lambda>allocator xlen. rbind (allocate allocator) (\<lambda>(a2, allocator).
        rbind (allocate allocator) (\<lambda>(a3, allocator).
        rbind (allocate allocator) (\<lambda>(t0, allocator).
        rbind (allocate allocator) (\<lambda>(t1, allocator).
        rbind (allocate allocator) (\<lambda>(t2, allocator).
        rbind (allocate allocator) (\<lambda>(t3, allocator).
        rbind (allocate allocator) (\<lambda>(t4, allocator).
        assemble [emit (VirtualAdvice a2 None),
          emit (VirtualAdvice a3 None),
          emit (VirtualSignExtendWord t4 rs1),
          emit (VirtualSignExtendWord t3 rs2),
          emit (VirtualAssertValidDiv0 t3 a2),
          emit (VirtualChangeDivisorW t0 t4 t3),
          emit_impl (MULW_impl t1 a2 t0) allocator xlen,
          emit (MUL t2 a2 t0),
          emit (VirtualAssertEQ t1 t2),
          emit_impl (SRAI_impl t2 t4 31) allocator xlen,
          emit (XOR_r t3 a3 t2),
          emit (SUB t3 t3 t2),
          emit_impl (ADDW_impl t1 t1 t3) allocator xlen,
          emit (VirtualAssertEQ t1 t4),
          emit_impl (SRAI_impl t2 t0 31) allocator xlen,
          emit (XOR_r t1 t0 t2),
          emit (SUB t1 t1 t2),
          emit (VirtualAssertValidUnsignedRemainder a3 t1),
          emit (VirtualSignExtendWord rd a2)]))))))))
     (word_advice rs1 rs2)"

definition REMW_impl :: "Xlen \<Rightarrow> reg \<Rightarrow> reg \<Rightarrow> reg \<Rightarrow> RISCVTrace" where
  "REMW_impl build rd rs1 rs2 = advice_impl build
     (\<lambda>c. let dividend = ucast (cpu_x c rs1) :: 32 word; divisor = ucast (cpu_x c rs2)
          in set_x rd (scast (if divisor = 0 then dividend
               else if dividend = int_min \<and> divisor = -1 then 0
               else wrapping_rem dividend divisor)) c)
     (\<lambda>allocator xlen. rbind (allocate allocator) (\<lambda>(a2, allocator).
        rbind (allocate allocator) (\<lambda>(a3, allocator).
        rbind (allocate allocator) (\<lambda>(t0, allocator).
        rbind (allocate allocator) (\<lambda>(t1, allocator).
        rbind (allocate allocator) (\<lambda>(t2, allocator).
        rbind (allocate allocator) (\<lambda>(t3, allocator).
        rbind (allocate allocator) (\<lambda>(t4, allocator).
        assemble [emit (VirtualAdvice a2 None),
          emit (VirtualAdvice a3 None),
          emit (VirtualSignExtendWord t4 rs1),
          emit (VirtualSignExtendWord t3 rs2),
          emit (VirtualAssertValidDiv0 t3 a2),
          emit (VirtualChangeDivisorW t0 t4 t3),
          emit_impl (MULW_impl t1 a2 t0) allocator xlen,
          emit_impl (SRAI_impl t2 t4 31) allocator xlen,
          emit (XOR_r t3 a3 t2),
          emit (SUB t3 t3 t2),
          emit_impl (ADDW_impl t1 t1 t3) allocator xlen,
          emit (VirtualAssertEQ t1 t4),
          emit_impl (SRAI_impl t2 t0 31) allocator xlen,
          emit (XOR_r t1 t0 t2),
          emit (SUB t1 t1 t2),
          emit (VirtualAssertValidUnsignedRemainder a3 t1),
          emit (VirtualSignExtendWord rd t3)]))))))))
     (word_advice rs1 rs2)"

definition DIVUW_impl :: "Xlen \<Rightarrow> reg \<Rightarrow> reg \<Rightarrow> reg \<Rightarrow> RISCVTrace" where
  "DIVUW_impl build rd rs1 rs2 = advice_impl build
     (\<lambda>c. let dividend = ucast (cpu_x c rs1) :: 32 word; divisor = ucast (cpu_x c rs2)
          in set_x rd (scast (if divisor = 0 then 0xFFFFFFFF else dividend div divisor)) c)
     (\<lambda>allocator xlen. rbind (allocate allocator) (\<lambda>(a2, allocator).
        rbind (allocate allocator) (\<lambda>(a3, allocator).
        rbind (allocate allocator) (\<lambda>(t0, allocator).
        rbind (allocate allocator) (\<lambda>(t1, allocator).
        rbind (allocate allocator) (\<lambda>(t2, allocator).
        rbind (allocate allocator) (\<lambda>(t3, allocator).
        rbind (allocate allocator) (\<lambda>(t4, allocator).
        let zero = 0
        in assemble [emit (VirtualAdvice a2 None),
          emit (VirtualAdvice a3 None),
          emit (VirtualZeroExtendWord t3 rs1),
          emit (VirtualZeroExtendWord t4 rs2),
          emit (VirtualAssertValidDiv0 t4 a2),
          emit (VirtualZeroExtendWord t2 a2),
          emit (MUL t0 t2 t4),
          emit (MULHU t1 t2 t4),
          emit (VirtualAssertEQ t1 zero),
          emit (ADD t0 t0 a3),
          emit (VirtualAssertEQ t0 t3),
          emit (VirtualAssertValidUnsignedRemainder a3 t4),
          emit (VirtualSignExtendWord rd a2)]))))))))
     (unsigned_word_advice rs1 rs2)"

definition REMUW_impl :: "Xlen \<Rightarrow> reg \<Rightarrow> reg \<Rightarrow> reg \<Rightarrow> RISCVTrace" where
  "REMUW_impl build rd rs1 rs2 = advice_impl build
     (\<lambda>c. let dividend = ucast (cpu_x c rs1) :: 32 word; divisor = ucast (cpu_x c rs2)
          in set_x rd (scast (if divisor = 0 then dividend else dividend mod divisor)) c)
     (\<lambda>allocator xlen. rbind (allocate allocator) (\<lambda>(a2, allocator).
        rbind (allocate allocator) (\<lambda>(a3, allocator).
        rbind (allocate allocator) (\<lambda>(t0, allocator).
        rbind (allocate allocator) (\<lambda>(t1, allocator).
        rbind (allocate allocator) (\<lambda>(t2, allocator).
        rbind (allocate allocator) (\<lambda>(t3, allocator).
        assemble [emit (VirtualAdvice a2 None),
          emit (VirtualAdvice a3 None),
          emit (VirtualZeroExtendWord t1 rs1),
          emit (VirtualZeroExtendWord t2 rs2),
          emit (VirtualZeroExtendWord t3 a2),
          emit (MUL t0 t3 t2),
          emit (ADD t0 t0 a3),
          emit (VirtualAssertEQ t0 t1),
          emit (VirtualAssertValidUnsignedRemainder a3 t2),
          emit (VirtualSignExtendWord rd a3)])))))))
     (unsigned_word_advice rs1 rs2)"

end
