(* ===== verification/Rv_Instruction.thy ===== *)
theory Rv_Instruction
  imports Rv_Division
begin

text \<open>
  The enum \<open>Instruction\<close> of \<open>jolt-tracer/src/instruction/mod.rs\<close> with its dispatching methods, and
  the part of \<open>Cpu::tick_operate\<close> that runs a decoded instruction.  Without a trace the direct
  semantics is executed; with a trace, the inline sequence.
\<close>

datatype instruction =
    Native native
  | ADDIW reg reg i64
  | SLLI reg reg i64
  | SLLIW reg reg i64
  | SRLI reg reg i64
  | SRLIW reg reg i64
  | SRAI reg reg i64
  | SRAIW reg reg i64
  | ADDW reg reg reg
  | SUBW reg reg reg
  | MULW reg reg reg
  | SLL reg reg reg
  | SLLW reg reg reg
  | SRL reg reg reg
  | SRLW reg reg reg
  | SRA reg reg reg
  | SRAW reg reg reg
  | MULH reg reg reg
  | MULHSU reg reg reg
  | DIV reg reg reg
  | DIVU reg reg reg
  | REM reg reg reg
  | REMU reg reg reg
  | DIVW reg reg reg
  | DIVUW reg reg reg
  | REMW reg reg reg
  | REMUW reg reg reg

text \<open>The dispatch of a variant to its implementation; native variants keep the default methods.\<close>

fun impl :: "Xlen \<Rightarrow> instruction \<Rightarrow> RISCVTrace" where
  "impl build (Native n) =
     \<lparr>exec = execute_native n, inline_sequence = (\<lambda>_ _. Inr [n]), trace = execute_native n\<rparr>"
| "impl build (ADDIW rd rs1 imm) = ADDIW_impl rd rs1 imm"
| "impl build (SLLI rd rs1 imm) = SLLI_impl rd rs1 imm"
| "impl build (SLLIW rd rs1 imm) = SLLIW_impl rd rs1 imm"
| "impl build (SRLI rd rs1 imm) = SRLI_impl rd rs1 imm"
| "impl build (SRLIW rd rs1 imm) = SRLIW_impl rd rs1 imm"
| "impl build (SRAI rd rs1 imm) = SRAI_impl rd rs1 imm"
| "impl build (SRAIW rd rs1 imm) = SRAIW_impl rd rs1 imm"
| "impl build (ADDW rd rs1 rs2) = ADDW_impl rd rs1 rs2"
| "impl build (SUBW rd rs1 rs2) = SUBW_impl rd rs1 rs2"
| "impl build (MULW rd rs1 rs2) = MULW_impl rd rs1 rs2"
| "impl build (SLL rd rs1 rs2) = SLL_impl rd rs1 rs2"
| "impl build (SLLW rd rs1 rs2) = SLLW_impl rd rs1 rs2"
| "impl build (SRL rd rs1 rs2) = SRL_impl rd rs1 rs2"
| "impl build (SRLW rd rs1 rs2) = SRLW_impl rd rs1 rs2"
| "impl build (SRA rd rs1 rs2) = SRA_impl rd rs1 rs2"
| "impl build (SRAW rd rs1 rs2) = SRAW_impl rd rs1 rs2"
| "impl build (MULH rd rs1 rs2) = MULH_impl rd rs1 rs2"
| "impl build (MULHSU rd rs1 rs2) = MULHSU_impl rd rs1 rs2"
| "impl build (DIV rd rs1 rs2) = DIV_impl build rd rs1 rs2"
| "impl build (DIVU rd rs1 rs2) = DIVU_impl build rd rs1 rs2"
| "impl build (REM rd rs1 rs2) = REM_impl build rd rs1 rs2"
| "impl build (REMU rd rs1 rs2) = REMU_impl build rd rs1 rs2"
| "impl build (DIVW rd rs1 rs2) = DIVW_impl build rd rs1 rs2"
| "impl build (DIVUW rd rs1 rs2) = DIVUW_impl build rd rs1 rs2"
| "impl build (REMW rd rs1 rs2) = REMW_impl build rd rs1 rs2"
| "impl build (REMUW rd rs1 rs2) = REMUW_impl build rd rs1 rs2"

text \<open>
  The destination of the normalized operands (0 for the formats without one), and all registers
  an instruction names.
\<close>

fun native_rd :: "native \<Rightarrow> reg" where
  "native_rd (ADD rd _ _) = rd"
| "native_rd (SUB rd _ _) = rd"
| "native_rd (XOR_r rd _ _) = rd"
| "native_rd (SLTU rd _ _) = rd"
| "native_rd (MUL rd _ _) = rd"
| "native_rd (MULHU rd _ _) = rd"
| "native_rd (VirtualSRL rd _ _) = rd"
| "native_rd (VirtualSRA rd _ _) = rd"
| "native_rd (VirtualChangeDivisor rd _ _) = rd"
| "native_rd (VirtualChangeDivisorW rd _ _) = rd"
| "native_rd (ADDI rd _ _) = rd"
| "native_rd (ANDI rd _ _) = rd"
| "native_rd (ORI rd _ _) = rd"
| "native_rd (VirtualMULI rd _ _) = rd"
| "native_rd (VirtualSRLI rd _ _) = rd"
| "native_rd (VirtualSRAI rd _ _) = rd"
| "native_rd (VirtualPow2 rd _) = rd"
| "native_rd (VirtualPow2W rd _) = rd"
| "native_rd (VirtualShiftRightBitmask rd _) = rd"
| "native_rd (VirtualMovsign rd _) = rd"
| "native_rd (VirtualSignExtendWord rd _) = rd"
| "native_rd (VirtualZeroExtendWord rd _) = rd"
| "native_rd (VirtualMove rd _) = rd"
| "native_rd (VirtualAdvice rd _) = rd"
| "native_rd (VirtualAssertEQ _ _) = 0"
| "native_rd (VirtualAssertMulUNoOverflow _ _) = 0"
| "native_rd (VirtualAssertValidDiv0 _ _) = 0"
| "native_rd (VirtualAssertValidUnsignedRemainder _ _) = 0"

fun instruction_rd :: "instruction \<Rightarrow> reg" where
  "instruction_rd (Native n) = native_rd n"
| "instruction_rd (ADDIW rd _ _) = rd"
| "instruction_rd (SLLI rd _ _) = rd"
| "instruction_rd (SLLIW rd _ _) = rd"
| "instruction_rd (SRLI rd _ _) = rd"
| "instruction_rd (SRLIW rd _ _) = rd"
| "instruction_rd (SRAI rd _ _) = rd"
| "instruction_rd (SRAIW rd _ _) = rd"
| "instruction_rd (ADDW rd _ _) = rd"
| "instruction_rd (SUBW rd _ _) = rd"
| "instruction_rd (MULW rd _ _) = rd"
| "instruction_rd (SLL rd _ _) = rd"
| "instruction_rd (SLLW rd _ _) = rd"
| "instruction_rd (SRL rd _ _) = rd"
| "instruction_rd (SRLW rd _ _) = rd"
| "instruction_rd (SRA rd _ _) = rd"
| "instruction_rd (SRAW rd _ _) = rd"
| "instruction_rd (MULH rd _ _) = rd"
| "instruction_rd (MULHSU rd _ _) = rd"
| "instruction_rd (DIV rd _ _) = rd"
| "instruction_rd (DIVU rd _ _) = rd"
| "instruction_rd (REM rd _ _) = rd"
| "instruction_rd (REMU rd _ _) = rd"
| "instruction_rd (DIVW rd _ _) = rd"
| "instruction_rd (DIVUW rd _ _) = rd"
| "instruction_rd (REMW rd _ _) = rd"
| "instruction_rd (REMUW rd _ _) = rd"

definition Instruction_execute :: "Xlen \<Rightarrow> instruction \<Rightarrow> Cpu \<Rightarrow> io_error + Cpu" where
  "Instruction_execute build i c = exec (impl build i) c"

definition Instruction_trace :: "Xlen \<Rightarrow> instruction \<Rightarrow> Cpu \<Rightarrow> io_error + Cpu" where
  "Instruction_trace build i c =
     (if instruction_rd i = 0
      then rbind (inline_sequence (impl build i) (vr_allocator c) (cpu_xlen c)) (\<lambda>s. trace_sequence s c)
      else trace (impl build i) c)"

text \<open>
  The end of \<open>tick_operate\<close>, from the decoded instruction on: register 0 is cleared after every
  instruction.
\<close>

definition tick_instruction :: "Xlen \<Rightarrow> bool \<Rightarrow> instruction \<Rightarrow> Cpu \<Rightarrow> io_error + Cpu" where
  "tick_instruction build tracing i c =
     rbind (if tracing then Instruction_trace build i c else Instruction_execute build i c) (\<lambda>c.
     Inr (set_x 0 0 c))"

primrec run_instructions :: "Xlen \<Rightarrow> bool \<Rightarrow> instruction list \<Rightarrow> Cpu \<Rightarrow> io_error + Cpu" where
  "run_instructions build tracing [] c = Inr c"
| "run_instructions build tracing (i # is) c =
     rbind (tick_instruction build tracing i c) (run_instructions build tracing is)"

end
