(* ===== verification/Rv_Words.thy ===== *)
theory Rv_Words
  imports Rv_Instruction
begin

text \<open>
  Facts on machine words that the inline sequences rest on: sign extension by two shifts, shifts
  as products with powers of two, and the bit masks of the right shifts.
\<close>

lemma sign_extend_word: "signed_drop_bit 32 (push_bit 32 x) = as_i32_as_i64 x"
proof (rule bit_word_eqI)
  fix n
  assume "n < LENGTH(64)"
  then show "bit (signed_drop_bit 32 (push_bit 32 x)) n = bit (as_i32_as_i64 x) n"
    by (cases "n < 31"; cases "n = 31")
      (auto simp: as_i32_as_i64_def bit_signed_drop_bit_iff bit_push_bit_iff bit_signed_iff bit_unsigned_iff min_def)
qed

lemma ucast_32_mult: "(ucast (x * y :: i64) :: 32 word) = ucast x * ucast y"
proof -
  have "take_bit 32 (a * b) = take_bit 32 (take_bit 64 a * take_bit 64 b)" for a b :: int
    by (subst take_bit_mult [symmetric]) (simp add: take_bit_mult)
  then show ?thesis by transfer simp
qed

lemma ucast_32_add: "(ucast (x + y :: i64) :: 32 word) = ucast x + ucast y"
proof -
  have "take_bit 32 (a + b) = take_bit 32 (take_bit 64 a + take_bit 64 b)" for a b :: int
    by (subst take_bit_add [symmetric]) (simp add: take_bit_add)
  then show ?thesis by transfer simp
qed

lemma ucast_32_push: "(ucast (push_bit n x :: i64) :: 32 word) = push_bit n (ucast x)"
  by (rule bit_word_eqI) (auto simp: bit_push_bit_iff bit_unsigned_iff)

lemma mult_push_bit_1: "(x :: 'a::len word) * push_bit n 1 = push_bit n x"
  by (simp add: push_bit_eq_mult)

lemma and_mask_mod: "unat ((x :: i64) AND 0x3f) = unat x mod 64" "unat ((x :: i64) AND 0x1f) = unat x mod 32"
proof -
  have "x AND mask 6 = take_bit 6 x" "x AND mask 5 = take_bit 5 x" by (simp_all add: take_bit_eq_mask)
  moreover have "mask 6 = (0x3f :: i64)" "mask 5 = (0x1f :: i64)" by (simp_all add: mask_eq_exp_minus_1)
  ultimately have e: "x AND 0x3f = take_bit 6 x" "x AND 0x1f = take_bit 5 x" by simp_all
  show "unat (x AND 0x3f) = unat x mod 64" "unat (x AND 0x1f) = unat x mod 32"
    unfolding e by (simp_all add: take_bit_eq_mod unat_mod_distrib)
qed

lemma trailing_zeros_eq:
  assumes "k < 64" "bit v k" "\<And>i. i < k \<Longrightarrow> \<not> bit v i"
  shows "trailing_zeros v = k"
proof -
  have "[0..<64] = [0..<k] @ k # [Suc k..<64]"
    using assms(1) by (metis upt_conv_Cons upt_add_eq_append zero_le le_add_diff_inverse less_imp_le plus_nat.add_0)
  then show ?thesis
    using assms(2,3) unfolding trailing_zeros_def by (simp add: takeWhile_append)
qed

lemma bit_shift_bitmask:
  "len \<le> 64 \<Longrightarrow> s \<le> len \<Longrightarrow> bit (shift_bitmask len s) i \<longleftrightarrow> s \<le> i \<and> i < len"
proof -
  assume a: "len \<le> 64" "s \<le> len"
  have "push_bit (len - s) 1 - 1 = (mask (len - s) :: 128 word)"
    by (simp add: mask_eq_exp_minus_1 push_bit_eq_mult)
  then show ?thesis
    using a unfolding shift_bitmask_def
    by (auto simp: bit_unsigned_iff bit_push_bit_iff bit_mask_iff)
qed

lemma trailing_zeros_bitmask: "len \<le> 64 \<Longrightarrow> s < len \<Longrightarrow> trailing_zeros (shift_bitmask len s) = s"
  by (rule trailing_zeros_eq) (auto simp: bit_shift_bitmask)

subsection \<open>Signs and high halves\<close>

lemma sign_bit: "(x :: i64) AND 0x8000000000000000 = 0 \<longleftrightarrow> \<not> bit x 63"
  using bit_iff_and_push_bit_not_eq_0[of x 63] by simp

lemma sint_neg: "sint (x :: i64) < 0 \<longleftrightarrow> bit x 63"
  using bit_last_iff[of x] by simp

lemma sint_minus: "sint (x :: i64) = uint x - of_bool (bit x 63) * 0x10000000000000000"
proof -
  have "take_bit 64 (uint x) = uint x"
    using uint_lt2p[of x] by (intro take_bit_int_eq_self) simp_all
  then show ?thesis
    by (simp add: sint_uint signed_take_bit_eq_take_bit_minus bit_uint_iff)
qed

lemma high_word: "ucast (drop_bit 64 (word_of_int k :: 128 word)) = (word_of_int (drop_bit 64 k) :: i64)"
  by (rule bit_word_eqI) (auto simp: bit_unsigned_iff bit_drop_bit_eq bit_word_of_int_iff)

lemma high_word_signed: "(ucast (signed_drop_bit 64 (w :: 128 word)) :: i64) = ucast (drop_bit 64 w)"
  by (rule bit_word_eqI) (auto simp: bit_unsigned_iff bit_drop_bit_eq bit_signed_drop_bit_iff)

lemma ucast_prod: "(ucast x * ucast y :: 128 word) = word_of_int (uint (x :: i64) * uint (y :: i64))"
  by (simp only: ucast_eq of_int_mult)

lemma scast_prod: "(scast x * scast y :: 128 word) = word_of_int (sint (x :: i64) * sint (y :: i64))"
  by (simp only: scast_eq of_int_mult)

lemma scast_ucast_prod: "(scast x * ucast y :: 128 word) = word_of_int (sint (x :: i64) * uint (y :: i64))"
  by (simp only: scast_eq ucast_eq of_int_mult)

lemmas high_simps = high_word_signed ucast_prod scast_prod scast_ucast_prod high_word

lemma drop_64_add: "drop_bit 64 (k + 0x10000000000000000 * m) = drop_bit 64 k + (m :: int)"
  by (simp add: drop_bit_eq_div)

lemma mulh_word:
  "word_of_int (drop_bit 64 (uint x * uint y)) - of_bool (bit x 63) * y - of_bool (bit y 63) * x =
     (word_of_int (drop_bit 64 (sint x * sint y)) :: i64)"
proof -
  define a b :: int where "a = of_bool (bit x 63)" and "b = of_bool (bit y 63)"
  have "sint x * sint y = uint x * uint y + 0x10000000000000000 * (a * b * 0x10000000000000000 - a * uint y - b * uint x)"
    by (simp add: sint_minus a_def b_def algebra_simps)
  then have "drop_bit 64 (sint x * sint y) = drop_bit 64 (uint x * uint y) + (a * b * 0x10000000000000000 - a * uint y - b * uint x)"
    by (simp only: drop_64_add)
  moreover have "(of_int 0x10000000000000000 :: i64) = 0" by simp
  ultimately show ?thesis
    by (simp only: of_int_add of_int_diff of_int_mult word_of_int_uint mult_zero_right) (simp add: a_def b_def)
qed

lemma not_less_iff: "NOT (l :: i64) + 1 < NOT l \<longleftrightarrow> l = 0"
proof (cases "l = 0")
  case False
  then have "1 + NOT l \<noteq> 0" by (simp add: not_eq_complement)
  then have "unat (NOT l + 1) = Suc (unat (NOT l))"
    using unatSuc[of "NOT l"] by (simp add: add.commute)
  with False show ?thesis by (simp add: word_less_nat_alt)
qed (simp add: word_greater_zero_iff)

lemma mulhsu_word:
  fixes x y :: i64
  assumes "bit x 63"
  shows "NOT (word_of_int (drop_bit 64 (uint (- x) * uint y))) + of_bool (- x * y = 0) =
    (word_of_int (drop_bit 64 (sint x * uint y)) :: i64)"
proof -
  define p where "p = uint (- x) * uint y"
  have "x \<noteq> 0" using assms by auto
  then have "uint x \<noteq> 0" by (simp add: uint_0_iff)
  moreover have "uint x mod 0x10000000000000000 = uint x"
    using uint_lt2p[of x] by (intro mod_pos_pos_trivial) simp_all
  ultimately have "uint (- x) = - sint x"
    using assms by (simp add: sint_minus uint_word_ariths zmod_zminus1_eq_if)
  then have prod: "sint x * uint y = - p" by (simp add: p_def)
  have "- x * y = word_of_int p" by (simp add: p_def)
  then have zero: "- x * y = 0 \<longleftrightarrow> p mod 0x10000000000000000 = 0"
    by (simp add: word_of_int_eq_0_iff dvd_eq_mod_eq_0)
  have "drop_bit 64 (- p) = - drop_bit 64 p - 1 + of_bool (p mod 0x10000000000000000 = 0)"
    by (simp add: drop_bit_eq_div zdiv_zminus1_eq_if)
  with zero show ?thesis
    unfolding prod p_def[symmetric] by (simp add: not_eq_complement)
qed

subsection \<open>Word shifts\<close>

lemma unat_or_32: "unat ((x :: i64) OR 32) mod 64 = unat x mod 32 + 32"
proof -
  have bit_32: "bit (32 :: nat) m \<longleftrightarrow> m = 5" for m
    using bit_exp_iff[of 5 m, where 'a = nat] by simp
  have "take_bit 6 (n OR 32) = take_bit 5 n + (32 :: nat)" for n
  proof -
    have "take_bit 6 (n OR 32) = take_bit 5 n OR (32 :: nat)"
      by (intro bit_eqI) (auto simp: bit_take_bit_iff bit_or_iff bit_32)
    also have "\<dots> = take_bit 5 n + 32"
      by (rule disjunctive_add[symmetric]) (auto simp: bit_take_bit_iff bit_32)
    finally show ?thesis .
  qed
  from this[of "unat x"] show ?thesis
    by (simp add: unsigned_or_eq take_bit_eq_mod)
qed

lemma srlw_word:
  assumes "s < 32"
  shows "as_i32_as_i64 (drop_bit (s + 32) (push_bit 32 x)) = scast (drop_bit s (ucast x :: 32 word))"
proof -
  have "(ucast (drop_bit (s + 32) (push_bit 32 x)) :: 32 word) = drop_bit s (ucast x)"
    by (rule bit_word_eqI) (auto simp: bit_unsigned_iff bit_drop_bit_eq bit_push_bit_iff algebra_simps)
  then show ?thesis by (simp add: as_i32_as_i64_def)
qed

lemma sraw_word:
  assumes "s < 32"
  shows "as_i32_as_i64 (signed_drop_bit s (as_i32_as_i64 x)) = scast (signed_drop_bit s (ucast x :: 32 word))"
proof -
  have "(ucast (signed_drop_bit s (as_i32_as_i64 x)) :: 32 word) = signed_drop_bit s (ucast x)"
  proof (rule bit_word_eqI)
    fix n
    assume "n < LENGTH(32)"
    then show "bit (ucast (signed_drop_bit s (as_i32_as_i64 x)) :: 32 word) n = bit (signed_drop_bit s (ucast x :: 32 word)) n"
      using assms
      by (cases "s + n < 31"; cases "s + n = 31")
        (auto simp: as_i32_as_i64_def bit_unsigned_iff bit_signed_drop_bit_iff bit_signed_iff min_def)
  qed
  then show ?thesis by (simp add: as_i32_as_i64_def)
qed

end
