(* ===== verification/Spec2Isabelle.thy ===== *)
theory Spec2Isabelle
  imports Setup Rep3_Compare Preproc_Casts Rv_Words
begin

text \<open>
  \<^bold>\<open>Verification of the multi-party computation core of ProviaVM.\<close>

  The repository runs a zero-knowledge virtual machine prover among three parties that hold
  replicated secret shares.  The crate \<open>src/mpc-core\<close> implements the sharing schemes and the
  protocols on shares; everything else (the prover in \<open>src/provia-worker\<close>, the
  coordinator, the virtual machine in \<open>src/jolt\<close>) calls it.  This development models the
  protocols of \<open>mpc-core\<close> together with the message passing they run on, and proves that
  they compute what they should on the shared values, under every interleaving of the three
  parties.

  \<^bold>\<open>Theories and sources.\<close>

  \<^item> \<open>Prelude\<close>: error values, the locale \<open>diamond\<close> (all complete runs of a relation with the
    diamond property agree), bit and list facts.
  \<^item> \<open>Traits\<close>: the interfaces of code outside the repository (serialiser, random generator,
    prime field) as dictionaries with their documented laws; \<open>Example_Env\<close> instantiates them
    with the field of five elements, so that the hypotheses of the theorems are met.
  \<^item> \<open>Party\<close> (\<open>mpc-net/src/id.rs\<close>), \<open>Session\<close> (behaviours of a party, the
    interleaving relation \<open>net_step\<close> over FIFO channels, schedule independence),
    \<open>Rngs\<close> (\<open>rep3/rngs.rs\<close>), \<open>Network\<close> (\<open>network.rs\<close>: \<open>Rep3Network\<close>, \<open>IoContext\<close>),
    \<open>Setup\<close> (\<open>IoContext::init\<close> and \<open>fork\<close>).
  \<^item> \<open>Protocol_Logic\<close>: \<open>correlated\<close>, the relation between the parties' contexts;
    \<open>mpc P Q\<close>, total correctness of a three-party program from correlated contexts;
    \<open>mpc_or\<close> and \<open>mpc_fails\<close> for programs that may give up; one rule per construct.
  \<^item> \<open>Sharing\<close>: replicated sharings over any commutative group with a product, the locale
    \<open>share_ring\<close>, interpreted at sums (\<open>arith\<close>) and at exclusive ors (\<open>bits\<close>).
  \<^item> \<open>Rep3_Types\<close>, \<open>Rep3_Arithmetic\<close>, \<open>Rep3_Binary\<close>, \<open>Kogge_Stone\<close>, \<open>Rep3_Detail\<close>,
    \<open>Rep3_Conversion\<close>, \<open>Rep3_Compare\<close>: the protocols over the prime field
    (\<open>protocols/rep3.rs\<close> and \<open>protocols/rep3/*.rs\<close>).
  \<^item> \<open>Reduction\<close>: the tree reduction loop of \<open>or_tree\<close>, generic in the operation.
  \<^item> \<open>Ring_Types\<close>, \<open>Ring_Arithmetic\<close>, \<open>Ring_Binary\<close>, \<open>Ring_Detail\<close>, \<open>Ring_Conversion\<close>,
    \<open>Ring_Compare\<close>: the protocols over the rings of integers modulo a power of two
    (\<open>protocols/rep3_ring.rs\<close> and \<open>protocols/rep3_ring/*.rs\<close>).
  \<^item> \<open>Backing_Store\<close> (\<open>preprocessing/backing_store.rs\<close>: stores in memory and in a file, the header
    file; locale \<open>element_store\<close>, the contract the pools use), \<open>Pool_Common\<close> (regeneration of a
    stream from a snapshot, saving and loading), \<open>Dabits\<close> (\<open>preprocessing/dabits.rs\<close>),
    \<open>Edabits_Ring\<close> (\<open>LazyEdaBitsRing\<close> of \<open>preprocessing/edabits.rs\<close>) and \<open>Preproc_Conversion\<close> (the
    conversions with preprocessed material of \<open>rep3_ring/conversion.rs\<close>, and the composition of
    pool and conversion).
  \<^item> \<open>Store_Views\<close> (read views and writers of a backing store), \<open>Edabits\<close> (\<open>LazyEdaBits\<close> of
    \<open>preprocessing/edabits.rs\<close>: batches, reserved ranges, the cache of parties 0 and 1 on disk,
    saving, loading, extension, generation), \<open>Edabits_Pool\<close> (the invariant \<open>pool_ok\<close>, and that every
    operation keeps it and reads the right tuples), \<open>Edabits_Runs\<close> (the step relation \<open>pool_step\<close> and
    its runs).
  \<^item> \<open>Casts\<close>, \<open>Preproc_Casts\<close> (\<open>rep3_ring/casts.rs\<close>): casts between rings and field, through the
    binary domain and with edaBits.

  \<^bold>\<open>How code becomes definitions.\<close>  A Rust function that takes the context \<open>io_context\<close> is a
  \<open>prog\<close>: a function from the party's \<open>IoContext\<close> to its behaviour, a tree of sends and
  receives ending in a result or an \<open>io_error\<close> and the new context.  All three parties run
  the same function, and take different branches on \<open>io_context.id\<close>.  \<open>qbind\<close> is the
  operator \<open>?\<close>; loops over collections are \<open>qmap\<close> and \<open>qfold\<close>; loops with a counter are
  recursive functions with a termination proof.  A panic is the error \<open>Panic\<close>.  Field elements
  are elements of a commutative ring with the dictionary \<open>field_ops\<close>, \<open>BigUint\<close> is \<open>nat\<close>,
  ring elements are words.  Logging and the parallel iterators of \<open>rayon\<close> do not appear; the
  latter are the sequential loops.  A file system is a map from paths to byte lists, passed and returned;
  counters of type \<open>usize\<close> are natural numbers, and words where they are written to a file or where a
  subtraction may wrap around (\<open>usize_sub\<close>).  \<open>debug_assert!\<close> is not modelled (release build).

  \<^bold>\<open>What the theorems show.\<close>  Set-up brings the contexts into the relation \<open>correlated\<close>, and every
  protocol keeps it; every protocol terminates under every schedule, leaves no message
  behind, and its results are a sharing of the intended function of the shared inputs.  The
  circuits are related to plain arithmetic through the network \<open>ks_adder\<close> on values.  Dealing
  and reconstruction are inverse to each other, and so are serialisation and parsing.  A backing
  store refines a list; a pool that was generated by the three parties yields valid tuples from
  every batch, also after it was saved and loaded, and the conversions that use them are correct.
  Any sequence of operations on an edaBit pool over the field hands out the tuples of the stream one
  after the other, wherever they come from.

  \<^bold>\<open>Bounds and fuel.\<close>  No protocol definition has fuel.  \<open>run_session\<close>, an executable
  schedule used inside proofs about fixed message patterns, takes the number of rounds of the
  pattern; whatever it returns is a complete session (\<open>run_session_joint\<close>).

  \<^bold>\<open>Not modelled.\<close>  The transport (\<open>mpc-net\<close>: QUIC, threads), privacy of the protocols, elliptic
  curve shares, the sizing and scheduling of the preprocessing pools, the prover, the coordinator and the virtual machine.
\<close>

section \<open>A complete session\<close>

text \<open>
  What a client of the library does: initialise the context, multiply two shared values, open
  the product.
\<close>

definition mul_session ::
  "('f::comm_ring_1, 'r, 's, 'w) env \<Rightarrow> ('s, 'w) codec \<Rightarrow> ('s \<times> 's, 'w) codec \<Rightarrow>
   'f share \<Rightarrow> 'f share \<Rightarrow> PartyID \<Rightarrow> 'r \<Rightarrow> ('w, io_error + 'f) proto" where
  "mul_session E cs cp x y i r =
     pbind (init_ctx (rngop E) cs cp i r) (\<lambda>(res, _).
       case res of
         Inl e \<Rightarrow> Done (Inl e)
       | Inr (ctx, _) \<Rightarrow> pbind (qbind (rep3_mul E x y) (rep3_open E) ctx) (\<lambda>(v, _). Done v))"

lemma mul_session_joint:
  assumes "lawful_codec cs" "lawful_codec cp" "lawful_net E" "ashare x u" "ashare y v"
  shows "joint (\<lambda>i. mul_session E cs cp (x i) (y i) i (r i)) (\<lambda>i. Inr (u * v))"
proof -
  from init_ctx_session[OF assms(1,2), of "rngop E" r] obtain C S r' where
    init: "joint (\<lambda>i. init_ctx (rngop E) cs cp i (r i)) (\<lambda>i. (Inr (C i, S i), r' i))" and C: "correlated C"
    by blast
  have "mpc (\<lambda>i. qbind (rep3_mul E (x i) (y i)) (rep3_open E)) (\<lambda>z. z = (\<lambda>i. u * v))"
    by (rule mpc_bind, rule mpc_rep3_mul[OF assms(3-5)], rule mpc_rep3_open[OF assms(3)], assumption, rule refl)
  from mpcE[OF this C] obtain C' where
    "joint (\<lambda>i. qbind (rep3_mul E (x i) (y i)) (rep3_open E) (C i)) (\<lambda>i. (Inr (u * v), C' i))"
    unfolding runs_def by auto
  from joint_pbind[OF this, of "\<lambda>i (v, _). Done v"]
  have "joint (\<lambda>i. pbind (qbind (rep3_mul E (x i) (y i)) (rep3_open E) (C i)) (\<lambda>(v, _). Done v)) (\<lambda>i. Inr (u * v))"
    by (simp add: joint_Done)
  with joint_pbind[OF init, of "\<lambda>i (res, _). case res of Inl e \<Rightarrow> Done (Inl e)
      | Inr (ctx, _) \<Rightarrow> pbind (qbind (rep3_mul E (x i) (y i)) (rep3_open E) ctx) (\<lambda>(v, _). Done v)"]
  show ?thesis unfolding mul_session_def by simp
qed

text \<open>
  (C1) End to end: a dealer shares two field elements, the three parties initialise their
  contexts, multiply the shares and open the result.  Under every schedule of the network the
  run is bounded, never gets stuck, and ends with the product at all three parties and no
  message left over.
\<close>

theorem dealt_product_is_opened:
  fixes E :: "('f::comm_ring_1, 'r, 's, 'w) env"
  assumes "lawful_codec cs" "lawful_codec cp" "lawful_net E"
  shows "\<exists>n. \<forall>k d. (net_step ^^ k)
      (\<lambda>i. mul_session E cs cp (triple (fst (share_field_element F u q)) i)
             (triple (fst (share_field_element F v q')) i) i (r i), no_msgs) d \<longrightarrow>
      k \<le> n \<and> (net_step ^^ (n - k)) d (\<lambda>i. Done (Inr (u * v)), no_msgs)"
  by (rule joint_deterministic, rule mul_session_joint[OF assms])
    (rule share_field_element_shared)+

theorem dealt_product_is_opened_witness:
  "\<exists>n. \<forall>k d. (net_step ^^ k)
      (\<lambda>i. mul_session ex_env ex_seeds ex_seed_pairs (triple (fst (share_field_element ex_field 3 7)) i)
             (triple (fst (share_field_element ex_field 4 9)) i) i (party_index i), no_msgs) d \<longrightarrow>
      k \<le> n \<and> (net_step ^^ (n - k)) d (\<lambda>i. Done (Inr (2 :: 5)), no_msgs)"
  using dealt_product_is_opened[OF ex_seed_codecs ex_env_lawful(1), where u = 3 and v = 4] by (simp add: five_numerals)

end
